(* ===== verification/Fusion_Prelude.thy ===== *)
theory Fusion_Prelude
  imports Main "HOL-Library.Word"
begin

text \<open>
  The prelude of the development: the machine types of the C++ sources, the faults a run of the
  code can end in, the error codes of \<^verbatim>\<open>Error.h\<close>, and the generic lemmas on lists and words
  that the component theories share.

  Two kinds of failure are kept apart. A \<open>fault\<close> is the end of the program or undefined
  behaviour: an assertion of \<^verbatim>\<open>Assert.h\<close> that does not hold (the theories model the build in
  which \<^verbatim>\<open>FUSION_ASSERTIONS_ENABLED\<close> is 1), a read or write outside the memory the
  operation was given or through a null pointer, a signed overflow, a violated precondition of a function of
  the standard library, or an exception of the standard library. A \<open>failure\<close> is the value
  \<^verbatim>\<open>Failure(E_...)\<close> that an operation returns through \<^verbatim>\<open>Result<T>\<close>.
\<close>

unbundle bit_operations_syntax

section \<open>Types\<close>

type_synonym byte = "8 word"
type_synonym u16 = "16 word"
type_synonym u32 = "32 word"
type_synonym u64 = "64 word"

datatype fault = Assert_Failed | Out_Of_Bounds | Std_Out_Of_Range | Std_Bad_Variant_Access
  | Signed_Overflow | Null_Dereference | Std_Precondition | Std_Future_Error | Std_Bad_Function_Call

datatype error_code =
    E_FAILURE | E_SUCCESS | E_ACCESS_DENIED | E_DISK_FULL | E_EXISTS | E_INVALID_ARGUMENT
  | E_NOT_FOUND | E_INSUFFICIENT_RESOURCES | E_INTERRUPTED | E_RESOURCE_NOT_AVAILABLE
  | E_NOT_INITIALIZED | E_NOT_IMPLEMENTED | E_NOT_SUPPORTED | E_CANCELLED
  | E_NET_INPROGRESS | E_NET_AGAIN | E_NET_WOULD_BLOCK | E_NET_NETWORK_DOWN | E_NET_CONN_ABORTED
  | E_NET_CONN_REFUSED | E_NET_CONN_RESET | E_NET_CONNECTED | E_NET_DISCONNECTED | E_NET_TIMEOUT
  | E_NET_UNSUPPORTED | E_NET_SIZE_EXCEEDED

type_synonym 'a exec = "fault + 'a"
type_synonym 'a result = "error_code + 'a"

text \<open>Sequencing of computations that can end in a fault.\<close>

fun and_then :: "'e + 'a \<Rightarrow> ('a \<Rightarrow> 'e + 'b) \<Rightarrow> 'e + 'b" where
  "and_then (Inl e) f = Inl e"
| "and_then (Inr x) f = f x"

definition fusion_assert :: "bool \<Rightarrow> unit exec" where
  "fusion_assert b = (if b then Inr () else Inl Assert_Failed)"

lemma and_then_Inr_iff: "and_then m f = Inr y \<longleftrightarrow> (\<exists>x. m = Inr x \<and> f x = Inr y)"
  by (cases m) auto

lemma and_then_Inl_iff: "and_then m f = Inl e \<longleftrightarrow> m = Inl e \<or> (\<exists>x. m = Inr x \<and> f x = Inl e)"
  by (cases m) auto

lemma fusion_assert_Inr_iff [simp]: "fusion_assert b = Inr u \<longleftrightarrow> b"
  by (simp add: fusion_assert_def)

lemma fusion_assert_True [simp]: "fusion_assert True = Inr ()"
  by (simp add: fusion_assert_def)

lemma fusion_assert_False [simp]: "fusion_assert False = Inl Assert_Failed"
  by (simp add: fusion_assert_def)

lemma and_then_assoc: "and_then (and_then m f) g = and_then m (\<lambda>x. and_then (f x) g)"
  by (cases m) auto

named_theorems exec_iff
declare and_then_Inr_iff [exec_iff]
declare and_then_Inl_iff [exec_iff]

section \<open>Text\<close>

text \<open>
  A C++ \<^verbatim>\<open>char\<close> or \<^verbatim>\<open>uint8_t\<close> is a byte and a string is a list of bytes; \<open>lit\<close> reads a string
  literal of the sources.
\<close>

definition lit :: "string \<Rightarrow> byte list" where
  "lit s = map of_char s"

lemma length_lit [simp]: "length (lit s) = length s"
  by (simp add: lit_def)

section \<open>Regions of memory\<close>

text \<open>
  \<open>slice\<close> reads and \<open>blit\<close> overwrites a region of a list; \<open>memcpy\<close> is \<open>blit\<close> with the
  bounds the C function leaves to its caller.
\<close>

definition slice :: "nat \<Rightarrow> nat \<Rightarrow> 'a list \<Rightarrow> 'a list" where
  "slice off n xs = take n (drop off xs)"

definition blit :: "'a list \<Rightarrow> nat \<Rightarrow> 'a list \<Rightarrow> 'a list" where
  "blit dst off src = take off dst @ src @ drop (off + length src) dst"

definition memcpy :: "'a list \<Rightarrow> nat \<Rightarrow> 'a list \<Rightarrow> 'a list exec" where
  "memcpy dst off src =
     (if off + length src \<le> length dst then Inr (blit dst off src) else Inl Out_Of_Bounds)"

lemma length_blit [simp]:
  "off + length src \<le> length dst \<Longrightarrow> length (blit dst off src) = length dst"
  by (simp add: blit_def)

lemma length_slice [simp]: "length (slice off n xs) = min n (length xs - off)"
  by (simp add: slice_def min.commute)

lemma slice_blit_same [simp]:
  "off + length src \<le> length dst \<Longrightarrow> n = length src \<Longrightarrow> slice off n (blit dst off src) = src"
  by (simp add: slice_def blit_def)

lemma nth_blit:
  assumes "off + length src \<le> length dst" and "i < length dst"
  shows "blit dst off src ! i =
    (if off \<le> i \<and> i < off + length src then src ! (i - off) else dst ! i)"
  using assms by (auto simp: blit_def nth_append min_def)

lemma nth_slice: "i < n \<Longrightarrow> off + i < length xs \<Longrightarrow> slice off n xs ! i = xs ! (off + i)"
  by (simp add: slice_def)

lemma slice_append:
  "slice off m xs @ slice (off + m) n xs = slice off (m + n) xs"
  by (simp add: slice_def take_add add.commute)

lemma slice_Suc:
  "off < length xs \<Longrightarrow> slice off (Suc n) xs = xs ! off # slice (Suc off) n xs"
  by (simp add: slice_def Cons_nth_drop_Suc [symmetric])

lemma slice_0 [simp]: "slice off 0 xs = []"
  by (simp add: slice_def)

lemma blit_disjoint_slice:
  assumes "off + length src \<le> length dst" and "o' + n \<le> off \<or> off + length src \<le> o'"
    and "o' + n \<le> length dst"
  shows "slice o' n (blit dst off src) = slice o' n dst"
  using assms by (intro nth_equalityI) (auto simp: nth_slice nth_blit)

section \<open>Words as sequences of bytes\<close>

definition le_bytes :: "nat \<Rightarrow> 'a::len word \<Rightarrow> byte list" where
  "le_bytes n w = map (\<lambda>i. ucast (drop_bit (8 * i) w)) [0..<n]"

definition be_bytes :: "nat \<Rightarrow> 'a::len word \<Rightarrow> byte list" where
  "be_bytes n w = rev (le_bytes n w)"

primrec le_word :: "byte list \<Rightarrow> 'a::len word" where
  "le_word [] = 0"
| "le_word (b # bs) = ucast b + push_bit 8 (le_word bs)"

definition be_word :: "byte list \<Rightarrow> 'a::len word" where
  "be_word bs = le_word (rev bs)"

lemma length_le_bytes [simp]: "length (le_bytes n w) = n"
  by (simp add: le_bytes_def)

lemma length_be_bytes [simp]: "length (be_bytes n w) = n"
  by (simp add: be_bytes_def)

lemma ucast_add_push_bit:
  "(ucast (b :: byte) :: 'a::len word) + push_bit 8 w = ucast b OR push_bit 8 w"
proof (rule disjunctive_add)
  fix n
  show "\<not> bit (ucast b :: 'a word) n \<or> \<not> bit (push_bit 8 w) n"
    by (cases "n < 8") (auto simp: bit_simps dest: bit_imp_le_length)
qed

lemma bit_le_word:
  "bit (le_word bs :: 'a::len word) n \<longleftrightarrow>
     n < LENGTH('a) \<and> n div 8 < length bs \<and> bit (bs ! (n div 8)) (n mod 8)"
proof (induction bs arbitrary: n)
  case Nil
  then show ?case by simp
next
  case (Cons b bs)
  show ?case
  proof (cases "n < 8")
    case True
    then show ?thesis
      by (auto simp: ucast_add_push_bit bit_simps dest: bit_imp_le_length)
  next
    case False
    then obtain m where m: "n = 8 + m"
      by (metis le_add_diff_inverse not_less)
    then have "\<not> bit b n" by (auto dest: bit_imp_le_length)
    moreover have "(8 + m) div 8 = Suc (m div 8)" by simp
    ultimately show ?thesis
      using Cons.IH [of m] by (auto simp: m ucast_add_push_bit bit_simps)
  qed
qed

lemma nth_le_bytes: "i < n \<Longrightarrow> le_bytes n w ! i = ucast (drop_bit (8 * i) w)"
  by (simp add: le_bytes_def)

lemma le_word_le_bytes:
  assumes "LENGTH('a) = 8 * n"
  shows "le_word (le_bytes n w) = (w :: 'a::len word)"
proof (rule bit_word_eqI)
  fix k assume "k < LENGTH('a)"
  with assms have "k div 8 < n" by auto
  with \<open>k < LENGTH('a)\<close> show "bit (le_word (le_bytes n w) :: 'a word) k = bit w k"
    by (simp add: bit_le_word nth_le_bytes bit_simps)
qed

lemma le_bytes_le_word:
  assumes "8 * length bs = LENGTH('a)"
  shows "le_bytes (length bs) (le_word bs :: 'a::len word) = bs"
proof (rule nth_equalityI)
  fix i assume "i < length (le_bytes (length bs) (le_word bs :: 'a word))"
  then have i: "i < length bs" by simp
  show "le_bytes (length bs) (le_word bs :: 'a word) ! i = bs ! i"
  proof (rule bit_word_eqI)
    fix k assume "k < LENGTH(8)"
    then have k: "k < 8" by simp
    have "8 * i + k < LENGTH('a)" using i k assms by linarith
    with i k show "bit (le_bytes (length bs) (le_word bs :: 'a word) ! i) k = bit (bs ! i) k"
      by (simp add: nth_le_bytes bit_le_word bit_simps)
  qed
qed simp

lemma be_word_be_bytes:
  "LENGTH('a) = 8 * n \<Longrightarrow> be_word (be_bytes n w) = (w :: 'a::len word)"
  by (simp add: be_word_def be_bytes_def le_word_le_bytes)

lemma be_bytes_be_word:
  assumes "8 * length bs = LENGTH('a)"
  shows "be_bytes (length bs) (be_word bs :: 'a::len word) = bs"
proof -
  have "le_bytes (length (rev bs)) (le_word (rev bs) :: 'a word) = rev bs"
    by (rule le_bytes_le_word) (simp add: assms)
  then show ?thesis by (simp add: be_bytes_def be_word_def)
qed

lemma upt_numeral_rec: "[0..<numeral k] = [0..<pred_numeral k] @ [pred_numeral k]"
  by (simp add: numeral_eq_Suc)

text \<open>Statements about one byte become linear arithmetic over its value.\<close>

lemma unat_byte_less [simp]: "unat (c :: byte) < 256"
  using unsigned_less [of c] by simp

lemmas byte_arith =
  word_le_nat_alt word_less_nat_alt word_unat_eq_iff unat_word_ariths unat_sub_if'

lemmas byte_seq_simps = le_bytes_def be_bytes_def be_word_def push_bit_add

end
