(* ===== verification/Ascii.thy ===== *)
theory Ascii
  imports Fusion_Prelude
begin

text \<open>
  The character classes and hexadecimal conversions of \<^verbatim>\<open>Ascii.h\<close> and \<^verbatim>\<open>Ascii.cpp\<close>. A buffer
  argument is the memory behind the pointer (\<open>None\<close> for \<^verbatim>\<open>nullptr\<close>); the memory may be longer
  or shorter than the size the caller passes, and an access outside it is \<open>Out_Of_Bounds\<close>.
\<close>

section \<open>Character classes\<close>

definition IsUpper :: "byte \<Rightarrow> bool" where
  "IsUpper c \<longleftrightarrow> c \<ge> 65 \<and> c \<le> 90"

definition IsLower :: "byte \<Rightarrow> bool" where
  "IsLower c \<longleftrightarrow> c \<ge> 97 \<and> c \<le> 122"

definition IsAlpha :: "byte \<Rightarrow> bool" where
  "IsAlpha c \<longleftrightarrow> IsUpper c \<or> IsLower c"

definition IsDigit :: "byte \<Rightarrow> bool" where
  "IsDigit c \<longleftrightarrow> c \<ge> 48 \<and> c \<le> 57"

definition IsAlphaNum :: "byte \<Rightarrow> bool" where
  "IsAlphaNum c \<longleftrightarrow> IsDigit c \<or> IsAlpha c"

definition IsHex :: "byte \<Rightarrow> bool" where
  "IsHex c \<longleftrightarrow> (c \<ge> 97 \<and> c \<le> 102) \<or> (c \<ge> 65 \<and> c \<le> 70) \<or> (c \<ge> 48 \<and> c \<le> 57)"

definition IsSpace :: "byte \<Rightarrow> bool" where
  "IsSpace c \<longleftrightarrow> c = 32 \<or> c = 9 \<or> c = 10 \<or> c = 13 \<or> c = 11 \<or> c = 12"

definition ToLower :: "byte \<Rightarrow> byte" where
  "ToLower c = (if IsUpper c then c - (65 - 97) else c)"

definition ToUpper :: "byte \<Rightarrow> byte" where
  "ToUpper c = (if IsLower c then c + (65 - 97) else c)"

definition FromDigit :: "byte \<Rightarrow> byte" where
  "FromDigit v = (if v \<le> 9 then v + 48 else 0)"

definition ToDigit :: "byte \<Rightarrow> byte" where
  "ToDigit c = (if IsDigit c then c - 48 else 0)"

definition FromHexChar :: "byte \<Rightarrow> byte" where
  "FromHexChar b =
     (if IsHex b then
        (if IsDigit b then b - 48
         else if IsLower b \<or> IsUpper b then 10 + ToLower b - 97
         else 0)
      else 0)"

definition ToNibble :: "byte \<Rightarrow> byte" where
  "ToNibble c =
     (if IsHex c then
        (if IsDigit c then c - 48
         else if IsLower c \<or> IsUpper c then ToLower c - 97 + 10
         else 0)
      else 0)"

definition ToHexByte :: "byte \<Rightarrow> byte \<Rightarrow> byte" where
  "ToHexByte high low = push_bit 4 high OR low"

section \<open>Conversions\<close>

definition HEX_CHARACTERS :: "byte list" where
  "HEX_CHARACTERS =
     [48, 49, 50, 51, 52, 53, 54, 55, 56, 57, 97, 98, 99, 100, 101, 102]"

text \<open>The loop of \<^verbatim>\<open>FromHexString\<close>: two characters of the string give byte \<open>i\<close> of the output.\<close>

fun from_hex_loop :: "byte list \<Rightarrow> nat \<Rightarrow> byte list \<Rightarrow> byte list exec" where
  "from_hex_loop (h # l # rest) i mem =
     (if i < length mem
      then from_hex_loop rest (Suc i) (mem[i := ToHexByte (ToNibble h) (ToNibble l)])
      else Inl Out_Of_Bounds)"
| "from_hex_loop _ i mem = Inr mem"

definition FromHexString ::
  "byte list \<Rightarrow> byte list option \<Rightarrow> nat \<Rightarrow> (byte list option \<times> byte list) exec" where
  "FromHexString str buffer sz =
     (case buffer of
        None \<Rightarrow> Inr (None, [])
      | Some mem \<Rightarrow>
          if length str = 0 \<or> length str mod 2 \<noteq> 0 \<or> sz = 0 then Inr (Some mem, [])
          else and_then (from_hex_loop str 0 mem)
                 (\<lambda>mem'. Inr (Some mem', take (length str div 2) mem')))"

text \<open>
  The digit loop of \<^verbatim>\<open>ToHexString(uint64_t, ...)\<close> and \<^verbatim>\<open>ToOctalString\<close>: digits are written from
  the least significant one on, between the pointers \<open>start\<close> and \<open>end\<close>.
\<close>

function number_loop ::
  "u64 \<Rightarrow> u64 \<Rightarrow> nat \<Rightarrow> nat \<Rightarrow> byte list \<Rightarrow> (nat \<times> byte list) exec" where
  "number_loop base value start end mem =
     (if 0 < value \<and> start < end then
        (if start < length mem
         then number_loop base (value div base) (Suc start) end
                (mem[start := HEX_CHARACTERS ! unat (value mod base)])
         else Inl Out_Of_Bounds)
      else Inr (start, mem))"
  by pat_completeness auto
termination
  by (relation "measure (\<lambda>(base, value, start, end, mem). end - start)") auto

declare number_loop.simps [simp del]

definition reverse_prefix :: "nat \<Rightarrow> byte list \<Rightarrow> byte list" where
  "reverse_prefix n mem = rev (take n mem) @ drop n mem"

text \<open>\<^verbatim>\<open>buffer[length] = 0; return { buffer, length };\<close>\<close>

definition terminate_view :: "byte list \<Rightarrow> nat \<Rightarrow> (byte list option \<times> byte list) exec" where
  "terminate_view mem len =
     (if len < length mem then Inr (Some (mem[len := 0]), take len mem) else Inl Out_Of_Bounds)"

definition number_to_string ::
  "u64 \<Rightarrow> u64 \<Rightarrow> byte list option \<Rightarrow> nat \<Rightarrow> (byte list option \<times> byte list) exec" where
  "number_to_string base value buffer len =
     (case buffer of
        None \<Rightarrow> Inr (None, [])
      | Some mem \<Rightarrow>
          if len = 0 then Inr (Some mem, [])
          else if value = 0 then
            (if 0 < length mem then terminate_view (mem[0 := 48]) 1 else Inl Out_Of_Bounds)
          else and_then (number_loop base value 0 (len - 1) mem)
                 (\<lambda>(start, mem'). terminate_view (reverse_prefix start mem') start))"

definition ToHexString_u64 ::
  "u64 \<Rightarrow> byte list option \<Rightarrow> nat \<Rightarrow> (byte list option \<times> byte list) exec" where
  "ToHexString_u64 value buffer len = number_to_string 16 value buffer len"

definition ToOctalString ::
  "u64 \<Rightarrow> byte list option \<Rightarrow> nat \<Rightarrow> (byte list option \<times> byte list) exec" where
  "ToOctalString value buffer len = number_to_string 8 value buffer len"

definition hex_high :: "byte \<Rightarrow> byte" where
  "hex_high b = HEX_CHARACTERS ! unat (drop_bit 4 b AND 15)"

definition hex_low :: "byte \<Rightarrow> byte" where
  "hex_low b = HEX_CHARACTERS ! unat (b AND 15)"

function hex_bytes_loop ::
  "byte list \<Rightarrow> nat \<Rightarrow> nat \<Rightarrow> byte list \<Rightarrow> (nat \<times> byte list) exec" where
  "hex_bytes_loop input i len mem =
     (if i + 2 \<le> len then
        (case input of
           [] \<Rightarrow> Inl Out_Of_Bounds
         | b # rest \<Rightarrow>
             if i + 1 < length mem
             then hex_bytes_loop rest (i + 2) len (mem[i := hex_high b, i + 1 := hex_low b])
             else Inl Out_Of_Bounds)
      else Inr (i, mem))"
  by pat_completeness auto
termination
  by (relation "measure (\<lambda>(input, i, len, mem). len - i)") auto

declare hex_bytes_loop.simps [simp del]

definition ToHexString_buf ::
  "byte list \<Rightarrow> nat \<Rightarrow> byte list \<Rightarrow> nat \<Rightarrow> (byte list option \<times> byte list) exec" where
  "ToHexString_buf bytes sz mem len =
     (if sz = 0 \<or> len = 0 then Inr (Some mem, [])
      else and_then (hex_bytes_loop bytes 0 (min (len - 1) (sz * 2 + 1)) mem)
             (\<lambda>(i, mem'). terminate_view mem' i))"

text \<open>The loop of the allocating overload appends two characters for each of \<open>sz\<close> bytes.\<close>

fun hex_append_loop :: "nat \<Rightarrow> byte list \<Rightarrow> byte list \<Rightarrow> byte list exec" where
  "hex_append_loop 0 input s = Inr s"
| "hex_append_loop (Suc n) [] s = Inl Out_Of_Bounds"
| "hex_append_loop (Suc n) (b # rest) s = hex_append_loop n rest (s @ [hex_high b, hex_low b])"

definition ToHexString_str :: "byte list option \<Rightarrow> nat \<Rightarrow> byte list exec" where
  "ToHexString_str bytes sz =
     (case bytes of
        None \<Rightarrow> Inr []
      | Some input \<Rightarrow>
          if sz = 0 \<or> sz mod 2 \<noteq> 0 then Inr [] else hex_append_loop sz input [])"

section \<open>Lemmas\<close>

lemmas ascii_class_defs =
  IsUpper_def IsLower_def IsAlpha_def IsDigit_def IsAlphaNum_def IsHex_def IsSpace_def

lemma ToLower_idem [simp]: "ToLower (ToLower c) = ToLower c"
  using unat_byte_less [of c] by (auto simp: ToLower_def ToUpper_def ascii_class_defs byte_arith)

lemma ToLower_not_upper [simp]: "\<not> IsUpper (ToLower c)"
  using unat_byte_less [of c] by (auto simp: ToLower_def ToUpper_def ascii_class_defs byte_arith)

lemma ToLower_eq_0 [simp]: "ToLower c = 0 \<longleftrightarrow> c = 0"
  using unat_byte_less [of c] by (auto simp: ToLower_def ToUpper_def ascii_class_defs byte_arith)

lemma ToLower_ToUpper [simp]: "ToLower (ToUpper c) = ToLower c"
  using unat_byte_less [of c] by (auto simp: ToLower_def ToUpper_def ascii_class_defs byte_arith)

lemma ToUpper_ToLower [simp]: "ToUpper (ToLower c) = ToUpper c"
  using unat_byte_less [of c] by (auto simp: ToLower_def ToUpper_def ascii_class_defs byte_arith)

text \<open>Hexadecimal digits: the table and \<^verbatim>\<open>ToNibble\<close> are inverse to each other.\<close>

lemma length_HEX [simp]: "length HEX_CHARACTERS = 16"
  by (simp add: HEX_CHARACTERS_def)

lemma HEX_table:
  "list_all (\<lambda>n. ToNibble (HEX_CHARACTERS ! n) = of_nat n \<and> IsHex (HEX_CHARACTERS ! n)
     \<and> (HEX_CHARACTERS ! n = 48 \<longleftrightarrow> n = 0)) [0..<16]"
  by code_simp

lemma ToNibble_HEX: "n < 16 \<Longrightarrow> ToNibble (HEX_CHARACTERS ! n) = of_nat n"
  using HEX_table by (simp add: list_all_iff)

lemma IsHex_HEX: "n < 16 \<Longrightarrow> IsHex (HEX_CHARACTERS ! n)"
  using HEX_table by (simp add: list_all_iff)

lemma HEX_eq_0_char: "n < 16 \<Longrightarrow> HEX_CHARACTERS ! n = 48 \<longleftrightarrow> n = 0"
  using HEX_table by (simp add: list_all_iff)

lemma nibble_less_16 [simp]: "unat (b AND 15 :: byte) < 16"
proof -
  have "unat (b AND 15) \<le> unat (15 :: byte)"
    by (rule word_and_le1 [THEN word_le_nat_alt [THEN iffD1]])
  then show ?thesis by simp
qed

lemma ToNibble_hex_high [simp]: "ToNibble (hex_high b) = drop_bit 4 b AND 15"
  by (simp add: hex_high_def ToNibble_HEX)

lemma ToNibble_hex_low [simp]: "ToNibble (hex_low b) = b AND 15"
  by (simp add: hex_low_def ToNibble_HEX)

lemma IsHex_hex [simp]: "IsHex (hex_high b)" "IsHex (hex_low b)"
  by (simp_all add: hex_high_def hex_low_def IsHex_HEX)

lemma mask4_byte: "(15 :: byte) = mask 4"
  by (simp add: mask_eq_exp_minus_1)

lemma ToHexByte_nibbles [simp]: "ToHexByte (drop_bit 4 b AND 15) (b AND 15) = b"
  unfolding ToHexByte_def mask4_byte
  by (rule bit_word_eqI) (auto simp: bit_simps)

definition hex_text :: "byte list \<Rightarrow> byte list" where
  "hex_text bs = concat (map (\<lambda>b. [hex_high b, hex_low b]) bs)"

lemma hex_text_simps [simp]:
  "hex_text [] = []" "hex_text (b # bs) = hex_high b # hex_low b # hex_text bs"
  by (simp_all add: hex_text_def)

lemma hex_text_append: "hex_text (as @ bs) = hex_text as @ hex_text bs"
  by (simp add: hex_text_def)

lemma length_hex_text [simp]: "length (hex_text bs) = 2 * length bs"
  by (induction bs) auto

lemma hex_append_loop_eq:
  "n \<le> length input \<Longrightarrow> hex_append_loop n input s = Inr (s @ hex_text (take n input))"
  by (induction n input s rule: hex_append_loop.induct) auto

lemma blit_Cons:
  "i < length mem \<Longrightarrow> i + length bs < length mem \<Longrightarrow>
   blit (mem[i := b]) (Suc i) bs = blit mem i (b # bs)"
  by (simp add: blit_def take_Suc_conv_app_nth)

lemma blit_Nil [simp]: "blit mem i [] = mem"
  by (simp add: blit_def)

lemma from_hex_loop_hex_text:
  "i + length bs \<le> length mem \<Longrightarrow> from_hex_loop (hex_text bs) i mem = Inr (blit mem i bs)"
proof (induction bs arbitrary: i mem)
  case (Cons b bs)
  then show ?case by (simp add: blit_Cons)
qed simp

lemma from_hex_loop_overflow:
  "length mem < i + length bs \<Longrightarrow> i \<le> length mem \<Longrightarrow>
   from_hex_loop (hex_text bs) i mem = Inl Out_Of_Bounds"
  by (induction bs arbitrary: i mem) auto

text \<open>
  The value of a digit string, most significant digit first, and of the reversed string the loop
  writes.
\<close>

definition digits_value :: "nat \<Rightarrow> byte list \<Rightarrow> nat" where
  "digits_value base s = foldl (\<lambda>a c. a * base + unat (ToNibble c)) 0 s"

primrec le_value :: "nat \<Rightarrow> byte list \<Rightarrow> nat" where
  "le_value base [] = 0"
| "le_value base (c # cs) = unat (ToNibble c) + base * le_value base cs"

lemma digits_value_rev: "digits_value base (rev s) = le_value base s"
  by (induction s) (simp_all add: digits_value_def mult.commute)

lemma mod_power_Suc:
  fixes v :: nat
  shows "v mod base ^ Suc n = v mod base + base * (v div base mod base ^ n)"
  by (simp add: mod_mult2_eq mult.commute)

text \<open>The digits \<open>D\<close> that the loop writes between \<open>start\<close> and \<open>start + room\<close>.\<close>

definition loop_digits :: "nat \<Rightarrow> nat \<Rightarrow> nat \<Rightarrow> byte list \<Rightarrow> bool" where
  "loop_digits base v room D \<longleftrightarrow>
     length D \<le> room \<and> le_value base D = v mod base ^ room \<and> (\<forall>c \<in> set D. IsHex c)
     \<and> (v = 0 \<longrightarrow> D = []) \<and> (0 < v \<longrightarrow> v < base ^ room \<longrightarrow> D \<noteq> [] \<and> last D \<noteq> 48)"

lemma loop_digits_Cons:
  assumes "1 < base" "base \<le> 16" "0 < v" "loop_digits base (v div base) room D"
  shows "loop_digits base v (Suc room) (HEX_CHARACTERS ! (v mod base) # D)"
proof -
  have m: "v mod base < 16" using assms(1,2)
    by (meson less_le_trans mod_less_divisor less_trans zero_less_one)
  then have "unat (of_nat (v mod base) :: byte) = v mod base"
    by (simp add: unat_of_nat)
  moreover have "last (HEX_CHARACTERS ! (v mod base) # D) \<noteq> 48" if "v < base ^ Suc room"
  proof (cases "v div base = 0")
    case True
    then have "v mod base = v" "D = []"
      using assms(1,4) by (auto simp: div_eq_0_iff loop_digits_def)
    with assms(3) m show ?thesis by (simp add: HEX_eq_0_char)
  next
    case False
    have "v div base < base ^ room" using that assms(1)
      by (simp add: less_mult_imp_div_less mult.commute)
    with False assms(4) show ?thesis by (auto simp: loop_digits_def)
  qed
  ultimately show ?thesis
    using assms(3,4) m
    by (auto simp: loop_digits_def ToNibble_HEX IsHex_HEX mod_power_Suc simp del: power_Suc)
qed

lemma number_loop_spec:
  assumes "1 < unat base" "unat base \<le> 16"
  shows "start + room \<le> length mem \<Longrightarrow> \<exists>D. loop_digits (unat base) (unat v) room D \<and>
    number_loop base v start (start + room) mem = Inr (start + length D, blit mem start D)"
proof (induction room arbitrary: v start mem)
  case 0
  then show ?case by (intro exI [of _ "[]"]) (simp add: number_loop.simps loop_digits_def)
next
  case (Suc room)
  show ?case
  proof (cases "v = 0")
    case True
    then show ?thesis
      by (intro exI [of _ "[]"]) (simp add: number_loop.simps loop_digits_def)
  next
    case False
    let ?c = "HEX_CHARACTERS ! unat (v mod base)"
    from Suc.IH [of "Suc start" "mem[start := ?c]" "v div base"] Suc.prems
    obtain D where D: "loop_digits (unat base) (unat (v div base)) room D"
      and eq: "number_loop base (v div base) (Suc start) (Suc start + room) (mem[start := ?c]) =
        Inr (Suc start + length D, blit (mem[start := ?c]) (Suc start) D)"
      by auto
    have "loop_digits (unat base) (unat v) (Suc room) (?c # D)"
      using loop_digits_Cons [OF assms, of "unat v"] D False
      by (simp add: unat_div unat_mod unat_gt_0)
    moreover have "start + length D < length mem"
      using D Suc.prems by (simp add: loop_digits_def)
    ultimately show ?thesis
      using eq False Suc.prems
      by (intro exI [of _ "?c # D"])
        (simp add: number_loop.simps [of base v start] word_gt_0 blit_Cons)
  qed
qed

lemma number_to_string_spec:
  assumes "1 < unat base" "unat base \<le> 16" "1 < len" "len \<le> length mem"
  shows "\<exists>mem' s. number_to_string base v (Some mem) len = Inr (Some mem', s)
    \<and> length mem' = length mem \<and> length s < len \<and> take (length s) mem' = s \<and> mem' ! length s = 0
    \<and> digits_value (unat base) s = unat v mod unat base ^ (len - 1) \<and> (\<forall>c \<in> set s. IsHex c)
    \<and> (0 < unat v \<longrightarrow> unat v < unat base ^ (len - 1) \<longrightarrow> s \<noteq> [] \<and> hd s \<noteq> 48)"
proof (cases "v = 0")
  case True
  with assms show ?thesis
    by (auto simp: number_to_string_def terminate_view_def digits_value_def ToNibble_def
        ascii_class_defs take_Suc_conv_app_nth)
next
  case False
  have "0 + (len - 1) \<le> length mem" using assms(4) by simp
  from number_loop_spec [OF assms(1,2) this, of v]
  obtain D where D: "loop_digits (unat base) (unat v) (len - 1) D"
    and eq: "number_loop base v 0 (len - 1) mem = Inr (length D, blit mem 0 D)" by auto
  have len: "length D < len" using D assms(3) by (auto simp: loop_digits_def)
  have rp: "reverse_prefix (length D) (blit mem 0 D) = blit mem 0 (rev D)"
    by (simp add: reverse_prefix_def blit_def)
  have "number_to_string base v (Some mem) len = Inr (Some ((blit mem 0 (rev D))[length D := 0]), rev D)"
    using False assms(3,4) eq len rp by (simp add: number_to_string_def terminate_view_def) (simp add: blit_def)
  moreover have "take (length D) ((blit mem 0 (rev D))[length D := 0]) = rev D"
    by (simp add: blit_def)
  ultimately show ?thesis
    using D len assms(4)
    by (auto simp: loop_digits_def digits_value_rev hd_rev)
qed

lemma hex_bytes_loop_eq:
  "(len - i) div 2 = k \<Longrightarrow> k \<le> length input \<Longrightarrow> i \<le> len \<Longrightarrow> len \<le> length mem \<Longrightarrow>
   hex_bytes_loop input i len mem = Inr (i + 2 * k, blit mem i (hex_text (take k input)))"
proof (induction k arbitrary: input i mem)
  case 0
  then have "\<not> i + 2 \<le> len" by linarith
  with "0.prems" show ?case by (simp add: hex_bytes_loop.simps)
next
  case (Suc k)
  then obtain b rest where input: "input = b # rest" by (cases input) auto
  have i: "i + 2 \<le> len" and k: "(len - (i + 2)) div 2 = k"
    using Suc.prems(1) by linarith+
  then have "i + length (hex_text (b # take k rest)) \<le> length mem"
    using Suc.prems by (simp add: input min_def)
  then have "blit (mem[i := hex_high b, Suc i := hex_low b]) (i + 2) (hex_text (take k rest)) =
    blit mem i (hex_text (b # take k rest))"
    by (simp add: blit_def take_Suc_conv_app_nth list_update_append)
  with Suc.IH [OF k] i Suc.prems show ?case
    by (simp add: hex_bytes_loop.simps [of "b # rest"] input)
qed

section \<open>Properties\<close>

text \<open>
  The text that \<^verbatim>\<open>Ascii::ToHexString(bytes, size)\<close> makes of a byte sequence of
  non-zero even length is read back by \<^verbatim>\<open>Ascii::FromHexString\<close> into any buffer that is large
  enough: the span it returns is the original sequence, and it is written at the start of the
  buffer and nowhere else.
\<close>

theorem hex_string_roundtrip:
  assumes "bs \<noteq> []" "even (length bs)" "length bs \<le> length mem" "0 < sz"
  shows "\<exists>text. ToHexString_str (Some bs) (length bs) = Inr text \<and>
    FromHexString text (Some mem) sz = Inr (Some (blit mem 0 bs), bs)"
proof (intro exI conjI)
  show "ToHexString_str (Some bs) (length bs) = Inr (hex_text bs)"
    using assms(1,2) by (simp add: ToHexString_str_def hex_append_loop_eq)
  have "take (length bs) (blit mem 0 bs) = bs" by (simp add: blit_def)
  then show "FromHexString (hex_text bs) (Some mem) sz = Inr (Some (blit mem 0 bs), bs)"
    using assms(1,3,4) by (simp add: FromHexString_def from_hex_loop_hex_text)
qed

theorem hex_string_roundtrip_witness:
  "\<exists>text. ToHexString_str (Some [222, 173]) 2 = Inr text \<and>
    FromHexString text (Some [0, 0, 7]) 3 = Inr (Some [222, 173, 7], [222, 173])"
  using hex_string_roundtrip [of "[222, 173]" "[0, 0, 7]" 3]
  by (simp add: blit_def numeral_2_eq_2)

text \<open>
  \<^verbatim>\<open>Ascii::ToHexString(uint64_t, buffer, length)\<close> and \<^verbatim>\<open>Ascii::ToOctalString\<close> with a
  length of at least 2 that the buffer really has stay inside the buffer and return a
  terminated string of digits shorter than the length, whose value is the number modulo the
  \<open>length - 1\<close>-th power of the base; a number that fits is printed exactly and without a leading
  zero.
\<close>

theorem number_string_value:
  assumes "1 < len" "len \<le> length mem"
    and "(toString, base) \<in> {(ToHexString_u64, 16), (ToOctalString, 8)}"
  shows "\<exists>mem' s. toString v (Some mem) len = Inr (Some mem', s)
    \<and> length mem' = length mem \<and> length s < len \<and> take (length s) mem' = s \<and> mem' ! length s = 0
    \<and> digits_value base s = unat v mod base ^ (len - 1)
    \<and> (0 < unat v \<longrightarrow> unat v < base ^ (len - 1) \<longrightarrow> s \<noteq> [] \<and> hd s \<noteq> 48)"
  using assms(3) number_to_string_spec [of 16 len mem v] number_to_string_spec [of 8 len mem v] assms(1,2)
  by (auto simp: ToHexString_u64_def ToOctalString_def)

theorem number_string_value_witness:
  "\<exists>mem' s. ToHexString_u64 48879 (Some [1, 2, 3, 4, 5, 6]) 6 = Inr (Some mem', s)
    \<and> digits_value 16 s = 48879 \<and> hd s \<noteq> 48"
  using number_string_value [of 6 "[1, 2, 3, 4, 5, 6]" ToHexString_u64 16 48879] by auto

text \<open>
  \<^verbatim>\<open>Ascii::ToHexString(bytes, size, buffer, length)\<close> writes as many whole bytes as
  fit before the terminator, two digits each and in order, terminates them, and neither reads
  past the \<open>size\<close> input bytes nor writes past \<open>length\<close>.
\<close>

theorem hex_buffer_prefix:
  assumes "0 < sz" "sz \<le> length bytes" "0 < len" "len \<le> length mem"
  defines "k \<equiv> min sz ((len - 1) div 2)"
  shows "ToHexString_buf bytes sz mem len =
    Inr (Some ((blit mem 0 (hex_text (take k bytes)))[2 * k := 0]), hex_text (take k bytes))"
proof -
  let ?n = "min (len - 1) (sz * 2 + 1)"
  have n: "(?n - 0) div 2 = k" "k \<le> length bytes" "?n \<le> length mem" "2 * k < len"
    using assms by (auto simp: k_def min_def)
  then have "hex_bytes_loop bytes 0 ?n mem = Inr (2 * k, blit mem 0 (hex_text (take k bytes)))"
    using hex_bytes_loop_eq [of ?n 0 k bytes mem] by simp
  moreover have "take (2 * k) (blit mem 0 (hex_text (take k bytes))) = hex_text (take k bytes)"
    using n by (simp add: blit_def)
  ultimately show ?thesis
    using n(4) assms(1,3,4) by (simp add: ToHexString_buf_def terminate_view_def)
qed

theorem hex_buffer_prefix_witness:
  "ToHexString_buf [1, 255] 2 [9, 9, 9, 9] 4 = Inr (Some [48, 49, 0, 9], [48, 49])"
  using hex_buffer_prefix [of 2 "[1, 255]" 4 "[9, 9, 9, 9]"]
  by (simp add: blit_def hex_high_def hex_low_def HEX_CHARACTERS_def)

text \<open>
  Two inputs on which the conversions leave the memory they were given: \<^verbatim>\<open>FromHexString\<close>
  tests its \<open>size\<close> only against zero, so a string of more digit pairs than the buffer has bytes
  is written past its end whatever size the caller declares; and the number 0 is printed
  with a terminator at index 1 even when the declared length is 1.
\<close>

theorem hex_buffer_overruns:
  assumes "mem \<noteq> []" "length mem < length bs" "0 < sz"
  shows "FromHexString (hex_text bs) (Some mem) sz = Inl Out_Of_Bounds
    \<and> ToHexString_u64 0 (Some [x]) 1 = Inl Out_Of_Bounds"
proof
  have "bs \<noteq> []" using assms(2) by auto
  with assms from_hex_loop_overflow [of mem 0 bs]
  show "FromHexString (hex_text bs) (Some mem) sz = Inl Out_Of_Bounds"
    by (simp add: FromHexString_def)
  show "ToHexString_u64 0 (Some [x]) 1 = Inl Out_Of_Bounds"
    by (simp add: ToHexString_u64_def number_to_string_def terminate_view_def)
qed

theorem hex_buffer_overruns_witness:
  "FromHexString (hex_text [1, 2]) (Some [0]) 1 = Inl Out_Of_Bounds"
  using hex_buffer_overruns [of "[0]" "[1, 2]" 1] by simp

end
