(* ===== verification/String_Util.thy ===== *)
theory String_Util
  imports Ascii "HOL-Library.Sublist"
begin

text \<open>
  The string operations of \<^verbatim>\<open>StringUtil.cpp\<close> and \<^verbatim>\<open>Impl/StringUtil.h\<close>, the two word lists of
  \<^verbatim>\<open>Ascii.cpp\<close> that use them, and \<^verbatim>\<open>FixedStringBuilder\<close>. A \<^verbatim>\<open>std::string\<close> or
  \<^verbatim>\<open>std::string_view\<close> is the list of its bytes. A C string is the memory from the pointer to
  the end of its allocation, so that a read past it is a fault. The number parsers read one byte
  past the view they are given; they take that memory as an argument of its own.
\<close>

section \<open>Comparison\<close>

text \<open>
  \<^verbatim>\<open>Compare\<close> and \<^verbatim>\<open>CompareI\<close> are the same loop, the second through \<^verbatim>\<open>Ascii::ToLower\<close>; \<open>key\<close> is
  the function applied to each byte.
\<close>

fun compare_cstr_by :: "(byte \<Rightarrow> byte) \<Rightarrow> byte list \<Rightarrow> byte list \<Rightarrow> int exec" where
  "compare_cstr_by key (a # as) (b # bs) =
     (let x = key a; y = key b
      in if x = 0 \<or> x \<noteq> y then Inr (int (unat x) - int (unat y)) else compare_cstr_by key as bs)"
| "compare_cstr_by key _ _ = Inl Out_Of_Bounds"

fun compare_n_by :: "(byte \<Rightarrow> byte) \<Rightarrow> byte list \<Rightarrow> byte list \<Rightarrow> nat \<Rightarrow> int exec" where
  "compare_n_by key as bs 0 = Inr 0"
| "compare_n_by key (a # as) (b # bs) (Suc n) =
     (let x = key a; y = key b
      in if x = 0 \<or> x \<noteq> y then Inr (int (unat x) - int (unat y)) else compare_n_by key as bs n)"
| "compare_n_by key _ _ (Suc n) = Inl Out_Of_Bounds"

definition Compare_cstr :: "byte list \<Rightarrow> byte list \<Rightarrow> int exec" where
  "Compare_cstr = compare_cstr_by (\<lambda>c. c)"

definition Compare_n :: "byte list \<Rightarrow> byte list \<Rightarrow> nat \<Rightarrow> int exec" where
  "Compare_n = compare_n_by (\<lambda>c. c)"

definition Compare :: "byte list \<Rightarrow> byte list \<Rightarrow> int exec" where
  "Compare a b = Compare_n a b (min (length a) (length b))"

definition CompareI_cstr :: "byte list \<Rightarrow> byte list \<Rightarrow> int exec" where
  "CompareI_cstr = compare_cstr_by ToLower"

definition CompareI_n :: "byte list \<Rightarrow> byte list \<Rightarrow> nat \<Rightarrow> int exec" where
  "CompareI_n = compare_n_by ToLower"

definition CompareI :: "byte list \<Rightarrow> byte list \<Rightarrow> int exec" where
  "CompareI a b = CompareI_n a b (min (length a) (length b))"

definition Equal_cstr :: "byte list \<Rightarrow> byte list \<Rightarrow> bool exec" where
  "Equal_cstr a b = and_then (Compare_cstr a b) (\<lambda>r. Inr (r = 0))"

definition Equal_n :: "byte list \<Rightarrow> byte list \<Rightarrow> nat \<Rightarrow> bool exec" where
  "Equal_n a b n = and_then (Compare_n a b n) (\<lambda>r. Inr (r = 0))"

definition Equal :: "byte list \<Rightarrow> byte list \<Rightarrow> bool exec" where
  "Equal a b = and_then (Compare a b) (\<lambda>r. Inr (r = 0))"

definition EqualI_cstr :: "byte list \<Rightarrow> byte list \<Rightarrow> bool exec" where
  "EqualI_cstr a b = and_then (CompareI_cstr a b) (\<lambda>r. Inr (r = 0))"

definition EqualI_n :: "byte list \<Rightarrow> byte list \<Rightarrow> nat \<Rightarrow> bool exec" where
  "EqualI_n a b n = and_then (CompareI_n a b n) (\<lambda>r. Inr (r = 0))"

definition EqualI :: "byte list \<Rightarrow> byte list \<Rightarrow> bool exec" where
  "EqualI a b = and_then (CompareI a b) (\<lambda>r. Inr (r = 0))"

definition Less_cstr :: "byte list \<Rightarrow> byte list \<Rightarrow> bool exec" where
  "Less_cstr a b = and_then (Compare_cstr a b) (\<lambda>r. Inr (r < 0))"

definition Less_n :: "byte list \<Rightarrow> byte list \<Rightarrow> nat \<Rightarrow> bool exec" where
  "Less_n a b n = and_then (Compare_n a b n) (\<lambda>r. Inr (r < 0))"

definition Less :: "byte list \<Rightarrow> byte list \<Rightarrow> bool exec" where
  "Less a b = and_then (Compare a b) (\<lambda>r. Inr (r < 0))"

definition LessI_cstr :: "byte list \<Rightarrow> byte list \<Rightarrow> bool exec" where
  "LessI_cstr a b = and_then (CompareI_cstr a b) (\<lambda>r. Inr (r < 0))"

definition LessI_n :: "byte list \<Rightarrow> byte list \<Rightarrow> nat \<Rightarrow> bool exec" where
  "LessI_n a b n = and_then (CompareI_n a b n) (\<lambda>r. Inr (r < 0))"

definition LessI :: "byte list \<Rightarrow> byte list \<Rightarrow> bool exec" where
  "LessI a b = and_then (CompareI a b) (\<lambda>r. Inr (r < 0))"

definition EndsWith :: "byte list \<Rightarrow> byte list \<Rightarrow> bool exec" where
  "EndsWith str sfx =
     (if length sfx \<le> length str
      then Equal (drop (length str - length sfx) str) sfx else Inr False)"

definition EndsWithI :: "byte list \<Rightarrow> byte list \<Rightarrow> bool exec" where
  "EndsWithI str sfx =
     (if length sfx \<le> length str
      then EqualI (drop (length str - length sfx) str) sfx else Inr False)"

definition StartsWith :: "byte list \<Rightarrow> byte list \<Rightarrow> bool exec" where
  "StartsWith str pfx =
     (if length pfx \<le> length str then Equal (take (length pfx) str) pfx else Inr False)"

definition StartsWithI :: "byte list \<Rightarrow> byte list \<Rightarrow> bool exec" where
  "StartsWithI str pfx =
     (if length pfx \<le> length str then EqualI (take (length pfx) str) pfx else Inr False)"

text \<open>\<^verbatim>\<open>std::any_of\<close> over one of the word lists of \<^verbatim>\<open>Ascii.cpp\<close>.\<close>

definition FALSE_STRINGS :: "byte list list" where
  "FALSE_STRINGS = map lit [''disabled'', ''false'', ''no'', ''n'', ''0'']"

definition TRUE_STRINGS :: "byte list list" where
  "TRUE_STRINGS = map lit [''enabled'', ''true'', ''yes'', ''y'', ''1'']"

fun any_of_equalI :: "byte list \<Rightarrow> byte list list \<Rightarrow> bool exec" where
  "any_of_equalI str [] = Inr False"
| "any_of_equalI str (f # fs) =
     and_then (EqualI str f) (\<lambda>eq. if eq then Inr True else any_of_equalI str fs)"

definition IsFalseString :: "byte list \<Rightarrow> bool exec" where
  "IsFalseString str = any_of_equalI str FALSE_STRINGS"

definition IsTrueString :: "byte list \<Rightarrow> bool exec" where
  "IsTrueString str = any_of_equalI str TRUE_STRINGS"

section \<open>Copying, joining, splitting\<close>

fun Length_cstr :: "byte list \<Rightarrow> nat exec" where
  "Length_cstr [] = Inl Out_Of_Bounds"
| "Length_cstr (c # cs) =
     (if c = 0 then Inr 0 else and_then (Length_cstr cs) (\<lambda>n. Inr (Suc n)))"

fun Length_n :: "byte list \<Rightarrow> nat \<Rightarrow> nat exec" where
  "Length_n s 0 = Inr 0"
| "Length_n [] (Suc n) = Inl Out_Of_Bounds"
| "Length_n (c # cs) (Suc n) =
     (if c \<noteq> 0 then and_then (Length_n cs n) (\<lambda>k. Inr (Suc k)) else Inr 0)"

definition Copy_n ::
  "byte list option \<Rightarrow> nat \<Rightarrow> byte list option \<Rightarrow> nat \<Rightarrow> (byte list option \<times> byte list) exec" where
  "Copy_n dst dstLen src srcLen =
     (case (dst, src) of
        (Some d, Some s) \<Rightarrow>
          if dstLen = 0 \<or> srcLen = 0 then Inr (dst, [])
          else let count = min (dstLen - 1) srcLen
            in if length s < count then Inl Out_Of_Bounds
               else and_then (memcpy d 0 (take count s))
                 (\<lambda>d'. if count < length d' then Inr (Some (d'[count := 0]), take count d')
                       else Inl Out_Of_Bounds)
      | _ \<Rightarrow> Inr (dst, []))"

definition Copy_cstr ::
  "byte list option \<Rightarrow> nat \<Rightarrow> byte list \<Rightarrow> (byte list option \<times> byte list) exec" where
  "Copy_cstr dest destLen src =
     and_then (Length_cstr src) (\<lambda>n. Copy_n dest destLen (Some src) n)"

definition Copy :: "byte list option \<Rightarrow> byte list \<Rightarrow> (byte list option \<times> byte list) exec" where
  "Copy dest source =
     Copy_n dest (case dest of None \<Rightarrow> 0 | Some d \<Rightarrow> length d) (Some source) (length source)"

fun join_loop :: "byte list list \<Rightarrow> byte list \<Rightarrow> byte list \<Rightarrow> byte list" where
  "join_loop [] delim out = out"
| "join_loop [v] delim out = out @ v"
| "join_loop (v # vs) delim out = join_loop vs delim (out @ v @ delim)"

definition Join :: "byte list list \<Rightarrow> byte list \<Rightarrow> byte list" where
  "Join values delim = (if values = [] then [] else join_loop values delim [])"

text \<open>\<^verbatim>\<open>std::string_view::find\<close>: the first position at which the argument occurs.\<close>

fun find_sub :: "byte list \<Rightarrow> byte list \<Rightarrow> nat option" where
  "find_sub s delim =
     (if take (length delim) s = delim then Some 0
      else case s of [] \<Rightarrow> None | _ # cs \<Rightarrow> map_option Suc (find_sub cs delim))"

declare find_sub.simps [simp del]

function split_loop ::
  "byte list \<Rightarrow> byte list \<Rightarrow> nat \<Rightarrow> byte list list \<Rightarrow> byte list \<times> byte list list" where
  "split_loop part delim count result =
     (if length result < count then
        (case find_sub part delim of
           None \<Rightarrow> (part, result)
         | Some pos \<Rightarrow> split_loop (drop (pos + 1) part) delim count (result @ [take pos part]))
      else (part, result))"
  by pat_completeness auto
termination
  by (relation "measure (\<lambda>(part, delim, count, result). count - length result)") auto

declare split_loop.simps [simp del]

definition SplitViews :: "byte list \<Rightarrow> byte list \<Rightarrow> nat \<Rightarrow> byte list list" where
  "SplitViews inp delim count =
     (if inp = [] \<or> count = 0 then []
      else if delim = [] then [inp]
      else let (part, result) = split_loop inp delim count []
        in if part \<noteq> [] \<and> length result < count then result @ [part] else result)"

definition Split :: "byte list \<Rightarrow> byte list \<Rightarrow> nat \<Rightarrow> byte list list" where
  "Split inp delim count =
     (if inp = [] \<or> count = 0 then []
      else if delim = [] then [inp]
      else SplitViews inp delim count)"

section \<open>Case and white space\<close>

definition ToLowerCopy :: "byte list \<Rightarrow> byte list" where
  "ToLowerCopy str = map ToLower str"

definition ToUpperCopy :: "byte list \<Rightarrow> byte list" where
  "ToUpperCopy str = map ToUpper str"

definition WHITESPACE_TOKENS :: "byte list" where
  "WHITESPACE_TOKENS = [32, 13, 10, 9]"

text \<open>\<^verbatim>\<open>find_first_not_of\<close> and \<^verbatim>\<open>find_last_not_of\<close>; \<open>None\<close> is \<^verbatim>\<open>npos\<close>.\<close>

fun find_first_not_of :: "byte list \<Rightarrow> byte list \<Rightarrow> nat option" where
  "find_first_not_of [] tokens = None"
| "find_first_not_of (c # cs) tokens =
     (if c \<in> set tokens then map_option Suc (find_first_not_of cs tokens) else Some 0)"

definition find_last_not_of :: "byte list \<Rightarrow> byte list \<Rightarrow> nat option" where
  "find_last_not_of str tokens =
     map_option (\<lambda>k. length str - 1 - k) (find_first_not_of (rev str) tokens)"

definition TrimLeft :: "byte list \<Rightarrow> byte list \<Rightarrow> byte list" where
  "TrimLeft str tokens =
     (case find_first_not_of str tokens of None \<Rightarrow> [] | Some pos \<Rightarrow> drop pos str)"

definition TrimLeft_view :: "byte list \<Rightarrow> byte list \<Rightarrow> byte list exec" where
  "TrimLeft_view str tokens =
     (case find_first_not_of str tokens of
        None \<Rightarrow> Inl Std_Out_Of_Range | Some pos \<Rightarrow> Inr (drop pos str))"

definition TrimRight :: "byte list \<Rightarrow> byte list \<Rightarrow> byte list" where
  "TrimRight str tokens =
     (case find_last_not_of str tokens of None \<Rightarrow> [] | Some pos \<Rightarrow> take (pos + 1) str)"

definition Trim :: "byte list \<Rightarrow> byte list \<Rightarrow> byte list" where
  "Trim str tokens = TrimRight (TrimLeft str tokens) tokens"

definition Trim_view :: "byte list \<Rightarrow> byte list \<Rightarrow> byte list exec" where
  "Trim_view str tokens =
     and_then (TrimLeft_view str tokens) (\<lambda>s. Inr (TrimRight s tokens))"

section \<open>Numbers\<close>

datatype number_error = Empty_String | Out_Of_Range | Not_A_Number

text \<open>
  The digit loops. \<open>mem\<close> is the memory from \<^verbatim>\<open>start\<close> on, \<open>n\<close> the distance to \<^verbatim>\<open>end\<close>; the byte
  at \<^verbatim>\<open>start\<close> is read before \<^verbatim>\<open>start < end\<close> is tested. The result is the number and the distance
  that is left.
\<close>

fun unsigned_loop :: "byte list \<Rightarrow> nat \<Rightarrow> u64 \<Rightarrow> (u64 \<times> nat) exec" where
  "unsigned_loop [] n v = Inl Out_Of_Bounds"
| "unsigned_loop (c # cs) n v =
     (if c \<noteq> 0 \<and> IsDigit c \<and> 0 < n
      then unsigned_loop cs (n - 1) (v * 10 + ucast (ToNibble c)) else Inr (v, n))"

definition ToUnsignedNumber ::
  "byte list \<Rightarrow> nat \<Rightarrow> u64 \<Rightarrow> (number_error + u64) exec" where
  "ToUnsignedNumber mem len hi =
     (if len = 0 then Inr (Inl Empty_String)
      else and_then (unsigned_loop mem len 0) (\<lambda>(v, left).
        if v > hi then Inr (Inl Out_Of_Range)
        else if left \<noteq> 0 then Inr (Inl Not_A_Number)
        else Inr (Inr v)))"

definition in_int64 :: "int \<Rightarrow> bool" where
  "in_int64 v \<longleftrightarrow> - (2 ^ 63) \<le> v \<and> v < 2 ^ 63"

fun signed_loop :: "byte list \<Rightarrow> nat \<Rightarrow> int \<Rightarrow> (int \<times> nat) exec" where
  "signed_loop [] n v = Inl Out_Of_Bounds"
| "signed_loop (c # cs) n v =
     (if c \<noteq> 0 \<and> IsDigit c \<and> 0 < n
      then let v' = v * 10 + int (unat (ToDigit c))
        in if in_int64 (v * 10) \<and> in_int64 v' then signed_loop cs (n - 1) v'
           else Inl Signed_Overflow
      else Inr (v, n))"

definition ToSignedNumber ::
  "byte list \<Rightarrow> nat \<Rightarrow> int \<Rightarrow> int \<Rightarrow> (number_error + int) exec" where
  "ToSignedNumber mem len lo hi =
     (if len = 0 then Inr (Inl Empty_String)
      else case mem of [] \<Rightarrow> Inl Out_Of_Bounds | c # cs \<Rightarrow>
        let sign = (c = 45)
        in and_then (if sign then signed_loop cs (len - 1) 0 else signed_loop mem len 0)
          (\<lambda>(v, left).
             let v' = (if sign then - v else v)
             in if v' < lo \<or> v' > hi then Inr (Inl Out_Of_Range)
                else if left \<noteq> 0 then Inr (Inl Not_A_Number)
                else Inr (Inr v')))"

text \<open>\<^verbatim>\<open>ParseNumber<T>\<close> for an unsigned and for a signed \<open>T\<close> of \<open>w\<close> bits.\<close>

definition ParseNumber_unsigned :: "nat \<Rightarrow> byte list \<Rightarrow> nat \<Rightarrow> (number_error + nat) exec" where
  "ParseNumber_unsigned w mem len =
     and_then (ToUnsignedNumber mem len (mask w))
       (\<lambda>r. Inr (case r of Inl e \<Rightarrow> Inl e | Inr v \<Rightarrow> Inr (unat v mod 2 ^ w)))"

definition ParseNumber_signed :: "nat \<Rightarrow> byte list \<Rightarrow> nat \<Rightarrow> (number_error + int) exec" where
  "ParseNumber_signed w mem len =
     ToSignedNumber mem len (- (2 ^ (w - 1))) (2 ^ (w - 1) - 1)"

section \<open>FixedStringBuilder\<close>

record string_builder =
  sb_buffer :: "byte list"
  sb_capacity :: nat
  sb_offset :: nat

definition FixedStringBuilder :: "byte list \<Rightarrow> string_builder" where
  "FixedStringBuilder buffer =
     \<lparr>sb_buffer = buffer, sb_capacity = (length buffer + 2 ^ 64 - 1) mod 2 ^ 64, sb_offset = 0\<rparr>"

definition sb_Remaining :: "string_builder \<Rightarrow> nat" where
  "sb_Remaining sb = (sb_capacity sb + 2 ^ 64 - sb_offset sb) mod 2 ^ 64"

text \<open>
  \<^verbatim>\<open>Append(char)\<close> indexes the pointer \<^verbatim>\<open>Head()\<close>, which already is \<^verbatim>\<open>m_offset\<close> bytes into the
  buffer, with \<^verbatim>\<open>m_offset\<close> once more.
\<close>

definition sb_store :: "byte list \<Rightarrow> nat \<Rightarrow> byte \<Rightarrow> byte list exec" where
  "sb_store buf i c = (if i < length buf then Inr (buf[i := c]) else Inl Out_Of_Bounds)"

definition sb_Append_char :: "string_builder \<Rightarrow> byte \<Rightarrow> string_builder exec" where
  "sb_Append_char sb c =
     (if sb_Remaining sb > 1 then
        let head = sb_offset sb
        in and_then (sb_store (sb_buffer sb) (head + sb_offset sb) c) (\<lambda>buf.
           and_then (sb_store buf (head + (sb_offset sb + 1)) 0) (\<lambda>buf'.
           Inr (sb\<lparr>sb_buffer := buf', sb_offset := sb_offset sb + 1\<rparr>)))
      else Inr sb)"

definition sb_Append :: "string_builder \<Rightarrow> byte list \<Rightarrow> string_builder exec" where
  "sb_Append sb str =
     (let len = min (length str) (sb_Remaining sb)
      in and_then (fusion_assert (sb_offset sb + len < sb_capacity sb)) (\<lambda>_.
         and_then (memcpy (sb_buffer sb) (sb_offset sb) (take len str)) (\<lambda>buf.
         and_then (sb_store buf (sb_offset sb + len) 0) (\<lambda>buf'.
         Inr (sb\<lparr>sb_buffer := buf', sb_offset := sb_offset sb + len\<rparr>)))))"

definition sb_Offset :: "string_builder \<Rightarrow> nat \<Rightarrow> string_builder exec" where
  "sb_Offset sb sz =
     (let sz' = min (sb_Remaining sb) sz
      in and_then (fusion_assert (sb_offset sb + sz' < sb_capacity sb)) (\<lambda>_.
         and_then (sb_store (sb_buffer sb) (sb_offset sb + sz') 0) (\<lambda>buf.
         Inr (sb\<lparr>sb_buffer := buf, sb_offset := sb_offset sb + sz'\<rparr>))))"

definition sb_View :: "string_builder \<Rightarrow> byte list" where
  "sb_View sb = take (sb_offset sb) (sb_buffer sb)"

section \<open>Lemmas\<close>

subsection \<open>Comparison\<close>

lemma compare_n_by_key_eq:
  assumes "n \<le> length a" "n \<le> length b" "0 \<notin> key ` set (take n a)"
  shows "\<exists>r. compare_n_by key a b n = Inr r \<and> (r = 0 \<longleftrightarrow> map key (take n a) = map key (take n b))"
  using assms
proof (induction key a b n rule: compare_n_by.induct)
  case (2 key a as b bs n)
  then show ?case by (auto simp: Let_def word_uint_eq_iff)
qed auto

lemma take_min_eq_iff_prefix:
  "take (min (length a) (length b)) a = take (min (length a) (length b)) b \<longleftrightarrow>
   prefix a b \<or> prefix b a"
  by (auto simp: min_def prefix_def) (metis append_take_drop_id)+

lemma prefix_same_length: "length a = length b \<Longrightarrow> prefix a b \<or> prefix b a \<longleftrightarrow> a = b"
  by (auto simp: prefix_def)

lemma Equal_iff:
  assumes "0 \<notin> set a"
  shows "Equal a b = Inr (prefix a b \<or> prefix b a)"
proof -
  let ?n = "min (length a) (length b)"
  have "0 \<notin> (\<lambda>c. c) ` set (take ?n a)" using assms by (auto dest: in_set_takeD)
  then obtain r where "Compare a b = Inr r" "r = 0 \<longleftrightarrow> take ?n a = take ?n b"
    using compare_n_by_key_eq [of ?n a b "\<lambda>c. c"] by (auto simp: Compare_def Compare_n_def)
  then show ?thesis by (simp add: Equal_def take_min_eq_iff_prefix)
qed

lemma EqualI_iff:
  assumes "0 \<notin> set a"
  shows "EqualI a b = Inr (prefix (ToLowerCopy a) (ToLowerCopy b) \<or>
    prefix (ToLowerCopy b) (ToLowerCopy a))"
proof -
  let ?n = "min (length a) (length b)"
  have "0 \<notin> ToLower ` set (take ?n a)" using assms by (auto dest: in_set_takeD)
  then obtain r where "CompareI a b = Inr r"
    and r: "r = 0 \<longleftrightarrow> map ToLower (take ?n a) = map ToLower (take ?n b)"
    using compare_n_by_key_eq [of ?n a b ToLower] by (auto simp: CompareI_def CompareI_n_def)
  then show ?thesis
    using take_min_eq_iff_prefix [of "ToLowerCopy a" "ToLowerCopy b"]
    by (simp add: EqualI_def ToLowerCopy_def take_map)
qed

subsection \<open>Joining and splitting\<close>

lemma join_loop_eq:
  "vs \<noteq> [] \<Longrightarrow> join_loop vs delim out =
     out @ concat (map (\<lambda>v. v @ delim) (butlast vs)) @ last vs"
  by (induction vs delim out rule: join_loop.induct) auto

lemma find_sub_single:
  "(case find_sub s [d] of
      None \<Rightarrow> d \<notin> set s
    | Some pos \<Rightarrow> pos < length s \<and> s ! pos = d \<and> d \<notin> set (take pos s))"
proof (induction s)
  case Nil
  then show ?case by (simp add: find_sub.simps)
next
  case (Cons c s)
  then show ?case by (auto simp: find_sub.simps [of "c # s"] split: option.splits)
qed

lemma split_loop_single:
  assumes "count_list part d + length result < count"
  shows "\<exists>part' ps. split_loop part [d] count result = (part', result @ ps)
    \<and> concat (map (\<lambda>p. p @ [d]) ps) @ part' = part
    \<and> d \<notin> set part' \<and> (\<forall>p \<in> set ps. d \<notin> set p) \<and> length ps = count_list part d"
  using assms
proof (induction "length part" arbitrary: part result rule: less_induct)
  case less
  show ?case
  proof (cases "find_sub part [d]")
    case None
    with find_sub_single [of d part] less.prems show ?thesis
      by (intro exI [of _ part] exI [of _ "[]"]) (simp add: split_loop.simps)
  next
    case (Some pos)
    with find_sub_single [of d part]
    have pos: "pos < length part" "part ! pos = d" "d \<notin> set (take pos part)" by simp_all
    define rest where "rest = drop (Suc pos) part"
    have part: "part = take pos part @ d # rest"
      using pos id_take_nth_drop [of pos part] by (simp add: rest_def)
    have cnt: "count_list part d = Suc (count_list rest d)"
      using pos(3) by (subst part) (simp add: count_list_append count_notin)
    have "length rest < length part" using pos(1) by (simp add: rest_def)
    from less.hyps [OF this, of "result @ [take pos part]"] less.prems cnt
    obtain part' ps where IH: "split_loop rest [d] count (result @ [take pos part]) =
        (part', (result @ [take pos part]) @ ps)"
      "concat (map (\<lambda>p. p @ [d]) ps) @ part' = rest" "d \<notin> set part'"
      "\<forall>p \<in> set ps. d \<notin> set p" "length ps = count_list rest d" by auto
    show ?thesis
    proof (intro exI conjI)
      show "split_loop part [d] count result = (part', result @ take pos part # ps)"
        using IH(1) Some less.prems cnt by (simp add: split_loop.simps [of part] rest_def)
      show "concat (map (\<lambda>p. p @ [d]) (take pos part # ps)) @ part' = part"
        using IH(2) part by simp
    qed (use IH pos cnt in auto)
  qed
qed

subsection \<open>White space\<close>

lemma TrimLeft_eq_dropWhile: "TrimLeft str tokens = dropWhile (\<lambda>c. c \<in> set tokens) str"
  by (induction str) (auto simp: TrimLeft_def split: option.splits)

lemma find_first_not_of_None_iff: "find_first_not_of str tokens = None \<longleftrightarrow> set str \<subseteq> set tokens"
  by (induction str) auto

lemma find_first_not_of_Some_less: "find_first_not_of str tokens = Some k \<Longrightarrow> k < length str"
  by (induction str arbitrary: k) (auto split: if_splits)

lemma TrimRight_eq_rev: "TrimRight str tokens = rev (TrimLeft (rev str) tokens)"
proof (cases "find_first_not_of (rev str) tokens")
  case None
  then show ?thesis by (simp add: TrimRight_def TrimLeft_def find_last_not_of_def)
next
  case (Some k)
  with find_first_not_of_Some_less [OF Some]
  show ?thesis by (simp add: TrimRight_def TrimLeft_def find_last_not_of_def rev_drop Suc_diff_Suc)
qed

subsection \<open>Numbers\<close>

lemma IsDigit_not_0: "IsDigit c \<Longrightarrow> c \<noteq> 0"
  by (auto simp: IsDigit_def)

lemma ToDigit_eq_ToNibble: "IsDigit c \<Longrightarrow> ToDigit c = ToNibble c"
  by (simp add: ToNibble_def ToDigit_def ascii_class_defs)

abbreviation leading_digits :: "nat \<Rightarrow> byte list \<Rightarrow> byte list" where
  "leading_digits n mem \<equiv> takeWhile IsDigit (take n mem)"

lemma unsigned_loop_eq:
  "n < length mem \<Longrightarrow> unsigned_loop mem n v =
     Inr (foldl (\<lambda>v c. v * 10 + ucast (ToNibble c)) v (leading_digits n mem),
          n - length (leading_digits n mem))"
proof (induction mem n v rule: unsigned_loop.induct)
  case (2 c cs n v)
  show ?case
  proof (cases n)
    case (Suc m)
    with 2 show ?thesis by (auto dest: IsDigit_not_0)
  qed simp
qed simp

lemma foldl_word_of_nat:
  "foldl (\<lambda>v c. v * 10 + ucast (ToNibble c)) (of_nat a :: u64) ds =
     of_nat (foldl (\<lambda>a c. a * 10 + unat (ToNibble c)) a ds)"
proof (induction ds arbitrary: a)
  case (Cons c ds)
  have "of_nat a * 10 + ucast (ToNibble c) = (of_nat (a * 10 + unat (ToNibble c)) :: u64)"
    by simp
  with Cons show ?case by (simp only: foldl_Cons)
qed simp

lemma foldl_digits_ge: "(a::nat) \<le> foldl (\<lambda>a c. a * 10 + unat (ToNibble c)) a ds"
proof (induction ds arbitrary: a)
  case (Cons c ds)
  have "a \<le> a * 10 + unat (ToNibble c)" by simp
  also note Cons.IH [of "a * 10 + unat (ToNibble c)"]
  finally show ?case by simp
qed simp

lemma in_int64_of_nat: "in_int64 (int n) \<longleftrightarrow> n < 2 ^ 63"
  by (auto simp: in_int64_def)

lemma signed_loop_eq:
  assumes "n < length mem"
  shows "signed_loop mem n (int a) =
     (let V = foldl (\<lambda>a c. a * 10 + unat (ToNibble c)) a (leading_digits n mem)
      in if V < 2 ^ 63 \<or> leading_digits n mem = []
         then Inr (int V, n - length (leading_digits n mem)) else Inl Signed_Overflow)"
  using assms
proof (induction mem arbitrary: n a)
  case (Cons c cs)
  let ?a = "a * 10 + unat (ToNibble c)"
  show ?case
  proof (cases "0 < n \<and> IsDigit c")
    case True
    then obtain m where m: "n = Suc m" by (cases n) auto
    have "int a * 10 = int (a * 10)" by simp
    then have "in_int64 (int a * 10) \<and> in_int64 (int ?a) \<longleftrightarrow> ?a < 2 ^ 63"
      by (simp only: in_int64_of_nat) linarith
    moreover have "?a \<le> foldl (\<lambda>a c. a * 10 + unat (ToNibble c)) ?a (leading_digits m cs)"
      by (rule foldl_digits_ge)
    ultimately show ?thesis
      using Cons.IH [of m ?a] Cons.prems True m IsDigit_not_0 [of c] unfolding m
      by (auto simp: Let_def ToDigit_eq_ToNibble)
  next
    case False
    then show ?thesis by (cases n) auto
  qed
qed simp

subsection \<open>FixedStringBuilder\<close>

definition sb_inv :: "string_builder \<Rightarrow> bool" where
  "sb_inv sb \<longleftrightarrow> 0 < length (sb_buffer sb) \<and> length (sb_buffer sb) < 2 ^ 64
     \<and> sb_capacity sb = length (sb_buffer sb) - 1 \<and> sb_offset sb \<le> sb_capacity sb"

lemma sb_inv_new: "buf \<noteq> [] \<Longrightarrow> length buf < 2 ^ 64 \<Longrightarrow> sb_inv (FixedStringBuilder buf)"
  by (cases "length buf") (auto simp: sb_inv_def FixedStringBuilder_def)

lemma sb_Remaining_eq: "sb_inv sb \<Longrightarrow> sb_Remaining sb = sb_capacity sb - sb_offset sb"
proof -
  assume inv: "sb_inv sb"
  then have "sb_capacity sb + 2 ^ 64 - sb_offset sb = (sb_capacity sb - sb_offset sb) + 2 ^ 64"
    by (auto simp: sb_inv_def)
  moreover have "sb_capacity sb - sb_offset sb < 2 ^ 64" using inv by (auto simp: sb_inv_def)
  ultimately show ?thesis by (simp only: sb_Remaining_def mod_add_self2 mod_less)
qed

section \<open>Properties\<close>

text \<open>
  On a string without a NUL byte, \<^verbatim>\<open>StringUtil::StartsWith\<close> and \<^verbatim>\<open>EndsWith\<close> decide
  whether the second argument is a prefix or suffix of the first, and the case-insensitive
  variants decide it for the lower-case copies; none of them reads outside its views.
\<close>

theorem string_affix_tests:
  assumes "0 \<notin> set str"
  shows "StartsWith str p = Inr (prefix p str) \<and> EndsWith str p = Inr (suffix p str)
    \<and> StartsWithI str p = Inr (prefix (ToLowerCopy p) (ToLowerCopy str))
    \<and> EndsWithI str p = Inr (suffix (ToLowerCopy p) (ToLowerCopy str))"
proof -
  let ?t = "take (length p) str" and ?d = "drop (length str - length p) str"
  have nz: "0 \<notin> set ?t" "0 \<notin> set ?d" using assms by (auto dest: in_set_takeD in_set_dropD)
  have pre: "prefix q s \<longleftrightarrow> length q \<le> length s \<and> take (length q) s = q" for q s :: "byte list"
    by (auto simp: prefix_def) (metis append_take_drop_id)
  have suf: "suffix q s \<longleftrightarrow> length q \<le> length s \<and> drop (length s - length q) s = q"
    for q s :: "byte list"
    by (auto simp: suffix_def) (metis append_take_drop_id)
  show ?thesis
    using prefix_same_length [of ?t p] prefix_same_length [of ?d p]
      prefix_same_length [of "ToLowerCopy ?t" "ToLowerCopy p"]
      prefix_same_length [of "ToLowerCopy ?d" "ToLowerCopy p"]
    by (auto simp: StartsWith_def StartsWithI_def EndsWith_def EndsWithI_def pre suf
        Equal_iff [OF nz(1)] Equal_iff [OF nz(2)] EqualI_iff [OF nz(1)] EqualI_iff [OF nz(2)]
        ToLowerCopy_def take_map drop_map)
qed

theorem string_affix_tests_witness:
  "StartsWith (lit ''fusion.h'') (lit ''fus'') = Inr True
    \<and> EndsWithI (lit ''fusion.h'') (lit ''.H'') = Inr True"
  using string_affix_tests [of "lit ''fusion.h''" "lit ''fus''"]
    string_affix_tests [of "lit ''fusion.h''" "lit ''.H''"]
  by (auto simp: lit_def ToLowerCopy_def ToLower_def IsUpper_def suffix_def)

text \<open>
  \<^verbatim>\<open>Ascii::IsTrueString\<close> and \<^verbatim>\<open>Ascii::IsFalseString\<close> compare through
  \<^verbatim>\<open>StringUtil::EqualI\<close>, which looks at the common length of its arguments only. So they accept
  every string that is, ignoring case, a prefix or an extension of one of their words; the
  empty string is accepted by both.
\<close>

theorem bool_string_words:
  assumes "0 \<notin> set str"
  shows "IsTrueString str = Inr (\<exists>w \<in> set TRUE_STRINGS.
      prefix (ToLowerCopy str) (ToLowerCopy w) \<or> prefix (ToLowerCopy w) (ToLowerCopy str))
    \<and> IsFalseString str = Inr (\<exists>w \<in> set FALSE_STRINGS.
      prefix (ToLowerCopy str) (ToLowerCopy w) \<or> prefix (ToLowerCopy w) (ToLowerCopy str))"
proof -
  have "any_of_equalI str ws = Inr (\<exists>w \<in> set ws.
    prefix (ToLowerCopy str) (ToLowerCopy w) \<or> prefix (ToLowerCopy w) (ToLowerCopy str))" for ws
    by (induction ws) (auto simp: EqualI_iff [OF assms])
  then show ?thesis by (simp add: IsTrueString_def IsFalseString_def)
qed

theorem bool_string_words_witness:
  "IsTrueString [] = Inr True \<and> IsFalseString [] = Inr True \<and> IsTrueString (lit ''nope'') = Inr False"
  using bool_string_words [of "[]"] bool_string_words [of "lit ''nope''"]
  by (auto simp: TRUE_STRINGS_def FALSE_STRINGS_def lit_def ToLowerCopy_def ToLower_def IsUpper_def)

text \<open>
  For a delimiter of one byte and a count above the number of its occurrences, the
  pieces of \<^verbatim>\<open>StringUtil::Split\<close> do not contain the delimiter, and \<^verbatim>\<open>StringUtil::Join\<close> puts a
  string that does not end in the delimiter back together.
\<close>

theorem split_join_roundtrip:
  assumes "s \<noteq> []" "last s \<noteq> d" "count_list s d < count"
  shows "Join (Split s [d] count) [d] = s \<and> (\<forall>p \<in> set (Split s [d] count). d \<notin> set p)
    \<and> length (Split s [d] count) = Suc (count_list s d)"
proof -
  from split_loop_single [of s d "[]" count] assms(3)
  obtain part ps where sl: "split_loop s [d] count [] = (part, ps)"
    and s: "concat (map (\<lambda>p. p @ [d]) ps) @ part = s" and "d \<notin> set part"
    and "\<forall>p \<in> set ps. d \<notin> set p" and len: "length ps = count_list s d" by auto
  have "part \<noteq> []"
  proof
    assume "part = []"
    with s assms(1) have "ps \<noteq> []" by auto
    then obtain qs q where "ps = qs @ [q]" by (metis rev_exhaust)
    with s \<open>part = []\<close> assms(2) show False by auto
  qed
  then have "Split s [d] count = ps @ [part]"
    using assms sl len by (auto simp: Split_def SplitViews_def)
  then show ?thesis
    using s \<open>d \<notin> set part\<close> \<open>\<forall>p \<in> set ps. d \<notin> set p\<close> len by (auto simp: Join_def join_loop_eq)
qed

theorem split_join_roundtrip_witness:
  "Join (Split (lit ''a,b,,c'') (lit '','') 9) (lit '','') = lit ''a,b,,c''"
  using split_join_roundtrip [of "lit ''a,b,,c''" 44 9] by (simp add: lit_def)

text \<open>
  \<^verbatim>\<open>StringUtil::Trim(std::string&)\<close> removes tokens from both ends and nothing else:
  what is left neither starts nor ends with a token. The \<^verbatim>\<open>string_view\<close> overload gives the same
  result when some byte is not a token, and otherwise throws \<^verbatim>\<open>std::out_of_range\<close>.
\<close>

theorem trim_spec:
  "(\<exists>l r. str = l @ Trim str tokens @ r \<and> set l \<subseteq> set tokens \<and> set r \<subseteq> set tokens)
    \<and> (Trim str tokens \<noteq> [] \<longrightarrow> hd (Trim str tokens) \<notin> set tokens \<and> last (Trim str tokens) \<notin> set tokens)
    \<and> Trim_view str tokens =
        (if set str \<subseteq> set tokens then Inl Std_Out_Of_Range else Inr (Trim str tokens))"
proof (intro conjI impI)
  let ?P = "\<lambda>c. c \<in> set tokens"
  let ?m = "dropWhile ?P str"
  have trim: "Trim str tokens = rev (dropWhile ?P (rev ?m))"
    by (simp add: Trim_def TrimRight_eq_rev TrimLeft_eq_dropWhile)
  have m: "?m = rev (dropWhile ?P (rev ?m)) @ rev (takeWhile ?P (rev ?m))"
    by (metis rev_append rev_rev_ident takeWhile_dropWhile_id)
  show "\<exists>l r. str = l @ Trim str tokens @ r \<and> set l \<subseteq> set tokens \<and> set r \<subseteq> set tokens"
  proof (intro exI conjI)
    show "str = takeWhile ?P str @ Trim str tokens @ rev (takeWhile ?P (rev ?m))"
      by (metis m trim takeWhile_dropWhile_id)
  qed (auto dest: set_takeWhileD)
  assume ne: "Trim str tokens \<noteq> []"
  then have "dropWhile ?P (rev ?m) \<noteq> []" by (simp add: trim)
  then show "last (Trim str tokens) \<notin> set tokens"
    using hd_dropWhile [of ?P "rev ?m"] by (simp add: trim last_rev)
  have "?m \<noteq> []" by (metis ne trim dropWhile.simps(1) rev.simps(1))
  then have "\<not> ?P (hd ?m)" by (rule hd_dropWhile)
  moreover have "hd ?m = hd (Trim str tokens)" using ne m trim by (metis hd_append2)
  ultimately show "hd (Trim str tokens) \<notin> set tokens" by simp
next
  show "Trim_view str tokens =
    (if set str \<subseteq> set tokens then Inl Std_Out_Of_Range else Inr (Trim str tokens))"
    using find_first_not_of_None_iff [of str tokens]
    by (cases "find_first_not_of str tokens")
      (auto simp: Trim_view_def TrimLeft_view_def Trim_def TrimLeft_def)
qed

theorem trim_spec_witness:
  "Trim [32, 65, 32] WHITESPACE_TOKENS \<noteq> [] \<and> hd (Trim [32, 65, 32] WHITESPACE_TOKENS) \<notin> set WHITESPACE_TOKENS"
  using trim_spec [of "[32, 65, 32]" WHITESPACE_TOKENS]
  by (simp add: Trim_def TrimRight_eq_rev TrimLeft_eq_dropWhile WHITESPACE_TOKENS_def)

text \<open>
  Property C40. \<^verbatim>\<open>StringUtil::ToUnsignedNumber\<close> on a non-empty view whose following byte is readable:
  with \<open>V\<close> the decimal value of its leading digits, taken modulo \<open>2 ^ 64\<close>, the result is an
  out-of-range failure when \<open>V\<close> exceeds the maximum, else a failure when some byte is not a digit, else \<open>V\<close>.
  A number of \<open>2 ^ 64\<close> or more is therefore not rejected but reduced.
\<close>

theorem parse_unsigned_spec:
  assumes "s \<noteq> []"
  defines "V \<equiv> digits_value 10 (takeWhile IsDigit s) mod 2 ^ 64"
  shows "ToUnsignedNumber (s @ z # rest) (length s) hi =
    Inr (if V > unat hi then Inl Out_Of_Range
         else if \<not> list_all IsDigit s then Inl Not_A_Number
         else Inr (of_nat V))"
proof -
  let ?ds = "takeWhile IsDigit s"
  have loop: "unsigned_loop (s @ z # rest) (length s) 0 =
    Inr (of_nat (digits_value 10 ?ds), length s - length ?ds)"
    using unsigned_loop_eq [of "length s" "s @ z # rest" 0] foldl_word_of_nat [of 0 ?ds]
    by (simp add: digits_value_def)
  have "length s - length ?ds = 0 \<longleftrightarrow> list_all IsDigit s"
    by (induction s) auto
  moreover have "unat (of_nat (digits_value 10 ?ds) :: u64) = V"
    by (simp add: V_def unat_of_nat)
  moreover have "(of_nat V :: u64) = of_nat (digits_value 10 ?ds)"
    by (simp add: calculation(2) [symmetric])
  ultimately show ?thesis
    using assms(1) loop by (auto simp: ToUnsignedNumber_def word_less_nat_alt)
qed

theorem parse_unsigned_spec_witness:
  "ToUnsignedNumber (lit ''8080'' @ [0]) (length ''8080'') 65535 = Inr (Inr 8080)
   \<and> ToUnsignedNumber (lit ''18446744073709551616'' @ [0])
     (length ''18446744073709551616'') 65535 = Inr (Inr 0)"
  using parse_unsigned_spec [of "lit ''8080''" 0 "[]" 65535]
    parse_unsigned_spec [of "lit ''18446744073709551616''" 0 "[]" 65535]
  by (simp add: lit_def IsDigit_def digits_value_def ToNibble_def IsHex_def)

text \<open>
  \<^verbatim>\<open>StringUtil::ToSignedNumber\<close> on a non-empty view whose following byte is readable: when
  the digits after an optional minus sign have a value \<open>V\<close> of at least \<open>2 ^ 63\<close> the accumulator
  overflows, also for the smallest \<^verbatim>\<open>int64_t\<close>; otherwise the result is the signed value, checked
  first against the bounds and then for bytes that are not digits.
\<close>

theorem parse_signed_spec:
  assumes "s \<noteq> []"
  defines "body \<equiv> (if hd s = 45 then tl s else s)"
  defines "V \<equiv> digits_value 10 (takeWhile IsDigit body)"
  defines "v \<equiv> (if hd s = 45 then - int V else int V)"
  shows "ToSignedNumber (s @ z # rest) (length s) lo hi =
    (if 2 ^ 63 \<le> V then Inl Signed_Overflow
     else Inr (if v < lo \<or> v > hi then Inl Out_Of_Range
               else if \<not> list_all IsDigit body then Inl Not_A_Number
               else Inr v))"
proof -
  let ?ds = "takeWhile IsDigit body"
  have loop: "signed_loop (body @ z # rest) (length body) 0 =
    (if V < 2 ^ 63 then Inr (int V, length body - length ?ds) else Inl Signed_Overflow)"
    using signed_loop_eq [of "length body" "body @ z # rest" 0]
    by (auto simp: V_def digits_value_def)
  have left: "length body - length ?ds = 0 \<longleftrightarrow> list_all IsDigit body"
    by (induction body) auto
  obtain c cs where s: "s = c # cs" using assms(1) by (cases s) auto
  have "ToSignedNumber (s @ z # rest) (length s) lo hi =
    and_then (signed_loop (body @ z # rest) (length body) 0) (\<lambda>(w, left).
      let v' = (if c = 45 then - w else w)
      in if v' < lo \<or> v' > hi then Inr (Inl Out_Of_Range)
         else if left \<noteq> 0 then Inr (Inl Not_A_Number) else Inr (Inr v'))"
    by (simp add: ToSignedNumber_def s body_def Let_def)
  then show ?thesis
    using left by (auto simp: loop s v_def Let_def)
qed

theorem parse_signed_spec_witness:
  "ToSignedNumber (lit ''-12'' @ [0]) (length ''-12'') (- 128) 127 = Inr (Inr (- 12))
   \<and> ToSignedNumber (lit ''-9223372036854775808'' @ [0])
     (length ''-9223372036854775808'') (- (2 ^ 63)) (2 ^ 63 - 1) =
       Inl Signed_Overflow"
  using parse_signed_spec [of "lit ''-12''" 0 "[]" "- 128" 127]
    parse_signed_spec [of "lit ''-9223372036854775808''" 0 "[]" "- (2 ^ 63)" "2 ^ 63 - 1"]
  by (simp add: lit_def IsDigit_def digits_value_def ToNibble_def IsHex_def)

text \<open>
  \<^verbatim>\<open>FixedStringBuilder::Append\<close> of a string that leaves at least one byte of the capacity
  free appends it to the view, keeps the terminator and the builder's invariant; any longer
  string ends in the assertion instead of being truncated.
\<close>

theorem builder_append_spec:
  assumes "sb_inv sb"
  shows "if sb_offset sb + length str < sb_capacity sb
    then \<exists>sb'. sb_Append sb str = Inr sb' \<and> sb_inv sb' \<and> sb_View sb' = sb_View sb @ str
      \<and> sb_buffer sb' ! sb_offset sb' = 0
    else sb_Append sb str = Inl Assert_Failed"
proof (cases "sb_offset sb + length str < sb_capacity sb")
  case True
  then have fit: "sb_offset sb + length str < length (sb_buffer sb)"
    using assms by (auto simp: sb_inv_def)
  have "min (length str) (sb_Remaining sb) = length str"
    using True assms by (simp add: sb_Remaining_eq)
  then have "sb_Append sb str = Inr (sb\<lparr>sb_buffer :=
      (blit (sb_buffer sb) (sb_offset sb) str)[sb_offset sb + length str := 0],
      sb_offset := sb_offset sb + length str\<rparr>)"
    using True fit by (simp add: sb_Append_def memcpy_def sb_store_def Let_def)
  moreover have "take (sb_offset sb + length str) (blit (sb_buffer sb) (sb_offset sb) str) =
    take (sb_offset sb) (sb_buffer sb) @ str"
    using fit by (simp add: blit_def)
  ultimately show ?thesis
    using True fit assms by (auto simp: sb_inv_def sb_View_def)
next
  case False
  then have "min (length str) (sb_Remaining sb) = sb_capacity sb - sb_offset sb"
    using assms by (auto simp: sb_Remaining_eq sb_inv_def)
  moreover have "sb_offset sb + (sb_capacity sb - sb_offset sb) = sb_capacity sb"
    using assms by (auto simp: sb_inv_def)
  ultimately show ?thesis
    using False by (simp add: sb_Append_def Let_def)
qed

theorem builder_append_spec_witness:
  "\<exists>sb'. sb_Append (FixedStringBuilder [1, 1, 1, 1]) [65, 66] = Inr sb' \<and> sb_View sb' = [65, 66]"
  using builder_append_spec [OF sb_inv_new, of "[1, 1, 1, 1]" "[65, 66]"]
  by (auto simp: FixedStringBuilder_def sb_View_def)

text \<open>
  \<^verbatim>\<open>Append(char)\<close> stores at twice the offset: after two bytes the third one is not part of the
  view.
\<close>

lemma builder_append_char_misplaced:
  "and_then (sb_Append (FixedStringBuilder [0, 0, 0, 0, 0, 0, 0, 0]) [65, 66])
     (\<lambda>sb. and_then (sb_Append_char sb 67) (\<lambda>sb'. Inr (sb_View sb'))) = Inr [65, 66, 0]"
  by (simp add: sb_Append_def FixedStringBuilder_def sb_Remaining_def memcpy_def blit_def
      sb_store_def sb_Append_char_def sb_View_def Let_def)

end
