(* ===== verification/Endian.thy ===== *)
theory Endian
  imports Fusion_Prelude
begin

text \<open>
  Byte order, from \<^verbatim>\<open>Endian.h\<close>. The macro \<^verbatim>\<open>FUSION_LITTLE_ENDIAN\<close> is the argument \<open>host_le\<close>; an
  integer behind a pointer is the list of its bytes, which the host reads and writes in its own
  order. The compiler's \<^verbatim>\<open>__builtin_bswap32\<close> and \<^verbatim>\<open>__builtin_bswap64\<close> reverse the bytes.
\<close>

fun const_swap_step :: "nat \<Rightarrow> 'a::len word \<Rightarrow> 'a word \<Rightarrow> 'a word" where
  "const_swap_step 0 x result = result"
| "const_swap_step (Suc k) x result =
     const_swap_step k (drop_bit 8 x) (push_bit 8 result OR (x AND 255))"

definition ConstSwap :: "'a::len word \<Rightarrow> 'a word" where
  "ConstSwap x = const_swap_step (LENGTH('a) div 8) x 0"

definition Swap16 :: "u16 \<Rightarrow> u16" where
  "Swap16 v = drop_bit 8 v OR push_bit 8 v"

definition Swap32 :: "u32 \<Rightarrow> u32" where
  "Swap32 v = be_word (le_bytes 4 v)"

definition Swap64 :: "u64 \<Rightarrow> u64" where
  "Swap64 v = be_word (le_bytes 8 v)"

definition host_load :: "bool \<Rightarrow> byte list \<Rightarrow> 'a::len word" where
  "host_load host_le p = (if host_le then le_word p else be_word p)"

definition host_store :: "bool \<Rightarrow> 'a::len word \<Rightarrow> byte list" where
  "host_store host_le x =
     (if host_le then le_bytes (LENGTH('a) div 8) x else be_bytes (LENGTH('a) div 8) x)"

definition LittleEndian_Convert :: "bool \<Rightarrow> 'a::len word \<Rightarrow> 'a word" where
  "LittleEndian_Convert host_le x = (if host_le then x else ConstSwap x)"

definition BigEndian_Convert :: "bool \<Rightarrow> 'a::len word \<Rightarrow> 'a word" where
  "BigEndian_Convert host_le x = (if host_le then ConstSwap x else x)"

text \<open>\<open>swap\<close> is the overload of \<^verbatim>\<open>Endian::Swap\<close> for the type.\<close>

definition LittleEndian_Load :: "('a::len word \<Rightarrow> 'a word) \<Rightarrow> bool \<Rightarrow> byte list \<Rightarrow> 'a word" where
  "LittleEndian_Load swap host_le p =
     (if host_le then host_load host_le p else swap (host_load host_le p))"

definition LittleEndian_Store :: "('a::len word \<Rightarrow> 'a word) \<Rightarrow> bool \<Rightarrow> 'a word \<Rightarrow> byte list" where
  "LittleEndian_Store swap host_le x =
     (if host_le then host_store host_le x else host_store host_le (swap x))"

definition BigEndian_Load :: "('a::len word \<Rightarrow> 'a word) \<Rightarrow> bool \<Rightarrow> byte list \<Rightarrow> 'a word" where
  "BigEndian_Load swap host_le p =
     (if host_le then swap (host_load host_le p) else host_load host_le p)"

definition BigEndian_Store :: "('a::len word \<Rightarrow> 'a word) \<Rightarrow> bool \<Rightarrow> 'a word \<Rightarrow> byte list" where
  "BigEndian_Store swap host_le x =
     (if host_le then host_store host_le (swap x) else host_store host_le x)"

section \<open>Lemmas\<close>

lemma le_bytes_Suc: "le_bytes (Suc k) x = ucast x # le_bytes k (drop_bit 8 x)"
  by (rule nth_equalityI) (auto simp: nth_le_bytes nth_Cons drop_bit_drop_bit add.commute split: nat.splits)

lemma and_255_ucast: "(x AND 255) = (ucast (ucast x :: byte) :: 'a::len word)"
proof -
  have "x AND mask 8 = (ucast (ucast x :: byte) :: 'a word)"
    by (rule bit_word_eqI) (auto simp: bit_simps)
  then show ?thesis by (simp add: mask_eq_exp_minus_1)
qed

lemma ucast_and_255: "(ucast (x AND 255) :: byte) = ucast (x :: 'a::len word)"
proof -
  have "(ucast (x AND mask 8) :: byte) = ucast x"
    by (rule bit_word_eqI) (auto simp: bit_simps dest: bit_imp_le_length)
  then show ?thesis by (simp add: mask_eq_exp_minus_1)
qed

lemma be_word_foldl: "be_word bs = foldl (\<lambda>a b. push_bit 8 a OR ucast b) 0 bs"
proof (induction bs rule: rev_induct)
  case Nil
  then show ?case by (simp add: be_word_def)
next
  case (snoc b bs)
  then show ?case
    by (simp add: be_word_def ucast_add_push_bit or.commute)
qed

lemma const_swap_step_foldl:
  "const_swap_step k x r = foldl (\<lambda>a b. push_bit 8 a OR ucast b) r (le_bytes k x)"
  by (induction k x r rule: const_swap_step.induct)
    (simp_all add: le_bytes_Suc and_255_ucast, simp add: le_bytes_def)

lemma ConstSwap_eq: "ConstSwap (x :: 'a::len word) = be_word (le_bytes (LENGTH('a) div 8) x)"
  by (simp add: ConstSwap_def const_swap_step_foldl be_word_foldl)

lemma ConstSwap_le_word:
  assumes "8 * length bs = LENGTH('a)"
  shows "ConstSwap (le_word bs :: 'a::len word) = be_word bs"
proof -
  have "LENGTH('a) div 8 = length bs" using assms by linarith
  then show ?thesis using le_bytes_le_word [OF assms] by (simp add: ConstSwap_eq)
qed

lemma Swap16_eq: "Swap16 v = be_word (le_bytes 2 v)"
proof (rule bit_word_eqI)
  fix n assume n: "n < LENGTH(16)"
  have "le_bytes 2 v = [ucast v, ucast (drop_bit 8 v)]"
    by (simp add: le_bytes_def upt_numeral_rec)
  then show "bit (Swap16 v) n = bit (be_word (le_bytes 2 v) :: u16) n"
    using n by (auto simp: Swap16_def be_word_foldl bit_simps dest: bit_imp_le_length)
qed

lemma swap_bytes_load:
  assumes "8 * length p = LENGTH('a)"
    and "\<And>v :: 'a::len word. swap v = be_word (le_bytes (LENGTH('a) div 8) v)"
  shows "swap (le_word p) = (be_word p :: 'a word)" "swap (be_word p) = (le_word p :: 'a word)"
proof -
  have n: "LENGTH('a) div 8 = length p" using assms(1) by linarith
  show "swap (le_word p) = (be_word p :: 'a word)"
    using assms n le_bytes_le_word [of p, where 'a = 'a] by simp
  have "le_bytes (length p) (be_word p :: 'a word) = rev p"
    using be_bytes_be_word [OF assms(1)] by (metis be_bytes_def rev_rev_ident)
  then show "swap (be_word p) = (le_word p :: 'a word)"
    by (simp add: assms(2) n be_word_def)
qed

section \<open>Properties\<close>

text \<open>
  On either kind of host, \<^verbatim>\<open>BigEndian<T>::Load\<close> reads the bytes most significant
  first and \<^verbatim>\<open>LittleEndian<T>::Load\<close> least significant first, for the 16, 32 and 64 bit overloads
  of \<^verbatim>\<open>Endian::Swap\<close>; and \<^verbatim>\<open>Endian::ConstSwap\<close> is the same byte reversal.
\<close>

theorem endian_load_order:
  assumes "length p2 = 2" "length p4 = 4" "length p8 = 8"
  shows "BigEndian_Load Swap16 host_le p2 = be_word p2 \<and> LittleEndian_Load Swap16 host_le p2 = le_word p2
    \<and> BigEndian_Load Swap32 host_le p4 = be_word p4 \<and> LittleEndian_Load Swap32 host_le p4 = le_word p4
    \<and> BigEndian_Load Swap64 host_le p8 = be_word p8 \<and> LittleEndian_Load Swap64 host_le p8 = le_word p8
    \<and> ConstSwap v2 = Swap16 v2 \<and> ConstSwap v4 = Swap32 v4 \<and> ConstSwap v8 = Swap64 v8"
  using swap_bytes_load [of p2 Swap16] swap_bytes_load [of p4 Swap32] swap_bytes_load [of p8 Swap64]
    assms
  by (auto simp: BigEndian_Load_def LittleEndian_Load_def host_load_def Swap16_eq Swap32_def
      Swap64_def ConstSwap_eq)

theorem endian_load_order_witness:
  "BigEndian_Load Swap32 True [1, 2, 3, 4] = be_word [1, 2, 3, 4]"
  using endian_load_order [of "[1, 2]" "[1, 2, 3, 4]" "[1, 2, 3, 4, 5, 6, 7, 8]" True] by simp

end
