(* ===== verification/Md_Hash.thy ===== *)
theory Md_Hash
  imports Complex_Main Endian
begin

text \<open>
  The streaming part of \<^verbatim>\<open>MDHash<Type>\<close> (\<^verbatim>\<open>Hash.h\<close>, \<^verbatim>\<open>Impl/Hash.h\<close>), shared by MD5, SHA-1 and
  SHA-256. The class template becomes a group of functions with the compression function
  (\<^verbatim>\<open>ProcessBlock\<close> as a map from digest and block to digest) as an argument; the two stores that
  differ between the algorithms, the length of the message and a word of the digest, are arguments
  too. Sizes are natural numbers: the sums of sizes of objects in memory do not reach the width
  of \<^verbatim>\<open>size_t\<close>. The counter \<^verbatim>\<open>m_size\<close> is a 64 bit word and wraps.

  The locale \<open>md_algorithm\<close> states what the streaming part needs of an algorithm; inside it
  \<^verbatim>\<open>Process\<close> and \<^verbatim>\<open>Finish\<close> are related to padding and folding of the whole message.
\<close>

section \<open>Model\<close>

type_synonym compression = "u32 list \<Rightarrow> byte list \<Rightarrow> u32 list"

record md_state =
  m_size :: u64
  m_bufferSize :: nat
  m_digest :: "u32 list"
  m_buffer :: "byte list"

definition BUFFER_SIZE :: nat where
  "BUFFER_SIZE = 64"

text \<open>A \<^verbatim>\<open>memcpy\<close> of \<open>n\<close> bytes that checks the source as well as the destination.\<close>

definition memcpy_from :: "'a list \<Rightarrow> nat \<Rightarrow> 'a list \<Rightarrow> nat \<Rightarrow> nat \<Rightarrow> 'a list exec" where
  "memcpy_from dst off src srcoff n =
     (if srcoff + n \<le> length src then memcpy dst off (slice srcoff n src) else Inl Out_Of_Bounds)"

text \<open>\<^verbatim>\<open>std::min(64, 64 - m_bufferSize)\<close>, where the subtraction would wrap above 64.\<close>

definition available_space :: "nat \<Rightarrow> nat" where
  "available_space n = (if n \<le> BUFFER_SIZE then BUFFER_SIZE - n else BUFFER_SIZE)"

function process_loop ::
  "compression \<Rightarrow> byte list \<Rightarrow> nat \<Rightarrow> nat \<Rightarrow> md_state \<Rightarrow> (nat \<times> nat \<times> md_state) exec" where
  "process_loop block inputU8 inputSize offset s =
    (if m_bufferSize s + inputSize \<ge> BUFFER_SIZE then
       let available = available_space (m_bufferSize s) in
       and_then (fusion_assert (available \<le> BUFFER_SIZE)) (\<lambda>_.
       and_then (fusion_assert (offset \<le> length inputU8)) (\<lambda>_.
       and_then (memcpy_from (m_buffer s) (m_bufferSize s) inputU8 offset available) (\<lambda>buffer.
       and_then (fusion_assert (m_bufferSize s + available = BUFFER_SIZE)) (\<lambda>_.
       process_loop block inputU8 (inputSize - available) (offset + available)
         \<lparr>m_size = m_size s + of_nat BUFFER_SIZE, m_bufferSize = 0,
          m_digest = block (m_digest s) buffer, m_buffer = buffer\<rparr>))))
     else Inr (inputSize, offset, s))"
  by pat_completeness auto
termination
  by (relation "measure (\<lambda>(block, inputU8, inputSize, offset, s). inputSize + m_bufferSize s)")
    (auto simp: available_space_def BUFFER_SIZE_def split: if_splits)

declare process_loop.simps [simp del]

definition Process :: "compression \<Rightarrow> byte list \<Rightarrow> md_state \<Rightarrow> md_state exec" where
  "Process block buffer s =
    and_then (process_loop block buffer (length buffer) 0 s) (\<lambda>(inputSize, offset, s).
      if inputSize > 0 then
        and_then (fusion_assert (inputSize \<le> BUFFER_SIZE)) (\<lambda>_.
        and_then (fusion_assert (m_bufferSize s = 0)) (\<lambda>_.
        and_then (memcpy_from (m_buffer s) 0 buffer offset inputSize) (\<lambda>buf.
        Inr (s\<lparr>m_buffer := buf, m_bufferSize := m_bufferSize s + inputSize\<rparr>))))
      else Inr s)"

text \<open>The number of bytes before the length field, computed in bits as \<^verbatim>\<open>ProcessBuffer\<close> does.\<close>

definition md_padding :: "nat \<Rightarrow> nat" where
  "md_padding bufferSize =
    (let padding = bufferSize * 8 + 1;
         lower11Bits = padding AND 511
     in (if lower11Bits \<le> 448 then padding + (448 - lower11Bits)
         else padding + (512 + 448 - lower11Bits)) div 8)"

definition zero_from :: "nat \<Rightarrow> byte list \<Rightarrow> byte list" where
  "zero_from i buffer = take i buffer @ replicate (length buffer - i) 0"

definition process_buffer :: "compression \<Rightarrow> (u64 \<Rightarrow> byte list) \<Rightarrow> md_state \<Rightarrow> md_state exec" where
  "process_buffer block put_length s =
    (let padding = md_padding (m_bufferSize s);
         extra0 = replicate BUFFER_SIZE 0;
         buffer1 = (if m_bufferSize s < BUFFER_SIZE then (m_buffer s)[m_bufferSize s := 128]
                    else m_buffer s);
         extra1 = (if m_bufferSize s < BUFFER_SIZE then extra0 else extra0[0 := 128]);
         buffer2 = zero_from (m_bufferSize s + 1) buffer1;
         msgBits = 8 * (m_size s + of_nat (m_bufferSize s))
     in and_then
       (if padding < BUFFER_SIZE
        then and_then (memcpy buffer2 padding (put_length msgBits)) (\<lambda>b. Inr (b, extra1))
        else and_then (memcpy extra1 (padding - BUFFER_SIZE) (put_length msgBits)) (\<lambda>e. Inr (buffer2, e)))
       (\<lambda>(buffer, extra).
         let s1 = s\<lparr>m_buffer := buffer, m_digest := block (m_digest s) buffer\<rparr> in
         Inr (if padding > BUFFER_SIZE then s1\<lparr>m_digest := block (m_digest s1) extra\<rparr> else s1)))"

text \<open>
  \<open>finish\<close> writes into \<open>digest\<close>, the memory of the caller's span, and returns it with the
  object's new state.
\<close>

definition finish ::
  "compression \<Rightarrow> (u64 \<Rightarrow> byte list) \<Rightarrow> (u32 \<Rightarrow> byte list) \<Rightarrow> byte list \<Rightarrow> md_state
    \<Rightarrow> (byte list \<times> md_state) exec" where
  "finish block put_length put_word digest s =
    (let old = m_digest s in
     and_then (process_buffer block put_length s) (\<lambda>s.
       let output = concat (map put_word (m_digest s)) in
       and_then (memcpy digest 0 (take (min (length digest) (length output)) output)) (\<lambda>digest.
       Inr (digest, s\<lparr>m_digest := old\<rparr>))))"

definition md_reset :: "u32 list \<Rightarrow> md_state" where
  "md_reset init = \<lparr>m_size = 0, m_bufferSize = 0, m_digest = init, m_buffer = replicate BUFFER_SIZE 0\<rparr>"

text \<open>A message handed over in several calls.\<close>

fun process_all :: "compression \<Rightarrow> byte list list \<Rightarrow> md_state \<Rightarrow> md_state exec" where
  "process_all block [] s = Inr s"
| "process_all block (p # ps) s = and_then (Process block p s) (process_all block ps)"

section \<open>Specification\<close>

text \<open>
  The Merkle-Damgard construction on a whole message: the message, a 1 bit, zeros up to 56 bytes
  modulo 64, the length in bits as eight bytes; then the fold of the compression function over the
  blocks of 64 bytes.
\<close>

definition md_pad :: "(u64 \<Rightarrow> byte list) \<Rightarrow> byte list \<Rightarrow> byte list" where
  "md_pad put_length msg =
     msg @ 128 # replicate ((119 - length msg mod 64) mod 64) 0 @ put_length (of_nat (8 * length msg))"

function md_fold :: "compression \<Rightarrow> u32 list \<Rightarrow> byte list \<Rightarrow> u32 list" where
  "md_fold block d bs =
     (if length bs \<ge> 64 then md_fold block (block d (take 64 bs)) (drop 64 bs) else d)"
  by pat_completeness auto
termination by (relation "measure (\<lambda>(block, d, bs). length bs)") auto

declare md_fold.simps [simp del]

definition md_spec ::
  "compression \<Rightarrow> (u64 \<Rightarrow> byte list) \<Rightarrow> (u32 \<Rightarrow> byte list) \<Rightarrow> u32 list \<Rightarrow> byte list \<Rightarrow> byte list" where
  "md_spec block put_length put_word init msg =
     concat (map put_word (md_fold block init (md_pad put_length msg)))"

text \<open>The state of an object that was given \<open>msg\<close> so far.\<close>

definition md_rep :: "compression \<Rightarrow> u32 list \<Rightarrow> byte list \<Rightarrow> md_state \<Rightarrow> bool" where
  "md_rep block init msg s \<longleftrightarrow>
     length (m_buffer s) = 64 \<and> m_bufferSize s = length msg mod 64
     \<and> m_size s = of_nat (64 * (length msg div 64))
     \<and> take (m_bufferSize s) (m_buffer s) = drop (64 * (length msg div 64)) msg
     \<and> m_digest s = md_fold block init msg"

section \<open>Folding over blocks\<close>

lemma md_fold_short: "length bs < 64 \<Longrightarrow> md_fold block d bs = d"
  by (simp add: md_fold.simps)

lemma md_fold_block:
  "length b = 64 \<Longrightarrow> md_fold block d (b @ bs) = md_fold block (block d b) bs"
  by (simp add: md_fold.simps [of block d])

lemma md_fold_append:
  "64 dvd length xs \<Longrightarrow> md_fold block d (xs @ ys) = md_fold block (md_fold block d xs) ys"
proof (induction block d xs rule: md_fold.induct)
  case (1 block d bs)
  show ?case
  proof (cases "length bs \<ge> 64")
    case True
    then have "64 dvd length (drop 64 bs)" using 1(2) by (simp add: dvd_diff_nat)
    with True 1(1) show ?thesis
      by (simp add: md_fold.simps [of block d "bs @ ys"] md_fold.simps [of block d bs])
  next
    case False
    then have "bs = []" using 1(2) by (auto dest: dvd_imp_le)
    then show ?thesis by (simp add: md_fold_short)
  qed
qed

lemma md_fold_take: "md_fold block d (take (64 * (length xs div 64)) xs) = md_fold block d xs"
proof -
  let ?n = "64 * (length xs div 64)"
  have "md_fold block d (take ?n xs @ drop ?n xs)
      = md_fold block (md_fold block d (take ?n xs)) (drop ?n xs)"
    by (rule md_fold_append) simp
  moreover have "length (drop ?n xs) < 64"
    using div_mult_mod_eq [of "length xs" 64] mod_less_divisor [of 64 "length xs"]
    unfolding length_drop by linarith
  ultimately show ?thesis by (simp add: md_fold_short del: length_drop)
qed

lemma md_fold_cong_block:
  assumes "\<And>d b. length b = 64 \<Longrightarrow> f d b = g d b"
  shows "md_fold f d bs = md_fold g d bs"
proof (induction "length bs" arbitrary: d bs rule: less_induct)
  case less
  then show ?case
    by (simp add: md_fold.simps [of f d bs] md_fold.simps [of g d bs] assms)
qed

text \<open>A full buffer: the unprocessed rest of the message and the bytes that complete the block.\<close>

lemma md_fold_complete:
  assumes "length msg mod 64 + length b = 64"
  shows "md_fold block d (msg @ b) =
    block (md_fold block d msg) (drop (64 * (length msg div 64)) msg @ b)"
proof -
  let ?n = "64 * (length msg div 64)"
  have len: "length (drop ?n msg @ b) = 64"
    using assms by (simp add: minus_mult_div_eq_mod)
  have "md_fold block d (take ?n msg @ (drop ?n msg @ b))
      = md_fold block (md_fold block d (take ?n msg)) (drop ?n msg @ b)"
    by (rule md_fold_append) simp
  also have "\<dots> = md_fold block (block (md_fold block d msg) (drop ?n msg @ b)) []"
    using md_fold_block [OF len, of block "md_fold block d msg" "[]"] by (simp add: md_fold_take)
  finally show ?thesis by (simp add: md_fold_short append_assoc [symmetric] del: append_assoc)
qed

section \<open>The representation of a message\<close>

lemma complete_block:
  fixes m k :: nat
  assumes "m mod 64 + k = 64"
  shows "m + k = 64 * (m div 64 + 1)"
proof -
  have "m + k = 64 * (m div 64) + (m mod 64 + k)" by simp
  then show ?thesis unfolding assms by simp
qed

lemma md_repD:
  assumes "md_rep block init msg s"
  shows "length (m_buffer s) = 64" "m_bufferSize s = length msg mod 64" "m_bufferSize s < 64"
    "take (m_bufferSize s) (m_buffer s) = drop (64 * (length msg div 64)) msg"
    "m_digest s = md_fold block init msg" "m_size s = of_nat (64 * (length msg div 64))"
  using assms by (auto simp: md_rep_def)

lemma md_rep_reset: "md_rep block init [] (md_reset init)"
  by (simp add: md_rep_def md_reset_def md_fold_short BUFFER_SIZE_def)

lemma md_rep_complete:
  assumes rep: "md_rep block init msg s" and b: "length b = 64 - m_bufferSize s"
  shows "md_rep block init (msg @ b)
    \<lparr>m_size = m_size s + 64, m_bufferSize = 0,
     m_digest = block (m_digest s) (blit (m_buffer s) (m_bufferSize s) b),
     m_buffer = blit (m_buffer s) (m_bufferSize s) b\<rparr>"
proof -
  note r = md_repD [OF rep]
  have len: "length msg mod 64 + length b = 64" using r(2,3) b by simp
  have total: "length msg + length b = 64 * (length msg div 64 + 1)"
    using len by (rule complete_block)
  have buf: "blit (m_buffer s) (m_bufferSize s) b = drop (64 * (length msg div 64)) msg @ b"
    using r(1-4) b by (simp add: blit_def)
  have "length (msg @ b) div 64 = length msg div 64 + 1" "length (msg @ b) mod 64 = 0"
    using total by simp_all
  moreover have "length (drop (64 * (length msg div 64)) msg @ b) = 64"
    using len by (simp add: minus_mult_div_eq_mod)
  ultimately show ?thesis
    unfolding md_rep_def buf
    using r(5,6) md_fold_complete [OF len, of block init] total by (simp add: algebra_simps)
qed

lemma md_rep_tail:
  assumes rep: "md_rep block init msg s" and "m_bufferSize s = 0" and "length b < 64"
  shows "md_rep block init (msg @ b)
    (s\<lparr>m_buffer := blit (m_buffer s) 0 b, m_bufferSize := length b\<rparr>)"
proof -
  note r = md_repD [OF rep]
  obtain k where k: "length msg = 64 * k" using r(2) assms(2) by (auto simp: mod_eq_0_iff_dvd)
  then have "md_fold block init (msg @ b) = md_fold block init msg"
    using assms(3) by (simp add: md_fold_append md_fold_short)
  then show ?thesis
    unfolding md_rep_def using r assms(3) k by (simp add: blit_def)
qed

section \<open>Process\<close>

lemma process_loop_rep:
  assumes "md_rep block init (msg @ take offset input) s"
    and "offset \<le> length input" and "inputSize = length input - offset"
  shows "\<exists>s' offset'. process_loop block input inputSize offset s
        = Inr (length input - offset', offset', s')
    \<and> md_rep block init (msg @ take offset' input) s'
    \<and> offset' \<le> length input \<and> m_bufferSize s' + (length input - offset') < 64
    \<and> (if m_bufferSize s + inputSize < 64 then s' = s \<and> offset' = offset else m_bufferSize s' = 0)"
  using assms
proof (induction block input inputSize offset s rule: process_loop.induct)
  case (1 block input inputSize offset s)
  note r = md_repD [OF 1(2)]
  show ?case
  proof (cases "m_bufferSize s + inputSize \<ge> 64")
    case False
    then have "process_loop block input inputSize offset s = Inr (inputSize, offset, s)"
      by (simp add: process_loop.simps BUFFER_SIZE_def)
    then show ?thesis using False 1(2-4) by auto
  next
    case True
    let ?n = "64 - m_bufferSize s"
    let ?buf = "blit (m_buffer s) (m_bufferSize s) (slice offset ?n input)"
    let ?s = "\<lparr>m_size = m_size s + of_nat BUFFER_SIZE, m_bufferSize = 0,
      m_digest = block (m_digest s) ?buf, m_buffer = ?buf\<rparr>"
    have av: "available_space (m_bufferSize s) = ?n" using r(3)
      by (simp add: available_space_def BUFFER_SIZE_def)
    have fits: "offset + ?n \<le> length input" using True 1(3,4) by linarith
    have step: "process_loop block input inputSize offset s =
        process_loop block input (inputSize - ?n) (offset + ?n) ?s"
      using True r(1,3) fits 1(3)
      by (subst process_loop.simps) (simp add: av Let_def BUFFER_SIZE_def memcpy_from_def memcpy_def)
    have rep: "md_rep block init (msg @ take (offset + ?n) input) ?s"
      using md_rep_complete [OF 1(2), of "slice offset ?n input"] fits
      by (simp add: BUFFER_SIZE_def take_add slice_def)
    have "\<exists>s' offset'. process_loop block input (inputSize - ?n) (offset + ?n) ?s
        = Inr (length input - offset', offset', s')
      \<and> md_rep block init (msg @ take offset' input) s'
      \<and> offset' \<le> length input \<and> m_bufferSize s' + (length input - offset') < 64
      \<and> (if m_bufferSize ?s + (inputSize - ?n) < 64 then s' = ?s \<and> offset' = offset + ?n
         else m_bufferSize s' = 0)"
      using 1(1) [of ?n ?buf] True r(1,3) fits 1(3,4) rep av
      by (simp add: BUFFER_SIZE_def memcpy_from_def memcpy_def)
    then show ?thesis using True unfolding step by (fastforce split: if_splits)
  qed
qed

text \<open>
  \<^verbatim>\<open>Process\<close> extends the message, except in one case: a non-empty buffer that the input does not
  complete meets the assertion that the buffer is empty.
\<close>

lemma Process_rep:
  assumes rep: "md_rep block init msg s"
  shows "if input \<noteq> [] \<and> m_bufferSize s > 0 \<and> m_bufferSize s + length input < 64
    then Process block input s = Inl Assert_Failed
    else \<exists>s'. Process block input s = Inr s' \<and> md_rep block init (msg @ input) s'"
proof -
  obtain s' off where loop: "process_loop block input (length input) 0 s = Inr (length input - off, off, s')"
    and rep': "md_rep block init (msg @ take off input) s'" and off: "off \<le> length input"
    and small: "m_bufferSize s' + (length input - off) < 64"
    and cases: "if m_bufferSize s + length input < 64 then s' = s \<and> off = 0 else m_bufferSize s' = 0"
    using process_loop_rep [of block init msg 0 input s "length input"] rep by auto
  note r = md_repD [OF rep']
  show ?thesis
  proof (cases "off = length input")
    case True
    then show ?thesis using loop rep' cases by (auto simp: Process_def split: if_splits)
  next
    case False
    have "md_rep block init ((msg @ take off input) @ drop off input)
        (s'\<lparr>m_buffer := blit (m_buffer s') 0 (drop off input), m_bufferSize := length (drop off input)\<rparr>)"
      if "m_bufferSize s' = 0"
      using md_rep_tail [OF rep' that, of "drop off input"] small by simp
    then show ?thesis
      using False loop off small cases r(1)
      by (auto simp: Process_def BUFFER_SIZE_def memcpy_from_def memcpy_def slice_def split: if_splits)
  qed
qed

section \<open>Padding\<close>

lemma md_padding_eq: "n < 64 \<Longrightarrow> md_padding n = (if n \<le> 55 then 56 else 120)"
proof -
  assume n: "n < 64"
  have "(n * 8 + 1) AND 511 = (n * 8 + 1) mod 512"
    using take_bit_eq_mask [of 9 "n * 8 + 1"] by (simp add: take_bit_eq_mod mask_eq_exp_minus_1)
  then have "(n * 8 + 1) AND 511 = n * 8 + 1" using n by simp
  then show ?thesis using n by (simp add: md_padding_def)
qed

lemma zero_from_mark:
  assumes "length buf = 64" "m < 64"
  shows "zero_from (m + 1) (buf[m := 128]) = take m buf @ 128 # replicate (63 - m) 0"
  using assms by (simp add: zero_from_def take_Suc_conv_app_nth)

lemma md_pad_short:
  assumes "length msg mod 64 \<le> 55"
  shows "md_pad put msg
    = msg @ (128 # replicate (55 - length msg mod 64) 0 @ put (of_nat (8 * length msg)))"
proof -
  have "119 - length msg mod 64 = 64 + (55 - length msg mod 64)" using assms by linarith
  then have "(119 - length msg mod 64) mod 64 = 55 - length msg mod 64"
    by (simp only: mod_add_self1) simp
  then show ?thesis by (simp add: md_pad_def)
qed

lemma md_pad_long:
  assumes "length msg mod 64 > 55"
  shows "md_pad put msg = (msg @ 128 # replicate (63 - length msg mod 64) 0)
    @ (replicate 56 0 @ put (of_nat (8 * length msg)))"
proof -
  have "length msg mod 64 < 64" by simp
  then have "119 - length msg mod 64 = (63 - length msg mod 64) + 56" using assms by linarith
  moreover have "119 - length msg mod 64 < 64" using assms by linarith
  ultimately have "(119 - length msg mod 64) mod 64 = (63 - length msg mod 64) + 56"
    by simp
  then show ?thesis by (simp only: md_pad_def replicate_add append_assoc append_Cons)
qed

lemma md_rep_bits:
  assumes "md_rep block init msg s"
  shows "8 * (m_size s + of_nat (m_bufferSize s)) = of_nat (8 * length msg)"
proof -
  note r = md_repD [OF assms]
  have "m_size s + of_nat (m_bufferSize s)
      = (of_nat (64 * (length msg div 64) + length msg mod 64) :: u64)"
    by (simp only: r(2,6) of_nat_add)
  then show ?thesis by (simp only: mult_div_mod_eq of_nat_mult of_nat_numeral)
qed

lemma process_buffer_rep:
  assumes rep: "md_rep block init msg s" and put: "\<And>n. length (put n) = 8"
  shows "\<exists>s'. process_buffer block put s = Inr s' \<and> m_digest s' = md_fold block init (md_pad put msg)
    \<and> md_rep block init msg (s'\<lparr>m_digest := m_digest s\<rparr>)"
proof -
  note r = md_repD [OF rep]
  let ?m = "m_bufferSize s"
  let ?rest = "take ?m (m_buffer s)"
  let ?bits = "put (of_nat (8 * length msg))"
  note bits = md_rep_bits [OF rep]
  note buf2 = zero_from_mark [OF r(1,3)]
  have keep: "md_rep block init msg (s\<lparr>m_buffer := ?rest @ b\<rparr>)" if "length b = 64 - ?m" for b
    using r that by (simp add: md_rep_def minus_mult_div_eq_mod)
  show ?thesis
  proof (cases "?m \<le> 55")
    case True
    let ?b = "128 # replicate (55 - ?m) 0 @ ?bits"
    have "blit (?rest @ 128 # replicate (63 - ?m) 0) 56 ?bits = ?rest @ ?b"
      using True r(1) by (simp add: blit_def put take_Cons' min_def)
    then have run: "process_buffer block put s =
        Inr (s\<lparr>m_buffer := ?rest @ ?b, m_digest := block (m_digest s) (?rest @ ?b)\<rparr>)"
      using True r(1,3) buf2
      by (simp add: process_buffer_def Let_def BUFFER_SIZE_def md_padding_eq memcpy_def put bits
          del: of_nat_mult distrib_left_numeral)
    have "md_fold block init (md_pad put msg) = block (m_digest s) (?rest @ ?b)"
      using md_fold_complete [of msg ?b block init] True r(2,4,5) by (simp add: md_pad_short put)
    then show ?thesis using run keep [of ?b] True by (simp add: put)
  next
    case False
    let ?b = "128 # replicate (63 - ?m) 0 :: byte list" and ?e = "replicate 56 0 @ ?bits"
    have "blit (replicate 64 0) 56 ?bits = ?e" by (simp add: blit_def put)
    then have run: "process_buffer block put s =
        Inr (s\<lparr>m_buffer := ?rest @ ?b, m_digest := block (block (m_digest s) (?rest @ ?b)) ?e\<rparr>)"
      using False r(1,3) buf2
      by (simp add: process_buffer_def Let_def BUFFER_SIZE_def md_padding_eq memcpy_def put bits
          del: of_nat_mult distrib_left_numeral)
    have len: "length msg mod 64 + length ?b = 64" using r(2,3) by simp
    then have "64 dvd length (msg @ ?b)" by (simp only: length_append complete_block dvd_triv_left)
    then have "md_fold block init (md_pad put msg) = md_fold block (md_fold block init (msg @ ?b)) (?e @ [])"
      using False r(2) by (simp only: md_pad_long append_Nil2 md_fold_append not_le)
    then have "md_fold block init (md_pad put msg) = block (block (m_digest s) (?rest @ ?b)) ?e"
      using md_fold_complete [OF len, of block init] md_fold_block [of ?e block _ "[]"] r(4,5)
      by (simp add: put md_fold_short)
    then show ?thesis using run keep [of ?b] r(3) by simp
  qed
qed

section \<open>Message schedules and folds over indices\<close>

definition scheduled :: "(nat \<Rightarrow> u32) \<Rightarrow> nat \<Rightarrow> u32 list \<Rightarrow> bool" where
  "scheduled W n words \<longleftrightarrow> length words = n \<and> (\<forall>i<n. words ! i = W i)"

lemma scheduled_foldl:
  assumes "scheduled W m words" and "m \<le> n"
    and "\<And>n words. scheduled W n words \<Longrightarrow> m \<le> n \<Longrightarrow> next words n = W n"
  shows "scheduled W n (foldl (\<lambda>words i. words @ [next words i]) words [m..<n])"
proof -
  have "scheduled W (m + k) (foldl (\<lambda>words i. words @ [next words i]) words [m..<m + k])" for k
  proof (induction k)
    case 0
    then show ?case using assms(1) by simp
  next
    case (Suc k)
    then show ?case using assms(3) [OF Suc]
      by (auto simp: scheduled_def nth_append less_Suc_eq)
  qed
  from this [of "n - m"] show ?thesis using assms(2) by simp
qed

lemma foldl_shift: "foldl (\<lambda>r i. F (n + i) r) r [0..<m] = foldl (\<lambda>r t. F t r) r [n..<n + m]"
  by (induction m) simp_all

lemma foldl_upt_join:
  assumes "a \<le> b" "b \<le> c"
  shows "foldl F (foldl F r [a..<b]) [b..<c] = foldl F r [a..<c]"
  using upt_add_eq_append [OF assms(1), of "c - b"] assms(2) by simp

section \<open>Constants from roots\<close>

text \<open>The specifications of the SHA family take their constants from the digits of roots.\<close>

lemma floor_root:
  fixes v N :: int
  assumes "0 < n" "0 \<le> v" "0 \<le> N" "v ^ n \<le> int p * N ^ n" "int p * N ^ n < (v + 1) ^ n"
  shows "\<lfloor>real_of_int N * root n (real p)\<rfloor> = v"
proof -
  have root_pow: "root n (real_of_int (u ^ n)) = real_of_int u" if "0 \<le> u" for u
    using that assms(1) by (simp add: real_root_power_cancel)
  have "root n (real_of_int (int p * N ^ n)) = root n (real p) * root n (real_of_int (N ^ n))"
    by (simp only: of_int_mult of_int_of_nat_eq real_root_mult)
  then have eq: "real_of_int N * root n (real p) = root n (real_of_int (int p * N ^ n))"
    using root_pow [OF assms(3)] by simp
  have "root n (real_of_int (v ^ n)) \<le> root n (real_of_int (int p * N ^ n))"
    "root n (real_of_int (int p * N ^ n)) < root n (real_of_int ((v + 1) ^ n))"
    using assms by (simp_all only: real_root_le_mono real_root_less_mono of_int_le_iff of_int_less_iff)
  then show ?thesis
    unfolding eq using root_pow [of v] root_pow [of "v + 1"] assms(2)
    by (intro floor_unique) simp_all
qed

text \<open>The integer part \<open>m\<close> is dropped by the reduction to 32 bits.\<close>

lemma of_int_floor_root:
  fixes k :: u32
  assumes "0 < n" "0 \<le> m" "(m * 2 ^ 32 + uint k) ^ n \<le> int p * (2 ^ 32) ^ n"
    "int p * (2 ^ 32) ^ n < (m * 2 ^ 32 + uint k + 1) ^ n"
  shows "of_int \<lfloor>2 ^ 32 * root n (real p)\<rfloor> = k"
proof -
  have "\<lfloor>real_of_int (2 ^ 32) * root n (real p)\<rfloor> = m * 2 ^ 32 + uint k"
    using assms by (intro floor_root) simp_all
  moreover have "(of_int (2 ^ 32) :: u32) = 0" by simp
  then have "(of_int (m * 2 ^ 32 + uint k) :: u32) = k"
    by (simp only: of_int_add of_int_mult of_int_uint mult_zero_right add_0 ucast_id)
  ultimately show ?thesis by simp
qed

section \<open>The interface between streaming and compression\<close>

locale md_algorithm =
  fixes block :: compression
    and put_length :: "u64 \<Rightarrow> byte list"
    and put_word :: "u32 \<Rightarrow> byte list"
    and init :: "u32 list"
  assumes length_put_length: "length (put_length n) = 8"
    and length_put_word: "length (put_word w) = 4"
    and length_block: "length d = length init \<Longrightarrow> length (block d b) = length init"
begin

lemma length_md_fold: "length d = length init \<Longrightarrow> length (md_fold block d bs) = length init"
proof (induction "length bs" arbitrary: d bs rule: less_induct)
  case less
  then show ?case by (subst md_fold.simps) (simp add: length_block)
qed

lemma length_md_spec: "length (md_spec block put_length put_word init msg) = 4 * length init"
proof -
  have "length (concat (map put_word ws)) = 4 * length ws" for ws
    by (induction ws) (simp_all add: length_put_word)
  then show ?thesis by (simp add: md_spec_def length_md_fold)
qed

text \<open>\<^verbatim>\<open>Finish\<close> writes the digest of the message and leaves an object that still holds the message.\<close>

lemma finish_rep:
  assumes rep: "md_rep block init msg s"
  shows "\<exists>s'. finish block put_length put_word digest s
        = Inr (blit digest 0 (take (length digest) (md_spec block put_length put_word init msg)), s')
    \<and> md_rep block init msg s'"
proof -
  obtain s' where run: "process_buffer block put_length s = Inr s'"
    and d: "m_digest s' = md_fold block init (md_pad put_length msg)"
    and rep': "md_rep block init msg (s'\<lparr>m_digest := m_digest s\<rparr>)"
    using process_buffer_rep [of block init msg s put_length] rep length_put_length by auto
  let ?out = "md_spec block put_length put_word init msg"
  have "take (min (length digest) (length ?out)) ?out = take (length digest) ?out"
    by (simp add: min_def)
  moreover have "memcpy digest 0 (take (length digest) ?out) = Inr (blit digest 0 (take (length digest) ?out))"
    by (simp add: memcpy_def)
  ultimately show ?thesis
    using run d rep' by (simp add: finish_def Let_def md_spec_def)
qed

text \<open>The calls that meet the assertion in \<^verbatim>\<open>Process\<close>: a piece that leaves a partial block partial.\<close>

lemma process_all_rep:
  assumes "md_rep block init msg s"
  shows "process_all block ps s = Inl Assert_Failed
    \<or> (\<exists>s'. process_all block ps s = Inr s' \<and> md_rep block init (msg @ concat ps) s')"
  using assms
proof (induction ps arbitrary: msg s)
  case Nil
  then show ?case by simp
next
  case (Cons p ps)
  then show ?case using Process_rep [OF Cons.prems, of p] Cons.IH
    by (fastforce split: if_splits)
qed

lemma process_all_aligned:
  assumes "md_rep block init msg s" and "64 dvd length msg"
    and "\<forall>p \<in> set (butlast ps). 64 dvd length p"
  shows "\<exists>s'. process_all block ps s = Inr s' \<and> md_rep block init (msg @ concat ps) s'"
  using assms
proof (induction ps arbitrary: msg s)
  case Nil
  then show ?case by simp
next
  case (Cons p ps)
  have "m_bufferSize s = 0" using md_repD(2) [OF Cons.prems(1)] Cons.prems(2) by simp
  then obtain s1 where s1: "Process block p s = Inr s1" "md_rep block init (msg @ p) s1"
    using Process_rep [OF Cons.prems(1), of p] by auto
  show ?case
  proof (cases "ps = []")
    case True
    then show ?thesis using s1 by simp
  next
    case False
    then have "64 dvd length (msg @ p)" "\<forall>q \<in> set (butlast ps). 64 dvd length q"
      using Cons.prems(2,3) by auto
    then show ?thesis using Cons.IH [OF s1(2)] s1(1) by simp
  qed
qed

text \<open>Hashing of a whole message: \<^verbatim>\<open>Reset\<close>, the calls of \<^verbatim>\<open>Process\<close>, \<^verbatim>\<open>Finish\<close> twice.\<close>

lemma hash_aligned:
  assumes "\<forall>p \<in> set (butlast ps). 64 dvd length p"
  shows "\<exists>s1 s2 s3. process_all block ps (md_reset init) = Inr s1
    \<and> finish block put_length put_word out s1 =
        Inr (blit out 0 (take (length out) (md_spec block put_length put_word init (concat ps))), s2)
    \<and> finish block put_length put_word out' s2 =
        Inr (blit out' 0 (take (length out') (md_spec block put_length put_word init (concat ps))), s3)"
proof -
  obtain s1 where s1: "process_all block ps (md_reset init) = Inr s1"
      "md_rep block init (concat ps) s1"
    using process_all_aligned [OF md_rep_reset, of ps] assms by auto
  obtain s2 where "finish block put_length put_word out s1 =
        Inr (blit out 0 (take (length out) (md_spec block put_length put_word init (concat ps))), s2)"
      "md_rep block init (concat ps) s2"
    using finish_rep [OF s1(2)] by auto
  then show ?thesis using s1(1) finish_rep by blast
qed

end

section \<open>Properties\<close>

text \<open>
  A first call of \<^verbatim>\<open>Process\<close> on a fresh object always succeeds; a second call fails the
  assertion \<^verbatim>\<open>m_bufferSize == 0\<close> exactly when the first left a partial block and the second input is
  not empty and does not complete it. Otherwise the object holds the concatenation of the inputs.
\<close>

theorem md_process_assertion:
  "\<exists>s. Process block a (md_reset init) = Inr s
    \<and> (if b \<noteq> [] \<and> 0 < length a mod 64 \<and> length a mod 64 + length b < 64
       then Process block b s = Inl Assert_Failed
       else \<exists>s'. Process block b s = Inr s' \<and> md_rep block init (a @ b) s')"
proof -
  have "m_bufferSize (md_reset init) = 0" by (simp add: md_reset_def)
  then obtain s where s: "Process block a (md_reset init) = Inr s" "md_rep block init a s"
    using Process_rep [OF md_rep_reset [of block init], of a] by auto
  then show ?thesis using Process_rep [OF s(2), of b] md_repD(2) [OF s(2)] by auto
qed

end
