(* ===== verification/Sha256.thy ===== *)
theory Sha256
  imports Complex_Main Md_Hash
begin

text \<open>
  SHA-256, from \<^verbatim>\<open>SHA256.cpp\<close>. The unrolled compression function is modelled round by round as it
  is written, eight lines with rotating registers at a time and the message schedule extended
  between the rounds; it is proved equal to the compression function of FIPS 180-4, whose constants
  are the fractional parts of roots of primes. The streaming operations are the instances
  of the theory \<open>Md_Hash\<close>.

  A block is 64 bytes, read as sixteen words by a little endian host and swapped by
  \<^verbatim>\<open>Endian::ConstSwap\<close>. The array \<^verbatim>\<open>words\<close> is the list of its initialised elements.
\<close>

section \<open>Model\<close>

definition sha256_rotate :: "u32 \<Rightarrow> nat \<Rightarrow> u32" where
  "sha256_rotate a c = drop_bit c a OR push_bit (32 - c) a"

definition sha256_f1 :: "u32 \<Rightarrow> u32 \<Rightarrow> u32 \<Rightarrow> u32" where
  "sha256_f1 e f g =
    (let term1 = sha256_rotate e 6 XOR sha256_rotate e 11 XOR sha256_rotate e 25;
         term2 = (e AND f) XOR (NOT e AND g)
     in term1 + term2)"

definition sha256_f2 :: "u32 \<Rightarrow> u32 \<Rightarrow> u32 \<Rightarrow> u32" where
  "sha256_f2 a b c =
    (let term1 = sha256_rotate a 2 XOR sha256_rotate a 13 XOR sha256_rotate a 22;
         term2 = ((a OR b) AND c) OR (a AND b)
     in term1 + term2)"

definition sha256_Swap :: "u32 \<Rightarrow> u32" where
  "sha256_Swap x = ConstSwap x"

definition input32 :: "byte list \<Rightarrow> nat \<Rightarrow> u32" where
  "input32 input i = host_load True (slice (4 * i) 4 input)"

type_synonym sha256_regs = "u32 \<times> u32 \<times> u32 \<times> u32 \<times> u32 \<times> u32 \<times> u32 \<times> u32"

text \<open>The eight lines of a round, with the round's constants and its first index into \<^verbatim>\<open>words\<close>.\<close>

definition sha256_round :: "u32 list \<Rightarrow> u32 list \<Rightarrow> nat \<Rightarrow> sha256_regs \<Rightarrow> sha256_regs" where
  "sha256_round k words n = (\<lambda>(a, b, c, d, e, f, g, h).
    (let x = h + sha256_f1 e f g + k ! 0 + words ! n; y = sha256_f2 a b c; d = d + x; h = x + y;
         x = g + sha256_f1 d e f + k ! 1 + words ! (n + 1); y = sha256_f2 h a b; c = c + x; g = x + y;
         x = f + sha256_f1 c d e + k ! 2 + words ! (n + 2); y = sha256_f2 g h a; b = b + x; f = x + y;
         x = e + sha256_f1 b c d + k ! 3 + words ! (n + 3); y = sha256_f2 f g h; a = a + x; e = x + y;
         x = d + sha256_f1 a b c + k ! 4 + words ! (n + 4); y = sha256_f2 e f g; h = h + x; d = x + y;
         x = c + sha256_f1 h a b + k ! 5 + words ! (n + 5); y = sha256_f2 d e f; g = g + x; c = x + y;
         x = b + sha256_f1 g h a + k ! 6 + words ! (n + 6); y = sha256_f2 c d e; f = f + x; b = x + y;
         x = a + sha256_f1 f g h + k ! 7 + words ! (n + 7); y = sha256_f2 b c d; e = e + x; a = x + y
     in (a, b, c, d, e, f, g, h)))"

definition sha256_word :: "u32 list \<Rightarrow> nat \<Rightarrow> u32" where
  "sha256_word words i =
     words ! (i - 16) +
     (sha256_rotate (words ! (i - 15)) 7 XOR sha256_rotate (words ! (i - 15)) 18 XOR drop_bit 3 (words ! (i - 15))) +
     words ! (i - 7) +
     (sha256_rotate (words ! (i - 2)) 17 XOR sha256_rotate (words ! (i - 2)) 19 XOR drop_bit 10 (words ! (i - 2)))"

definition sha256_extend :: "nat \<Rightarrow> u32 list \<Rightarrow> u32 list" where
  "sha256_extend n words = foldl (\<lambda>words i. words @ [sha256_word words i]) words [length words..<n]"

text \<open>The constants of the eight rounds.\<close>

definition SHA256_CONSTANTS :: "u32 list list" where
  "SHA256_CONSTANTS =
  [[0x428a2f98, 0x71374491, 0xb5c0fbcf, 0xe9b5dba5, 0x3956c25b, 0x59f111f1, 0x923f82a4, 0xab1c5ed5],
   [0xd807aa98, 0x12835b01, 0x243185be, 0x550c7dc3, 0x72be5d74, 0x80deb1fe, 0x9bdc06a7, 0xc19bf174],
   [0xe49b69c1, 0xefbe4786, 0x0fc19dc6, 0x240ca1cc, 0x2de92c6f, 0x4a7484aa, 0x5cb0a9dc, 0x76f988da],
   [0x983e5152, 0xa831c66d, 0xb00327c8, 0xbf597fc7, 0xc6e00bf3, 0xd5a79147, 0x06ca6351, 0x14292967],
   [0x27b70a85, 0x2e1b2138, 0x4d2c6dfc, 0x53380d13, 0x650a7354, 0x766a0abb, 0x81c2c92e, 0x92722c85],
   [0xa2bfe8a1, 0xa81a664b, 0xc24b8b70, 0xc76c51a3, 0xd192e819, 0xd6990624, 0xf40e3585, 0x106aa070],
   [0x19a4c116, 0x1e376c08, 0x2748774c, 0x34b0bcb5, 0x391c0cb3, 0x4ed8aa4a, 0x5b9cca4f, 0x682e6ff3],
   [0x748f82ee, 0x78a5636f, 0x84c87814, 0x8cc70208, 0x90befffa, 0xa4506ceb, 0xbef9a3f7, 0xc67178f2]]"

definition SHA256_ProcessBlock :: compression where
  "SHA256_ProcessBlock digest input =
    (let r = (digest ! 0, digest ! 1, digest ! 2, digest ! 3,
              digest ! 4, digest ! 5, digest ! 6, digest ! 7);
         words = map (\<lambda>i. sha256_Swap (input32 input i)) [0..<16];
         r = sha256_round (SHA256_CONSTANTS ! 0) words 0 r;
         r = sha256_round (SHA256_CONSTANTS ! 1) words 8 r;
         words = sha256_extend 24 words;
         r = sha256_round (SHA256_CONSTANTS ! 2) words 16 r;
         words = sha256_extend 32 words;
         r = sha256_round (SHA256_CONSTANTS ! 3) words 24 r;
         words = sha256_extend 40 words;
         r = sha256_round (SHA256_CONSTANTS ! 4) words 32 r;
         words = sha256_extend 48 words;
         r = sha256_round (SHA256_CONSTANTS ! 5) words 40 r;
         words = sha256_extend 56 words;
         r = sha256_round (SHA256_CONSTANTS ! 6) words 48 r;
         words = sha256_extend 64 words;
         r = sha256_round (SHA256_CONSTANTS ! 7) words 56 r;
         (a, b, c, d, e, f, g, h) = r
     in [digest ! 0 + a, digest ! 1 + b, digest ! 2 + c, digest ! 3 + d,
         digest ! 4 + e, digest ! 5 + f, digest ! 6 + g, digest ! 7 + h])"

definition sha256_put_length :: "u64 \<Rightarrow> byte list" where
  "sha256_put_length msgBits =
    [ucast (drop_bit 56 msgBits AND 0xFF), ucast (drop_bit 48 msgBits AND 0xFF),
     ucast (drop_bit 40 msgBits AND 0xFF), ucast (drop_bit 32 msgBits AND 0xFF),
     ucast (drop_bit 24 msgBits AND 0xFF), ucast (drop_bit 16 msgBits AND 0xFF),
     ucast (drop_bit 8 msgBits AND 0xFF), ucast (msgBits AND 0xFF)]"

definition sha256_put_word :: "u32 \<Rightarrow> byte list" where
  "sha256_put_word w =
    [ucast (drop_bit 24 w AND 0xFF), ucast (drop_bit 16 w AND 0xFF),
     ucast (drop_bit 8 w AND 0xFF), ucast (w AND 0xFF)]"

definition SHA256_INIT :: "u32 list" where
  "SHA256_INIT = [0x6a09e667, 0xbb67ae85, 0x3c6ef372, 0xa54ff53a,
                  0x510e527f, 0x9b05688c, 0x1f83d9ab, 0x5be0cd19]"

definition SHA256_ProcessBuffer :: "md_state \<Rightarrow> md_state exec" where
  "SHA256_ProcessBuffer = process_buffer SHA256_ProcessBlock sha256_put_length"

definition SHA256_Finish :: "byte list \<Rightarrow> md_state \<Rightarrow> (byte list \<times> md_state) exec" where
  "SHA256_Finish = finish SHA256_ProcessBlock sha256_put_length sha256_put_word"

definition SHA256_Reset :: md_state where
  "SHA256_Reset = md_reset SHA256_INIT"

section \<open>Specification\<close>

text \<open>
  FIPS 180-4. The constants are the first 32 bits of the fractional parts of the cube roots of the
  first 64 primes and, for the initial value, of the square roots of the first eight:
  \<^term>\<open>of_int\<close> reduces modulo \<open>2 ^ 32\<close>.
\<close>

definition fips_primes :: "nat list" where
  "fips_primes =
  [2, 3, 5, 7, 11, 13, 17, 19, 23, 29, 31, 37, 41, 43, 47, 53, 59, 61, 67, 71, 73, 79, 83, 89, 97,
   101, 103, 107, 109, 113, 127, 131, 137, 139, 149, 151, 157, 163, 167, 173, 179, 181, 191, 193,
   197, 199, 211, 223, 227, 229, 233, 239, 241, 251, 257, 263, 269, 271, 277, 281, 283, 293, 307, 311]"

definition fips_K :: "nat \<Rightarrow> u32" where
  "fips_K t = of_int \<lfloor>2 ^ 32 * root 3 (real (fips_primes ! t))\<rfloor>"

definition fips_H0 :: "u32 list" where
  "fips_H0 = map (\<lambda>i. of_int \<lfloor>2 ^ 32 * sqrt (real (fips_primes ! i))\<rfloor>) [0..<8]"

definition rotr :: "nat \<Rightarrow> u32 \<Rightarrow> u32" where
  "rotr n x = word_rotr n x"

definition fips_Ch :: "u32 \<Rightarrow> u32 \<Rightarrow> u32 \<Rightarrow> u32" where
  "fips_Ch x y z = (x AND y) XOR (NOT x AND z)"

definition fips_Maj :: "u32 \<Rightarrow> u32 \<Rightarrow> u32 \<Rightarrow> u32" where
  "fips_Maj x y z = (x AND y) XOR (x AND z) XOR (y AND z)"

definition fips_Sigma0 :: "u32 \<Rightarrow> u32" where
  "fips_Sigma0 x = rotr 2 x XOR rotr 13 x XOR rotr 22 x"

definition fips_Sigma1 :: "u32 \<Rightarrow> u32" where
  "fips_Sigma1 x = rotr 6 x XOR rotr 11 x XOR rotr 25 x"

definition fips_sigma0 :: "u32 \<Rightarrow> u32" where
  "fips_sigma0 x = rotr 7 x XOR rotr 18 x XOR drop_bit 3 x"

definition fips_sigma1 :: "u32 \<Rightarrow> u32" where
  "fips_sigma1 x = rotr 17 x XOR rotr 19 x XOR drop_bit 10 x"

fun fips_W :: "byte list \<Rightarrow> nat \<Rightarrow> u32" where
  "fips_W input t =
    (if t < 16 then be_word (slice (4 * t) 4 input)
     else fips_sigma1 (fips_W input (t - 2)) + fips_W input (t - 7)
       + fips_sigma0 (fips_W input (t - 15)) + fips_W input (t - 16))"

declare fips_W.simps [simp del]

fun fips_step :: "u32 \<Rightarrow> u32 \<Rightarrow> sha256_regs \<Rightarrow> sha256_regs" where
  "fips_step k w (a, b, c, d, e, f, g, h) =
    (let T1 = h + fips_Sigma1 e + fips_Ch e f g + k + w;
         T2 = fips_Sigma0 a + fips_Maj a b c
     in (T1 + T2, a, b, c, d + T1, e, f, g))"

definition fips_compress :: compression where
  "fips_compress H input =
    (let (a, b, c, d, e, f, g, h) =
       foldl (\<lambda>r t. fips_step (fips_K t) (fips_W input t) r)
         (H ! 0, H ! 1, H ! 2, H ! 3, H ! 4, H ! 5, H ! 6, H ! 7) [0..<64]
     in [H ! 0 + a, H ! 1 + b, H ! 2 + c, H ! 3 + d, H ! 4 + e, H ! 5 + f, H ! 6 + g, H ! 7 + h])"

definition fips_sha256 :: "byte list \<Rightarrow> byte list" where
  "fips_sha256 msg = md_spec fips_compress (be_bytes 8) (be_bytes 4) fips_H0 msg"

section \<open>The constants\<close>

definition sha256_K :: "u32 list" where
  "sha256_K = concat SHA256_CONSTANTS"

lemma sha256_K_rows: "j < 8 \<Longrightarrow> SHA256_CONSTANTS ! j = take 8 (drop (8 * j) sha256_K)"
proof -
  assume "j < 8"
  then have "j = 0 \<or> j = 1 \<or> j = 2 \<or> j = 3 \<or> j = 4 \<or> j = 5 \<or> j = 6 \<or> j = 7" by linarith
  then show ?thesis by (elim disjE) (simp_all add: sha256_K_def SHA256_CONSTANTS_def)
qed

text \<open>The cube roots lie between 1 and 7, the square roots between 1 and 5.\<close>

definition int_root :: "nat \<Rightarrow> nat \<Rightarrow> int" where
  "int_root n p = (if p < 2 ^ n then 1 else if p < 3 ^ n then 2 else if p < 4 ^ n then 3
     else if p < 5 ^ n then 4 else if p < 6 ^ n then 5 else 6)"

definition root_digits :: "nat \<Rightarrow> nat \<Rightarrow> u32 \<Rightarrow> bool" where
  "root_digits n p k \<longleftrightarrow> (int_root n p * 2 ^ 32 + uint k) ^ n \<le> int p * (2 ^ 32) ^ n
     \<and> int p * (2 ^ 32) ^ n < (int_root n p * 2 ^ 32 + uint k + 1) ^ n"

lemma root_digits:
  assumes "0 < n" "root_digits n p k"
  shows "of_int \<lfloor>2 ^ 32 * root n (real p)\<rfloor> = k"
  using of_int_floor_root [of n "int_root n p" k p] assms
  unfolding root_digits_def by (auto simp: int_root_def)

lemma sha256_K_roots: "list_all2 (root_digits 3) fips_primes sha256_K"
  unfolding fips_primes_def sha256_K_def SHA256_CONSTANTS_def list_all2_Cons list_all2_Nil2
  by (simp add: root_digits_def int_root_def)

lemma sha256_INIT_roots: "list_all2 (root_digits 2) (take 8 fips_primes) SHA256_INIT"
  by (simp add: root_digits_def int_root_def fips_primes_def SHA256_INIT_def)

lemma fips_K_eq: "t < 64 \<Longrightarrow> fips_K t = sha256_K ! t"
proof -
  assume "t < 64"
  moreover have "length fips_primes = 64" by (simp add: fips_primes_def)
  ultimately have "root_digits 3 (fips_primes ! t) (sha256_K ! t)"
    using sha256_K_roots by (simp add: list_all2_conv_all_nth)
  then show ?thesis by (simp only: fips_K_def root_digits zero_less_numeral)
qed

lemma fips_H0_eq: "fips_H0 = SHA256_INIT"
proof (rule nth_equalityI)
  show "length fips_H0 = length SHA256_INIT" by (simp add: fips_H0_def SHA256_INIT_def)
next
  fix i assume "i < length fips_H0"
  then have i: "i < 8" by (simp add: fips_H0_def)
  moreover have "length fips_primes = 64" by (simp add: fips_primes_def)
  ultimately have "root_digits 2 (fips_primes ! i) (SHA256_INIT ! i)"
    using sha256_INIT_roots by (auto simp: list_all2_conv_all_nth)
  then show "fips_H0 ! i = SHA256_INIT ! i"
    using i root_digits [of 2 "fips_primes ! i"] by (simp add: fips_H0_def sqrt_def)
qed

section \<open>Rounds\<close>

lemma sha256_rotate_eq:
  assumes "0 < c" "c < 32"
  shows "sha256_rotate a c = rotr c a"
proof (rule bit_word_eqI)
  fix n assume n: "n < LENGTH(32)"
  show "bit (sha256_rotate a c) n = bit (rotr c a) n"
  proof (cases "n + c < 32")
    case True
    then have "\<not> 32 - c \<le> n" by linarith
    with True show ?thesis
      by (simp add: sha256_rotate_def rotr_def bit_simps bit_word_rotr_iff add.commute [of c])
  next
    case False
    then have "(n + c) mod 32 = n + c - 32" "n - (32 - c) = n + c - 32" "32 - c \<le> n" "\<not> bit a (c + n)"
      using n assms by (auto simp: mod_if dest: bit_imp_le_length)
    then show ?thesis
      using False n assms by (simp add: sha256_rotate_def rotr_def bit_simps bit_word_rotr_iff)
  qed
qed

lemma sha256_f1_eq: "sha256_f1 e f g = fips_Sigma1 e + fips_Ch e f g"
  by (simp add: sha256_f1_def sha256_rotate_eq fips_Sigma1_def fips_Ch_def)

lemma sha256_maj: "((a OR b) AND c) OR (a AND b) = fips_Maj a b c"
  by (rule bit_word_eqI) (auto simp: fips_Maj_def bit_simps)

lemma sha256_f2_eq: "sha256_f2 a b c = fips_Sigma0 a + fips_Maj a b c"
  by (simp add: sha256_f2_def sha256_rotate_eq sha256_maj fips_Sigma0_def)

lemma fips_step_let:
  "fips_step k w (a, b, c, d, e, f, g, h) =
    (let x = h + sha256_f1 e f g + k + w; y = sha256_f2 a b c; d' = d + x; h' = x + y
     in (h', a, b, c, d', e, f, g))"
  by (simp add: sha256_f1_eq sha256_f2_eq Let_def add.assoc)

lemma fips_step_float: "fips_step k w (Let v t) = Let v (\<lambda>x. fips_step k w (t x))"
  by (simp add: Let_def)

lemma sha256_round_steps:
  "sha256_round k words n r = foldl (\<lambda>r i. fips_step (k ! i) (words ! (n + i)) r) r [0..<8]"
proof -
  obtain a b c d e f g h where r: "r = (a, b, c, d, e, f, g, h)" by (metis prod.exhaust)
  have "[0..<8] = [0, 1, 2, 3, 4, 5, 6, 7::nat]" by (simp add: upt_rec)
  then show ?thesis
    unfolding r sha256_round_def
    by (simp only: foldl.simps fips_step_let fips_step_float prod.case add_0_right)
qed

lemma sha256_round_eq:
  assumes "k = take 8 (drop n sha256_K)" "n + 8 \<le> 64" "n + 8 \<le> length words"
    and "\<And>i. i < length words \<Longrightarrow> words ! i = fips_W input i"
  shows "sha256_round k words n r =
    foldl (\<lambda>r t. fips_step (fips_K t) (fips_W input t) r) r [n..<n + 8]"
proof -
  have "length sha256_K = 64" by (simp add: sha256_K_def SHA256_CONSTANTS_def)
  then have "fips_step (k ! i) (words ! (n + i)) q = fips_step (fips_K (n + i)) (fips_W input (n + i)) q"
    if "i \<in> set [0..<8]" for i q
    using that assms by (simp add: fips_K_eq)
  then have "sha256_round k words n r =
      foldl (\<lambda>r i. fips_step (fips_K (n + i)) (fips_W input (n + i)) r) r [0..<8]"
    unfolding sha256_round_steps by (intro foldl_cong) simp_all
  then show ?thesis using foldl_shift [of "\<lambda>t. fips_step (fips_K t) (fips_W input t)"] by simp
qed

section \<open>The message schedule\<close>

lemma sha256_scheduled_start:
  assumes "length input = 64"
  shows "scheduled (fips_W input) 16 (map (\<lambda>i. sha256_Swap (input32 input i)) [0..<16])"
proof -
  have "length (slice (4 * i) 4 input) = 4" if "i < 16" for i using assms that by simp
  then show ?thesis
    by (simp add: scheduled_def sha256_Swap_def input32_def host_load_def ConstSwap_le_word
        fips_W.simps)
qed

lemma sha256_scheduled_extend:
  assumes "scheduled (fips_W input) m words" "16 \<le> m" "m \<le> n"
  shows "scheduled (fips_W input) n (sha256_extend n words)"
proof -
  have "sha256_word words k = fips_W input k" if "scheduled (fips_W input) k words" "m \<le> k" for words k
    using that assms(2) by (subst fips_W.simps)
      (simp add: sha256_word_def scheduled_def sha256_rotate_eq fips_sigma0_def fips_sigma1_def)
  then have "scheduled (fips_W input) n
      (foldl (\<lambda>words i. words @ [sha256_word words i]) words [m..<n])"
    using assms(1,3) by (intro scheduled_foldl)
  then show ?thesis using assms(1) by (simp add: sha256_extend_def scheduled_def)
qed

lemma sha256_round_scheduled:
  assumes "scheduled (fips_W input) m words" "k = take 8 (drop n sha256_K)" "n + 8 = m" "m \<le> 64"
  shows "sha256_round k words n r =
    foldl (\<lambda>r t. fips_step (fips_K t) (fips_W input t) r) r [n..<m]"
  using sha256_round_eq [of k n words input r] assms by (simp add: scheduled_def)

lemma SHA256_ProcessBlock_eq:
  assumes "length input = 64"
  shows "SHA256_ProcessBlock H input = fips_compress H input"
proof -
  let ?F = "\<lambda>r t. fips_step (fips_K t) (fips_W input t) r"
  let ?w = "map (\<lambda>i. sha256_Swap (input32 input i)) [0..<16]"
  let ?w32 = "sha256_extend 32 (sha256_extend 24 ?w)"
  let ?w40 = "sha256_extend 40 ?w32"
  let ?w48 = "sha256_extend 48 ?w40"
  let ?w56 = "sha256_extend 56 ?w48"
  note s16 = sha256_scheduled_start [OF assms]
  have s24: "scheduled (fips_W input) 24 (sha256_extend 24 ?w)"
    using s16 by (rule sha256_scheduled_extend) simp_all
  then have s32: "scheduled (fips_W input) 32 ?w32"
    by (rule sha256_scheduled_extend) simp_all
  then have s40: "scheduled (fips_W input) 40 (sha256_extend 40 ?w32)"
    by (rule sha256_scheduled_extend) simp_all
  then have s48: "scheduled (fips_W input) 48 (sha256_extend 48 ?w40)"
    by (rule sha256_scheduled_extend) simp_all
  then have s56: "scheduled (fips_W input) 56 (sha256_extend 56 ?w48)"
    by (rule sha256_scheduled_extend) simp_all
  then have s64: "scheduled (fips_W input) 64 (sha256_extend 64 ?w56)"
    by (rule sha256_scheduled_extend) simp_all
  have first: "sha256_round (take 8 sha256_K) ?w 0 r = foldl ?F r [0..<8]" for r
    using s16 sha256_round_eq [of "take 8 sha256_K" 0 ?w input r]
    by (simp add: scheduled_def del: upt_rec_numeral)
  note rounds = first sha256_round_scheduled [OF s16 refl, of 8]
    sha256_round_scheduled [OF s24 refl, of 16] sha256_round_scheduled [OF s32 refl, of 24]
    sha256_round_scheduled [OF s40 refl, of 32] sha256_round_scheduled [OF s48 refl, of 40]
    sha256_round_scheduled [OF s56 refl, of 48] sha256_round_scheduled [OF s64 refl, of 56]
  have "SHA256_ProcessBlock H input =
    (let (a, b, c, d, e, f, g, h) =
       sha256_round (take 8 (drop 56 sha256_K)) (sha256_extend 64 ?w56) 56
       (sha256_round (take 8 (drop 48 sha256_K)) ?w56 48
       (sha256_round (take 8 (drop 40 sha256_K)) ?w48 40
       (sha256_round (take 8 (drop 32 sha256_K)) ?w40 32
       (sha256_round (take 8 (drop 24 sha256_K)) ?w32 24
       (sha256_round (take 8 (drop 16 sha256_K)) (sha256_extend 24 ?w) 16
       (sha256_round (take 8 (drop 8 sha256_K)) ?w 8
       (sha256_round (take 8 sha256_K) ?w 0
          (H ! 0, H ! 1, H ! 2, H ! 3, H ! 4, H ! 5, H ! 6, H ! 7))))))))
     in [H ! 0 + a, H ! 1 + b, H ! 2 + c, H ! 3 + d, H ! 4 + e, H ! 5 + f, H ! 6 + g, H ! 7 + h])"
    unfolding SHA256_ProcessBlock_def Let_def by (simp add: sha256_K_rows del: upt_rec_numeral)
  also have "\<dots> = fips_compress H input"
    unfolding fips_compress_def
    by (simp add: rounds foldl_upt_join del: upt_rec_numeral take_drop drop_0)
  finally show ?thesis .
qed

section \<open>Streaming\<close>

lemma sha256_put_length_eq: "sha256_put_length = be_bytes 8"
  by (rule ext, simp add: sha256_put_length_def be_bytes_def le_bytes_def upt_numeral_rec
      ucast_and_255)

lemma sha256_put_word_eq: "sha256_put_word = be_bytes 4"
  by (rule ext, simp add: sha256_put_word_def be_bytes_def le_bytes_def upt_numeral_rec
      ucast_and_255)

interpretation sha256: md_algorithm SHA256_ProcessBlock sha256_put_length sha256_put_word SHA256_INIT
proof
  show "length (SHA256_ProcessBlock d b) = length SHA256_INIT" for d b
    by (simp add: SHA256_ProcessBlock_def Let_def SHA256_INIT_def split: prod.split)
qed (simp_all add: sha256_put_length_def sha256_put_word_def)

lemma sha256_spec_eq:
  "md_spec SHA256_ProcessBlock sha256_put_length sha256_put_word SHA256_INIT msg = fips_sha256 msg"
  unfolding md_spec_def fips_sha256_def sha256_put_length_eq sha256_put_word_eq fips_H0_eq
  by (subst md_fold_cong_block [of SHA256_ProcessBlock fips_compress])
    (simp_all add: SHA256_ProcessBlock_eq)

section \<open>Properties\<close>

text \<open>
  Property C13. The unrolled \<^verbatim>\<open>ProcessBlock\<close> of SHA-256 is the compression function of FIPS 180-4 on
  every block of 64 bytes, with the constants of the standard, and \<^verbatim>\<open>Reset\<close> stores its initial value.
\<close>

theorem sha256_block_compress:
  assumes "length input = 64"
  shows "SHA256_ProcessBlock H input = fips_compress H input \<and> m_digest SHA256_Reset = fips_H0"
  using SHA256_ProcessBlock_eq [OF assms] by (simp add: SHA256_Reset_def md_reset_def fips_H0_eq)

theorem sha256_block_compress_witness:
  "SHA256_ProcessBlock fips_H0 (replicate 64 1) = fips_compress fips_H0 (replicate 64 1)
    \<and> m_digest SHA256_Reset = fips_H0"
  using sha256_block_compress [of "replicate 64 1" fips_H0] by simp

text \<open>
  Property C1. A message handed to a fresh \<^verbatim>\<open>SHA256\<close> object in pieces, all but the last of which are
  multiples of 64 bytes, is processed without a failed assertion and \<^verbatim>\<open>Finish\<close> writes the SHA-256
  digest of the concatenation, cut to the size of the output; a second \<^verbatim>\<open>Finish\<close> writes it again.
\<close>

theorem sha256_message_digest:
  assumes "\<forall>p \<in> set (butlast pieces). 64 dvd length p"
  shows "\<exists>s1 s2 s3. process_all SHA256_ProcessBlock pieces SHA256_Reset = Inr s1
    \<and> SHA256_Finish out s1 = Inr (blit out 0 (take (length out) (fips_sha256 (concat pieces))), s2)
    \<and> SHA256_Finish out' s2 = Inr (blit out' 0 (take (length out') (fips_sha256 (concat pieces))), s3)"
  using sha256.hash_aligned [OF assms, of out out']
  by (simp add: SHA256_Finish_def SHA256_Reset_def sha256_spec_eq)

theorem sha256_message_digest_witness:
  "\<exists>s1 s2 s3. process_all SHA256_ProcessBlock [replicate 64 7, [1, 2]] SHA256_Reset = Inr s1
    \<and> SHA256_Finish (replicate 32 0) s1
       = Inr (blit (replicate 32 0) 0 (take 32 (fips_sha256 (replicate 64 7 @ [1, 2]))), s2)
    \<and> SHA256_Finish (replicate 20 0) s2
       = Inr (blit (replicate 20 0) 0 (take 20 (fips_sha256 (replicate 64 7 @ [1, 2]))), s3)"
  using sha256_message_digest [of "[replicate 64 7, [1, 2]]" "replicate 32 0" "replicate 20 0"]
  by simp

end
