(* ===== verification/Sha1.thy ===== *)
theory Sha1
  imports Sha256
begin

text \<open>
  SHA-1, from \<^verbatim>\<open>SHA1.cpp\<close>: the loops of five lines with rotating registers, proved equal to the
  compression function of FIPS 180-4, whose constants are digits of square roots.
\<close>

section \<open>Model\<close>

definition sha1_f1 :: "u32 \<Rightarrow> u32 \<Rightarrow> u32 \<Rightarrow> u32" where
  "sha1_f1 b c d = d XOR (b AND (c XOR d))"

definition sha1_f2 :: "u32 \<Rightarrow> u32 \<Rightarrow> u32 \<Rightarrow> u32" where
  "sha1_f2 b c d = b XOR c XOR d"

definition sha1_f3 :: "u32 \<Rightarrow> u32 \<Rightarrow> u32 \<Rightarrow> u32" where
  "sha1_f3 b c d = (b AND c) OR (b AND d) OR (c AND d)"

definition sha1_rotate :: "u32 \<Rightarrow> nat \<Rightarrow> u32" where
  "sha1_rotate a c = push_bit c a OR drop_bit (32 - c) a"

definition sha1_Swap :: "u32 \<Rightarrow> u32" where
  "sha1_Swap x = ConstSwap x"

type_synonym sha1_regs = "u32 \<times> u32 \<times> u32 \<times> u32 \<times> u32"

text \<open>The body of the four loops, with the round's function and constant.\<close>

definition sha1_iter ::
  "(u32 \<Rightarrow> u32 \<Rightarrow> u32 \<Rightarrow> u32) \<Rightarrow> u32 \<Rightarrow> u32 list \<Rightarrow> sha1_regs \<Rightarrow> nat \<Rightarrow> sha1_regs" where
  "sha1_iter F k words = (\<lambda>(a, b, c, d, e) i.
    (let offset = 5 * i;
         e = e + (sha1_rotate a 5 + F b c d + words ! offset + k); b = sha1_rotate b 30;
         d = d + (sha1_rotate e 5 + F a b c + words ! (offset + 1) + k); a = sha1_rotate a 30;
         c = c + (sha1_rotate d 5 + F e a b + words ! (offset + 2) + k); e = sha1_rotate e 30;
         b = b + (sha1_rotate c 5 + F d e a + words ! (offset + 3) + k); d = sha1_rotate d 30;
         a = a + (sha1_rotate b 5 + F c d e + words ! (offset + 4) + k); c = sha1_rotate c 30
     in (a, b, c, d, e)))"

definition sha1_word :: "u32 list \<Rightarrow> nat \<Rightarrow> u32" where
  "sha1_word words i =
     sha1_rotate (words ! (i - 3) XOR words ! (i - 8) XOR words ! (i - 14) XOR words ! (i - 16)) 1"

definition SHA1_ProcessBlock :: compression where
  "SHA1_ProcessBlock digest input =
    (let r = (digest ! 0, digest ! 1, digest ! 2, digest ! 3, digest ! 4);
         words = map (\<lambda>i. sha1_Swap (input32 input i)) [0..<16];
         words = foldl (\<lambda>words i. words @ [sha1_word words i]) words [16..<80];
         r = foldl (sha1_iter sha1_f1 0x5a827999 words) r [0..<4];
         r = foldl (sha1_iter sha1_f2 0x6ed9eba1 words) r [4..<8];
         r = foldl (sha1_iter sha1_f3 0x8f1bbcdc words) r [8..<12];
         r = foldl (sha1_iter sha1_f2 0xca62c1d6 words) r [12..<16];
         (a, b, c, d, e) = r
     in [digest ! 0 + a, digest ! 1 + b, digest ! 2 + c, digest ! 3 + d, digest ! 4 + e])"

definition sha1_put_length :: "u64 \<Rightarrow> byte list" where
  "sha1_put_length msgBits =
    [ucast (drop_bit 56 msgBits AND 0xFF), ucast (drop_bit 48 msgBits AND 0xFF),
     ucast (drop_bit 40 msgBits AND 0xFF), ucast (drop_bit 32 msgBits AND 0xFF),
     ucast (drop_bit 24 msgBits AND 0xFF), ucast (drop_bit 16 msgBits AND 0xFF),
     ucast (drop_bit 8 msgBits AND 0xFF), ucast (msgBits AND 0xFF)]"

definition sha1_put_word :: "u32 \<Rightarrow> byte list" where
  "sha1_put_word w =
    [ucast (drop_bit 24 w AND 0xFF), ucast (drop_bit 16 w AND 0xFF),
     ucast (drop_bit 8 w AND 0xFF), ucast (w AND 0xFF)]"

definition SHA1_INIT :: "u32 list" where
  "SHA1_INIT = [0x67452301, 0xefcdab89, 0x98badcfe, 0x10325476, 0xc3d2e1f0]"

definition SHA1_ProcessBuffer :: "md_state \<Rightarrow> md_state exec" where
  "SHA1_ProcessBuffer = process_buffer SHA1_ProcessBlock sha1_put_length"

definition SHA1_Finish :: "byte list \<Rightarrow> md_state \<Rightarrow> (byte list \<times> md_state) exec" where
  "SHA1_Finish = finish SHA1_ProcessBlock sha1_put_length sha1_put_word"

definition SHA1_Reset :: md_state where
  "SHA1_Reset = md_reset SHA1_INIT"

section \<open>Specification\<close>

text \<open>
  FIPS 180-4: eighty steps, the function and the constant change every twenty. The constants are
  \<open>2 ^ 30\<close> times the square roots of 2, 3, 5 and 10.
\<close>

definition rotl :: "nat \<Rightarrow> u32 \<Rightarrow> u32" where
  "rotl n x = word_rotl n x"

definition fips1_K :: "nat \<Rightarrow> u32" where
  "fips1_K t = of_int \<lfloor>2 ^ 30 * sqrt (real ([2, 3, 5, 10] ! (t div 20)))\<rfloor>"

definition fips1_f :: "nat \<Rightarrow> u32 \<Rightarrow> u32 \<Rightarrow> u32 \<Rightarrow> u32" where
  "fips1_f t x y z =
    (if t < 20 then fips_Ch x y z else if t < 40 then x XOR y XOR z
     else if t < 60 then fips_Maj x y z else x XOR y XOR z)"

fun fips1_W :: "byte list \<Rightarrow> nat \<Rightarrow> u32" where
  "fips1_W input t =
    (if t < 16 then be_word (slice (4 * t) 4 input)
     else rotl 1 (fips1_W input (t - 3) XOR fips1_W input (t - 8)
       XOR fips1_W input (t - 14) XOR fips1_W input (t - 16)))"

declare fips1_W.simps [simp del]

fun fips1_step :: "(u32 \<Rightarrow> u32 \<Rightarrow> u32 \<Rightarrow> u32) \<Rightarrow> u32 \<Rightarrow> u32 \<Rightarrow> sha1_regs \<Rightarrow> sha1_regs" where
  "fips1_step F k w (a, b, c, d, e) = (rotl 5 a + F b c d + e + k + w, a, rotl 30 b, c, d)"

definition fips1_compress :: compression where
  "fips1_compress H input =
    (let (a, b, c, d, e) =
       foldl (\<lambda>r t. fips1_step (fips1_f t) (fips1_K t) (fips1_W input t) r)
         (H ! 0, H ! 1, H ! 2, H ! 3, H ! 4) [0..<80]
     in [H ! 0 + a, H ! 1 + b, H ! 2 + c, H ! 3 + d, H ! 4 + e])"

definition fips_sha1 :: "byte list \<Rightarrow> byte list" where
  "fips_sha1 msg = md_spec fips1_compress (be_bytes 8) (be_bytes 4)
     [0x67452301, 0xefcdab89, 0x98badcfe, 0x10325476, 0xc3d2e1f0] msg"

section \<open>Constants, functions and schedule\<close>

lemma floor_sqrt_30:
  assumes "0 \<le> v" "v ^ 2 \<le> int p * (2 ^ 30) ^ 2" "int p * (2 ^ 30) ^ 2 < (v + 1) ^ 2"
  shows "\<lfloor>2 ^ 30 * sqrt (real p)\<rfloor> = v"
  using floor_root [of 2 v "2 ^ 30" p] assms by (simp add: sqrt_def)

lemma sha1_constants:
  "\<lfloor>2 ^ 30 * sqrt (real 2)\<rfloor> = 0x5a827999" "\<lfloor>2 ^ 30 * sqrt (real 3)\<rfloor> = 0x6ed9eba1"
  "\<lfloor>2 ^ 30 * sqrt (real 5)\<rfloor> = 0x8f1bbcdc" "\<lfloor>2 ^ 30 * sqrt (real 10)\<rfloor> = 0xca62c1d6"
  by (rule floor_sqrt_30; simp)+

lemma fips1_K_eq:
  "t < 80 \<Longrightarrow> fips1_K t = (if t < 20 then 0x5a827999 else if t < 40 then 0x6ed9eba1
     else if t < 60 then 0x8f1bbcdc else 0xca62c1d6)"
proof -
  assume t: "t < 80"
  have "t div 20 = (if t < 20 then 0 else if t < 40 then 1 else if t < 60 then 2 else 3)"
    using t by (auto simp: div_nat_eqI)
  then show ?thesis using sha1_constants by (simp add: fips1_K_def)
qed

lemma sha1_f1_eq: "sha1_f1 b c d = fips_Ch b c d"
  by (rule bit_word_eqI) (auto simp: sha1_f1_def fips_Ch_def bit_simps)

lemma sha1_f3_eq: "sha1_f3 b c d = fips_Maj b c d"
  by (rule bit_word_eqI) (auto simp: sha1_f3_def fips_Maj_def bit_simps)

lemma sha1_rotate_eq:
  assumes "0 < c" "c < 32"
  shows "sha1_rotate a c = rotl c a"
proof (rule bit_word_eqI)
  fix n assume n: "n < LENGTH(32)"
  show "bit (sha1_rotate a c) n = bit (rotl c a) n"
  proof (cases "n < c")
    case True
    then have "(n + (32 - c)) mod 32 = n + (32 - c)" using n assms by simp
    then show ?thesis using True n assms
      by (simp add: sha1_rotate_def rotl_def bit_simps bit_word_rotl_iff add.commute [of "32 - c"])
  next
    case False
    then have "(n + (32 - c)) mod 32 = n - c" "\<not> bit a (32 - c + n)"
      using n assms by (auto simp: mod_if dest: bit_imp_le_length)
    then show ?thesis using False n assms
      by (simp add: sha1_rotate_def rotl_def bit_simps bit_word_rotl_iff)
  qed
qed

lemma sha1_schedule:
  assumes "length input = 64"
  shows "scheduled (fips1_W input) 80 (foldl (\<lambda>words i. words @ [sha1_word words i])
    (map (\<lambda>i. sha1_Swap (input32 input i)) [0..<16]) [16..<80])"
proof (rule scheduled_foldl)
  have "length (slice (4 * i) 4 input) = 4" if "i < 16" for i using assms that by simp
  then show "scheduled (fips1_W input) 16 (map (\<lambda>i. sha1_Swap (input32 input i)) [0..<16])"
    by (simp add: scheduled_def sha1_Swap_def input32_def host_load_def ConstSwap_le_word
        fips1_W.simps)
next
  fix n words assume "scheduled (fips1_W input) n words" "16 \<le> n"
  then show "sha1_word words n = fips1_W input n"
    by (subst fips1_W.simps) (simp add: sha1_word_def scheduled_def sha1_rotate_eq)
qed simp

section \<open>Rounds\<close>

lemma fips1_step_let:
  "fips1_step F k w (a, b, c, d, e) =
    (let e' = e + (sha1_rotate a 5 + F b c d + w + k); b' = sha1_rotate b 30 in (e', a, b', c, d))"
  by (simp add: sha1_rotate_eq Let_def algebra_simps)

lemma fips1_step_float: "fips1_step F k w (Let v t) = Let v (\<lambda>x. fips1_step F k w (t x))"
  by (simp add: Let_def)

lemma sha1_iter_steps:
  "sha1_iter F k words r i = foldl (\<lambda>r j. fips1_step F k (words ! (5 * i + j)) r) r [0..<5]"
proof -
  obtain a b c d e where r: "r = (a, b, c, d, e)" by (metis prod.exhaust)
  have "[0..<5] = [0, 1, 2, 3, 4::nat]" by (simp add: upt_rec)
  then show ?thesis
    unfolding r sha1_iter_def
    by (simp only: Let_def [of "5 * i"] foldl.simps fips1_step_let fips1_step_float prod.case add_0_right)
qed

lemma sha1_round_steps:
  "m \<le> n \<Longrightarrow> foldl (sha1_iter F k words) r [m..<n]
    = foldl (\<lambda>r t. fips1_step F k (words ! t) r) r [5 * m..<5 * n]"
proof (induction n)
  case 0
  then show ?case by simp
next
  case (Suc n)
  show ?case
  proof (cases "m = Suc n")
    case True
    then show ?thesis by simp
  next
    case False
    then have "m \<le> n" using Suc.prems by simp
    moreover have "[5 * m..<5 * Suc n] = [5 * m..<5 * n] @ [5 * n..<5 * n + 5]"
      using calculation upt_add_eq_append [of "5 * m" "5 * n" 5] by (simp add: add.commute)
    moreover have "sha1_iter F k words q n
        = foldl (\<lambda>r t. fips1_step F k (words ! t) r) q [5 * n..<5 * n + 5]" for q
      unfolding sha1_iter_steps using foldl_shift [of "\<lambda>t. fips1_step F k (words ! t)" "5 * n" q 5] .
    ultimately show ?thesis using Suc.IH by simp
  qed
qed

lemma sha1_round_eq:
  assumes "scheduled (fips1_W input) 80 words" "m \<le> n" "n \<le> 16"
    and "\<And>t. 5 * m \<le> t \<Longrightarrow> t < 5 * n \<Longrightarrow> F = fips1_f t \<and> k = fips1_K t"
  shows "foldl (sha1_iter F k words) r [m..<n]
    = foldl (\<lambda>r t. fips1_step (fips1_f t) (fips1_K t) (fips1_W input t) r) r [5 * m..<5 * n]"
  unfolding sha1_round_steps [OF assms(2)]
  using assms by (intro foldl_cong) (auto simp: scheduled_def)

lemma SHA1_ProcessBlock_eq:
  assumes "length input = 64"
  shows "SHA1_ProcessBlock H input = fips1_compress H input"
proof -
  note w = sha1_schedule [OF assms]
  have f: "sha1_f1 = fips_Ch" "sha1_f3 = fips_Maj" "sha1_f2 = (\<lambda>x y z. x XOR y XOR z)"
    by (intro ext, simp add: sha1_f1_eq sha1_f3_eq sha1_f2_def)+
  note rounds =
    sha1_round_eq [OF w, of 0 4 sha1_f1 "0x5a827999"] sha1_round_eq [OF w, of 4 8 sha1_f2 "0x6ed9eba1"]
    sha1_round_eq [OF w, of 8 12 sha1_f3 "0x8f1bbcdc"] sha1_round_eq [OF w, of 12 16 sha1_f2 "0xca62c1d6"]
  show ?thesis
    unfolding SHA1_ProcessBlock_def fips1_compress_def Let_def
    using rounds by (simp add: f fips1_K_eq fips1_f_def [abs_def] foldl_upt_join del: upt_rec_numeral)
qed

section \<open>Streaming\<close>

lemma sha1_put_length_eq: "sha1_put_length = be_bytes 8"
  by (rule ext, simp add: sha1_put_length_def be_bytes_def le_bytes_def upt_numeral_rec
      ucast_and_255)

lemma sha1_put_word_eq: "sha1_put_word = be_bytes 4"
  by (rule ext, simp add: sha1_put_word_def be_bytes_def le_bytes_def upt_numeral_rec
      ucast_and_255)

interpretation sha1: md_algorithm SHA1_ProcessBlock sha1_put_length sha1_put_word SHA1_INIT
proof
  show "length (SHA1_ProcessBlock d b) = length SHA1_INIT" for d b
    by (simp add: SHA1_ProcessBlock_def Let_def SHA1_INIT_def split: prod.split del: upt_rec_numeral)
qed (simp_all add: sha1_put_length_def sha1_put_word_def)

lemma sha1_spec_eq:
  "md_spec SHA1_ProcessBlock sha1_put_length sha1_put_word SHA1_INIT msg = fips_sha1 msg"
  unfolding md_spec_def fips_sha1_def sha1_put_length_eq sha1_put_word_eq SHA1_INIT_def
  by (subst md_fold_cong_block [of SHA1_ProcessBlock fips1_compress])
    (simp_all add: SHA1_ProcessBlock_eq)

section \<open>Properties\<close>

text \<open>
  Property C11. The loops of \<^verbatim>\<open>ProcessBlock\<close> of SHA-1 are the compression function of FIPS 180-4, and
  a message handed over in pieces, all but the last of which are multiples of 64 bytes, gives the
  SHA-1 digest of their concatenation, cut to the size of the output, on every \<^verbatim>\<open>Finish\<close>.
\<close>

theorem sha1_message_digest:
  assumes "\<forall>p \<in> set (butlast pieces). 64 dvd length p" and "length input = 64"
  shows "SHA1_ProcessBlock H input = fips1_compress H input
    \<and> (\<exists>s1 s2 s3. process_all SHA1_ProcessBlock pieces SHA1_Reset = Inr s1
    \<and> SHA1_Finish out s1 = Inr (blit out 0 (take (length out) (fips_sha1 (concat pieces))), s2)
    \<and> SHA1_Finish out' s2 = Inr (blit out' 0 (take (length out') (fips_sha1 (concat pieces))), s3))"
  using sha1.hash_aligned [OF assms(1), of out out'] SHA1_ProcessBlock_eq [OF assms(2)]
  by (simp add: SHA1_Finish_def SHA1_Reset_def sha1_spec_eq)

theorem sha1_message_digest_witness:
  "SHA1_ProcessBlock SHA1_INIT (replicate 64 3) = fips1_compress SHA1_INIT (replicate 64 3)
    \<and> (\<exists>s1 s2 s3. process_all SHA1_ProcessBlock [replicate 64 7, [1, 2]] SHA1_Reset = Inr s1
    \<and> SHA1_Finish (replicate 20 0) s1
       = Inr (blit (replicate 20 0) 0 (take 20 (fips_sha1 (replicate 64 7 @ [1, 2]))), s2)
    \<and> SHA1_Finish (replicate 16 0) s2
       = Inr (blit (replicate 16 0) 0 (take 16 (fips_sha1 (replicate 64 7 @ [1, 2]))), s3))"
  using sha1_message_digest [of "[replicate 64 7, [1, 2]]" "replicate 64 3" SHA1_INIT
      "replicate 20 0" "replicate 16 0"] by simp

end
