(* ===== verification/Md5.thy ===== *)
theory Md5
  imports Sha1
begin

text \<open>
  MD5, from \<^verbatim>\<open>MD5.cpp\<close>: the sixteen groups of four lines with rotating registers, proved equal to
  the 64 steps of RFC 1321. The table of the RFC is written out.
\<close>

section \<open>Model\<close>

definition md5_f1 :: "u32 \<Rightarrow> u32 \<Rightarrow> u32 \<Rightarrow> u32" where
  "md5_f1 b c d = d XOR (b AND (c XOR d))"

definition md5_f2 :: "u32 \<Rightarrow> u32 \<Rightarrow> u32 \<Rightarrow> u32" where
  "md5_f2 b c d = c XOR (d AND (b XOR c))"

definition md5_f3 :: "u32 \<Rightarrow> u32 \<Rightarrow> u32 \<Rightarrow> u32" where
  "md5_f3 b c d = b XOR c XOR d"

definition md5_f4 :: "u32 \<Rightarrow> u32 \<Rightarrow> u32 \<Rightarrow> u32" where
  "md5_f4 b c d = c XOR (b OR NOT d)"

definition md5_rotate :: "u32 \<Rightarrow> nat \<Rightarrow> u32" where
  "md5_rotate a c = push_bit c a OR drop_bit (32 - c) a"

text \<open>\<^verbatim>\<open>Swap\<close> is the identity on a little endian host.\<close>

definition md5_Swap :: "bool \<Rightarrow> u32 \<Rightarrow> u32" where
  "md5_Swap host_le x = (if host_le then x else ConstSwap x)"

type_synonym md5_regs = "u32 \<times> u32 \<times> u32 \<times> u32"

text \<open>A group of four lines, with its function, shifts, word numbers and constants.\<close>

definition md5_group ::
  "(u32 \<Rightarrow> u32 \<Rightarrow> u32 \<Rightarrow> u32) \<Rightarrow> nat list \<Rightarrow> u32 list \<Rightarrow> nat list \<Rightarrow> u32 list \<Rightarrow> md5_regs \<Rightarrow> md5_regs" where
  "md5_group F s words x k = (\<lambda>(a, b, c, d).
    (let a = md5_rotate (a + F b c d + words ! (x ! 0) + k ! 0) (s ! 0) + b;
         d = md5_rotate (d + F a b c + words ! (x ! 1) + k ! 1) (s ! 1) + a;
         c = md5_rotate (c + F d a b + words ! (x ! 2) + k ! 2) (s ! 2) + d;
         b = md5_rotate (b + F c d a + words ! (x ! 3) + k ! 3) (s ! 3) + c
     in (a, b, c, d)))"

definition MD5_ProcessBlock :: compression where
  "MD5_ProcessBlock digest input =
    (let r = (digest ! 0, digest ! 1, digest ! 2, digest ! 3);
         words = map (\<lambda>i. md5_Swap True (input32 input i)) [0..<16];
         r = md5_group md5_f1 [7, 12, 17, 22] words [0, 1, 2, 3]
               [0xd76aa478, 0xe8c7b756, 0x242070db, 0xc1bdceee] r;
         r = md5_group md5_f1 [7, 12, 17, 22] words [4, 5, 6, 7]
               [0xf57c0faf, 0x4787c62a, 0xa8304613, 0xfd469501] r;
         r = md5_group md5_f1 [7, 12, 17, 22] words [8, 9, 10, 11]
               [0x698098d8, 0x8b44f7af, 0xffff5bb1, 0x895cd7be] r;
         r = md5_group md5_f1 [7, 12, 17, 22] words [12, 13, 14, 15]
               [0x6b901122, 0xfd987193, 0xa679438e, 0x49b40821] r;
         r = md5_group md5_f2 [5, 9, 14, 20] words [1, 6, 11, 0]
               [0xf61e2562, 0xc040b340, 0x265e5a51, 0xe9b6c7aa] r;
         r = md5_group md5_f2 [5, 9, 14, 20] words [5, 10, 15, 4]
               [0xd62f105d, 0x02441453, 0xd8a1e681, 0xe7d3fbc8] r;
         r = md5_group md5_f2 [5, 9, 14, 20] words [9, 14, 3, 8]
               [0x21e1cde6, 0xc33707d6, 0xf4d50d87, 0x455a14ed] r;
         r = md5_group md5_f2 [5, 9, 14, 20] words [13, 2, 7, 12]
               [0xa9e3e905, 0xfcefa3f8, 0x676f02d9, 0x8d2a4c8a] r;
         r = md5_group md5_f3 [4, 11, 16, 23] words [5, 8, 11, 14]
               [0xfffa3942, 0x8771f681, 0x6d9d6122, 0xfde5380c] r;
         r = md5_group md5_f3 [4, 11, 16, 23] words [1, 4, 7, 10]
               [0xa4beea44, 0x4bdecfa9, 0xf6bb4b60, 0xbebfbc70] r;
         r = md5_group md5_f3 [4, 11, 16, 23] words [13, 0, 3, 6]
               [0x289b7ec6, 0xeaa127fa, 0xd4ef3085, 0x04881d05] r;
         r = md5_group md5_f3 [4, 11, 16, 23] words [9, 12, 15, 2]
               [0xd9d4d039, 0xe6db99e5, 0x1fa27cf8, 0xc4ac5665] r;
         r = md5_group md5_f4 [6, 10, 15, 21] words [0, 7, 14, 5]
               [0xf4292244, 0x432aff97, 0xab9423a7, 0xfc93a039] r;
         r = md5_group md5_f4 [6, 10, 15, 21] words [12, 3, 10, 1]
               [0x655b59c3, 0x8f0ccc92, 0xffeff47d, 0x85845dd1] r;
         r = md5_group md5_f4 [6, 10, 15, 21] words [8, 15, 6, 13]
               [0x6fa87e4f, 0xfe2ce6e0, 0xa3014314, 0x4e0811a1] r;
         r = md5_group md5_f4 [6, 10, 15, 21] words [4, 11, 2, 9]
               [0xf7537e82, 0xbd3af235, 0x2ad7d2bb, 0xeb86d391] r;
         (a, b, c, d) = r
     in [digest ! 0 + a, digest ! 1 + b, digest ! 2 + c, digest ! 3 + d])"

definition md5_put_length :: "u64 \<Rightarrow> byte list" where
  "md5_put_length msgBits =
    (let b0 = ucast (msgBits AND 0xFF); msgBits = drop_bit 8 msgBits;
         b1 = ucast (msgBits AND 0xFF); msgBits = drop_bit 8 msgBits;
         b2 = ucast (msgBits AND 0xFF); msgBits = drop_bit 8 msgBits;
         b3 = ucast (msgBits AND 0xFF); msgBits = drop_bit 8 msgBits;
         b4 = ucast (msgBits AND 0xFF); msgBits = drop_bit 8 msgBits;
         b5 = ucast (msgBits AND 0xFF); msgBits = drop_bit 8 msgBits;
         b6 = ucast (msgBits AND 0xFF); msgBits = drop_bit 8 msgBits;
         b7 = ucast (msgBits AND 0xFF)
     in [b0, b1, b2, b3, b4, b5, b6, b7])"

definition md5_put_word :: "u32 \<Rightarrow> byte list" where
  "md5_put_word w =
    [ucast (w AND 0xFF), ucast (drop_bit 8 w AND 0xFF),
     ucast (drop_bit 16 w AND 0xFF), ucast (drop_bit 24 w AND 0xFF)]"

definition MD5_INIT :: "u32 list" where
  "MD5_INIT = [0x67452301, 0xefcdab89, 0x98badcfe, 0x10325476]"

definition MD5_ProcessBuffer :: "md_state \<Rightarrow> md_state exec" where
  "MD5_ProcessBuffer = process_buffer MD5_ProcessBlock md5_put_length"

definition MD5_Finish :: "byte list \<Rightarrow> md_state \<Rightarrow> (byte list \<times> md_state) exec" where
  "MD5_Finish = finish MD5_ProcessBlock md5_put_length md5_put_word"

definition MD5_Reset :: md_state where
  "MD5_Reset = md_reset MD5_INIT"

section \<open>Specification\<close>

text \<open>RFC 1321, with the functions, the table and the order of words and shifts as it lists them.\<close>

definition rfc_T :: "u32 list" where
  "rfc_T =
  [0xd76aa478, 0xe8c7b756, 0x242070db, 0xc1bdceee, 0xf57c0faf, 0x4787c62a, 0xa8304613, 0xfd469501,
   0x698098d8, 0x8b44f7af, 0xffff5bb1, 0x895cd7be, 0x6b901122, 0xfd987193, 0xa679438e, 0x49b40821,
   0xf61e2562, 0xc040b340, 0x265e5a51, 0xe9b6c7aa, 0xd62f105d, 0x02441453, 0xd8a1e681, 0xe7d3fbc8,
   0x21e1cde6, 0xc33707d6, 0xf4d50d87, 0x455a14ed, 0xa9e3e905, 0xfcefa3f8, 0x676f02d9, 0x8d2a4c8a,
   0xfffa3942, 0x8771f681, 0x6d9d6122, 0xfde5380c, 0xa4beea44, 0x4bdecfa9, 0xf6bb4b60, 0xbebfbc70,
   0x289b7ec6, 0xeaa127fa, 0xd4ef3085, 0x04881d05, 0xd9d4d039, 0xe6db99e5, 0x1fa27cf8, 0xc4ac5665,
   0xf4292244, 0x432aff97, 0xab9423a7, 0xfc93a039, 0x655b59c3, 0x8f0ccc92, 0xffeff47d, 0x85845dd1,
   0x6fa87e4f, 0xfe2ce6e0, 0xa3014314, 0x4e0811a1, 0xf7537e82, 0xbd3af235, 0x2ad7d2bb, 0xeb86d391]"

definition rfc_F :: "nat \<Rightarrow> u32 \<Rightarrow> u32 \<Rightarrow> u32 \<Rightarrow> u32" where
  "rfc_F i x y z =
    (if i < 16 then (x AND y) OR (NOT x AND z) else if i < 32 then (x AND z) OR (y AND NOT z)
     else if i < 48 then x XOR y XOR z else y XOR (x OR NOT z))"

definition rfc_index :: "nat \<Rightarrow> nat" where
  "rfc_index i = (if i < 16 then i else if i < 32 then (5 * i + 1) mod 16
     else if i < 48 then (3 * i + 5) mod 16 else (7 * i) mod 16)"

definition rfc_shift :: "nat \<Rightarrow> nat" where
  "rfc_shift i = [7, 12, 17, 22, 5, 9, 14, 20, 4, 11, 16, 23, 6, 10, 15, 21] ! (4 * (i div 16) + i mod 4)"

fun rfc_step :: "(u32 \<Rightarrow> u32 \<Rightarrow> u32 \<Rightarrow> u32) \<Rightarrow> nat \<Rightarrow> u32 \<Rightarrow> u32 \<Rightarrow> md5_regs \<Rightarrow> md5_regs" where
  "rfc_step F s w k (a, b, c, d) = (d, b + rotl s (a + F b c d + w + k), b, c)"

definition rfc_compress :: compression where
  "rfc_compress H input =
    (let (a, b, c, d) =
       foldl (\<lambda>r i. rfc_step (rfc_F i) (rfc_shift i)
           (le_word (slice (4 * rfc_index i) 4 input)) (rfc_T ! i) r)
         (H ! 0, H ! 1, H ! 2, H ! 3) [0..<64]
     in [H ! 0 + a, H ! 1 + b, H ! 2 + c, H ! 3 + d])"

definition rfc_md5 :: "byte list \<Rightarrow> byte list" where
  "rfc_md5 msg = md_spec rfc_compress (le_bytes 8) (le_bytes 4)
     [0x67452301, 0xefcdab89, 0x98badcfe, 0x10325476] msg"

section \<open>Groups\<close>

lemma md5_f_eq:
  "md5_f1 = rfc_F 0" "md5_f2 = rfc_F 16" "md5_f3 = rfc_F 32" "md5_f4 = rfc_F 48"
  by (intro ext bit_word_eqI,
      auto simp: md5_f1_def md5_f2_def md5_f3_def md5_f4_def rfc_F_def bit_simps)+

lemma rfc_F_round:
  "16 * (i div 16) = j \<Longrightarrow> i < 64 \<Longrightarrow> rfc_F i = rfc_F j"
  by (intro ext) (auto simp: rfc_F_def)

lemma rfc_step_let:
  assumes "0 < s" "s < 32"
  shows "rfc_step F s w k (a, b, c, d) = (let a' = md5_rotate (a + F b c d + w + k) s + b in (d, a', b, c))"
proof -
  have "md5_rotate v s = rotl s v" for v
    using sha1_rotate_eq [OF assms, of v] by (simp add: md5_rotate_def sha1_rotate_def)
  then show ?thesis by (simp add: add.commute)
qed

lemma rfc_step_float: "rfc_step F s w k (Let v t) = Let v (\<lambda>x. rfc_step F s w k (t x))"
  by (simp add: Let_def)

lemma md5_group_steps:
  assumes "\<forall>j < 4. 0 < s ! j \<and> s ! j < 32"
  shows "md5_group F s words x k r =
    foldl (\<lambda>r j. rfc_step F (s ! j) (words ! (x ! j)) (k ! j) r) r [0..<4]"
proof -
  obtain a b c d where r: "r = (a, b, c, d)" by (metis prod.exhaust)
  have ix: "[0..<4] = [0, 1, 2, 3::nat]" by (simp add: upt_rec)
  have "0 < s ! 0" "s ! 0 < 32" "0 < s ! 1" "s ! 1 < 32" "0 < s ! 2" "s ! 2 < 32" "0 < s ! 3" "s ! 3 < 32"
    using assms by auto
  then show ?thesis
    unfolding r md5_group_def
    by (simp only: ix foldl.simps rfc_step_let rfc_step_float prod.case)
qed

text \<open>A group of \<^verbatim>\<open>ProcessBlock\<close> is four steps of the RFC when its literals are those of the RFC.\<close>

lemma md5_group_eq:
  assumes "length input = 64" and "n + 4 \<le> 64"
    and "s = map rfc_shift [n..<n + 4]" "x = map rfc_index [n..<n + 4]" "k = take 4 (drop n rfc_T)"
    and "\<forall>i \<in> set [n..<n + 4]. F = rfc_F i"
  shows "md5_group F s (map (\<lambda>i. md5_Swap True (input32 input i)) [0..<16]) x k r =
    foldl (\<lambda>r i. rfc_step (rfc_F i) (rfc_shift i)
       (le_word (slice (4 * rfc_index i) 4 input)) (rfc_T ! i) r) r [n..<n + 4]"
proof -
  have sh: "0 < rfc_shift i \<and> rfc_shift i < 32" if "i < 64" for i
  proof -
    have "i div 16 < 4" "i mod 4 < 4" using that by simp_all
    then have "4 * (i div 16) + i mod 4 < 16" by linarith
    then have "rfc_shift i \<in> set [7, 12, 17, 22, 5, 9, 14, 20, 4, 11, 16, 23, 6, 10, 15, 21]"
      unfolding rfc_shift_def by (intro nth_mem) simp
    then show ?thesis by auto
  qed
  have idx: "rfc_index i < 16" if "i < 64" for i using that by (auto simp: rfc_index_def)
  have T: "length rfc_T = 64" by (simp add: rfc_T_def)
  have "md5_group F s (map (\<lambda>i. md5_Swap True (input32 input i)) [0..<16]) x k r =
    foldl (\<lambda>r j. rfc_step (rfc_F (n + j)) (rfc_shift (n + j))
       (le_word (slice (4 * rfc_index (n + j)) 4 input)) (rfc_T ! (n + j)) r) r [0..<4]"
  proof -
    let ?w = "map (\<lambda>i. md5_Swap True (input32 input i)) [0..<16]"
    have "\<forall>j < 4. 0 < s ! j \<and> s ! j < 32" using sh assms(2,3) by simp
    note group = md5_group_steps [OF this, of F ?w x k r]
    have "rfc_step F (s ! j) (?w ! (x ! j)) (k ! j) q = rfc_step (rfc_F (n + j)) (rfc_shift (n + j))
        (le_word (slice (4 * rfc_index (n + j)) 4 input)) (rfc_T ! (n + j)) q"
      if "j \<in> set [0..<4]" for j q
    proof -
      from that have j: "j < 4" by simp
      then have "F = rfc_F (n + j)" using assms(6) by simp
      moreover have "?w ! (x ! j) = le_word (slice (4 * rfc_index (n + j)) 4 input)"
        using j assms(2,4) idx [of "n + j"] by (simp add: md5_Swap_def input32_def host_load_def)
      moreover have "s ! j = rfc_shift (n + j)" "k ! j = rfc_T ! (n + j)"
        using j assms(2,3,5) T by simp_all
      ultimately show ?thesis by simp
    qed
    then show ?thesis unfolding group by (intro foldl_cong) simp_all
  qed
  then show ?thesis
    using foldl_shift [of "\<lambda>i. rfc_step (rfc_F i) (rfc_shift i)
       (le_word (slice (4 * rfc_index i) 4 input)) (rfc_T ! i)" n r 4] by simp
qed

text \<open>The group that starts at step \<open>n\<close>, with the literals computed from the RFC.\<close>

definition rfc_group :: "byte list \<Rightarrow> md5_regs \<Rightarrow> nat \<Rightarrow> md5_regs" where
  "rfc_group input r n = md5_group (rfc_F (16 * (n div 16))) (map rfc_shift [n..<n + 4])
     (map (\<lambda>i. md5_Swap True (input32 input i)) [0..<16]) (map rfc_index [n..<n + 4])
     (take 4 (drop n rfc_T)) r"

lemma rfc_groups_steps:
  assumes "length input = 64" "m \<le> 16"
  shows "foldl (rfc_group input) r (map ((*) 4) [0..<m]) =
    foldl (\<lambda>r i. rfc_step (rfc_F i) (rfc_shift i)
       (le_word (slice (4 * rfc_index i) 4 input)) (rfc_T ! i) r) r [0..<4 * m]"
  using assms(2)
proof (induction m)
  case 0
  then show ?case by simp
next
  case (Suc m)
  have "rfc_F (16 * (4 * m div 16)) = rfc_F i" if "i \<in> set [4 * m..<4 * m + 4]" for i
  proof -
    have "i div 4 = m" using that by (intro div_nat_eqI) auto
    then have "4 * m div 16 = i div 16"
      using div_mult2_eq [of i 4 4] div_mult2_eq [of "4 * m" 4 4] by simp
    then show ?thesis using that Suc.prems by (intro rfc_F_round [symmetric]) auto
  qed
  then have "rfc_group input q (4 * m) = foldl (\<lambda>r i. rfc_step (rfc_F i) (rfc_shift i)
       (le_word (slice (4 * rfc_index i) 4 input)) (rfc_T ! i) r) q [4 * m..<4 * m + 4]" for q
    unfolding rfc_group_def using Suc.prems by (intro md5_group_eq assms(1)) auto
  moreover have "[0..<4 * Suc m] = [0..<4 * m] @ [4 * m..<4 * m + 4]"
    using upt_add_eq_append [of 0 "4 * m" 4] by (simp add: add.commute)
  ultimately show ?case using Suc by simp
qed

lemma MD5_ProcessBlock_groups:
  "MD5_ProcessBlock H input =
    (let (a, b, c, d) = foldl (rfc_group input) (H ! 0, H ! 1, H ! 2, H ! 3) (map ((*) 4) [0..<16])
     in [H ! 0 + a, H ! 1 + b, H ! 2 + c, H ! 3 + d])"
proof -
  have "map ((*) 4) [0..<16] = [0, 4, 8, 12, 16, 20, 24, 28, 32, 36, 40, 44, 48, 52, 56, 60::nat]"
    by (simp add: upt_rec)
  moreover have "[0..<4] = [0, 1, 2, 3::nat]" by (simp add: upt_rec)
  ultimately show ?thesis
    unfolding MD5_ProcessBlock_def Let_def rfc_group_def md5_f_eq
    by (simp only: foldl.simps) (simp add: rfc_shift_def rfc_index_def rfc_T_def)
qed

lemma MD5_ProcessBlock_eq:
  assumes "length input = 64"
  shows "MD5_ProcessBlock H input = rfc_compress H input"
  unfolding MD5_ProcessBlock_groups rfc_compress_def
  using rfc_groups_steps [OF assms, of 16] by (simp del: upt_rec_numeral)

section \<open>Streaming\<close>

lemma md5_put_length_eq: "md5_put_length = le_bytes 8"
  by (rule ext, simp add: md5_put_length_def le_bytes_def upt_numeral_rec ucast_and_255 Let_def
      drop_bit_drop_bit)

lemma md5_put_word_eq: "md5_put_word = le_bytes 4"
  by (rule ext, simp add: md5_put_word_def le_bytes_def upt_numeral_rec ucast_and_255)

interpretation md5: md_algorithm MD5_ProcessBlock md5_put_length md5_put_word MD5_INIT
proof
  show "length (MD5_ProcessBlock d b) = length MD5_INIT" for d b
    by (simp add: MD5_ProcessBlock_def Let_def MD5_INIT_def split: prod.split)
qed (simp_all add: md5_put_length_eq md5_put_word_def)

lemma md5_spec_eq:
  "md_spec MD5_ProcessBlock md5_put_length md5_put_word MD5_INIT msg = rfc_md5 msg"
  unfolding md_spec_def rfc_md5_def md5_put_length_eq md5_put_word_eq MD5_INIT_def
  by (subst md_fold_cong_block [of MD5_ProcessBlock rfc_compress])
    (simp_all add: MD5_ProcessBlock_eq)

section \<open>Properties\<close>

text \<open>
  Property C12. The groups of \<^verbatim>\<open>ProcessBlock\<close> of MD5 are the 64 steps of RFC 1321, and a message handed
  over in pieces, all but the last of which are multiples of 64 bytes, gives the MD5 digest of their
  concatenation, cut to the size of the output, on every \<^verbatim>\<open>Finish\<close>.
\<close>

theorem md5_message_digest:
  assumes "\<forall>p \<in> set (butlast pieces). 64 dvd length p" and "length input = 64"
  shows "MD5_ProcessBlock H input = rfc_compress H input
    \<and> (\<exists>s1 s2 s3. process_all MD5_ProcessBlock pieces MD5_Reset = Inr s1
    \<and> MD5_Finish out s1 = Inr (blit out 0 (take (length out) (rfc_md5 (concat pieces))), s2)
    \<and> MD5_Finish out' s2 = Inr (blit out' 0 (take (length out') (rfc_md5 (concat pieces))), s3))"
  using md5.hash_aligned [OF assms(1), of out out'] MD5_ProcessBlock_eq [OF assms(2)]
  by (simp add: MD5_Finish_def MD5_Reset_def md5_spec_eq)

theorem md5_message_digest_witness:
  "MD5_ProcessBlock MD5_INIT (replicate 64 3) = rfc_compress MD5_INIT (replicate 64 3)
    \<and> (\<exists>s1 s2 s3. process_all MD5_ProcessBlock [replicate 64 7, [1, 2]] MD5_Reset = Inr s1
    \<and> MD5_Finish (replicate 16 0) s1
       = Inr (blit (replicate 16 0) 0 (take 16 (rfc_md5 (replicate 64 7 @ [1, 2]))), s2)
    \<and> MD5_Finish (replicate 4 0) s2
       = Inr (blit (replicate 4 0) 0 (take 4 (rfc_md5 (replicate 64 7 @ [1, 2]))), s3))"
  using md5_message_digest [of "[replicate 64 7, [1, 2]]" "replicate 64 3" MD5_INIT
      "replicate 16 0" "replicate 4 0"] by simp

end
