(* ===== verification/Hmac.thy ===== *)
theory Hmac
  imports Md5
begin

text \<open>
  HMAC, from \<^verbatim>\<open>HMAC.cpp\<close> and \<^verbatim>\<open>Impl/Hash.h\<close>. The template parameter \<^verbatim>\<open>Method\<close> is a record with
  the operations of a hash; \<open>hmac_internal\<close> runs three hash objects over the key block and the
  data as the code does. It is proved once, inside the interface \<open>md_algorithm\<close>, to compute RFC 2104
  over the hash of whole messages.
\<close>

section \<open>Model\<close>

record hash_method =
  mt_block :: compression
  mt_put_length :: "u64 \<Rightarrow> byte list"
  mt_put_word :: "u32 \<Rightarrow> byte list"
  mt_init :: "u32 list"
  mt_SIZE :: nat

datatype MdHashType = Md5_Type | Sha1_Type | Sha256_Type

fun hash_method_of :: "MdHashType \<Rightarrow> hash_method" where
  "hash_method_of Md5_Type = \<lparr>mt_block = MD5_ProcessBlock, mt_put_length = md5_put_length,
     mt_put_word = md5_put_word, mt_init = MD5_INIT, mt_SIZE = 16\<rparr>"
| "hash_method_of Sha1_Type = \<lparr>mt_block = SHA1_ProcessBlock, mt_put_length = sha1_put_length,
     mt_put_word = sha1_put_word, mt_init = SHA1_INIT, mt_SIZE = 20\<rparr>"
| "hash_method_of Sha256_Type = \<lparr>mt_block = SHA256_ProcessBlock, mt_put_length = sha256_put_length,
     mt_put_word = sha256_put_word, mt_init = SHA256_INIT, mt_SIZE = 32\<rparr>"

text \<open>A hash object that lives for the given inputs, then writes into \<open>out\<close>.\<close>

definition run_method :: "hash_method \<Rightarrow> byte list list \<Rightarrow> byte list \<Rightarrow> byte list exec" where
  "run_method M inputs out =
    and_then (process_all (mt_block M) inputs (md_reset (mt_init M))) (\<lambda>m.
    and_then (finish (mt_block M) (mt_put_length M) (mt_put_word M) out m) (\<lambda>(digest, _).
    Inr digest))"

definition hmac_internal :: "hash_method \<Rightarrow> byte list \<Rightarrow> byte list \<Rightarrow> byte list \<Rightarrow> byte list exec" where
  "hmac_internal M key data out =
    and_then (fusion_assert (length out \<ge> mt_SIZE M)) (\<lambda>_.
    let hmac0 = replicate 64 (0 :: byte);
        span = slice 0 (mt_SIZE M) hmac0 in
    and_then
      (if length key \<le> 64 then memcpy hmac0 0 key
       else and_then (run_method M [key] span) (\<lambda>span. memcpy hmac0 0 span)) (\<lambda>hmac.
    let hmac = map (\<lambda>h. h XOR 0x36) hmac in
    and_then (run_method M [hmac, data] (replicate (mt_SIZE M) 0)) (\<lambda>digest.
    let hmac = map (\<lambda>h. h XOR (0x5C XOR 0x36)) hmac in
    run_method M [hmac, digest] out)))"

definition HMAC :: "byte list \<Rightarrow> byte list \<Rightarrow> byte list \<Rightarrow> MdHashType \<Rightarrow> byte list exec" where
  "HMAC key data out type = hmac_internal (hash_method_of type) key data out"

section \<open>Specification\<close>

text \<open>RFC 2104 with a block size of 64 bytes.\<close>

definition rfc_hmac :: "(byte list \<Rightarrow> byte list) \<Rightarrow> byte list \<Rightarrow> byte list \<Rightarrow> byte list" where
  "rfc_hmac H key text =
    (let k0 = (if length key > 64 then H key else key);
         k = k0 @ replicate (64 - length k0) 0
     in H (map (\<lambda>b. b XOR 0x5C) k @ H (map (\<lambda>b. b XOR 0x36) k @ text)))"

fun standard_hash :: "MdHashType \<Rightarrow> byte list \<Rightarrow> byte list" where
  "standard_hash Md5_Type = rfc_md5"
| "standard_hash Sha1_Type = fips_sha1"
| "standard_hash Sha256_Type = fips_sha256"

section \<open>Correctness\<close>

lemma xor_pads: "((b :: byte) XOR 0x36) XOR (0x5C XOR 0x36) = b XOR 0x5C"
  by (simp add: xor.assoc xor.left_commute)

lemma xor_opad:
  "map (\<lambda>h. h XOR (0x5C XOR 0x36)) (map (\<lambda>h. h XOR 0x36) ks) = map (\<lambda>h. h XOR 0x5C) (ks :: byte list)"
  by (simp only: map_map comp_def xor_pads)

lemma blit_full: "length src = length dst \<Longrightarrow> blit dst 0 src = src"
  by (simp add: blit_def)

context md_algorithm
begin

definition method_here :: hash_method where
  "method_here = \<lparr>mt_block = block, mt_put_length = put_length, mt_put_word = put_word,
     mt_init = init, mt_SIZE = 4 * length init\<rparr>"

lemma run_method_spec:
  assumes "\<forall>p \<in> set (butlast inputs). 64 dvd length p"
  shows "run_method method_here inputs out =
    Inr (blit out 0 (take (length out) (md_spec block put_length put_word init (concat inputs))))"
  using hash_aligned [OF assms, of out out] by (auto simp: run_method_def method_here_def)

lemma hmac_internal_spec:
  assumes "4 * length init \<le> 64"
  shows "hmac_internal method_here key data out =
    (if length out < 4 * length init then Inl Assert_Failed
     else Inr (blit out 0 (rfc_hmac (md_spec block put_length put_word init) key data)))"
proof (cases "length out < 4 * length init")
  case True
  then show ?thesis by (simp add: hmac_internal_def method_here_def)
next
  case False
  let ?H = "md_spec block put_length put_word init"
  let ?k0 = "if length key > 64 then ?H key else key"
  let ?k = "?k0 @ replicate (64 - length ?k0) 0"
  have k0: "length ?k0 \<le> 64" using assms by (simp add: length_md_spec)
  have span: "run_method method_here [key] (slice 0 (4 * length init) (replicate 64 0)) = Inr (?H key)"
    using run_method_spec [of "[key]"] assms by (simp add: blit_full length_md_spec)
  have key: "(if length key \<le> 64 then memcpy (replicate 64 0) 0 key
      else and_then (run_method method_here [key] (slice 0 (4 * length init) (replicate 64 0)))
        (\<lambda>span. memcpy (replicate 64 0) 0 span)) = Inr ?k"
    using k0 assms by (simp add: span memcpy_def blit_def length_md_spec)
  have inner: "run_method method_here [map (\<lambda>h. h XOR 0x36) ?k, data] (replicate (4 * length init) 0)
      = Inr (?H (map (\<lambda>h. h XOR 0x36) ?k @ data))"
    using run_method_spec [of "[map (\<lambda>h. h XOR 0x36) ?k, data]"] k0
    by (simp add: blit_full length_md_spec)
  have outer: "run_method method_here [map (\<lambda>h. h XOR (0x5C XOR 0x36)) (map (\<lambda>h. h XOR 0x36) ?k), d] out
      = Inr (blit out 0 (?H (map (\<lambda>h. h XOR 0x5C) ?k @ d)))" for d
    unfolding xor_opad
    using run_method_spec [of "[map (\<lambda>h. h XOR 0x5C) ?k, d]" out] k0 False
    by (simp add: length_md_spec)
  have size: "mt_SIZE method_here = 4 * length init" by (simp add: method_here_def)
  show ?thesis
    using False unfolding hmac_internal_def Let_def size key
    by (simp only: inner outer and_then.simps fusion_assert_True not_less) (simp add: rfc_hmac_def Let_def)
qed

end

lemmas hash_sizes = MD5_INIT_def SHA1_INIT_def SHA256_INIT_def

lemma hash_method_of_eq:
  "hash_method_of Md5_Type = md5.method_here" "hash_method_of Sha1_Type = sha1.method_here"
  "hash_method_of Sha256_Type = sha256.method_here"
  unfolding md5.method_here_def sha1.method_here_def sha256.method_here_def
  by (simp_all add: hash_sizes)

lemma standard_hash_eq:
  "standard_hash Md5_Type = md_spec MD5_ProcessBlock md5_put_length md5_put_word MD5_INIT"
  "standard_hash Sha1_Type = md_spec SHA1_ProcessBlock sha1_put_length sha1_put_word SHA1_INIT"
  "standard_hash Sha256_Type = md_spec SHA256_ProcessBlock sha256_put_length sha256_put_word SHA256_INIT"
  by (simp_all add: fun_eq_iff md5_spec_eq sha1_spec_eq sha256_spec_eq)

section \<open>Properties\<close>

text \<open>
  Property C2. \<^verbatim>\<open>HMAC\<close> fails its assertion exactly when the output is smaller than the digest of the
  chosen hash; otherwise it writes RFC 2104 over MD5, SHA-1 or SHA-256 at the start of the output and
  changes nothing after it.
\<close>

theorem hmac_correct:
  "HMAC key data out type =
    (if length out < mt_SIZE (hash_method_of type) then Inl Assert_Failed
     else Inr (blit out 0 (rfc_hmac (standard_hash type) key data)))"
proof (cases type)
  case Md5_Type
  then show ?thesis using md5.hmac_internal_spec [of key data out]
    unfolding HMAC_def Md5_Type hash_method_of_eq standard_hash_eq md5.method_here_def
    by (simp add: hash_sizes)
next
  case Sha1_Type
  then show ?thesis using sha1.hmac_internal_spec [of key data out]
    unfolding HMAC_def Sha1_Type hash_method_of_eq standard_hash_eq sha1.method_here_def
    by (simp add: hash_sizes)
next
  case Sha256_Type
  then show ?thesis using sha256.hmac_internal_spec [of key data out]
    unfolding HMAC_def Sha256_Type hash_method_of_eq standard_hash_eq sha256.method_here_def
    by (simp add: hash_sizes)
qed

end
