(* ===== verification/Fnv.thy ===== *)
theory Fnv
  imports String_Util
begin

text \<open>
  The FNV hashes of \<^verbatim>\<open>Hash.h\<close> and \<^verbatim>\<open>Impl/Hash.h\<close>: \<^verbatim>\<open>FNVA\<close> and \<^verbatim>\<open>FNV1A\<close> over 32 and 64 bit words, and
  the accumulating class \<^verbatim>\<open>FNV<Algorithm>\<close>, whose template parameter is the argument \<open>hash\<close>.
\<close>

section \<open>Model\<close>

definition FnvSeed32_seed :: u32 where
  "FnvSeed32_seed = 2166136261"

definition FnvSeed32_prime :: u32 where
  "FnvSeed32_prime = 16777619"

definition FnvSeed64_seed :: u64 where
  "FnvSeed64_seed = 14695981039346656037"

definition FnvSeed64_prime :: u64 where
  "FnvSeed64_prime = 1099511628211"

fun FNVA_Hash :: "byte list \<Rightarrow> 'a::len word \<Rightarrow> 'a word \<Rightarrow> 'a word" where
  "FNVA_Hash [] seed prime = seed"
| "FNVA_Hash (d # ds) seed prime = FNVA_Hash ds ((seed * prime) XOR ucast d) prime"

fun FNV1A_Hash :: "byte list \<Rightarrow> 'a::len word \<Rightarrow> 'a word \<Rightarrow> 'a word" where
  "FNV1A_Hash [] seed prime = seed"
| "FNV1A_Hash (d # ds) seed prime = FNV1A_Hash ds ((seed XOR ucast d) * prime) prime"

type_synonym 'w fnv_hash = "byte list \<Rightarrow> 'w \<Rightarrow> 'w \<Rightarrow> 'w"

record 'w fnv =
  m_seed :: 'w

definition FNV_new :: "'w \<Rightarrow> 'w fnv" where
  "FNV_new seed = \<lparr>m_seed = seed\<rparr>"

definition FNV_Data :: "'w fnv_hash \<Rightarrow> 'w \<Rightarrow> byte list \<Rightarrow> 'w fnv \<Rightarrow> 'w fnv" where
  "FNV_Data hash prime d s = s\<lparr>m_seed := hash d (m_seed s) prime\<rparr>"

text \<open>\<open>str\<close> is the memory from the pointer on; the string ends at its first zero byte.\<close>

definition FNV_String :: "'w fnv_hash \<Rightarrow> 'w \<Rightarrow> byte list \<Rightarrow> 'w fnv \<Rightarrow> 'w fnv exec" where
  "FNV_String hash prime str s =
     and_then (Length_cstr str) (\<lambda>n. Inr (FNV_Data hash prime (take n str) s))"

definition FNV_Reset :: "'w \<Rightarrow> 'w fnv \<Rightarrow> 'w fnv" where
  "FNV_Reset seed s = s\<lparr>m_seed := seed\<rparr>"

definition FNV_Done :: "'w fnv \<Rightarrow> 'w" where
  "FNV_Done s = m_seed s"

definition FNV_Hash :: "'w fnv_hash \<Rightarrow> 'w \<Rightarrow> 'w \<Rightarrow> byte list \<Rightarrow> 'w" where
  "FNV_Hash hash seed prime d = FNV_Done (FNV_Data hash prime d (FNV_new seed))"

section \<open>Lemmas\<close>

lemma FNVA_Hash_append: "FNVA_Hash (a @ b) seed p = FNVA_Hash b (FNVA_Hash a seed p) p"
  by (induction a arbitrary: seed) simp_all

lemma FNV1A_Hash_append: "FNV1A_Hash (a @ b) seed p = FNV1A_Hash b (FNV1A_Hash a seed p) p"
  by (induction a arbitrary: seed) simp_all

lemma xor_cancel: "(x XOR z = y XOR z) = (x = (y :: 'a::len word))" "(z XOR x = z XOR y) = (x = y)"
  by (metis xor.commute xor.left_commute xor_self_eq xor.right_neutral)+

lemma ucast_byte_inject:
  assumes "8 \<le> LENGTH('a)"
  shows "(ucast (x :: byte) = (ucast y :: 'a::len word)) = (x = y)"
proof
  assume eq: "(ucast x :: 'a word) = ucast y"
  have "bit x n = bit y n" if "n < 8" for n
    using arg_cong [OF eq, of "\<lambda>w. bit w n"] that assms by (simp add: bit_simps)
  then show "x = y" by (intro bit_word_eqI) simp
qed simp

text \<open>Multiplication by a number with an inverse loses nothing, so neither does the rest of the hash.\<close>

lemma mult_unit_cancel: "(p :: 'a::len word) * q = 1 \<Longrightarrow> (x * p = y * p) = (x = y)"
  by (metis mult.assoc mult_1_right)

lemma FNVA_Hash_seed_inject:
  "p * q = 1 \<Longrightarrow> (FNVA_Hash d x p = FNVA_Hash d y p) = (x = (y :: 'a::len word))"
  by (induction d arbitrary: x y) (simp_all add: xor_cancel mult_unit_cancel)

lemma FNV1A_Hash_seed_inject:
  "p * q = 1 \<Longrightarrow> (FNV1A_Hash d x p = FNV1A_Hash d y p) = (x = (y :: 'a::len word))"
  by (induction d arbitrary: x y) (simp_all add: xor_cancel mult_unit_cancel)

lemma fnv_primes_units: "FnvSeed32_prime * 899433627 = 1" "FnvSeed64_prime * 14886173955864302971 = 1"
  by (simp_all add: FnvSeed32_prime_def FnvSeed64_prime_def)

lemmas fnv_simps = FNV_Hash_def FNV_Done_def FNV_Data_def FNV_new_def
  FNVA_Hash_append FNV1A_Hash_append

section \<open>Properties\<close>

text \<open>
  Data added to an \<^verbatim>\<open>FNV\<close> object in two calls gives the hash of the concatenation, and two
  inputs that differ in exactly one byte have different hashes, for \<^verbatim>\<open>FNV32\<close>, \<^verbatim>\<open>FNV64\<close>, \<^verbatim>\<open>FNV1A32\<close> and
  \<^verbatim>\<open>FNV1A64\<close>.
\<close>

theorem fnv_streams_and_separates:
  assumes "x \<noteq> y"
  shows "FNV_Done (FNV_Data FNVA_Hash p b (FNV_Data FNVA_Hash p a (FNV_new s)))
      = FNV_Hash FNVA_Hash s p (a @ b)
    \<and> FNV_Done (FNV_Data FNV1A_Hash p b (FNV_Data FNV1A_Hash p a (FNV_new s)))
      = FNV_Hash FNV1A_Hash s p (a @ b)
    \<and> FNV_Hash FNVA_Hash FnvSeed32_seed FnvSeed32_prime (a @ x # b)
      \<noteq> FNV_Hash FNVA_Hash FnvSeed32_seed FnvSeed32_prime (a @ y # b)
    \<and> FNV_Hash FNVA_Hash FnvSeed64_seed FnvSeed64_prime (a @ x # b)
      \<noteq> FNV_Hash FNVA_Hash FnvSeed64_seed FnvSeed64_prime (a @ y # b)
    \<and> FNV_Hash FNV1A_Hash FnvSeed32_seed FnvSeed32_prime (a @ x # b)
      \<noteq> FNV_Hash FNV1A_Hash FnvSeed32_seed FnvSeed32_prime (a @ y # b)
    \<and> FNV_Hash FNV1A_Hash FnvSeed64_seed FnvSeed64_prime (a @ x # b)
      \<noteq> FNV_Hash FNV1A_Hash FnvSeed64_seed FnvSeed64_prime (a @ y # b)"
  using assms
  by (simp add: fnv_simps fnv_primes_units [THEN FNVA_Hash_seed_inject]
      fnv_primes_units [THEN FNV1A_Hash_seed_inject] fnv_primes_units [THEN mult_unit_cancel]
      xor_cancel ucast_byte_inject)

theorem fnv_streams_and_separates_witness:
  "FNV_Hash FNV1A_Hash FnvSeed32_seed FnvSeed32_prime [7, 1, 9]
    \<noteq> FNV_Hash FNV1A_Hash FnvSeed32_seed FnvSeed32_prime [7, 2, 9]"
proof -
  have "(1 :: byte) \<noteq> 2" by simp
  from fnv_streams_and_separates [OF this, of "0 :: u32" "[9]" "[7]" 0] show ?thesis
    unfolding append.simps by blast
qed

end
