(* ===== verification/Memory_Stream.thy ===== *)
theory Memory_Stream
  imports String_Util Endian
begin

text \<open>
  \<^verbatim>\<open>MemoryReader\<close> and \<^verbatim>\<open>MemoryWriter\<close> of \<^verbatim>\<open>Memory.h\<close> and \<^verbatim>\<open>Memory.cpp\<close>. The memory behind the pointer is a
  list of bytes, offsets and sizes are 64 bit words: the sums in the bounds checks wrap as
  \<^verbatim>\<open>size_t\<close> does. A span is the pair of its start and length; whether it lies in the memory is a question
  about the pair.
\<close>

section \<open>MemoryReader\<close>

record reader =
  r_data :: "byte list"
  r_offset :: u64
  r_size :: u64

definition MemoryReader :: "byte list \<Rightarrow> reader" where
  "MemoryReader data = \<lparr>r_data = data, r_offset = 0, r_size = of_nat (length data)\<rparr>"

definition reader_Offset :: "reader \<Rightarrow> u64" where
  "reader_Offset r = r_offset r"

definition reader_Size :: "reader \<Rightarrow> u64" where
  "reader_Size r = r_size r"

definition reader_Remaining :: "reader \<Rightarrow> u64" where
  "reader_Remaining r = r_size r - r_offset r"

definition reader_Seek :: "u64 \<Rightarrow> reader \<Rightarrow> reader exec" where
  "reader_Seek offset r =
     and_then (fusion_assert (offset < r_size r)) (\<lambda>_. Inr (r\<lparr>r_offset := offset\<rparr>))"

definition reader_Reset :: "reader \<Rightarrow> reader exec" where
  "reader_Reset r = reader_Seek 0 r"

definition reader_Skip :: "u64 \<Rightarrow> reader \<Rightarrow> reader exec" where
  "reader_Skip count r = reader_Seek (r_offset r + count) r"

text \<open>
  The accesses \<^verbatim>\<open>m_data[m_offset]\<close>, ..., \<^verbatim>\<open>m_data[m_offset + n - 1]\<close> of one read, and the step of
  the offset after them.
\<close>

definition load_bytes :: "nat \<Rightarrow> reader \<Rightarrow> byte list exec" where
  "load_bytes n r =
     (if unat (r_offset r) + n \<le> length (r_data r) then Inr (slice (unat (r_offset r)) n (r_data r))
      else Inl Out_Of_Bounds)"

definition take_value :: "nat \<Rightarrow> (byte list \<Rightarrow> 'v) \<Rightarrow> reader \<Rightarrow> ('v \<times> reader) exec" where
  "take_value n val r =
     and_then (load_bytes n r) (\<lambda>b. Inr (val b, r\<lparr>r_offset := r_offset r + of_nat n\<rparr>))"

definition reader_Read :: "reader \<Rightarrow> (byte \<times> reader) exec" where
  "reader_Read r = (if r_offset r \<le> r_size r then take_value 1 (\<lambda>b. b ! 0) r else Inr (0, r))"

definition reader_Read_at :: "u64 \<Rightarrow> reader \<Rightarrow> (byte \<times> reader) exec" where
  "reader_Read_at offset r =
     (if offset \<le> r_size r then and_then (reader_Seek offset r) (take_value 1 (\<lambda>b. b ! 0))
      else Inr (0, r))"

text \<open>The common body of the reads of 2, 4 and 8 bytes; \<open>limit\<close> is the number in the bounds check.\<close>

definition read_fixed :: "u64 \<Rightarrow> nat \<Rightarrow> (byte list \<Rightarrow> 'a::len word) \<Rightarrow> reader \<Rightarrow> ('a word \<times> reader) exec" where
  "read_fixed limit n val r =
     (if r_offset r + limit \<le> r_size r then take_value n val r else Inr (0, r))"

definition read_fixed_at ::
  "u64 \<Rightarrow> nat \<Rightarrow> (byte list \<Rightarrow> 'a::len word) \<Rightarrow> u64 \<Rightarrow> reader \<Rightarrow> ('a word \<times> reader) exec" where
  "read_fixed_at limit n val offset r =
     (if offset + limit \<le> r_size r then and_then (reader_Seek offset r) (take_value n val)
      else Inr (0, r))"

definition value16_BE :: "byte list \<Rightarrow> u16" where
  "value16_BE b = push_bit 8 (ucast (b ! 0)) + ucast (b ! 1)"

definition Read16_BE :: "reader \<Rightarrow> (u16 \<times> reader) exec" where
  "Read16_BE r = read_fixed 2 2 value16_BE r"

definition Read16_BE_at :: "u64 \<Rightarrow> reader \<Rightarrow> (u16 \<times> reader) exec" where
  "Read16_BE_at offset r = read_fixed_at 2 2 value16_BE offset r"

definition value16_LE :: "byte list \<Rightarrow> u16" where
  "value16_LE b = push_bit 8 (ucast (b ! 1)) + ucast (b ! 0)"

definition Read16_LE :: "reader \<Rightarrow> (u16 \<times> reader) exec" where
  "Read16_LE r = read_fixed 2 2 value16_LE r"

definition Read16_LE_at :: "u64 \<Rightarrow> reader \<Rightarrow> (u16 \<times> reader) exec" where
  "Read16_LE_at offset r = read_fixed_at 2 2 value16_LE offset r"

definition value32_BE :: "byte list \<Rightarrow> u32" where
  "value32_BE b = push_bit 24 (ucast (b ! 0)) + push_bit 16 (ucast (b ! 1)) + push_bit 8 (ucast (b ! 2))
     + ucast (b ! 3)"

definition Read32_BE :: "reader \<Rightarrow> (u32 \<times> reader) exec" where
  "Read32_BE r = read_fixed 4 4 value32_BE r"

definition Read32_BE_at :: "u64 \<Rightarrow> reader \<Rightarrow> (u32 \<times> reader) exec" where
  "Read32_BE_at offset r = read_fixed_at 4 4 value32_BE offset r"

definition value32_LE :: "byte list \<Rightarrow> u32" where
  "value32_LE b = push_bit 24 (ucast (b ! 3)) + push_bit 16 (ucast (b ! 2)) + push_bit 8 (ucast (b ! 1))
     + ucast (b ! 0)"

definition Read32_LE :: "reader \<Rightarrow> (u32 \<times> reader) exec" where
  "Read32_LE r = read_fixed 4 4 value32_LE r"

definition Read32_LE_at :: "u64 \<Rightarrow> reader \<Rightarrow> (u32 \<times> reader) exec" where
  "Read32_LE_at offset r = read_fixed_at 4 4 value32_LE offset r"

definition value64_BE :: "byte list \<Rightarrow> u64" where
  "value64_BE b = push_bit 56 (ucast (b ! 0)) + push_bit 48 (ucast (b ! 1)) + push_bit 40 (ucast (b ! 2))
     + push_bit 32 (ucast (b ! 3)) + push_bit 24 (ucast (b ! 4)) + push_bit 16 (ucast (b ! 5))
     + push_bit 8 (ucast (b ! 6)) + ucast (b ! 7)"

definition Read64_BE :: "reader \<Rightarrow> (u64 \<times> reader) exec" where
  "Read64_BE r = read_fixed 8 8 value64_BE r"

definition Read64_BE_at :: "u64 \<Rightarrow> reader \<Rightarrow> (u64 \<times> reader) exec" where
  "Read64_BE_at offset r = read_fixed_at 4 8 value64_BE offset r"

definition value64_LE :: "byte list \<Rightarrow> u64" where
  "value64_LE b = push_bit 56 (ucast (b ! 7)) + push_bit 48 (ucast (b ! 6)) + push_bit 40 (ucast (b ! 5))
     + push_bit 32 (ucast (b ! 4)) + push_bit 24 (ucast (b ! 3)) + push_bit 16 (ucast (b ! 2))
     + push_bit 8 (ucast (b ! 1)) + ucast (b ! 0)"

definition Read64_LE :: "reader \<Rightarrow> (u64 \<times> reader) exec" where
  "Read64_LE r = read_fixed 8 8 value64_LE r"

definition Read64_LE_at :: "u64 \<Rightarrow> reader \<Rightarrow> (u64 \<times> reader) exec" where
  "Read64_LE_at offset r = read_fixed_at 4 8 value64_LE offset r"

text \<open>A view into the reader's memory; the empty view is \<open>(0, 0)\<close>.\<close>

type_synonym view = "u64 \<times> u64"

definition view_in :: "reader \<Rightarrow> view \<Rightarrow> bool" where
  "view_in r v \<longleftrightarrow> unat (fst v) + unat (snd v) \<le> length (r_data r)"

definition ReadSpan_at :: "u64 \<Rightarrow> u64 \<Rightarrow> reader \<Rightarrow> (view \<times> reader) exec" where
  "ReadSpan_at offset len r =
     (if offset + len \<le> r_size r then
        and_then (reader_Seek offset r) (\<lambda>r.
        Inr ((r_offset r, len), r\<lparr>r_offset := r_offset r + len\<rparr>))
      else Inr ((0, 0), r))"

definition ReadSpan :: "u64 \<Rightarrow> reader \<Rightarrow> (view \<times> reader) exec" where
  "ReadSpan len r = ReadSpan_at (r_offset r) len r"

text \<open>\<^verbatim>\<open>StringUtil::Length(p, length)\<close> scans at most \<open>len\<close> bytes for a zero.\<close>

definition ReadString_at :: "u64 \<Rightarrow> u64 \<Rightarrow> reader \<Rightarrow> (byte list \<times> reader) exec" where
  "ReadString_at offset len r =
     (if offset + len \<le> r_size r then
        and_then (reader_Seek offset r) (\<lambda>r.
        and_then (load_bytes (unat len) r) (\<lambda>p.
        Inr (takeWhile (\<lambda>c. c \<noteq> 0) p, r\<lparr>r_offset := r_offset r + len\<rparr>)))
      else Inr ([], r))"

definition ReadString :: "u64 \<Rightarrow> reader \<Rightarrow> (byte list \<times> reader) exec" where
  "ReadString len r = ReadString_at (r_offset r) len r"

definition Span_at :: "u64 \<Rightarrow> u64 \<Rightarrow> reader \<Rightarrow> (reader \<times> reader) exec" where
  "Span_at offset sz r =
     and_then (reader_Seek offset r) (\<lambda>r.
     and_then (fusion_assert (r_offset r + sz \<le> r_size r)) (\<lambda>_.
     Inr (\<lparr>r_data = drop (unat (r_offset r)) (r_data r), r_offset = 0, r_size = sz\<rparr>,
          r\<lparr>r_offset := r_offset r + sz\<rparr>)))"

definition Span :: "u64 \<Rightarrow> reader \<Rightarrow> (reader \<times> reader) exec" where
  "Span sz r = Span_at (r_offset r) sz r"

section \<open>MemoryWriter\<close>

record writer =
  w_data :: "byte list"
  w_offset :: u64
  w_size :: u64

definition MemoryWriter :: "byte list \<Rightarrow> writer" where
  "MemoryWriter data = \<lparr>w_data = data, w_offset = 0, w_size = of_nat (length data)\<rparr>"

definition writer_Offset :: "writer \<Rightarrow> u64" where
  "writer_Offset w = w_offset w"

definition writer_Size :: "writer \<Rightarrow> u64" where
  "writer_Size w = w_size w"

definition writer_Remaining :: "writer \<Rightarrow> u64" where
  "writer_Remaining w = w_size w - w_offset w"

definition writer_Seek :: "u64 \<Rightarrow> writer \<Rightarrow> writer exec" where
  "writer_Seek offset w =
     and_then (fusion_assert (offset \<le> w_size w)) (\<lambda>_. Inr (w\<lparr>w_offset := offset\<rparr>))"

definition writer_Skip :: "u64 \<Rightarrow> writer \<Rightarrow> writer exec" where
  "writer_Skip count w = writer_Seek (w_offset w + count) w"

definition Put_at :: "u64 \<Rightarrow> byte list \<Rightarrow> writer \<Rightarrow> writer exec" where
  "Put_at offset data w =
     (if offset + of_nat (length data) \<le> w_size w then
        and_then (writer_Seek offset w) (\<lambda>w.
        and_then (memcpy (w_data w) (unat (w_offset w)) data) (\<lambda>mem.
        Inr (w\<lparr>w_data := mem, w_offset := w_offset w + of_nat (length data)\<rparr>)))
      else Inr w)"

definition Put :: "byte list \<Rightarrow> writer \<Rightarrow> writer exec" where
  "Put data w = Put_at (w_offset w) data w"

definition Put16_BE_at :: "u64 \<Rightarrow> u16 \<Rightarrow> writer \<Rightarrow> writer exec" where
  "Put16_BE_at offset value w = Put_at offset
   [ucast (drop_bit 8 value), ucast value] w"

definition Put16_BE :: "u16 \<Rightarrow> writer \<Rightarrow> writer exec" where
  "Put16_BE value w = Put16_BE_at (w_offset w) value w"

definition Put16_LE_at :: "u64 \<Rightarrow> u16 \<Rightarrow> writer \<Rightarrow> writer exec" where
  "Put16_LE_at offset value w = Put_at offset
   [ucast value, ucast (drop_bit 8 value)] w"

definition Put16_LE :: "u16 \<Rightarrow> writer \<Rightarrow> writer exec" where
  "Put16_LE value w = Put16_LE_at (w_offset w) value w"

definition Put32_BE_at :: "u64 \<Rightarrow> u32 \<Rightarrow> writer \<Rightarrow> writer exec" where
  "Put32_BE_at offset value w = Put_at offset
   [ucast (drop_bit 24 value), ucast (drop_bit 16 value), ucast (drop_bit 8 value), ucast value] w"

definition Put32_BE :: "u32 \<Rightarrow> writer \<Rightarrow> writer exec" where
  "Put32_BE value w = Put32_BE_at (w_offset w) value w"

definition Put32_LE_at :: "u64 \<Rightarrow> u32 \<Rightarrow> writer \<Rightarrow> writer exec" where
  "Put32_LE_at offset value w = Put_at offset
   [ucast value, ucast (drop_bit 8 value), ucast (drop_bit 16 value), ucast (drop_bit 24 value)] w"

definition Put32_LE :: "u32 \<Rightarrow> writer \<Rightarrow> writer exec" where
  "Put32_LE value w = Put32_LE_at (w_offset w) value w"

definition Put64_BE_at :: "u64 \<Rightarrow> u64 \<Rightarrow> writer \<Rightarrow> writer exec" where
  "Put64_BE_at offset value w = Put_at offset
   [ucast (drop_bit 56 value), ucast (drop_bit 48 value), ucast (drop_bit 40 value), ucast (drop_bit 32 value),
    ucast (drop_bit 24 value), ucast (drop_bit 16 value), ucast (drop_bit 8 value), ucast value] w"

definition Put64_BE :: "u64 \<Rightarrow> writer \<Rightarrow> writer exec" where
  "Put64_BE value w = Put64_BE_at (w_offset w) value w"

definition Put64_LE_at :: "u64 \<Rightarrow> u64 \<Rightarrow> writer \<Rightarrow> writer exec" where
  "Put64_LE_at offset value w = Put_at offset
   [ucast value, ucast (drop_bit 8 value), ucast (drop_bit 16 value), ucast (drop_bit 24 value),
    ucast (drop_bit 32 value), ucast (drop_bit 40 value), ucast (drop_bit 48 value), ucast (drop_bit 56 value)] w"

definition Put64_LE :: "u64 \<Rightarrow> writer \<Rightarrow> writer exec" where
  "Put64_LE value w = Put64_LE_at (w_offset w) value w"

definition PutString_at :: "u64 \<Rightarrow> byte list \<Rightarrow> writer \<Rightarrow> writer exec" where
  "PutString_at offset str w = Put_at offset str w"

definition PutString :: "byte list \<Rightarrow> writer \<Rightarrow> writer exec" where
  "PutString str w = Put_at (w_offset w) str w"

definition PutZero_at :: "u64 \<Rightarrow> u64 \<Rightarrow> writer \<Rightarrow> writer exec" where
  "PutZero_at offset count w =
     (if offset + count \<le> w_size w then
        and_then (writer_Seek offset w) (\<lambda>w.
        and_then (memcpy (w_data w) (unat (w_offset w)) (replicate (unat count) 0)) (\<lambda>mem.
        Inr (w\<lparr>w_data := mem, w_offset := w_offset w + count\<rparr>)))
      else Inr w)"

definition PutZero :: "u64 \<Rightarrow> writer \<Rightarrow> writer exec" where
  "PutZero count w = PutZero_at (w_offset w) count w"

text \<open>
  \<^verbatim>\<open>ObjectWriter<T>\<close> for an object of \<open>sz\<close> bytes gives a writer on a window of the same memory: the
  start and size of the window, or none.
\<close>

definition ObjectWriter_at :: "u64 \<Rightarrow> u64 \<Rightarrow> writer \<Rightarrow> (view option \<times> writer) exec" where
  "ObjectWriter_at sz offset w =
     (if offset + sz \<le> w_size w then
        and_then (writer_Seek offset w) (\<lambda>w.
        Inr (Some (w_offset w, sz), w\<lparr>w_offset := w_offset w + sz\<rparr>))
      else Inr (None, w))"

definition ObjectWriter :: "u64 \<Rightarrow> writer \<Rightarrow> (view option \<times> writer) exec" where
  "ObjectWriter sz w = ObjectWriter_at sz (w_offset w) w"

section \<open>Well-formed streams\<close>

text \<open>The size is that of the memory, which is far below the address space, and the offset is inside.\<close>

definition reader_ok :: "reader \<Rightarrow> bool" where
  "reader_ok r \<longleftrightarrow> length (r_data r) < 2 ^ 63 \<and> unat (r_size r) = length (r_data r)
     \<and> unat (r_offset r) \<le> length (r_data r)"

definition writer_ok :: "writer \<Rightarrow> bool" where
  "writer_ok w \<longleftrightarrow> length (w_data w) < 2 ^ 63 \<and> unat (w_size w) = length (w_data w)
     \<and> unat (w_offset w) \<le> length (w_data w)"

lemma unat_add_small:
  "unat a + n < 2 ^ 64 \<Longrightarrow> unat ((a :: u64) + of_nat n) = unat a + n"
  by (simp add: unat_word_ariths unat_of_nat take_bit_eq_mod)

lemma add_le_iff:
  assumes "unat (a :: u64) + n < 2 ^ 64"
  shows "a + of_nat n \<le> b \<longleftrightarrow> unat a + n \<le> unat b"
  using unat_add_small [OF assms] by (simp add: word_le_nat_alt)

lemma unat_neg_sum:
  assumes "0 < (a :: u64)"
  shows "unat a + unat (- a) = 2 ^ 64"
proof -
  have "(unat a + unat (- a)) mod 2 ^ 64 = 0"
    using unat_word_ariths(1) [of a "- a"] by simp
  then obtain k where k: "unat a + unat (- a) = 2 ^ 64 * k" by (auto simp: mod_eq_0_iff_dvd)
  have "0 < unat a" using assms by (simp add: unat_gt_0)
  moreover have "unat a < 2 ^ 64" "unat (- a) < 2 ^ 64"
    using unsigned_less [of a] unsigned_less [of "- a"] by simp_all
  ultimately have "0 < k" "k < 2" using k by auto
  then have "k = 1" by simp
  then show ?thesis using k by simp
qed

lemma take_value_ok:
  assumes "reader_ok r"
  shows "take_value n val r =
    (if unat (r_offset r) + n \<le> length (r_data r)
     then Inr (val (slice (unat (r_offset r)) n (r_data r)), r\<lparr>r_offset := r_offset r + of_nat n\<rparr>)
     else Inl Out_Of_Bounds)"
  by (simp add: take_value_def load_bytes_def)

lemma reader_ok_step:
  assumes "reader_ok r" "unat (r_offset r) + n \<le> length (r_data r)"
  shows "reader_ok (r\<lparr>r_offset := r_offset r + of_nat n\<rparr>)"
    "unat (r_offset r + of_nat n) = unat (r_offset r) + n"
  using assms unat_add_small [of "r_offset r" n] by (simp_all add: reader_ok_def)

lemma read_fixed_ok:
  assumes ok: "reader_ok r" and n: "n \<le> 8"
  shows "read_fixed (of_nat n) n val r =
    (if unat (r_offset r) + n \<le> length (r_data r)
     then Inr (val (slice (unat (r_offset r)) n (r_data r)), r\<lparr>r_offset := r_offset r + of_nat n\<rparr>)
     else Inr (0, r))"
proof -
  have "r_offset r + of_nat n \<le> r_size r \<longleftrightarrow> unat (r_offset r) + n \<le> length (r_data r)"
    using ok n add_le_iff [of "r_offset r" n "r_size r"] by (simp add: reader_ok_def)
  then show ?thesis by (simp add: read_fixed_def take_value_ok [OF ok])
qed

lemma read_fixed_sizes:
  assumes "reader_ok r"
  shows "read_fixed 2 2 val r =
    (if unat (r_offset r) + 2 \<le> length (r_data r)
     then Inr (val (slice (unat (r_offset r)) 2 (r_data r)), r\<lparr>r_offset := r_offset r + 2\<rparr>)
     else Inr (0, r))"
   "read_fixed 4 4 val r =
    (if unat (r_offset r) + 4 \<le> length (r_data r)
     then Inr (val (slice (unat (r_offset r)) 4 (r_data r)), r\<lparr>r_offset := r_offset r + 4\<rparr>)
     else Inr (0, r))"
   "read_fixed 8 8 val r =
    (if unat (r_offset r) + 8 \<le> length (r_data r)
     then Inr (val (slice (unat (r_offset r)) 8 (r_data r)), r\<lparr>r_offset := r_offset r + 8\<rparr>)
     else Inr (0, r))"
  using read_fixed_ok [OF assms, of 2 val] read_fixed_ok [OF assms, of 4 val]
    read_fixed_ok [OF assms, of 8 val] by simp_all

text \<open>The sums of shifted bytes are the words of the bytes.\<close>

lemma list_of_2: "length b = 2 \<Longrightarrow> \<exists>x y. b = [x, y]"
  by (auto simp: numeral_eq_Suc length_Suc_conv)

lemma list_of_4: "length b = 4 \<Longrightarrow> \<exists>x y z u. b = [x, y, z, u]"
  by (auto simp: numeral_eq_Suc length_Suc_conv)

lemma list_of_8: "length b = 8 \<Longrightarrow> \<exists>x y z u p q s t. b = [x, y, z, u, p, q, s, t]"
  by (auto simp: numeral_eq_Suc length_Suc_conv)

lemmas value_defs = value16_BE_def value16_LE_def value32_BE_def value32_LE_def
  value64_BE_def value64_LE_def

lemma value_words:
  "length b = 2 \<Longrightarrow> value16_BE b = be_word b" "length b = 2 \<Longrightarrow> value16_LE b = le_word b"
  "length b = 4 \<Longrightarrow> value32_BE b = be_word b" "length b = 4 \<Longrightarrow> value32_LE b = le_word b"
  "length b = 8 \<Longrightarrow> value64_BE b = be_word b" "length b = 8 \<Longrightarrow> value64_LE b = le_word b"
  by (force dest!: list_of_2 list_of_4 list_of_8 simp: value_defs be_word_def push_bit_add ac_simps)+

section \<open>Writing\<close>

lemma Put_at_ok:
  assumes ok: "writer_ok w" and small: "unat offset + length data < 2 ^ 64"
  shows "Put_at offset data w =
    (if unat offset + length data \<le> length (w_data w)
     then Inr (w\<lparr>w_data := blit (w_data w) (unat offset) data,
                 w_offset := offset + of_nat (length data)\<rparr>)
     else Inr w)"
proof -
  have "offset + of_nat (length data) \<le> w_size w \<longleftrightarrow> unat offset + length data \<le> length (w_data w)"
    using add_le_iff [OF small] ok by (simp add: writer_ok_def)
  moreover have "offset \<le> w_size w" if "unat offset + length data \<le> length (w_data w)"
    using that ok by (simp add: writer_ok_def word_le_nat_alt)
  ultimately show ?thesis by (simp add: Put_at_def writer_Seek_def memcpy_def)
qed

lemmas put_defs = Put16_BE_at_def Put16_BE_def Put16_LE_at_def Put16_LE_def
  Put32_BE_at_def Put32_BE_def Put32_LE_at_def Put32_LE_def
  Put64_BE_at_def Put64_BE_def Put64_LE_at_def Put64_LE_def Put_def PutString_def

lemmas read_defs = Read16_BE_def Read16_LE_def Read32_BE_def Read32_LE_def Read64_BE_def Read64_LE_def

lemma put_values:
  "[ucast (drop_bit 8 v2), ucast v2] = be_bytes 2 (v2 :: u16)"
  "[ucast v2, ucast (drop_bit 8 v2)] = le_bytes 2 (v2 :: u16)"
  "[ucast (drop_bit 24 v4), ucast (drop_bit 16 v4), ucast (drop_bit 8 v4), ucast v4]
    = be_bytes 4 (v4 :: u32)"
  "[ucast v4, ucast (drop_bit 8 v4), ucast (drop_bit 16 v4), ucast (drop_bit 24 v4)]
    = le_bytes 4 (v4 :: u32)"
  "[ucast (drop_bit 56 v8), ucast (drop_bit 48 v8), ucast (drop_bit 40 v8), ucast (drop_bit 32 v8),
    ucast (drop_bit 24 v8), ucast (drop_bit 16 v8), ucast (drop_bit 8 v8), ucast v8]
    = be_bytes 8 (v8 :: u64)"
  "[ucast v8, ucast (drop_bit 8 v8), ucast (drop_bit 16 v8), ucast (drop_bit 24 v8),
    ucast (drop_bit 32 v8), ucast (drop_bit 40 v8), ucast (drop_bit 48 v8), ucast (drop_bit 56 v8)]
    = le_bytes 8 (v8 :: u64)"
  by (simp_all add: be_bytes_def le_bytes_def upt_numeral_rec)

section \<open>Records of fields\<close>

text \<open>A message as a client writes it: integers of the six kinds, one after the other.\<close>

datatype field = F16_BE u16 | F16_LE u16 | F32_BE u32 | F32_LE u32 | F64_BE u64 | F64_LE u64

fun put_field :: "field \<Rightarrow> writer \<Rightarrow> writer exec" where
  "put_field (F16_BE v) w = Put16_BE v w" | "put_field (F16_LE v) w = Put16_LE v w"
| "put_field (F32_BE v) w = Put32_BE v w" | "put_field (F32_LE v) w = Put32_LE v w"
| "put_field (F64_BE v) w = Put64_BE v w" | "put_field (F64_LE v) w = Put64_LE v w"

text \<open>\<open>read_field\<close> uses only the kind of its first argument.\<close>

fun read_field :: "field \<Rightarrow> reader \<Rightarrow> (field \<times> reader) exec" where
  "read_field (F16_BE _) r = and_then (Read16_BE r) (\<lambda>(v, r). Inr (F16_BE v, r))"
| "read_field (F16_LE _) r = and_then (Read16_LE r) (\<lambda>(v, r). Inr (F16_LE v, r))"
| "read_field (F32_BE _) r = and_then (Read32_BE r) (\<lambda>(v, r). Inr (F32_BE v, r))"
| "read_field (F32_LE _) r = and_then (Read32_LE r) (\<lambda>(v, r). Inr (F32_LE v, r))"
| "read_field (F64_BE _) r = and_then (Read64_BE r) (\<lambda>(v, r). Inr (F64_BE v, r))"
| "read_field (F64_LE _) r = and_then (Read64_LE r) (\<lambda>(v, r). Inr (F64_LE v, r))"

fun put_fields :: "field list \<Rightarrow> writer \<Rightarrow> writer exec" where
  "put_fields [] w = Inr w"
| "put_fields (f # fs) w = and_then (put_field f w) (put_fields fs)"

fun read_fields :: "field list \<Rightarrow> reader \<Rightarrow> (field list \<times> reader) exec" where
  "read_fields [] r = Inr ([], r)"
| "read_fields (f # fs) r =
     and_then (read_field f r) (\<lambda>(v, r). and_then (read_fields fs r) (\<lambda>(vs, r). Inr (v # vs, r)))"

fun field_bytes :: "field \<Rightarrow> byte list" where
  "field_bytes (F16_BE v) = be_bytes 2 v" | "field_bytes (F16_LE v) = le_bytes 2 v"
| "field_bytes (F32_BE v) = be_bytes 4 v" | "field_bytes (F32_LE v) = le_bytes 4 v"
| "field_bytes (F64_BE v) = be_bytes 8 v" | "field_bytes (F64_LE v) = le_bytes 8 v"

lemma length_field_bytes: "length (field_bytes f) \<le> 8" "0 < length (field_bytes f)"
  by (cases f; simp)+

lemma put_field_eq:
  assumes ok: "writer_ok w" and fits: "unat (w_offset w) + length (field_bytes f) \<le> length (w_data w)"
  shows "put_field f w = Inr (w\<lparr>w_data := blit (w_data w) (unat (w_offset w)) (field_bytes f),
    w_offset := w_offset w + of_nat (length (field_bytes f))\<rparr>)"
proof -
  have "put_field f w = Put_at (w_offset w) (field_bytes f) w"
    by (cases f) (simp_all add: put_defs put_values)
  moreover have "unat (w_offset w) + length (field_bytes f) < 2 ^ 64"
    using ok fits by (simp add: writer_ok_def)
  ultimately show ?thesis using Put_at_ok [OF ok] fits by simp
qed

lemma put_fields_eq:
  assumes "writer_ok w" and "unat (w_offset w) + length (concat (map field_bytes fs)) \<le> length (w_data w)"
  shows "\<exists>w'. put_fields fs w = Inr w' \<and> writer_ok w'
    \<and> w_data w' = blit (w_data w) (unat (w_offset w)) (concat (map field_bytes fs))"
  using assms
proof (induction fs arbitrary: w)
  case Nil
  then show ?case by (simp add: blit_def)
next
  case (Cons f fs)
  let ?n = "length (field_bytes f)"
  let ?w = "w\<lparr>w_data := blit (w_data w) (unat (w_offset w)) (field_bytes f), w_offset := w_offset w + of_nat ?n\<rparr>"
  have fits: "unat (w_offset w) + ?n \<le> length (w_data w)" using Cons.prems(2) by simp
  have off: "unat (w_offset w + of_nat ?n) = unat (w_offset w) + ?n"
    using fits Cons.prems(1) by (intro unat_add_small) (simp add: writer_ok_def)
  have "writer_ok ?w" using Cons.prems(1) fits off by (simp add: writer_ok_def)
  moreover have "unat (w_offset ?w) + length (concat (map field_bytes fs)) \<le> length (w_data ?w)"
    using Cons.prems(2) fits off by simp
  ultimately obtain w' where "put_fields fs ?w = Inr w'" "writer_ok w'"
      "w_data w' = blit (w_data ?w) (unat (w_offset ?w)) (concat (map field_bytes fs))"
    using Cons.IH by blast
  moreover have "blit (w_data ?w) (unat (w_offset ?w)) (concat (map field_bytes fs))
      = blit (w_data w) (unat (w_offset w)) (field_bytes f @ concat (map field_bytes fs))"
    using off fits Cons.prems(2) by (simp add: blit_def ac_simps)
  ultimately show ?case using put_field_eq [OF Cons.prems(1) fits] by simp
qed

lemma read_field_eq:
  assumes ok: "reader_ok r"
    and at: "slice (unat (r_offset r)) (length (field_bytes f)) (r_data r) = field_bytes f"
  shows "read_field f r = Inr (f, r\<lparr>r_offset := r_offset r + of_nat (length (field_bytes f))\<rparr>)"
proof -
  have "length (slice (unat (r_offset r)) (length (field_bytes f)) (r_data r)) = length (field_bytes f)"
    using at by (rule arg_cong)
  then have fits: "unat (r_offset r) + length (field_bytes f) \<le> length (r_data r)"
    using length_field_bytes(2) [of f] unfolding length_slice by linarith
  show ?thesis
    using fits at
    by (cases f) (simp_all add: read_defs read_fixed_sizes [OF ok] value_words be_word_be_bytes le_word_le_bytes)
qed

lemma read_fields_eq:
  assumes "reader_ok r" and "unat (r_offset r) + length (concat (map field_bytes fs)) \<le> length (r_data r)"
    and "slice (unat (r_offset r)) (length (concat (map field_bytes fs))) (r_data r) = concat (map field_bytes fs)"
  shows "\<exists>r'. read_fields fs r = Inr (fs, r')
    \<and> unat (r_offset r') = unat (r_offset r) + length (concat (map field_bytes fs))"
  using assms
proof (induction fs arbitrary: r)
  case Nil
  then show ?case by simp
next
  case (Cons f fs)
  let ?n = "length (field_bytes f)" and ?m = "length (concat (map field_bytes fs))"
  have split: "slice (unat (r_offset r)) ?n (r_data r) @ slice (unat (r_offset r) + ?n) ?m (r_data r)
      = field_bytes f @ concat (map field_bytes fs)"
    using Cons.prems(3) by (simp add: slice_append)
  have len: "length (slice (unat (r_offset r)) ?n (r_data r)) = ?n"
    using Cons.prems(2) by simp
  have parts: "slice (unat (r_offset r)) ?n (r_data r) = field_bytes f"
      "slice (unat (r_offset r) + ?n) ?m (r_data r) = concat (map field_bytes fs)"
    using split len by (simp_all add: append_eq_append_conv)
  have fits: "unat (r_offset r) + ?n \<le> length (r_data r)" using Cons.prems(2) by simp
  note step = reader_ok_step [OF Cons.prems(1) fits]
  obtain r' where "read_fields fs (r\<lparr>r_offset := r_offset r + of_nat ?n\<rparr>) = Inr (fs, r')"
      "unat (r_offset r') = unat (r_offset r + of_nat ?n) + ?m"
    using Cons.IH [OF step(1)] Cons.prems(2) parts(2) step(2) by auto
  then show ?case using read_field_eq [OF Cons.prems(1) parts(1)] step(2) by simp
qed

section \<open>Properties\<close>

text \<open>
  Property C10. A sequence of 16, 32 and 64 bit integers in either byte order, written by a
  \<^verbatim>\<open>MemoryWriter\<close> over a buffer that has room for them and read back in the same order by a
  \<^verbatim>\<open>MemoryReader\<close> over the buffer, comes back unchanged; nothing asserts and nothing leaves the buffer.
\<close>

theorem stream_roundtrip:
  assumes "length (concat (map field_bytes fs)) \<le> length buffer" and "length buffer < 2 ^ 63"
  shows "\<exists>w r. put_fields fs (MemoryWriter buffer) = Inr w
    \<and> w_data w = concat (map field_bytes fs) @ drop (length (concat (map field_bytes fs))) buffer
    \<and> read_fields fs (MemoryReader (w_data w)) = Inr (fs, r)
    \<and> unat (r_offset r) = length (concat (map field_bytes fs))"
proof -
  let ?b = "concat (map field_bytes fs)"
  have size: "unat (of_nat (length buffer) :: u64) = length buffer"
    using assms(2) by (simp add: unat_of_nat take_bit_eq_mod)
  then have "writer_ok (MemoryWriter buffer)"
    using assms(2) by (simp add: writer_ok_def MemoryWriter_def)
  then obtain w where w: "put_fields fs (MemoryWriter buffer) = Inr w" "w_data w = blit buffer 0 ?b"
    using put_fields_eq [of "MemoryWriter buffer" fs] assms(1) by (auto simp: MemoryWriter_def)
  have data: "w_data w = ?b @ drop (length ?b) buffer" by (simp add: w(2) blit_def)
  then have len: "length (w_data w) = length buffer" using assms(1) by simp
  have "reader_ok (MemoryReader (w_data w))"
    using assms(2) size len by (simp add: reader_ok_def MemoryReader_def)
  then have "\<exists>r'. read_fields fs (MemoryReader (w_data w)) = Inr (fs, r')
      \<and> unat (r_offset r') = unat (r_offset (MemoryReader (w_data w))) + length ?b"
    by (rule read_fields_eq) (simp_all add: MemoryReader_def len assms(1), simp add: data slice_def)
  then show ?thesis using w(1) data by (auto simp: MemoryReader_def)
qed

theorem stream_roundtrip_witness:
  "\<exists>w r. put_fields [F16_BE 5, F32_LE 7] (MemoryWriter [9, 9, 9, 9, 9, 9, 9, 9]) = Inr w
    \<and> w_data w = [0, 5, 7, 0, 0, 0, 9, 9]
    \<and> read_fields [F16_BE 5, F32_LE 7] (MemoryReader (w_data w)) = Inr ([F16_BE 5, F32_LE 7], r)"
proof -
  let ?b = "[9, 9, 9, 9, 9, 9, 9, 9]" and ?fs = "[F16_BE 5, F32_LE 7]"
  have "concat (map field_bytes ?fs) @ drop (length (concat (map field_bytes ?fs))) ?b
      = [0, 5, 7, 0, 0, 0, 9, 9]"
    by (simp add: be_bytes_def le_bytes_def upt_numeral_rec)
  then show ?thesis using stream_roundtrip [of ?fs ?b] by fastforce
qed

text \<open>
  On a well-formed reader each of the six sequential integer reads returns the word of the
  next bytes in its byte order and moves past them, or, when too few are left, returns 0 and stays.
\<close>

theorem reader_reads_words:
  assumes "reader_ok r"
  shows "Read16_BE r = (if unat (r_offset r) + 2 \<le> length (r_data r)
      then Inr (be_word (slice (unat (r_offset r)) 2 (r_data r)), r\<lparr>r_offset := r_offset r + 2\<rparr>) else Inr (0, r))
    \<and> Read16_LE r = (if unat (r_offset r) + 2 \<le> length (r_data r)
      then Inr (le_word (slice (unat (r_offset r)) 2 (r_data r)), r\<lparr>r_offset := r_offset r + 2\<rparr>) else Inr (0, r))
    \<and> Read32_BE r = (if unat (r_offset r) + 4 \<le> length (r_data r)
      then Inr (be_word (slice (unat (r_offset r)) 4 (r_data r)), r\<lparr>r_offset := r_offset r + 4\<rparr>) else Inr (0, r))
    \<and> Read32_LE r = (if unat (r_offset r) + 4 \<le> length (r_data r)
      then Inr (le_word (slice (unat (r_offset r)) 4 (r_data r)), r\<lparr>r_offset := r_offset r + 4\<rparr>) else Inr (0, r))
    \<and> Read64_BE r = (if unat (r_offset r) + 8 \<le> length (r_data r)
      then Inr (be_word (slice (unat (r_offset r)) 8 (r_data r)), r\<lparr>r_offset := r_offset r + 8\<rparr>) else Inr (0, r))
    \<and> Read64_LE r = (if unat (r_offset r) + 8 \<le> length (r_data r)
      then Inr (le_word (slice (unat (r_offset r)) 8 (r_data r)), r\<lparr>r_offset := r_offset r + 8\<rparr>) else Inr (0, r))"
  by (simp add: read_defs read_fixed_sizes [OF assms] value_words)

theorem reader_reads_words_witness:
  "Read16_BE (MemoryReader [1, 2, 3]) = Inr (be_word [1, 2], (MemoryReader [1, 2, 3])\<lparr>r_offset := 2\<rparr>)"
  using reader_reads_words [of "MemoryReader [1, 2, 3]"]
  by (simp add: reader_ok_def MemoryReader_def slice_def)

text \<open>
  Where the bounds checks of \<^verbatim>\<open>MemoryReader\<close> are wrong: \<^verbatim>\<open>Read()\<close> at the end reads one byte past the
  memory; the positioned 64 bit reads go past the end when between 4 and 7 bytes are left; an empty span
  at the end fails the assertion of \<^verbatim>\<open>Seek\<close>; and a length that makes the sum wrap yields a span outside
  the memory.
\<close>

theorem reader_bounds_faults:
  assumes "reader_ok r"
  shows "(r_offset r = r_size r \<longrightarrow> reader_Read r = Inl Out_Of_Bounds
        \<and> ReadSpan 0 r = Inl Assert_Failed)
    \<and> (unat offset + 4 \<le> length (r_data r) \<and> length (r_data r) < unat offset + 8 \<longrightarrow>
        Read64_BE_at offset r = Inl Out_Of_Bounds \<and> Read64_LE_at offset r = Inl Out_Of_Bounds)
    \<and> (0 < r_offset r \<and> r_offset r < r_size r \<longrightarrow>
        (\<exists>v r'. ReadSpan (- r_offset r) r = Inr (v, r') \<and> \<not> view_in r v))"
proof (intro conjI impI)
  assume at_end: "r_offset r = r_size r"
  then show "reader_Read r = Inl Out_Of_Bounds"
    using assms by (simp add: reader_Read_def take_value_ok reader_ok_def)
  show "ReadSpan 0 r = Inl Assert_Failed"
    using at_end by (simp add: ReadSpan_def ReadSpan_at_def reader_Seek_def)
next
  assume o: "unat offset + 4 \<le> length (r_data r) \<and> length (r_data r) < unat offset + 8"
  then have "offset + 4 \<le> r_size r" "offset < r_size r"
    using assms add_le_iff [of offset 4 "r_size r"] by (auto simp: reader_ok_def word_less_nat_alt)
  moreover have "reader_ok (r\<lparr>r_offset := offset\<rparr>)" using assms o by (simp add: reader_ok_def)
  ultimately show "Read64_BE_at offset r = Inl Out_Of_Bounds" "Read64_LE_at offset r = Inl Out_Of_Bounds"
    using o by (simp_all add: Read64_BE_at_def Read64_LE_at_def read_fixed_at_def reader_Seek_def
        take_value_ok)
next
  assume o: "0 < r_offset r \<and> r_offset r < r_size r"
  have "unat (r_offset r) + unat (- r_offset r) = 2 ^ 64"
    using o unat_neg_sum by blast
  then have "\<not> view_in r (r_offset r, - r_offset r)"
    using assms by (simp add: view_in_def reader_ok_def)
  then show "\<exists>v r'. ReadSpan (- r_offset r) r = Inr (v, r') \<and> \<not> view_in r v"
    using o by (simp add: ReadSpan_def ReadSpan_at_def reader_Seek_def)
qed

theorem reader_bounds_faults_witness:
  "Read64_BE_at 0 (MemoryReader [1, 2, 3, 4, 5]) = Inl Out_Of_Bounds"
  using reader_bounds_faults [of "MemoryReader [1, 2, 3, 4, 5]" 0]
  by (simp add: reader_ok_def MemoryReader_def)

text \<open>
  \<^verbatim>\<open>Put\<close> at any offset of a well-formed writer either copies all bytes to that offset, changing
  nothing else, or leaves the writer as it was, and keeps the writer well formed; \<^verbatim>\<open>PutZero\<close> with a
  count that makes the sum wrap writes outside the memory.
\<close>

theorem writer_put_spec:
  assumes "writer_ok w" and "unat offset + length data < 2 ^ 64"
  shows "(if unat offset + length data \<le> length (w_data w)
      then \<exists>w'. Put_at offset data w = Inr w' \<and> writer_ok w'
        \<and> unat (w_offset w') = unat offset + length data
        \<and> (\<forall>i < length (w_data w). w_data w' ! i =
            (if unat offset \<le> i \<and> i < unat offset + length data then data ! (i - unat offset)
             else w_data w ! i))
      else Put_at offset data w = Inr w)
    \<and> (0 < w_offset w \<longrightarrow> PutZero (- w_offset w) w = Inl Out_Of_Bounds)"
proof (intro conjI impI)
  show "if unat offset + length data \<le> length (w_data w)
      then \<exists>w'. Put_at offset data w = Inr w' \<and> writer_ok w'
        \<and> unat (w_offset w') = unat offset + length data
        \<and> (\<forall>i < length (w_data w). w_data w' ! i =
            (if unat offset \<le> i \<and> i < unat offset + length data then data ! (i - unat offset)
             else w_data w ! i))
      else Put_at offset data w = Inr w"
    using assms Put_at_ok [OF assms] unat_add_small [OF assms(2)]
    by (simp add: writer_ok_def nth_blit)
next
  assume o: "0 < w_offset w"
  have "unat (w_offset w) + unat (- w_offset w) = 2 ^ 64"
    using o by (rule unat_neg_sum)
  then have "length (w_data w) < unat (w_offset w) + unat (- w_offset w)"
    using assms(1) by (simp add: writer_ok_def)
  then show "PutZero (- w_offset w) w = Inl Out_Of_Bounds"
    using assms(1) o by (simp add: PutZero_def PutZero_at_def writer_Seek_def memcpy_def writer_ok_def
        word_le_nat_alt)
qed

theorem writer_put_spec_witness:
  "\<exists>w'. Put_at 1 [7, 8] (MemoryWriter [0, 0, 0, 0]) = Inr w' \<and> writer_ok w'"
  using writer_put_spec [of "MemoryWriter [0, 0, 0, 0]" 1 "[7, 8]"]
  by (auto simp: writer_ok_def MemoryWriter_def)

end
