(* ===== verification/Ring_Buffer.thy ===== *)
theory Ring_Buffer
  imports Fusion_Prelude
begin

text \<open>
  \<^verbatim>\<open>RingBuffer\<close> of \<^verbatim>\<open>Memory.h\<close> and \<^verbatim>\<open>Memory.cpp\<close>. All sums of sizes and offsets are bounded by twice the
  size of the buffer, so they are natural numbers. An operation that fills memory of the caller
  returns the bytes it stores there.

  The interface \<open>byte_fifo\<close> is what a user of the buffer needs: \<open>put\<close> is a \<^verbatim>\<open>Write\<close> followed by the
  \<^verbatim>\<open>Advance\<close> over the bytes written, \<open>get\<close> is \<^verbatim>\<open>Read\<close>. The ring buffer provides it, with the room its
  own \<^verbatim>\<open>WritableSize\<close> reports: none at all once the buffer has been drained.
\<close>

section \<open>Model\<close>

record ring =
  rb_buffer :: "byte list"
  rb_size :: nat
  rb_readOffset :: nat
  rb_writeOffset :: nat
  rb_embedded :: bool
  rb_empty :: bool

definition RingBuffer :: "byte list \<Rightarrow> ring" where
  "RingBuffer fresh = \<lparr>rb_buffer = fresh, rb_size = length fresh, rb_readOffset = 0,
     rb_writeOffset = 0, rb_embedded = False, rb_empty = False\<rparr>"

definition RingBuffer_on :: "byte list \<Rightarrow> ring exec" where
  "RingBuffer_on buffer = and_then (fusion_assert (length buffer > 0)) (\<lambda>_.
     Inr \<lparr>rb_buffer = buffer, rb_size = length buffer, rb_readOffset = 0,
     rb_writeOffset = 0, rb_embedded = True, rb_empty = False\<rparr>)"

text \<open>Whether the destructor deletes the memory.\<close>

definition RingBuffer_deletes :: "ring \<Rightarrow> bool" where
  "RingBuffer_deletes rb = rb_embedded rb"

definition Capacity :: "ring \<Rightarrow> nat" where
  "Capacity rb = rb_size rb"

definition ReadableSize :: "ring \<Rightarrow> nat" where
  "ReadableSize rb =
    (if \<not> rb_empty rb then
       (if rb_readOffset rb < rb_writeOffset rb then rb_writeOffset rb - rb_readOffset rb
        else rb_size rb - rb_readOffset rb + rb_writeOffset rb)
     else 0)"

definition WritableSize :: "ring \<Rightarrow> nat" where
  "WritableSize rb =
    (if \<not> rb_empty rb then
       (if rb_writeOffset rb \<le> rb_readOffset rb then rb_readOffset rb - rb_writeOffset rb
        else rb_size rb - rb_writeOffset rb + rb_readOffset rb)
     else 0)"

definition Advance :: "nat \<Rightarrow> ring \<Rightarrow> (nat \<times> ring) exec" where
  "Advance count rb =
    and_then (fusion_assert (count \<le> WritableSize rb)) (\<lambda>_.
    if count = 0 then Inr (0, rb)
    else
      let rb = rb\<lparr>rb_empty := False\<rparr> in
      if rb_writeOffset rb + count < rb_size rb
      then Inr (count, rb\<lparr>rb_writeOffset := rb_writeOffset rb + count\<rparr>)
      else
        let firstWrite = rb_size rb - rb_writeOffset rb;
            secondWrite = count - firstWrite
        in Inr (secondWrite, rb\<lparr>rb_writeOffset := secondWrite\<rparr>))"

text \<open>\<open>load\<close> is a \<^verbatim>\<open>memcpy\<close> out of the ring's memory.\<close>

definition load :: "byte list \<Rightarrow> nat \<Rightarrow> nat \<Rightarrow> byte list exec" where
  "load buf off n = (if off + n \<le> length buf then Inr (slice off n buf) else Inl Out_Of_Bounds)"

definition Peek :: "nat \<Rightarrow> ring \<Rightarrow> byte list exec" where
  "Peek count rb =
    (let readLength = min count (ReadableSize rb) in
     if readLength = 0 then Inr []
     else if rb_readOffset rb + readLength < rb_size rb
     then load (rb_buffer rb) (rb_readOffset rb) readLength
     else
       let firstRead = rb_size rb - rb_readOffset rb;
           secondRead = readLength - firstRead in
       and_then (load (rb_buffer rb) (rb_readOffset rb) firstRead) (\<lambda>a.
       and_then (load (rb_buffer rb) 0 secondRead) (\<lambda>b. Inr (a @ b))))"

definition Skip :: "nat \<Rightarrow> ring \<Rightarrow> nat \<times> ring" where
  "Skip count rb =
    (let skipCount = min count (ReadableSize rb) in
     if skipCount = 0 then (0, rb)
     else
       let rb = rb\<lparr>rb_readOffset := (rb_readOffset rb + skipCount) mod rb_size rb\<rparr> in
       (skipCount,
        if rb_readOffset rb = rb_writeOffset rb
        then rb\<lparr>rb_readOffset := 0, rb_writeOffset := 0, rb_empty := True\<rparr> else rb))"

definition ring_Read :: "nat \<Rightarrow> ring \<Rightarrow> (byte list \<times> nat \<times> ring) exec" where
  "ring_Read count rb =
    and_then (Peek count rb) (\<lambda>out. let (n, rb) = Skip (length out) rb in Inr (out, n, rb))"

definition Write :: "byte list \<Rightarrow> ring \<Rightarrow> (nat \<times> ring) exec" where
  "Write input rb =
    (let writeLength = min (length input) (WritableSize rb) in
     if writeLength = 0 then Inr (0, rb)
     else if rb_writeOffset rb + writeLength < rb_size rb
     then and_then (memcpy (rb_buffer rb) (rb_writeOffset rb) (take writeLength input)) (\<lambda>buf.
       Inr (writeLength, rb\<lparr>rb_buffer := buf\<rparr>))
     else
       let firstWrite = rb_size rb - rb_writeOffset rb;
           secondWrite = writeLength - firstWrite in
       and_then (memcpy (rb_buffer rb) (rb_writeOffset rb) (take firstWrite input)) (\<lambda>buf.
       and_then (memcpy buf 0 (slice firstWrite secondWrite input)) (\<lambda>buf.
       Inr (writeLength, rb\<lparr>rb_buffer := buf\<rparr>))))"

definition ring_put :: "byte list \<Rightarrow> ring \<Rightarrow> ring exec" where
  "ring_put input rb =
    and_then (Write input rb) (\<lambda>(n, rb). and_then (Advance n rb) (\<lambda>(_, rb). Inr rb))"

definition ring_get :: "nat \<Rightarrow> ring \<Rightarrow> (byte list \<times> ring) exec" where
  "ring_get count rb = and_then (ring_Read count rb) (\<lambda>(out, _, rb). Inr (out, rb))"

section \<open>The interface\<close>

locale byte_fifo =
  fixes ok :: "'s \<Rightarrow> bool"
    and contents :: "'s \<Rightarrow> byte list"
    and room :: "'s \<Rightarrow> nat"
    and put :: "byte list \<Rightarrow> 's \<Rightarrow> 's exec"
    and get :: "nat \<Rightarrow> 's \<Rightarrow> (byte list \<times> 's) exec"
  assumes put_law: "ok s \<Longrightarrow>
      \<exists>s'. put bs s = Inr s' \<and> ok s' \<and> contents s' = contents s @ take (room s) bs"
    and get_law: "ok s \<Longrightarrow>
      \<exists>s'. get n s = Inr (take n (contents s), s') \<and> ok s' \<and> contents s' = drop n (contents s)"

datatype fifo_op = Put_Op "byte list" | Get_Op nat

text \<open>Runs a script and collects the bytes that were accepted and the bytes that came out.\<close>

fun fifo_run :: "('s \<Rightarrow> nat) \<Rightarrow> (byte list \<Rightarrow> 's \<Rightarrow> 's exec) \<Rightarrow> (nat \<Rightarrow> 's \<Rightarrow> (byte list \<times> 's) exec)
    \<Rightarrow> fifo_op list \<Rightarrow> 's \<Rightarrow> (byte list \<times> byte list \<times> 's) exec" where
  "fifo_run room put get [] s = Inr ([], [], s)"
| "fifo_run room put get (Put_Op bs # ops) s =
     and_then (put bs s) (\<lambda>s'.
     and_then (fifo_run room put get ops s') (\<lambda>(i, u, s''). Inr (take (room s) bs @ i, u, s'')))"
| "fifo_run room put get (Get_Op n # ops) s =
     and_then (get n s) (\<lambda>(bs, s').
     and_then (fifo_run room put get ops s') (\<lambda>(i, u, s''). Inr (i, bs @ u, s'')))"

context byte_fifo
begin

lemma run_conserves:
  assumes "ok s"
  shows "\<exists>i u s'. fifo_run room put get ops s = Inr (i, u, s') \<and> ok s' \<and> contents s @ i = u @ contents s'"
  using assms
proof (induction ops arbitrary: s)
  case Nil
  then show ?case by simp
next
  case (Cons op ops)
  show ?case
  proof (cases op)
    case (Put_Op bs)
    obtain s1 where s1: "put bs s = Inr s1" "ok s1" "contents s1 = contents s @ take (room s) bs"
      using put_law [OF Cons.prems] by blast
    then show ?thesis using Cons.IH [OF s1(2)] by (auto simp: Put_Op)
  next
    case (Get_Op n)
    obtain s1 where s1: "get n s = Inr (take n (contents s), s1)" "ok s1" "contents s1 = drop n (contents s)"
      using get_law [OF Cons.prems] by blast
    obtain i u s2 where r: "fifo_run room put get ops s1 = Inr (i, u, s2)" "ok s2"
        "contents s1 @ i = u @ contents s2"
      using Cons.IH [OF s1(2)] by blast
    have "contents s @ i = take n (contents s) @ (contents s1 @ i)" by (simp add: s1(3))
    then have "contents s @ i = take n (contents s) @ u @ contents s2" by (simp only: r(3))
    then show ?thesis using s1(1) r(1,2) by (simp add: Get_Op)
  qed
qed

end

section \<open>The ring as a queue\<close>

definition ring_ok :: "ring \<Rightarrow> bool" where
  "ring_ok rb \<longleftrightarrow> length (rb_buffer rb) = rb_size rb \<and> rb_readOffset rb < rb_size rb
     \<and> rb_writeOffset rb < rb_size rb
     \<and> (rb_empty rb \<longrightarrow> rb_readOffset rb = 0 \<and> rb_writeOffset rb = 0)"

definition ring_contents :: "ring \<Rightarrow> byte list" where
  "ring_contents rb =
    (if rb_empty rb then []
     else if rb_readOffset rb < rb_writeOffset rb
     then slice (rb_readOffset rb) (rb_writeOffset rb - rb_readOffset rb) (rb_buffer rb)
     else drop (rb_readOffset rb) (rb_buffer rb) @ take (rb_writeOffset rb) (rb_buffer rb))"

lemma length_ring_contents: "ring_ok rb \<Longrightarrow> length (ring_contents rb) = ReadableSize rb"
  by (auto simp: ring_ok_def ring_contents_def ReadableSize_def)

lemma WritableSize_eq:
  assumes "ring_ok rb"
  shows "WritableSize rb = (if ring_contents rb = [] then 0 else rb_size rb - length (ring_contents rb))"
proof -
  have "ring_contents rb = [] \<longleftrightarrow> rb_empty rb"
    using assms by (simp add: ring_ok_def ring_contents_def slice_def)
  then show ?thesis unfolding length_ring_contents [OF assms]
    using assms by (simp add: ring_ok_def WritableSize_def ReadableSize_def)
qed

text \<open>The two shapes of a ring that is not empty, over the bare buffer.\<close>

lemma contents_straight:
  "\<not> rb_empty rb \<Longrightarrow> rb_readOffset rb < rb_writeOffset rb \<Longrightarrow>
    ring_contents rb = slice (rb_readOffset rb) (rb_writeOffset rb - rb_readOffset rb) (rb_buffer rb)"
  by (simp add: ring_contents_def)

lemma contents_wrapped:
  "\<not> rb_empty rb \<Longrightarrow> rb_writeOffset rb \<le> rb_readOffset rb \<Longrightarrow>
    ring_contents rb = drop (rb_readOffset rb) (rb_buffer rb) @ take (rb_writeOffset rb) (rb_buffer rb)"
  by (simp add: ring_contents_def)

lemma take_wrapped:
  assumes "length b = k" "r < k" "k \<le> r + n" "n \<le> k - r + w"
  shows "take n (drop r b @ take w b) = slice r (k - r) b @ slice 0 (n - (k - r)) b"
proof -
  have "n - (k - r) \<le> w" using assms by linarith
  then show ?thesis using assms by (simp add: slice_def)
qed

lemma Peek_contents:
  assumes ok: "ring_ok rb"
  shows "Peek count rb = Inr (take count (ring_contents rb))"
proof -
  define n where "n = min count (ReadableSize rb)"
  have eq: "take count (ring_contents rb) = take n (ring_contents rb)"
    using length_ring_contents [OF ok] by (simp add: n_def min_def)
  have le: "n \<le> ReadableSize rb" by (simp add: n_def)
  have b: "length (rb_buffer rb) = rb_size rb" "rb_readOffset rb < rb_size rb"
      "rb_writeOffset rb < rb_size rb"
    using ok by (simp_all add: ring_ok_def)
  have run: "Peek count rb = (if n = 0 then Inr []
     else if rb_readOffset rb + n < rb_size rb then load (rb_buffer rb) (rb_readOffset rb) n
     else and_then (load (rb_buffer rb) (rb_readOffset rb) (rb_size rb - rb_readOffset rb)) (\<lambda>a.
       and_then (load (rb_buffer rb) 0 (n - (rb_size rb - rb_readOffset rb))) (\<lambda>b. Inr (a @ b))))"
    unfolding Peek_def Let_def n_def by (rule refl)
  show ?thesis
  proof (cases "n = 0")
    case True
    then show ?thesis using run eq by simp
  next
    case False
    then have ne: "\<not> rb_empty rb" using le by (auto simp: ReadableSize_def)
    show ?thesis
    proof (cases "rb_readOffset rb < rb_writeOffset rb")
      case True
      then have n: "n \<le> rb_writeOffset rb - rb_readOffset rb" using le ne by (simp add: ReadableSize_def)
      then have "rb_readOffset rb + n < rb_size rb" using b True by linarith
      with n show ?thesis using False True b ne unfolding run eq
        by (simp add: load_def contents_straight slice_def)
    next
      case wrapped: False
      then have n: "n \<le> rb_size rb - rb_readOffset rb + rb_writeOffset rb"
        using le ne by (simp add: ReadableSize_def)
      show ?thesis
      proof (cases "rb_readOffset rb + n < rb_size rb")
        case True
        then show ?thesis using False wrapped b ne unfolding run eq
          by (simp add: load_def contents_wrapped slice_def)
      next
        case over: False
        then have "n - (rb_size rb - rb_readOffset rb) \<le> rb_size rb" using n b wrapped by linarith
        then show ?thesis using False over wrapped b ne n unfolding run eq
          by (simp add: load_def contents_wrapped take_wrapped slice_def)
      qed
    qed
  qed
qed

lemma Skip_contents:
  assumes ok: "ring_ok rb"
  shows "ring_ok (snd (Skip count rb))"
    "ring_contents (snd (Skip count rb)) = drop count (ring_contents rb)"
proof -
  define n where "n = min count (ReadableSize rb)"
  have eq: "drop count (ring_contents rb) = drop n (ring_contents rb)"
    using length_ring_contents [OF ok] by (simp add: n_def min_def)
  have le: "n \<le> ReadableSize rb" by (simp add: n_def)
  let ?r = "rb_readOffset rb" and ?w = "rb_writeOffset rb" and ?k = "rb_size rb"
  have b: "length (rb_buffer rb) = ?k" "?r < ?k" "?w < ?k" using ok by (simp_all add: ring_ok_def)
  have run: "snd (Skip count rb) = (if n = 0 then rb
     else if (?r + n) mod ?k = ?w
     then rb\<lparr>rb_readOffset := 0, rb_writeOffset := 0, rb_empty := True\<rparr>
     else rb\<lparr>rb_readOffset := (?r + n) mod ?k\<rparr>)"
    by (simp add: Skip_def Let_def flip: n_def)
  show "ring_ok (snd (Skip count rb))"
    unfolding run using ok b le by (auto simp: ring_ok_def ReadableSize_def)
  show "ring_contents (snd (Skip count rb)) = drop count (ring_contents rb)"
  proof (cases "n = 0")
    case True
    then show ?thesis using run eq by simp
  next
    case False
    then have ne: "\<not> rb_empty rb" using le by (auto simp: ReadableSize_def)
    show ?thesis
    proof (cases "?r < ?w")
      case True
      then have n: "n \<le> ?w - ?r" using le ne by (simp add: ReadableSize_def)
      then have m: "(?r + n) mod ?k = ?r + n" using b True by simp
      from n True have "?r + n = ?w \<or> ?r + n < ?w" by linarith
      then show ?thesis using False True b ne m unfolding run eq
        by (auto simp: ring_contents_def slice_def drop_take add.commute)
    next
      case wrapped: False
      then have n: "n \<le> ?k - ?r + ?w" using le ne by (simp add: ReadableSize_def)
      show ?thesis
      proof (cases "?r + n < ?k")
        case True
        then show ?thesis using False wrapped b ne unfolding run eq
          by (simp add: ring_contents_def add.commute)
      next
        case over: False
        then have m: "(?r + n) mod ?k = ?r + n - ?k" using n b wrapped by (simp add: mod_if)
        obtain q where q: "?r + n = ?k + q" using over by (metis le_iff_add not_less)
        then have "q \<le> ?w" "n - (?k - ?r) = q" using n b by linarith+
        moreover have "drop n (drop ?r (rb_buffer rb)) = []" using q b by simp
        ultimately show ?thesis using m q False wrapped b ne unfolding run eq
          by (auto simp: ring_contents_def slice_def drop_take)
      qed
    qed
  qed
qed

lemma ring_get_law:
  assumes "ring_ok rb"
  shows "\<exists>rb'. ring_get n rb = Inr (take n (ring_contents rb), rb') \<and> ring_ok rb'
    \<and> ring_contents rb' = drop n (ring_contents rb)"
proof -
  let ?m = "length (take n (ring_contents rb))"
  have "drop ?m (ring_contents rb) = drop n (ring_contents rb)" by (simp add: min_def)
  then show ?thesis
    using Skip_contents [OF assms, of ?m] Peek_contents [OF assms, of n]
    by (simp add: ring_get_def ring_Read_def case_prod_beta)
qed

text \<open>\<^verbatim>\<open>Write\<close> and \<^verbatim>\<open>Advance\<close> over the bytes written.\<close>

lemma ring_put_run:
  assumes ok: "ring_ok rb" and n: "n = min (length input) (WritableSize rb)"
  shows "ring_put input rb = Inr (
    if n = 0 then rb
    else if rb_writeOffset rb + n < rb_size rb
    then rb\<lparr>rb_buffer := blit (rb_buffer rb) (rb_writeOffset rb) (take n input),
            rb_writeOffset := rb_writeOffset rb + n\<rparr>
    else let m = rb_size rb - rb_writeOffset rb in
      rb\<lparr>rb_buffer := blit (blit (rb_buffer rb) (rb_writeOffset rb) (take m input)) 0 (slice m (n - m) input),
         rb_writeOffset := n - m\<rparr>)"
proof -
  let ?w = "rb_writeOffset rb" and ?k = "rb_size rb"
  have b: "length (rb_buffer rb) = ?k" "rb_readOffset rb < ?k" "?w < ?k" using ok by (simp_all add: ring_ok_def)
  have le: "n \<le> length input" "n \<le> WritableSize rb" by (simp_all add: n)
  show ?thesis
  proof (cases "n = 0")
    case True
    then have "Write input rb = Inr (0, rb)" by (simp add: Write_def Let_def flip: n)
    then show ?thesis using True by (simp add: ring_put_def Advance_def)
  next
    case False
    then have ne: "\<not> rb_empty rb" using le(2) by (auto simp: WritableSize_def)
    have W: "WritableSize (rb\<lparr>rb_buffer := x\<rparr>) = WritableSize rb" for x by (simp add: WritableSize_def)
    show ?thesis
    proof (cases "?w + n < ?k")
      case True
      then have "Write input rb = Inr (n, rb\<lparr>rb_buffer := blit (rb_buffer rb) ?w (take n input)\<rparr>)"
        using False b le(1) by (simp add: Write_def Let_def memcpy_def flip: n)
      then show ?thesis using False True ne le(2) W by (simp add: ring_put_def Advance_def Let_def)
    next
      case over: False
      let ?m = "?k - ?w"
      have "n - ?m \<le> ?k" "?m \<le> length input" using over le b
        by (auto simp: WritableSize_def split: if_splits)
      then have "Write input rb = Inr (n, rb\<lparr>rb_buffer :=
          blit (blit (rb_buffer rb) ?w (take ?m input)) 0 (slice ?m (n - ?m) input)\<rparr>)"
        using False over b by (simp add: Write_def Let_def memcpy_def flip: n)
      then show ?thesis using False over ne le(2) W by (simp add: ring_put_def Advance_def Let_def)
    qed
  qed
qed

lemma ring_put_law:
  assumes ok: "ring_ok rb"
  shows "\<exists>rb'. ring_put input rb = Inr rb' \<and> ring_ok rb'
    \<and> ring_contents rb' = ring_contents rb @ take (WritableSize rb) input"
proof -
  define n where "n = min (length input) (WritableSize rb)"
  let ?r = "rb_readOffset rb" and ?w = "rb_writeOffset rb" and ?k = "rb_size rb" and ?b = "rb_buffer rb"
  have b: "length ?b = ?k" "?r < ?k" "?w < ?k" using ok by (simp_all add: ring_ok_def)
  have le: "n \<le> length input" "n \<le> WritableSize rb" by (simp_all add: n_def)
  have eq: "take (WritableSize rb) input = take n input" by (simp add: n_def min_def)
  note run = ring_put_run [OF ok n_def]
  show ?thesis
  proof (cases "n = 0")
    case True
    then show ?thesis using run eq ok by simp
  next
    case False
    then have ne: "\<not> rb_empty rb" using le(2) by (auto simp: WritableSize_def)
    show ?thesis
    proof (cases "?w + n < ?k")
      case True
      let ?rb = "rb\<lparr>rb_buffer := blit ?b ?w (take n input), rb_writeOffset := ?w + n\<rparr>"
      have "ring_ok ?rb" using ok True b le ne by (simp add: ring_ok_def)
      moreover have "ring_contents ?rb = ring_contents rb @ take n input"
      proof (cases "?w \<le> ?r")
        case wr: True
        then have "?w + n \<le> ?r" using le ne by (simp add: WritableSize_def)
        then show ?thesis using ne b le wr True by (simp add: ring_contents_def blit_def)
      next
        case wr: False
        have "?r + (?w - ?r) = ?w" using wr by simp
        then show ?thesis using ne b le wr True
          by (simp add: ring_contents_def blit_def slice_def drop_take)
      qed
      ultimately show ?thesis using run False True eq by simp
    next
      case over: False
      let ?m = "?k - ?w"
      let ?rb = "rb\<lparr>rb_buffer := blit (blit ?b ?w (take ?m input)) 0 (slice ?m (n - ?m) input),
         rb_writeOffset := n - ?m\<rparr>"
      have wr: "?r < ?w" and room: "n - ?m \<le> ?r" and m: "?m \<le> n"
        using over le(2) b ne by (auto simp: WritableSize_def split: if_splits)
      let ?B = "slice ?m (n - ?m) input @ slice (n - ?m) (?w - (n - ?m)) ?b @ take ?m input"
      have len: "length (slice ?m (n - ?m) input) = n - ?m" using le(1) m by simp
      have buf: "rb_buffer ?rb = ?B"
      proof -
        have "blit ?b ?w (take ?m input) = take ?w ?b @ take ?m input"
          using b m le(1) by (simp add: blit_def)
        then show ?thesis using b room wr len by (simp add: blit_def slice_def drop_take)
      qed
      have "drop ?r ?B = slice ?r (?w - ?r) ?b @ take ?m input"
        using b room wr len by (simp add: slice_def drop_take)
      moreover have "take (n - ?m) ?B = slice ?m (n - ?m) input" using len by simp
      moreover have "take ?m input @ slice ?m (n - ?m) input = take n input"
        using take_add [of ?m "n - ?m" input] m by (simp add: slice_def)
      moreover have "ring_contents ?rb = drop ?r ?B @ take (n - ?m) ?B"
        using contents_wrapped [of ?rb] ne room unfolding buf by simp
      moreover have "ring_contents rb = slice ?r (?w - ?r) ?b" using ne wr by (simp add: contents_straight)
      ultimately have "ring_contents ?rb = ring_contents rb @ take n input"
        by (simp only: append_assoc)
      moreover have "ring_ok ?rb" using ok over b le ne room m by (simp add: ring_ok_def)
      ultimately show ?thesis using run False over eq by (simp add: Let_def)
    qed
  qed
qed

interpretation ring: byte_fifo ring_ok ring_contents WritableSize ring_put ring_get
  by unfold_locales (rule ring_put_law, assumption, rule ring_get_law, assumption)

section \<open>Properties\<close>

text \<open>
  Property C7. On a well-formed ring buffer any sequence of writes (each followed by the \<^verbatim>\<open>Advance\<close> over the
  bytes written) and reads runs without a failed assertion and without leaving the buffer, and is first
  in first out: the contents before it followed by the bytes accepted are the bytes read followed by
  the contents after it.
\<close>

theorem ring_buffer_fifo:
  assumes "ring_ok rb"
  shows "\<exists>accepted out rb'. fifo_run WritableSize ring_put ring_get ops rb = Inr (accepted, out, rb')
    \<and> ring_ok rb' \<and> ring_contents rb @ accepted = out @ ring_contents rb'"
  using assms by (rule ring.run_conserves)

theorem ring_buffer_fifo_witness:
  "\<exists>accepted out rb'.
    fifo_run WritableSize ring_put ring_get [Get_Op 2, Put_Op [7, 8, 9], Get_Op 3] (RingBuffer [1, 2, 3, 4])
      = Inr (accepted, out, rb')
    \<and> ring_ok rb' \<and> ring_contents (RingBuffer [1, 2, 3, 4]) @ accepted = out @ ring_contents rb'"
  by (rule ring_buffer_fifo) (simp add: ring_ok_def RingBuffer_def)

text \<open>
  A new ring buffer of positive size has no room: it reports its uninitialised bytes as
  readable. Reading them empties it, and an empty ring buffer has no room ever after: every write
  accepts nothing. Its destructor deletes the memory exactly when the caller owns it.
\<close>

theorem ring_buffer_unusable:
  assumes "0 < length fresh"
  shows "WritableSize (RingBuffer fresh) = 0 \<and> ring_contents (RingBuffer fresh) = fresh
    \<and> (\<exists>rb. ring_get (length fresh) (RingBuffer fresh) = Inr (fresh, rb) \<and> ring_contents rb = [])
    \<and> (\<forall>rb input. ring_ok rb \<and> ring_contents rb = [] \<longrightarrow> ring_put input rb = Inr rb)
    \<and> \<not> RingBuffer_deletes (RingBuffer fresh)
    \<and> (\<exists>rb. RingBuffer_on fresh = Inr rb \<and> RingBuffer_deletes rb)"
proof -
  have ok: "ring_ok (RingBuffer fresh)" and c: "ring_contents (RingBuffer fresh) = fresh"
    using assms by (simp_all add: ring_ok_def RingBuffer_def ring_contents_def)
  then have "\<exists>rb. ring_get (length fresh) (RingBuffer fresh) = Inr (fresh, rb) \<and> ring_contents rb = []"
    using ring_get_law [OF ok, of "length fresh"] by auto
  moreover have "ring_put input rb = Inr rb" if "ring_ok rb" "ring_contents rb = []" for rb input
    using ring_put_run [OF that(1) refl, of input] WritableSize_eq [OF that(1)] that(2) by simp
  moreover have "WritableSize (RingBuffer fresh) = 0" by (simp add: WritableSize_def RingBuffer_def)
  ultimately show ?thesis using c assms
    by (simp add: RingBuffer_deletes_def RingBuffer_on_def) (simp add: RingBuffer_def)
qed

theorem ring_buffer_unusable_witness:
  "\<exists>rb. ring_get (length [1, 2, 3 :: byte]) (RingBuffer [1, 2, 3]) = Inr ([1, 2, 3], rb)
    \<and> ring_contents rb = []"
  using ring_buffer_unusable [of "[1, 2, 3]"] by blast

end
