(* ===== verification/Random_Gen.thy ===== *)
theory Random_Gen
  imports Fnv
begin

text \<open>
  The generators of \<^verbatim>\<open>Random.h\<close>, \<^verbatim>\<open>Impl/Random.h\<close> and \<^verbatim>\<open>Random.cpp\<close>: the mixers, the three xorshift states
  with their constructors and steps, the ranges and the byte buffers. The seeds taken from the clock,
  the hardware generator and the system's secure bytes are arguments; the conversions to
  floating point are left out. The templates over \<^verbatim>\<open>RandomState\<close> take the state's \<^verbatim>\<open>Bits32\<close> or
  \<^verbatim>\<open>Bits64\<close> as an argument.
\<close>

section \<open>Model\<close>

definition Mix32 :: "u32 \<Rightarrow> u32" where
  "Mix32 v =
    (let v = v XOR drop_bit 16 v; v = v * 0x85ebca6b;
         v = v XOR drop_bit 13 v; v = v * 0xc2b2ae35;
         v = v XOR drop_bit 16 v in v)"

definition Mix64 :: "u64 \<Rightarrow> u64" where
  "Mix64 v =
    (let v = v XOR drop_bit 33 v; v = v * 0xff51afd7ed558ccd;
         v = v XOR drop_bit 33 v; v = v * 0xc4ceb9fe1a85ec53;
         v = v XOR drop_bit 33 v in v)"

text \<open>\<^verbatim>\<open>Mix(int64_t)\<close> calls \<^verbatim>\<open>Mix32\<close>, which takes the low half of its argument.\<close>

definition Mix_int32 :: "u32 \<Rightarrow> u32" where
  "Mix_int32 v = Mix32 v"

definition Mix_int64 :: "u64 \<Rightarrow> u64" where
  "Mix_int64 v = ucast (Mix32 (ucast v))"

definition rotl64 :: "u64 \<Rightarrow> nat \<Rightarrow> u64" where
  "rotl64 v k = push_bit k v OR drop_bit (64 - k) v"

type_synonym xorshift32 = u32
type_synonym xorshift128 = "u64 \<times> u64"

record xorshift1024 =
  xs_state :: "u64 list"
  xs_p :: nat

definition XorShift32 :: "u32 \<Rightarrow> xorshift32" where
  "XorShift32 seed = (if seed \<noteq> 0 then seed else 1)"

definition XorShift128 :: "u64 \<Rightarrow> xorshift128" where
  "XorShift128 seed = (let seed = (if seed = 0 then 1 else seed); s0 = Mix64 seed in (s0, Mix64 s0))"

fun mix_fill :: "nat \<Rightarrow> u64 \<Rightarrow> u64 list" where
  "mix_fill 0 seed = []"
| "mix_fill (Suc n) seed = (let seed = Mix64 seed in seed # mix_fill n seed)"

definition XorShift1024 :: "u64 \<Rightarrow> xorshift1024" where
  "XorShift1024 seed =
     (let seed = (if seed = 0 then 1 else seed) in \<lparr>xs_state = mix_fill 16 seed, xs_p = 0\<rparr>)"

definition Bits32_32 :: "xorshift32 \<Rightarrow> u32 \<times> xorshift32" where
  "Bits32_32 state =
    (let seed = state; s = seed; s = s XOR push_bit 13 s; s = s XOR drop_bit 17 s;
         s = s XOR push_bit 5 s in (s + seed, s))"

definition Bits64_32 :: "xorshift32 \<Rightarrow> u64 \<times> xorshift32" where
  "Bits64_32 state =
    (let (high, state) = Bits32_32 state; (low, state) = Bits32_32 state
     in (push_bit 32 (ucast high) OR ucast low, state))"

definition Bits64_128 :: "xorshift128 \<Rightarrow> u64 \<times> xorshift128" where
  "Bits64_128 = (\<lambda>(s0, s1).
    (let result = s0 + s1; s1 = s1 XOR s0
     in (result, (rotl64 s0 55 XOR s1 XOR push_bit 14 s1, rotl64 s1 36))))"

definition Bits32_128 :: "xorshift128 \<Rightarrow> u32 \<times> xorshift128" where
  "Bits32_128 state = (let (v, state) = Bits64_128 state in (ucast v, state))"

definition Bits64_1024 :: "xorshift1024 \<Rightarrow> u64 \<times> xorshift1024" where
  "Bits64_1024 s =
    (let s0 = xs_state s ! xs_p s; p = (xs_p s + 1) AND 15; s1 = xs_state s ! p;
         s1 = s1 XOR push_bit 31 s1;
         v = s1 XOR s0 XOR drop_bit 11 s1 XOR drop_bit 30 s0
     in (v * 0x9e3779b97f4a7c13, \<lparr>xs_state = (xs_state s)[p := v], xs_p = p\<rparr>))"

definition Bits32_1024 :: "xorshift1024 \<Rightarrow> u32 \<times> xorshift1024" where
  "Bits32_1024 state = (let (v, state) = Bits64_1024 state in (ucast v, state))"

text \<open>
  \<^verbatim>\<open>Bytes\<close> on a little endian host, with the size of the state's integer in bytes; the caller's pointer
  is not null. The result is the memory the call fills.
\<close>

function bytes_loop :: "nat \<Rightarrow> ('s \<Rightarrow> 'a::len word \<times> 's) \<Rightarrow> 's \<Rightarrow> nat \<Rightarrow> byte list \<Rightarrow> byte list \<times> 's" where
  "bytes_loop chunk bits state sz acc =
    (if chunk > 0 \<and> sz > chunk then
       let (value, state) = bits state in
       bytes_loop chunk bits state (sz - chunk) (acc @ le_bytes chunk value)
     else if sz > 0 then
       let (value, state) = bits state in (acc @ take sz (le_bytes chunk value), state)
     else (acc, state))"
  by pat_completeness auto
termination
  by (relation "measure (\<lambda>(chunk, bits, state, sz, acc). sz)") auto

declare bytes_loop.simps [simp del]

definition Bytes_32 :: "xorshift32 \<Rightarrow> nat \<Rightarrow> byte list \<times> xorshift32" where
  "Bytes_32 state sz = (if sz = 0 then ([], state) else bytes_loop 4 Bits32_32 state sz [])"

definition Bytes_128 :: "xorshift128 \<Rightarrow> nat \<Rightarrow> byte list \<times> xorshift128" where
  "Bytes_128 state sz = (if sz = 0 then ([], state) else bytes_loop 8 Bits64_128 state sz [])"

definition Bytes_1024 :: "xorshift1024 \<Rightarrow> nat \<Rightarrow> byte list \<times> xorshift1024" where
  "Bytes_1024 state sz = (if sz = 0 then ([], state) else bytes_loop 8 Bits64_1024 state sz [])"

definition UInt32 :: "('s \<Rightarrow> u32 \<times> 's) \<Rightarrow> 's \<Rightarrow> u32 \<Rightarrow> u32 \<Rightarrow> u32 \<times> 's" where
  "UInt32 bits32 state lo hi =
    (let (value, state) = bits32 state; ret = hi - lo + 1;
         value = (if ret \<noteq> 0 then value mod ret else value)
     in (value + lo, state))"

definition UInt64 :: "('s \<Rightarrow> u64 \<times> 's) \<Rightarrow> 's \<Rightarrow> u64 \<Rightarrow> u64 \<Rightarrow> u64 \<times> 's" where
  "UInt64 bits64 state lo hi =
    (let (value, state) = bits64 state; ret = hi - lo + 1;
         value = (if ret \<noteq> 0 then value mod ret else value)
     in (value + lo, state))"

text \<open>The signed ranges convert to unsigned words and back; the words stand for both.\<close>

definition Int32 :: "('s \<Rightarrow> u32 \<times> 's) \<Rightarrow> 's \<Rightarrow> int \<Rightarrow> int \<Rightarrow> int \<times> 's" where
  "Int32 bits32 state lo hi =
    (let (value, state) = UInt32 bits32 state (of_int lo) (of_int hi) in (sint value, state))"

definition Int64 :: "('s \<Rightarrow> u64 \<times> 's) \<Rightarrow> 's \<Rightarrow> int \<Rightarrow> int \<Rightarrow> int \<times> 's" where
  "Int64 bits64 state lo hi =
    (let (value, state) = UInt64 bits64 state (of_int lo) (of_int hi) in (sint value, state))"

text \<open>\<open>hardware\<close> and \<open>system\<close> are the two sources, each with the bytes it delivers or a failure.\<close>

definition SecureBytes :: "(nat \<Rightarrow> byte list option) \<Rightarrow> (nat \<Rightarrow> byte list option) \<Rightarrow> nat \<Rightarrow> byte list result" where
  "SecureBytes hardware system sz =
    (case hardware sz of Some bs \<Rightarrow> Inr bs
     | None \<Rightarrow> (case system sz of Some bs \<Rightarrow> Inr bs | None \<Rightarrow> Inl E_FAILURE))"

section \<open>Shifts and exclusive or\<close>

lemma xor_push_bit_inject:
  assumes "0 < k" "(x :: 'a::len word) XOR push_bit k x = y XOR push_bit k y"
  shows "x = y"
proof (rule bit_word_eqI)
  fix n assume "n < LENGTH('a)"
  then show "bit x n = bit y n"
  proof (induction n rule: less_induct)
    case (less n)
    have eq: "(bit x n \<noteq> (k \<le> n \<and> bit x (n - k))) = (bit y n \<noteq> (k \<le> n \<and> bit y (n - k)))"
      using arg_cong [OF assms(2), of "\<lambda>w. bit w n"] less.prems by (simp add: bit_simps)
    show ?case
    proof (cases "k \<le> n")
      case True
      then have "bit x (n - k) = bit y (n - k)" using less assms(1) by simp
      then show ?thesis using eq by auto
    next
      case False
      then show ?thesis using eq by simp
    qed
  qed
qed

lemma xor_drop_bit_inject:
  assumes "0 < k" "(x :: 'a::len word) XOR drop_bit k x = y XOR drop_bit k y"
  shows "x = y"
proof (rule bit_word_eqI)
  fix n assume "n < LENGTH('a)"
  then show "bit x n = bit y n"
  proof (induction "LENGTH('a) - n" arbitrary: n rule: less_induct)
    case less
    have eq: "(bit x n \<noteq> bit x (k + n)) = (bit y n \<noteq> bit y (k + n))"
      using arg_cong [OF assms(2), of "\<lambda>w. bit w n"] less.prems by (simp add: bit_simps)
    show ?case
    proof (cases "k + n < LENGTH('a)")
      case True
      then have "bit x (k + n) = bit y (k + n)" using less assms(1) by simp
      then show ?thesis using eq by auto
    next
      case False
      then have "\<not> bit x (k + n)" "\<not> bit y (k + n)" by (auto dest: bit_imp_le_length)
      then show ?thesis using eq by simp
    qed
  qed
qed

lemma rotl64_inject:
  assumes "0 < k" "k < 64" "rotl64 x k = rotl64 y k"
  shows "x = y"
proof (rule bit_word_eqI)
  fix n assume n: "n < LENGTH(64)"
  have bits: "bit (rotl64 z k) ((n + k) mod 64) = bit z n" for z
  proof (cases "n + k < 64")
    case True
    then have "(n + k) mod 64 = n + k" "\<not> bit z (64 - k + (n + k))"
      by (auto dest: bit_imp_le_length)
    then show ?thesis using True by (simp add: rotl64_def bit_simps)
  next
    case False
    then have "(n + k) mod 64 = n + k - 64" using n assms by (simp add: mod_if)
    moreover have "\<not> k \<le> n + k - 64" "64 - k + (n + k - 64) = n" using False n assms by auto
    ultimately show ?thesis using n assms by (simp add: rotl64_def bit_simps)
  qed
  show "bit x n = bit y n" using bits [of x] bits [of y] assms(3) by simp
qed

lemmas xorshift_injects = xor_push_bit_inject xor_drop_bit_inject

section \<open>Mixers and steps lose nothing\<close>

lemma mix64_units: "(0xff51afd7ed558ccd :: u64) * 5725274745694666757 = 1" "(0xc4ceb9fe1a85ec53 :: u64) * 11291846944257947611 = 1"
  by simp_all

lemma Mix64_inject: "Mix64 x = Mix64 y \<Longrightarrow> x = y"
  unfolding Mix64_def Let_def
  by (auto simp: mix64_units [THEN mult_unit_cancel]
      dest!: xor_drop_bit_inject [of 33, OF zero_less_numeral])

lemma Mix64_nonzero: "x \<noteq> 0 \<Longrightarrow> Mix64 x \<noteq> 0"
proof -
  assume "x \<noteq> 0"
  moreover have "Mix64 0 = 0" by (simp add: Mix64_def)
  ultimately show ?thesis using Mix64_inject [of x 0] by auto
qed

lemma Bits32_32_inject: "snd (Bits32_32 x) = snd (Bits32_32 y) \<Longrightarrow> x = y"
  unfolding Bits32_32_def Let_def snd_conv
  by (drule xor_push_bit_inject [of 5, OF zero_less_numeral],
      drule xor_drop_bit_inject [of 17, OF zero_less_numeral],
      drule xor_push_bit_inject [of 13, OF zero_less_numeral])

lemma Bits64_128_inject:
  assumes "snd (Bits64_128 x) = snd (Bits64_128 y)"
  shows "x = y"
proof -
  obtain x0 x1 y0 y1 where xy: "x = (x0, x1)" "y = (y0, y1)" by (metis prod.exhaust)
  have "rotl64 (x1 XOR x0) 36 = rotl64 (y1 XOR y0) 36"
    using assms by (simp add: xy Bits64_128_def Let_def)
  then have s1: "x1 XOR x0 = y1 XOR y0" by (rule rotl64_inject [rotated 2]) simp_all
  have "rotl64 x0 55 XOR (x1 XOR x0) XOR push_bit 14 (x1 XOR x0)
      = rotl64 y0 55 XOR (y1 XOR y0) XOR push_bit 14 (y1 XOR y0)"
    using assms by (simp add: xy Bits64_128_def Let_def)
  then have "rotl64 x0 55 = rotl64 y0 55" unfolding s1 by (simp add: xor_cancel)
  then have "x0 = y0" by (rule rotl64_inject [rotated 2]) simp_all
  then show ?thesis using s1 by (simp add: xy xor_cancel)
qed

definition xs1024_ok :: "xorshift1024 \<Rightarrow> bool" where
  "xs1024_ok s \<longleftrightarrow> length (xs_state s) = 16 \<and> xs_p s < 16 \<and> (\<exists>i<16. xs_state s ! i \<noteq> 0)"

lemma and_15: "n AND 15 = (n :: nat) mod 16"
  using take_bit_eq_mask [of 4 n] by (simp add: take_bit_eq_mod mask_eq_exp_minus_1)

lemma Bits64_1024_ok:
  assumes ok: "xs1024_ok s"
  shows "xs1024_ok (snd (Bits64_1024 s))"
proof -
  let ?p = "xs_p s" and ?q = "(xs_p s + 1) AND 15" and ?st = "xs_state s"
  have s: "length ?st = 16" "?p < 16" "?q < 16" "?q \<noteq> ?p"
    using ok by (auto simp: xs1024_ok_def and_15 mod_Suc)
  let ?s1 = "?st ! ?q XOR push_bit 31 (?st ! ?q)"
  let ?v = "?s1 XOR ?st ! ?p XOR drop_bit 11 ?s1 XOR drop_bit 30 (?st ! ?p)"
  have run: "snd (Bits64_1024 s) = \<lparr>xs_state = ?st[?q := ?v], xs_p = ?q\<rparr>"
    by (simp add: Bits64_1024_def Let_def)
  have "\<exists>i<16. ?st[?q := ?v] ! i \<noteq> 0"
  proof (rule ccontr)
    assume "\<not> (\<exists>i<16. ?st[?q := ?v] ! i \<noteq> 0)"
    then have z: "?st[?q := ?v] ! i = 0" if "i < 16" for i using that by blast
    have p0: "?st ! ?p = 0" using z [OF s(2)] s(4) by simp
    have v0: "?v = 0" using z [OF s(3)] s by simp
    have "?s1 XOR drop_bit 11 ?s1 = 0 XOR drop_bit 11 0" using v0 p0 by simp
    then have "?s1 = 0" by (rule xor_drop_bit_inject [rotated]) simp
    then have "?st ! ?q XOR push_bit 31 (?st ! ?q) = 0 XOR push_bit 31 0" by simp
    then have q0: "?st ! ?q = 0" by (rule xor_push_bit_inject [rotated]) simp
    have "?st ! i = 0" if "i < 16" for i
      using z [OF that] q0 s that by (cases "i = ?q") simp_all
    then show False using ok by (auto simp: xs1024_ok_def)
  qed
  then show ?thesis using s by (simp add: run xs1024_ok_def)
qed

lemma XorShift1024_ok: "xs1024_ok (XorShift1024 seed)"
proof -
  have len: "length (mix_fill n v) = n" for n v by (induction n arbitrary: v) (simp_all add: Let_def)
  let ?v = "if seed = 0 then 1 else seed"
  have "mix_fill 16 ?v = Mix64 ?v # mix_fill 15 (Mix64 ?v)"
    using mix_fill.simps(2) [of 15 ?v] by (simp add: Let_def del: mix_fill.simps)
  then have "mix_fill 16 ?v ! 0 \<noteq> 0" using Mix64_nonzero [of ?v] by simp
  then have "\<exists>i<16. mix_fill 16 ?v ! i \<noteq> 0" by (intro exI [of _ 0]) simp
  then show ?thesis by (simp add: xs1024_ok_def XorShift1024_def Let_def len)
qed

section \<open>Ranges\<close>

lemma draw_bound:
  fixes v ret :: "'a::len word"
  assumes "0 \<le> D" "D < 2 ^ LENGTH('a)" and ret: "ret = of_int (D + 1)"
  shows "uint (if ret \<noteq> 0 then v mod ret else v) \<le> D"
proof (cases "D + 1 = 2 ^ LENGTH('a)")
  case True
  then have "ret = 0" by (simp add: ret del: of_int_add)
  moreover have "uint v \<le> D" using uint_lt2p [of v] True by linarith
  ultimately show ?thesis by simp
next
  case False
  then have u: "uint ret = D + 1"
    using assms by (simp add: unsigned_of_int take_bit_int_eq_self del: of_int_add)
  then have "ret \<noteq> 0" using assms(1) by auto
  moreover have "uint (v mod ret) \<le> D"
    using pos_mod_bound [of "D + 1" "uint v"] assms(1) by (simp add: uint_mod u)
  ultimately show ?thesis by simp
qed

lemma uint_add_bounded:
  fixes a b :: "'a::len word"
  assumes "uint a + uint b < 2 ^ LENGTH('a)"
  shows "uint (a + b) = uint a + uint b"
  using assms by (simp add: uint_word_ariths)

lemma range_unsigned:
  fixes v lo hi :: "'a::len word"
  assumes "lo \<le> hi"
  shows "lo \<le> (if hi - lo + 1 \<noteq> 0 then v mod (hi - lo + 1) else v) + lo
    \<and> (if hi - lo + 1 \<noteq> 0 then v mod (hi - lo + 1) else v) + lo \<le> hi"
proof -
  let ?D = "uint hi - uint lo"
  let ?v = "if hi - lo + 1 \<noteq> 0 then v mod (hi - lo + 1) else v"
  have "hi - lo + 1 = of_int (?D + 1)" by simp
  moreover have "0 \<le> ?D" "?D < 2 ^ LENGTH('a)"
    using assms uint_lt2p [of hi] uint_ge_0 [of lo] unfolding word_le_def by linarith+
  ultimately have "uint ?v \<le> ?D" by (intro draw_bound)
  moreover from this have "uint (?v + lo) = uint ?v + uint lo"
    using uint_lt2p [of hi] by (intro uint_add_bounded) linarith
  ultimately show ?thesis unfolding word_le_def by simp
qed

lemma range_signed:
  fixes v :: "'a::len word"
  assumes "lo \<le> hi" "- (2 ^ (LENGTH('a) - 1)) \<le> lo" "hi < 2 ^ (LENGTH('a) - 1)"
  defines "ret \<equiv> of_int hi - of_int lo + 1"
  defines "v' \<equiv> if ret \<noteq> 0 then v mod ret else v"
  shows "lo \<le> sint (v' + of_int lo) \<and> sint (v' + of_int lo) \<le> hi"
proof -
  have L: "(2 :: int) ^ LENGTH('a) = 2 * 2 ^ (LENGTH('a) - 1)" by (simp flip: power_Suc)
  have "ret = of_int (hi - lo + 1)" by (simp add: ret_def)
  moreover have "0 \<le> hi - lo" "hi - lo < 2 ^ LENGTH('a)" using assms(1-3) unfolding L by linarith+
  ultimately have D: "uint v' \<le> hi - lo" unfolding v'_def by (intro draw_bound)
  have "v' + of_int lo = of_int (uint v' + lo)" by simp
  moreover have "sint (of_int (uint v' + lo) :: 'a word) = uint v' + lo"
  proof -
    have "- (2 ^ (LENGTH('a) - Suc 0)) \<le> uint v' + lo" "uint v' + lo < 2 ^ (LENGTH('a) - Suc 0)"
      using D assms(2,3) uint_ge_0 [of v'] unfolding One_nat_def by linarith+
    then show ?thesis by (simp add: signed_of_int signed_take_bit_int_eq_self del: of_int_add)
  qed
  ultimately show ?thesis using D uint_ge_0 [of v'] by simp
qed

section \<open>Bytes\<close>

fun draws :: "('s \<Rightarrow> 'v \<times> 's) \<Rightarrow> nat \<Rightarrow> 's \<Rightarrow> 'v list \<times> 's" where
  "draws bits 0 s = ([], s)"
| "draws bits (Suc n) s = (let (v, s) = bits s; (vs, s) = draws bits n s in (v # vs, s))"

lemma bytes_loop_eq:
  assumes "0 < chunk"
  shows "bytes_loop chunk bits s sz acc =
    (acc @ take sz (concat (map (le_bytes chunk) (fst (draws bits ((sz + chunk - 1) div chunk) s)))),
     snd (draws bits ((sz + chunk - 1) div chunk) s))"
proof (induction sz arbitrary: s acc rule: less_induct)
  case (less sz)
  obtain v s1 where v: "bits s = (v, s1)" by (cases "bits s") 
  consider "sz = 0" | "0 < sz" "sz \<le> chunk" | "chunk < sz" by linarith
  then show ?case
  proof cases
    case 1
    then show ?thesis using assms by (simp add: bytes_loop.simps)
  next
    case 2
    then have "(sz + chunk - 1) div chunk = 1" by (intro div_nat_eqI) simp_all
    then show ?thesis using 2 assms by (simp add: bytes_loop.simps v)
  next
    case 3
    have "(sz + chunk - 1) div chunk = Suc ((sz - chunk + chunk - 1) div chunk)"
    proof -
      have "sz + chunk - 1 = (sz - chunk + chunk - 1) + chunk" using 3 by simp
      then show ?thesis using assms by (simp only: div_add_self2)
    qed
    then show ?thesis
      using less [of "sz - chunk" s1 "acc @ le_bytes chunk v"] 3 assms
      by (simp add: bytes_loop.simps [of chunk bits s] v case_prod_beta)
  qed
qed

lemma length_draws: "length (fst (draws bits n s)) = n"
  by (induction n arbitrary: s) (simp_all add: case_prod_beta)

lemma length_draw_bytes:
  assumes "0 < chunk"
  shows "sz \<le> length (concat (map (le_bytes chunk) (fst (draws bits ((sz + chunk - 1) div chunk) s))))"
proof -
  have "length (concat (map (le_bytes chunk) vs)) = chunk * length vs" for vs :: "'a::len word list"
    by (induction vs) simp_all
  moreover have "sz \<le> chunk * ((sz + chunk - 1) div chunk)"
    using assms mult_div_mod_eq [of chunk "sz + chunk - 1"]
      mod_less_divisor [OF assms, of "sz + chunk - 1"] by linarith
  ultimately show ?thesis by (simp add: length_draws)
qed

section \<open>Properties\<close>

text \<open>
  From any seed, zero included, the states of the three xorshift generators never become all
  zero, the state in which a generator would return the same number for ever, and the steps of
  \<^verbatim>\<open>XorShift32\<close> and \<^verbatim>\<open>XorShift128\<close> lose no state: they are injective.
\<close>

theorem xorshift_never_zero:
  "((\<lambda>s. snd (Bits32_32 s)) ^^ n) (XorShift32 seed32) \<noteq> 0
    \<and> ((\<lambda>s. snd (Bits64_128 s)) ^^ n) (XorShift128 seed64) \<noteq> (0, 0)
    \<and> (\<exists>i<16. xs_state (((\<lambda>s. snd (Bits64_1024 s)) ^^ n) (XorShift1024 seed64)) ! i \<noteq> 0)
    \<and> inj (\<lambda>s. snd (Bits32_32 s)) \<and> inj (\<lambda>s. snd (Bits64_128 s))"
proof -
  have "((\<lambda>s. snd (Bits32_32 s)) ^^ n) (XorShift32 seed32) \<noteq> 0"
  proof (induction n)
    case (Suc n)
    have "snd (Bits32_32 0) = 0" by (simp add: Bits32_32_def)
    then show ?case using Suc Bits32_32_inject by fastforce
  qed (simp add: XorShift32_def)
  moreover have "((\<lambda>s. snd (Bits64_128 s)) ^^ n) (XorShift128 seed64) \<noteq> (0, 0)"
  proof (induction n)
    case 0
    then show ?case using Mix64_nonzero by (simp add: XorShift128_def Let_def)
  next
    case (Suc n)
    have "snd (Bits64_128 (0, 0)) = (0, 0)" by (simp add: Bits64_128_def rotl64_def)
    then have "snd (Bits64_128 x) \<noteq> (0, 0)" if "x \<noteq> (0, 0)" for x
      using that Bits64_128_inject [of x "(0, 0)"] by metis
    then show ?case using Suc by simp
  qed
  moreover have "xs1024_ok (((\<lambda>s. snd (Bits64_1024 s)) ^^ n) (XorShift1024 seed64))"
    by (induction n) (simp_all add: XorShift1024_ok Bits64_1024_ok)
  ultimately show ?thesis
    using Bits32_32_inject Bits64_128_inject by (auto simp: xs1024_ok_def intro!: injI)
qed

text \<open>
  Property C38. The ranges are closed and never left: \<^verbatim>\<open>UInt32\<close> and \<^verbatim>\<open>UInt64\<close> return a number between the
  bounds whatever the generator delivers, the full range included, and so do \<^verbatim>\<open>Int32\<close> and \<^verbatim>\<open>Int64\<close>, whose
  bounds may be negative.
\<close>

theorem random_ranges:
  assumes "lo32 \<le> hi32" "lo64 \<le> hi64"
    and "- (2 ^ 31) \<le> a" "a \<le> b" "b < 2 ^ 31" "- (2 ^ 63) \<le> c" "c \<le> d" "d < 2 ^ 63"
  shows "lo32 \<le> fst (UInt32 bits32 s lo32 hi32) \<and> fst (UInt32 bits32 s lo32 hi32) \<le> hi32
    \<and> lo64 \<le> fst (UInt64 bits64 s lo64 hi64) \<and> fst (UInt64 bits64 s lo64 hi64) \<le> hi64
    \<and> a \<le> fst (Int32 bits32 s a b) \<and> fst (Int32 bits32 s a b) \<le> b
    \<and> c \<le> fst (Int64 bits64 s c d) \<and> fst (Int64 bits64 s c d) \<le> d"
proof -
  have u: "fst (UInt32 bits32 s x y) = (if y - x + 1 \<noteq> 0 then fst (bits32 s) mod (y - x + 1) else fst (bits32 s)) + x"
      "fst (UInt64 bits64 s z w) = (if w - z + 1 \<noteq> 0 then fst (bits64 s) mod (w - z + 1) else fst (bits64 s)) + z"
    for x y z w by (simp_all only: UInt32_def UInt64_def Let_def case_prod_beta fst_conv)
  have i: "fst (Int32 bits32 s a b) = sint (fst (UInt32 bits32 s (of_int a) (of_int b)))"
      "fst (Int64 bits64 s c d) = sint (fst (UInt64 bits64 s (of_int c) (of_int d)))"
    by (simp_all add: Int32_def Int64_def case_prod_beta)
  show ?thesis
    using range_unsigned [OF assms(1), of "fst (bits32 s)"] range_unsigned [OF assms(2), of "fst (bits64 s)"]
      range_signed [of a b "fst (bits32 s)"] range_signed [of c d "fst (bits64 s)"] assms(3-8)
    unfolding i u by simp
qed

theorem random_ranges_witness:
  "- 3 \<le> fst (Int32 Bits32_32 7 (- 3) 5) \<and> fst (Int32 Bits32_32 7 (- 3) 5) \<le> 5"
  using random_ranges [of 1 6 1 6 "- 3" 5 "- 3" 5 Bits32_32 7 Bits64_32] by simp

text \<open>
  \<^verbatim>\<open>Bytes\<close> fills exactly the requested number of bytes with the little endian bytes of
  successive numbers of its generator, of which it draws as many as needed and no more.
\<close>

theorem random_bytes_filled:
  "Bytes_32 s32 sz = (take sz (concat (map (le_bytes 4) (fst (draws Bits32_32 ((sz + 3) div 4) s32)))),
      snd (draws Bits32_32 ((sz + 3) div 4) s32))
    \<and> Bytes_128 s128 sz = (take sz (concat (map (le_bytes 8) (fst (draws Bits64_128 ((sz + 7) div 8) s128)))),
      snd (draws Bits64_128 ((sz + 7) div 8) s128))
    \<and> Bytes_1024 s1024 sz = (take sz (concat (map (le_bytes 8) (fst (draws Bits64_1024 ((sz + 7) div 8) s1024)))),
      snd (draws Bits64_1024 ((sz + 7) div 8) s1024))
    \<and> length (fst (Bytes_32 s32 sz)) = sz \<and> length (fst (Bytes_128 s128 sz)) = sz
    \<and> length (fst (Bytes_1024 s1024 sz)) = sz"
proof -
  have run: "Bytes_32 s32 sz = bytes_loop 4 Bits32_32 s32 sz []"
      "Bytes_128 s128 sz = bytes_loop 8 Bits64_128 s128 sz []"
      "Bytes_1024 s1024 sz = bytes_loop 8 Bits64_1024 s1024 sz []"
    by (simp_all add: Bytes_32_def Bytes_128_def Bytes_1024_def bytes_loop.simps)
  show ?thesis
    unfolding run
    using length_draw_bytes [of 4 sz Bits32_32 s32] length_draw_bytes [of 8 sz Bits64_128 s128]
      length_draw_bytes [of 8 sz Bits64_1024 s1024]
    by (simp add: bytes_loop_eq add.commute [of sz])
qed

end
