(* ===== verification/Memory_Util.thy ===== *)
theory Memory_Util
  imports Fusion_Prelude
begin

text \<open>
  Comparison, copying and filling of element sequences, from \<^verbatim>\<open>MemoryUtil.h\<close> and \<^verbatim>\<open>Impl/MemoryUtil.h\<close>. An array
  behind a pointer is a list; the element type's \<^verbatim>\<open><\<close> is that of a linear order. The overloads for
  spans and arrays forward to those with counts. Construction, destruction and moves of
  objects are not modelled.
\<close>

section \<open>Model\<close>

fun compare_elements :: "'a::linorder list \<Rightarrow> 'a list \<Rightarrow> nat \<Rightarrow> int exec" where
  "compare_elements _ _ 0 = Inr 0"
| "compare_elements (a # as) (b # bs) (Suc count) =
     (if a < b then Inr (- 1) else if b < a then Inr 1 else compare_elements as bs count)"
| "compare_elements _ _ (Suc count) = Inl Out_Of_Bounds"

text \<open>\<^verbatim>\<open>memcmp\<close>: the difference of the first bytes that differ; callers use its sign.\<close>

fun memcmp :: "byte list \<Rightarrow> byte list \<Rightarrow> nat \<Rightarrow> int exec" where
  "memcmp _ _ 0 = Inr 0"
| "memcmp (a # as) (b # bs) (Suc count) =
     (if a = b then memcmp as bs count else Inr (int (unat a) - int (unat b)))"
| "memcmp _ _ (Suc count) = Inl Out_Of_Bounds"

text \<open>\<open>cmp\<close> is the overload of \<^verbatim>\<open>Compare\<close> for the element type.\<close>

definition Compare_counts ::
  "('a list \<Rightarrow> 'a list \<Rightarrow> nat \<Rightarrow> int exec) \<Rightarrow> 'a list \<Rightarrow> nat \<Rightarrow> 'a list \<Rightarrow> nat \<Rightarrow> int exec" where
  "Compare_counts cmp a aCount b bCount =
     and_then (cmp a b (min aCount bCount)) (\<lambda>result.
     Inr (if result \<noteq> 0 then result else if aCount < bCount then - 1
          else if aCount > bCount then 1 else 0))"

fun equal_elements :: "'a list \<Rightarrow> 'a list \<Rightarrow> nat \<Rightarrow> bool exec" where
  "equal_elements _ _ 0 = Inr True"
| "equal_elements (a # as) (b # bs) (Suc count) = (if \<not> a = b then Inr False else equal_elements as bs count)"
| "equal_elements _ _ (Suc count) = Inl Out_Of_Bounds"

text \<open>
  The overload for integers, enums and pointers compares \<open>count\<close> bytes; its arguments are the bytes of
  the two arrays.
\<close>

definition equal_bitwise :: "byte list \<Rightarrow> byte list \<Rightarrow> nat \<Rightarrow> bool exec" where
  "equal_bitwise a b count = and_then (memcmp a b count) (\<lambda>r. Inr (r = 0))"

definition Equal_counts ::
  "('a list \<Rightarrow> 'a list \<Rightarrow> nat \<Rightarrow> bool exec) \<Rightarrow> 'a list \<Rightarrow> nat \<Rightarrow> 'a list \<Rightarrow> nat \<Rightarrow> bool exec" where
  "Equal_counts eq a aCount b bCount = (if aCount = bCount then eq a b aCount else Inr False)"

fun less_elements :: "'a::linorder list \<Rightarrow> 'a list \<Rightarrow> nat \<Rightarrow> bool exec" where
  "less_elements _ _ 0 = Inr False"
| "less_elements (a # as) (b # bs) (Suc count) =
     (if a < b then Inr True else if b < a then Inr False else less_elements as bs count)"
| "less_elements _ _ (Suc count) = Inl Out_Of_Bounds"

definition less_bytes :: "byte list \<Rightarrow> byte list \<Rightarrow> nat \<Rightarrow> bool exec" where
  "less_bytes a b count = and_then (memcmp a b count) (\<lambda>r. Inr (r < 0))"

definition Less_counts ::
  "('a list \<Rightarrow> 'a list \<Rightarrow> nat \<Rightarrow> bool exec) \<Rightarrow> 'a list \<Rightarrow> nat \<Rightarrow> 'a list \<Rightarrow> nat \<Rightarrow> bool exec" where
  "Less_counts lt a aCount b bCount =
     and_then (lt a b (min aCount bCount)) (\<lambda>r. Inr (if r then True else aCount < bCount))"

fun copy_elements :: "'a list \<Rightarrow> nat \<Rightarrow> 'a list \<Rightarrow> nat \<Rightarrow> 'a list exec" where
  "copy_elements dest i source 0 = Inr dest"
| "copy_elements dest i (x # source) (Suc count) =
     (if i < length dest then copy_elements (dest[i := x]) (Suc i) source count else Inl Out_Of_Bounds)"
| "copy_elements dest i [] (Suc count) = Inl Out_Of_Bounds"

fun fill_elements :: "'a list \<Rightarrow> nat \<Rightarrow> 'a \<Rightarrow> nat \<Rightarrow> 'a list exec" where
  "fill_elements data i value 0 = Inr data"
| "fill_elements data i value (Suc count) =
     (if i < length data then fill_elements (data[i := value]) (Suc i) value count else Inl Out_Of_Bounds)"

section \<open>Lemmas\<close>

lemma compare_elements_sign:
  "compare_elements a b (min (length a) (length b)) =
    Inr (if take (length b) a = take (length a) b then 0
         else if ord_class.lexordp (take (length b) a) (take (length a) b) then - 1 else 1)"
proof (induction a arbitrary: b)
  case Nil
  then show ?case by simp
next
  case (Cons x a)
  then show ?case by (cases b) auto
qed

lemma memcmp_sign:
  "\<exists>r. memcmp a b (min (length a) (length b)) = Inr r
    \<and> (r = 0 \<longleftrightarrow> take (length b) a = take (length a) b)
    \<and> (r < 0 \<longleftrightarrow> ord_class.lexordp (take (length b) a) (take (length a) b))"
proof (induction a arbitrary: b)
  case Nil
  then show ?case by simp
next
  case (Cons x a)
  show ?case
  proof (cases b)
    case (Cons y b')
    then show ?thesis using Cons.IH [of b']
      by (auto simp: word_less_def word_uint_eq_iff)
  qed simp
qed

lemma lexordp_prefixes:
  "ord_class.lexordp (a :: 'a::linorder list) b \<longleftrightarrow>
     ord_class.lexordp (take (length b) a) (take (length a) b)
     \<or> (take (length b) a = take (length a) b \<and> length a < length b)"
proof (induction a arbitrary: b)
  case Nil
  then show ?case by (cases b) auto
next
  case (Cons x a)
  then show ?case by (cases b) auto
qed

lemma less_bytes_eq:
  "less_bytes a b (min (length a) (length b)) = Inr (ord_class.lexordp (take (length b) a) (take (length a) b))"
  using memcmp_sign [of a b] by (auto simp: less_bytes_def)

lemma memcmp_0_iff:
  "count \<le> length a \<Longrightarrow> count \<le> length b \<Longrightarrow>
    equal_bitwise a b count = Inr (take count a = take count b)"
proof (induction count arbitrary: a b)
  case 0
  then show ?case by (simp add: equal_bitwise_def)
next
  case (Suc count)
  then obtain x a' y b' where "a = x # a'" "b = y # b'" by (cases a; cases b; simp)
  with Suc show ?case by (auto simp: equal_bitwise_def word_uint_eq_iff)
qed

lemma take_eq_lengths:
  "take (length b) a = take (length a) b \<Longrightarrow> length a = length b \<Longrightarrow> a = b"
  by simp

lemma copy_elements_eq:
  assumes "i + count \<le> length dest" "count \<le> length source"
  shows "copy_elements dest i source count = Inr (blit dest i (take count source))"
  using assms
proof (induction dest i source count rule: copy_elements.induct)
  case (2 dest i x source count)
  then have "copy_elements (dest[i := x]) (Suc i) source count
      = Inr (blit (dest[i := x]) (Suc i) (take count source))" by simp
  moreover have "blit (dest[i := x]) (Suc i) (take count source) = blit dest i (x # take count source)"
    using 2(2,3) by (simp add: blit_def take_Suc_conv_app_nth)
  ultimately show ?case using 2(2) by simp
qed (simp_all add: blit_def)

lemma fill_elements_eq:
  "i + count \<le> length data \<Longrightarrow> fill_elements data i value count = Inr (blit data i (replicate count value))"
proof (induction count arbitrary: data i)
  case (Suc count)
  then have "blit (data[i := value]) (Suc i) (replicate count value) = blit data i (value # replicate count value)"
    by (simp add: blit_def take_Suc_conv_app_nth)
  with Suc show ?case by simp
qed (simp add: blit_def)

section \<open>Properties\<close>

text \<open>
  \<^verbatim>\<open>Compare\<close> with counts is the lexicographic three-way comparison, for byte arrays and for
  arrays of any ordered element type; \<^verbatim>\<open>Copy\<close> and \<^verbatim>\<open>Fill\<close> change exactly their range.
\<close>

theorem compare_lexicographic:
  assumes "i + n \<le> length dest" "n \<le> length source"
  shows "(\<exists>r. Compare_counts memcmp a (length a) b (length b) = Inr r
      \<and> (r < 0 \<longleftrightarrow> ord_class.lexordp a b) \<and> (r = 0 \<longleftrightarrow> a = b))
    \<and> Compare_counts compare_elements u (length u) v (length v)
      = Inr (if u = v then 0 else if ord_class.lexordp u v then - 1 else 1)
    \<and> copy_elements dest i source n = Inr (blit dest i (take n source))
    \<and> fill_elements dest i x n = Inr (blit dest i (replicate n x))"
proof (intro conjI)
  obtain r where r: "memcmp a b (min (length a) (length b)) = Inr r"
      "r = 0 \<longleftrightarrow> take (length b) a = take (length a) b"
      "r < 0 \<longleftrightarrow> ord_class.lexordp (take (length b) a) (take (length a) b)"
    using memcmp_sign by blast
  then show "\<exists>r. Compare_counts memcmp a (length a) b (length b) = Inr r
      \<and> (r < 0 \<longleftrightarrow> ord_class.lexordp a b) \<and> (r = 0 \<longleftrightarrow> a = b)"
    by (auto simp: Compare_counts_def lexordp_prefixes [of a b])
  have "ord_class.lexordp u v \<longleftrightarrow> ord_class.lexordp (take (length v) u) (take (length u) v)
      \<or> (take (length v) u = take (length u) v \<and> length u < length v)"
    by (rule lexordp_prefixes)
  then show "Compare_counts compare_elements u (length u) v (length v)
      = Inr (if u = v then 0 else if ord_class.lexordp u v then - 1 else 1)"
    using take_eq_lengths [of v u] lexordp_irreflexive' [of u] lexordp_irreflexive' [of v]
    by (auto simp: Compare_counts_def compare_elements_sign)
qed (use assms in \<open>simp_all add: copy_elements_eq fill_elements_eq\<close>)

theorem compare_lexicographic_witness:
  "Compare_counts compare_elements [1, 5 :: nat] (length [1, 5 :: nat]) [1, 5, 0] (length [1, 5, 0 :: nat])
    = Inr (if [1, 5] = [1, 5, 0 :: nat] then 0
           else if ord_class.lexordp [1, 5] [1, 5, 0 :: nat] then - 1 else 1)"
  using compare_lexicographic [of 0 1 "[7 :: nat]" "[3]" "[]" "[]" "[1, 5 :: nat]" "[1, 5, 0]" 9] by simp

text \<open>
  \<^verbatim>\<open>Less\<close> with counts holds when the first array is lexicographically smaller on the common
  length or merely shorter, so it is no order: two arrays can each be less than the other. The bitwise
  \<^verbatim>\<open>Equal\<close> looks at as many bytes as there are elements, so arrays of wider elements that differ
  behind them are equal.
\<close>

theorem less_counts_not_order:
  "Less_counts less_bytes a (length a) b (length b)
      = Inr (ord_class.lexordp (take (length b) a) (take (length a) b) \<or> length a < length b)
    \<and> (\<exists>c d. Less_counts less_bytes c (length c) d (length d) = Inr True
        \<and> Less_counts less_bytes d (length d) c (length c) = Inr True)
    \<and> (\<exists>v w :: u32. v \<noteq> w \<and> equal_bitwise (le_bytes 4 v) (le_bytes 4 w) (length [v]) = Inr True)"
proof -
  have less: "Less_counts less_bytes c (length c) d (length d)
      = Inr (ord_class.lexordp (take (length d) c) (take (length c) d) \<or> length c < length d)" for c d
    by (simp add: Less_counts_def less_bytes_eq)
  moreover have "\<exists>c d. Less_counts less_bytes c (length c) d (length d) = Inr True
      \<and> Less_counts less_bytes d (length d) c (length c) = Inr True"
    unfolding less by (rule exI [of _ "[2]"], rule exI [of _ "[1, 0]"]) simp
  moreover have "equal_bitwise (le_bytes 4 (1 :: u32)) (le_bytes 4 (257 :: u32)) (length [1 :: u32]) = Inr True"
    by (simp add: equal_bitwise_def le_bytes_def upt_numeral_rec)
  moreover have "(1 :: u32) \<noteq> 257" by simp
  ultimately show ?thesis by blast
qed

end
