(* ===== verification/Hex_Value.thy ===== *)
theory Hex_Value
  imports Ascii Memory_Util
begin

text \<open>
  \<^verbatim>\<open>Hex<N>\<close> and \<^verbatim>\<open>HexView\<close>, from \<^verbatim>\<open>Hex.h\<close>, \<^verbatim>\<open>Impl/Hex.h\<close> and \<^verbatim>\<open>Hex.cpp\<close>: a byte array of fixed capacity with
  the number of bytes in use, and a view of bytes. The template parameter is the argument \<open>n\<close>.
\<close>

section \<open>Model\<close>

record hex =
  hex_data :: "byte list"
  hex_size :: nat

definition Hex_new :: "nat \<Rightarrow> hex" where
  "Hex_new n = \<lparr>hex_data = replicate n 0, hex_size = 0\<rparr>"

definition Hex_sized :: "nat \<Rightarrow> nat \<Rightarrow> hex exec" where
  "Hex_sized n sz = and_then (fusion_assert (sz \<le> n)) (\<lambda>_. Inr ((Hex_new n)\<lparr>hex_size := sz\<rparr>))"

definition Hex_Assign :: "byte list \<Rightarrow> nat \<Rightarrow> hex \<Rightarrow> hex exec" where
  "Hex_Assign data sz h =
    and_then (fusion_assert (sz \<le> 2 ^ 32 - 1)) (\<lambda>_.
    let total = min sz (length (hex_data h)) in
    if total \<le> length data then
      and_then (memcpy (hex_data h) 0 (take total data)) (\<lambda>d.
      Inr \<lparr>hex_data = d, hex_size = total\<rparr>)
    else Inl Out_Of_Bounds)"

definition Hex_of :: "nat \<Rightarrow> byte list \<Rightarrow> nat \<Rightarrow> hex exec" where
  "Hex_of n data sz = and_then (fusion_assert (sz \<le> n)) (\<lambda>_. Hex_Assign data sz (Hex_new n))"

text \<open>The copy constructor of \<open>h\<close> initialises nothing from it.\<close>

definition Hex_copy :: "nat \<Rightarrow> hex \<Rightarrow> hex" where
  "Hex_copy n h = Hex_new n"

definition Hex_move :: "nat \<Rightarrow> hex \<Rightarrow> hex exec" where
  "Hex_move n h = Hex_Assign (hex_data h) (hex_size h) (Hex_new n)"

text \<open>Assignment between different objects; the move leaves its source empty.\<close>

definition Hex_copy_assign :: "hex \<Rightarrow> hex \<Rightarrow> hex exec" where
  "Hex_copy_assign this h = Hex_Assign (hex_data h) (hex_size h) this"

definition Hex_move_assign :: "hex \<Rightarrow> hex \<Rightarrow> hex \<times> hex" where
  "Hex_move_assign this h =
    (\<lparr>hex_data = hex_data h, hex_size = hex_size h\<rparr>,
     \<lparr>hex_data = replicate (length (hex_data h)) 0, hex_size = 0\<rparr>)"

definition Hex_FromString :: "nat \<Rightarrow> byte list \<Rightarrow> hex exec" where
  "Hex_FromString n str =
    and_then (fusion_assert (length str mod 2 = 0)) (\<lambda>_.
    and_then (fusion_assert (length str \<le> n * 2)) (\<lambda>_.
    if str = [] then Inr (Hex_new n)
    else and_then (FromHexString str (Some (hex_data (Hex_new n))) n) (\<lambda>(mem, result).
      if result = [] then Inr (Hex_new n)
      else Inr \<lparr>hex_data = (case mem of Some d \<Rightarrow> d | None \<Rightarrow> []), hex_size = length result\<rparr>)))"

definition hex_span :: "hex \<Rightarrow> byte list" where
  "hex_span h = take (hex_size h) (hex_data h)"

definition Hex_equal :: "hex \<Rightarrow> hex \<Rightarrow> bool exec" where
  "Hex_equal a b = Equal_counts equal_bitwise (hex_data a) (hex_size a) (hex_data b) (hex_size b)"

definition Hex_less :: "hex \<Rightarrow> hex \<Rightarrow> bool exec" where
  "Hex_less a b = Less_counts less_bytes (hex_data a) (hex_size a) (hex_data b) (hex_size b)"

text \<open>A view stores the size in a field of 31 bits.\<close>

record hex_view =
  hv_data :: "byte list"
  hv_size :: nat

definition HexView :: "byte list \<Rightarrow> nat \<Rightarrow> hex_view" where
  "HexView data sz = \<lparr>hv_data = data, hv_size = sz mod 2 ^ 32 mod 2 ^ 31\<rparr>"

definition HexView_of :: "nat \<Rightarrow> hex \<Rightarrow> hex_view exec" where
  "HexView_of n h =
    (let v = HexView (hex_data h) (hex_size h) in
     and_then (fusion_assert (length (hex_data h) = n)) (\<lambda>_.
     and_then (fusion_assert (hex_size h \<le> n)) (\<lambda>_. Inr v)))"

definition HexView_IsEmpty :: "hex_view \<Rightarrow> bool" where
  "HexView_IsEmpty v \<longleftrightarrow> hv_size v = 0"

definition HexView_span :: "hex_view \<Rightarrow> byte list" where
  "HexView_span v = take (hv_size v) (hv_data v)"

definition HexView_equal :: "hex_view \<Rightarrow> hex_view \<Rightarrow> bool exec" where
  "HexView_equal a b = Equal_counts equal_bitwise (hv_data a) (hv_size a) (hv_data b) (hv_size b)"

definition HexView_less :: "hex_view \<Rightarrow> hex_view \<Rightarrow> bool exec" where
  "HexView_less a b = Less_counts less_bytes (hv_data a) (hv_size a) (hv_data b) (hv_size b)"

definition HexView_ToString :: "hex_view \<Rightarrow> byte list exec" where
  "HexView_ToString v = ToHexString_str (Some (hv_data v)) (hv_size v)"

definition HexView_ToString_buf :: "byte list \<Rightarrow> nat \<Rightarrow> hex_view \<Rightarrow> (byte list option \<times> byte list) exec" where
  "HexView_ToString_buf buffer len v =
     ToHexString_buf (hv_data v) (hv_size v) buffer (min (hv_size v * 2 + 1) len)"

section \<open>Well-formed values\<close>

definition hex_ok :: "nat \<Rightarrow> hex \<Rightarrow> bool" where
  "hex_ok n h \<longleftrightarrow> length (hex_data h) = n \<and> hex_size h \<le> n \<and> n < 2 ^ 31"

lemma Hex_Assign_ok:
  assumes "hex_ok n h" "sz \<le> n" "sz \<le> length data"
  shows "\<exists>h'. Hex_Assign data sz h = Inr h' \<and> hex_ok n h' \<and> hex_span h' = take sz data"
proof -
  have "min sz (length (hex_data h)) = sz" using assms by (simp add: hex_ok_def)
  then show ?thesis
    using assms by (simp add: Hex_Assign_def hex_ok_def hex_span_def memcpy_def blit_def Let_def)
qed

lemma hex_ok_new: "n < 2 ^ 31 \<Longrightarrow> hex_ok n (Hex_new n)"
  by (simp add: hex_ok_def Hex_new_def)

section \<open>Properties\<close>

text \<open>
  A sequence of bytes of non-zero even length that fits the capacity survives printing through
  a \<^verbatim>\<open>HexView\<close>, \<^verbatim>\<open>Hex<N>::FromString\<close>, moving and copy assignment: each result holds the sequence and compares
  equal to the original; a string of odd length or too long fails an assertion.
\<close>

theorem hex_value_roundtrip:
  assumes "hex_ok n h" "hex_size h \<noteq> 0" "even (hex_size h)" "hex_ok n g"
  shows "(\<exists>text h' m c. HexView_ToString (HexView (hex_data h) (hex_size h)) = Inr text
      \<and> Hex_FromString n text = Inr h' \<and> Hex_move n h = Inr m \<and> Hex_copy_assign g h = Inr c
      \<and> hex_ok n h' \<and> hex_ok n m \<and> hex_ok n c
      \<and> hex_span h' = hex_span h \<and> hex_span m = hex_span h \<and> hex_span c = hex_span h
      \<and> Hex_equal h h' = Inr True)
    \<and> (odd (length str) \<or> length str > n * 2 \<longrightarrow> Hex_FromString n str = Inl Assert_Failed)"
proof (intro conjI impI)
  let ?bs = "hex_span h"
  have bs: "length ?bs = hex_size h" "?bs \<noteq> []" using assms(1,2) by (auto simp: hex_ok_def hex_span_def)
  have size: "hex_size h mod 2 ^ 32 mod 2 ^ 31 = hex_size h"
    using assms(1) by (simp add: hex_ok_def)
  have printed: "HexView_ToString (HexView (hex_data h) (hex_size h)) = Inr (hex_text ?bs)"
    using assms(1-3) unfolding HexView_ToString_def HexView_def hex_view.simps size
    by (simp add: ToHexString_str_def hex_append_loop_eq hex_ok_def hex_span_def even_iff_mod_2_eq_zero)
  let ?h' = "\<lparr>hex_data = blit (replicate n 0) 0 ?bs, hex_size = length ?bs\<rparr>"
  have ne: "hex_text ?bs \<noteq> []" using bs(2) by (cases ?bs) auto
  have fit: "length ?bs \<le> n" using bs(1) assms(1) by (simp add: hex_ok_def)
  have "FromHexString (hex_text ?bs) (Some (replicate n 0)) n
      = Inr (Some (blit (replicate n 0) 0 ?bs), take (length ?bs) (blit (replicate n 0) 0 ?bs))"
    using ne fit bs assms(2) by (simp add: FromHexString_def from_hex_loop_hex_text)
  moreover have "take (length ?bs) (blit (replicate n 0) 0 ?bs) = ?bs" by (simp add: blit_def)
  ultimately have parse: "Hex_FromString n (hex_text ?bs) = Inr ?h'"
    using ne fit bs(2) by (simp add: Hex_FromString_def Hex_new_def)
  have h': "hex_ok n ?h'" "hex_span ?h' = ?bs"
    using fit assms(1) by (simp_all add: hex_ok_def hex_span_def blit_def)
  have cap: "hex_size h \<le> n" "hex_size h \<le> length (hex_data h)" "n < 2 ^ 31"
    using assms(1) by (simp_all add: hex_ok_def)
  obtain m where m: "Hex_move n h = Inr m" "hex_ok n m" "hex_span m = ?bs"
    using Hex_Assign_ok [OF hex_ok_new [OF cap(3)] cap(1,2)] by (auto simp: Hex_move_def hex_span_def)
  obtain c where c: "Hex_copy_assign g h = Inr c" "hex_ok n c" "hex_span c = ?bs"
    using Hex_Assign_ok [OF assms(4) cap(1,2)] by (auto simp: Hex_copy_assign_def hex_span_def)
  have "Hex_equal h ?h' = Inr True"
    using memcmp_0_iff [of "hex_size h" "hex_data h" "blit (replicate n 0) 0 ?bs"] bs(1) cap fit
    by (simp add: Hex_equal_def Equal_counts_def hex_span_def blit_def)
  then show "\<exists>text h' m c. HexView_ToString (HexView (hex_data h) (hex_size h)) = Inr text
      \<and> Hex_FromString n text = Inr h' \<and> Hex_move n h = Inr m \<and> Hex_copy_assign g h = Inr c
      \<and> hex_ok n h' \<and> hex_ok n m \<and> hex_ok n c
      \<and> hex_span h' = hex_span h \<and> hex_span m = hex_span h \<and> hex_span c = hex_span h
      \<and> Hex_equal h h' = Inr True"
    using printed parse m c h' by blast
next
  assume "odd (length str) \<or> length str > n * 2"
  then show "Hex_FromString n str = Inl Assert_Failed"
    by (auto simp: Hex_FromString_def fusion_assert_def odd_iff_mod_2_eq_one)
qed

theorem hex_value_roundtrip_witness:
  "\<exists>text h'. HexView_ToString (HexView [222, 173, 0, 0] 2) = Inr text
    \<and> Hex_FromString 4 text = Inr h' \<and> hex_span h' = [222, 173]"
  using hex_value_roundtrip [of 4 "\<lparr>hex_data = [222, 173, 0, 0], hex_size = 2\<rparr>" "Hex_new 4" "[]"]
  by (auto simp: hex_ok_def hex_span_def Hex_new_def)

text \<open>
  The copy constructor of \<^verbatim>\<open>Hex<N>\<close> drops the value: whatever it copies, the copy is empty, and
  compares unequal to a value that is not.
\<close>

theorem hex_copy_drops_value:
  assumes "hex_size h \<noteq> 0"
  shows "hex_span (Hex_copy n h) = [] \<and> Hex_equal h (Hex_copy n h) = Inr False"
  using assms by (simp add: Hex_copy_def Hex_new_def hex_span_def Hex_equal_def Equal_counts_def)

theorem hex_copy_drops_value_witness:
  "Hex_equal \<lparr>hex_data = [1, 2], hex_size = 2\<rparr> (Hex_copy 2 \<lparr>hex_data = [1, 2], hex_size = 2\<rparr>) = Inr False"
  using hex_copy_drops_value [of "\<lparr>hex_data = [1, 2], hex_size = 2\<rparr>" 2] by simp

end
