(* ===== verification/Uuid.thy ===== *)
theory Uuid
  imports Ascii Memory_Util Random_Gen
begin

text \<open>
  \<^verbatim>\<open>UUID\<close> of \<^verbatim>\<open>Uuid.h\<close> and \<^verbatim>\<open>Uuid.cpp\<close>: sixteen bytes, parsed from and printed as hexadecimal digits. The
  formatting library is an argument: \<open>fmt02x\<close> is what it prints for \<^verbatim>\<open>{:02x}\<close>. The secure bytes of
  \<^verbatim>\<open>V4\<close> come from \<^verbatim>\<open>Random::SecureBytes\<close>.
\<close>

section \<open>Model\<close>

type_synonym uuid = "byte list"

definition UUID_SIZE :: nat where
  "UUID_SIZE = 16"

text \<open>The loop of \<^verbatim>\<open>FromString\<close> over the characters from \<^verbatim>\<open>start\<close> on, with the bytes parsed so far.\<close>

fun uuid_loop :: "byte list \<Rightarrow> uuid \<Rightarrow> nat \<Rightarrow> (uuid \<times> nat) exec" where
  "uuid_loop [] bytes index = Inr (bytes, index)"
| "uuid_loop (c # cs) bytes index =
    (if c = 0 then Inr (bytes, index)
     else if \<not> index \<le> UUID_SIZE then Inl Assert_Failed
     else if c = 45 then uuid_loop cs bytes index
     else if \<not> IsHex c then Inr (bytes, index)
     else (case cs of
         [] \<Rightarrow> Inl Out_Of_Bounds
       | d # ds \<Rightarrow>
           if \<not> IsHex d then Inr (bytes, index)
           else if index < length bytes
           then uuid_loop ds (bytes[index := push_bit 4 (ToNibble c) OR ToNibble d]) (Suc index)
           else Inl Out_Of_Bounds))"

definition UUID_FromString :: "byte list \<Rightarrow> uuid result exec" where
  "UUID_FromString str =
    (if length str mod 2 \<noteq> 0 then Inr (Inl E_INVALID_ARGUMENT)
     else and_then (uuid_loop str (replicate UUID_SIZE 0) 0) (\<lambda>(bytes, index).
       Inr (if index = UUID_SIZE then Inr bytes else Inl E_INVALID_ARGUMENT)))"

definition UUID_V4 :: "byte list result \<Rightarrow> uuid result" where
  "UUID_V4 secure =
    (case secure of Inl e \<Rightarrow> Inl e
     | Inr bytes \<Rightarrow> let bytes = bytes[6 := bytes ! 6 AND 0x0F]; bytes = bytes[6 := bytes ! 6 OR 0x40]
                   in Inr bytes)"

definition UUID_Version :: "uuid \<Rightarrow> byte" where
  "UUID_Version u = drop_bit 4 (u ! 6 AND 0xF0)"

definition UUID_equal :: "uuid \<Rightarrow> uuid \<Rightarrow> bool exec" where
  "UUID_equal a b = equal_bitwise a b UUID_SIZE"

definition UUID_less :: "uuid \<Rightarrow> uuid \<Rightarrow> bool exec" where
  "UUID_less a b = less_bytes a b UUID_SIZE"

definition UUID_less_equal :: "uuid \<Rightarrow> uuid \<Rightarrow> bool exec" where
  "UUID_less_equal a b = and_then (memcmp a b UUID_SIZE) (\<lambda>r. Inr (r \<le> 0))"

text \<open>\<^verbatim>\<open>UUID_FMT\<close>: groups of 4, 2, 2, 2 and 6 bytes with dashes between them.\<close>

definition UUID_ToString :: "(byte \<Rightarrow> byte list) \<Rightarrow> uuid \<Rightarrow> byte list" where
  "UUID_ToString fmt02x u =
     concat (map (\<lambda>i. fmt02x (u ! i)) [0..<4]) @ [45] @
     concat (map (\<lambda>i. fmt02x (u ! i)) [4..<6]) @ [45] @
     concat (map (\<lambda>i. fmt02x (u ! i)) [6..<8]) @ [45] @
     concat (map (\<lambda>i. fmt02x (u ! i)) [8..<10]) @ [45] @
     concat (map (\<lambda>i. fmt02x (u ! i)) [10..<16])"

text \<open>
  The overload on a buffer: \<^verbatim>\<open>format_to_n\<close> stores what fits, and its \<^verbatim>\<open>size\<close>, the length of the view that
  is returned, is that of the whole text. The result is the buffer and the length of the view.
\<close>

definition UUID_ToString_buf :: "(byte \<Rightarrow> byte list) \<Rightarrow> byte list \<Rightarrow> uuid \<Rightarrow> byte list \<times> nat" where
  "UUID_ToString_buf fmt02x buffer u =
    (let text = UUID_ToString fmt02x u in (blit buffer 0 (take (length buffer) text), length text))"

section \<open>Parsing\<close>

lemma hex_not_dash: "IsHex c \<Longrightarrow> c \<noteq> 45" "IsHex c \<Longrightarrow> c \<noteq> 0"
  by (auto simp: IsHex_def)

lemma uuid_loop_hex:
  assumes "length bytes = 16" "index + length bs \<le> 16"
  shows "uuid_loop (hex_text bs @ rest) bytes index = uuid_loop rest (blit bytes index bs) (index + length bs)"
  using assms
proof (induction bs arbitrary: bytes index)
  case Nil
  then show ?case by simp
next
  case (Cons b bs)
  have "uuid_loop (hex_text (b # bs) @ rest) bytes index
      = uuid_loop (hex_text bs @ rest) (bytes[index := b]) (Suc index)"
    using Cons.prems hex_not_dash IsHex_hex [of b] ToHexByte_nibbles [of b]
    by (simp add: UUID_SIZE_def ToHexByte_def)
  then show ?case using Cons by (simp add: blit_Cons)
qed

lemma uuid_loop_dash: "index \<le> 16 \<Longrightarrow> uuid_loop (45 # rest) bytes index = uuid_loop rest bytes index"
  by (simp add: UUID_SIZE_def)

lemma uuid_loop_overrun:
  assumes "length bytes = 16" "16 < index + length bs" "index \<le> 16"
  shows "uuid_loop (hex_text bs @ rest) bytes index = Inl Out_Of_Bounds"
proof -
  let ?a = "take (16 - index) bs" and ?b = "drop (16 - index) bs"
  obtain c cs where c: "?b = c # cs" using assms by (cases ?b) auto
  have "uuid_loop (hex_text ?a @ hex_text ?b @ rest) bytes index
      = uuid_loop (hex_text ?b @ rest) (blit bytes index ?a) 16"
    using uuid_loop_hex [of bytes index ?a "hex_text ?b @ rest"] assms by simp
  also have "\<dots> = Inl Out_Of_Bounds"
    using assms hex_not_dash IsHex_hex [of c] unfolding c by (simp add: UUID_SIZE_def)
  finally show ?thesis using hex_text_append [of ?a ?b] by simp
qed

lemma uuid_text:
  assumes "\<And>b. fmt02x b = [hex_high b, hex_low b]" "length u = 16"
  shows "UUID_ToString fmt02x u = hex_text (slice 0 4 u) @ 45 # hex_text (slice 4 2 u)
    @ 45 # hex_text (slice 6 2 u) @ 45 # hex_text (slice 8 2 u) @ 45 # hex_text (slice 10 6 u)"
proof -
  have part: "concat (map (\<lambda>i. fmt02x (u ! i)) [off..<off + n]) = hex_text (slice off n u)"
    if "off + n \<le> 16" for off n
  proof -
    have "slice off n u = map (\<lambda>i. u ! i) [off..<off + n]"
      using that assms(2) by (intro nth_equalityI) (simp_all add: nth_slice)
    then show ?thesis using assms(1) by (simp add: hex_text_def comp_def)
  qed
  show ?thesis
    using part [of 0 4] part [of 4 2] part [of 6 2] part [of 8 2] part [of 10 6]
    by (simp add: UUID_ToString_def del: upt_rec_numeral)
qed

lemma blit_slices:
  assumes "length b = length u" "k + n \<le> length u"
  shows "blit (blit b 0 (slice 0 k u)) k (slice k n u) = blit b 0 (slice 0 (k + n) u)"
proof -
  have "slice 0 (k + n) u = slice 0 k u @ slice k n u" using slice_append [of 0 k u n] by simp
  then show ?thesis using assms by (simp add: blit_def add.commute [of n])
qed

lemma uuid_loop_text:
  assumes "length u = 16"
  shows "uuid_loop (hex_text (slice 0 4 u) @ 45 # hex_text (slice 4 2 u)
      @ 45 # hex_text (slice 6 2 u) @ 45 # hex_text (slice 8 2 u) @ 45 # hex_text (slice 10 6 u))
      (replicate 16 0) 0 = Inr (u, 16)"
proof -
  let ?z = "replicate 16 (0 :: byte)"
  have seg: "uuid_loop (hex_text (slice k n u) @ rest) (blit ?z 0 (slice 0 k u)) k
      = uuid_loop rest (blit ?z 0 (slice 0 (k + n) u)) (k + n)" if "k + n \<le> 16" for k n rest
    using uuid_loop_hex [of "blit ?z 0 (slice 0 k u)" k "slice k n u" rest] blit_slices [of ?z u k n] that assms
    by simp
  have "blit ?z 0 (slice 0 16 u) = u" using assms by (simp add: blit_def slice_def)
  then show ?thesis
    using seg [of 0 4] seg [of 4 2] seg [of 6 2] seg [of 8 2] seg [of 10 6 "[]"]
    by (simp add: uuid_loop_dash UUID_SIZE_def)
qed

section \<open>Properties\<close>

text \<open>
  Property C39. The text \<^verbatim>\<open>ToString\<close> makes of a UUID is parsed back by \<^verbatim>\<open>FromString\<close> to the same UUID, and so is
  the text without the dashes. The hypothesis is the documented meaning of \<^verbatim>\<open>{:02x}\<close>.
\<close>

theorem uuid_roundtrip:
  assumes "\<And>b. fmt02x b = [hex_high b, hex_low b]" and "length u = UUID_SIZE"
  shows "UUID_FromString (UUID_ToString fmt02x u) = Inr (Inr u)
    \<and> UUID_FromString (concat (map fmt02x u)) = Inr (Inr u)"
proof
  have u: "length u = 16" using assms(2) by (simp add: UUID_SIZE_def)
  have "length (UUID_ToString fmt02x u) = 36" unfolding uuid_text [OF assms(1) u] using u by simp
  then show "UUID_FromString (UUID_ToString fmt02x u) = Inr (Inr u)"
    using uuid_loop_text [OF u] unfolding uuid_text [OF assms(1) u]
    by (simp add: UUID_FromString_def UUID_SIZE_def)
  have "fmt02x = (\<lambda>b. [hex_high b, hex_low b])" using assms(1) by (rule ext)
  then have "concat (map fmt02x u) = hex_text u" by (simp add: hex_text_def)
  moreover have "blit (replicate 16 0) 0 u = u" using u by (simp add: blit_def)
  ultimately show "UUID_FromString (concat (map fmt02x u)) = Inr (Inr u)"
    using uuid_loop_hex [of "replicate 16 0" 0 u "[]"] u by (simp add: UUID_FromString_def UUID_SIZE_def)
qed

theorem uuid_roundtrip_witness:
  "UUID_FromString (UUID_ToString (\<lambda>b. [hex_high b, hex_low b]) [1, 2, 3, 4, 5, 6, 7, 8, 9, 10, 11, 12, 13, 14, 15, 16])
    = Inr (Inr [1, 2, 3, 4, 5, 6, 7, 8, 9, 10, 11, 12, 13, 14, 15, 16])"
  using uuid_roundtrip [of "\<lambda>b. [hex_high b, hex_low b]" "[1, 2, 3, 4, 5, 6, 7, 8, 9, 10, 11, 12, 13, 14, 15, 16]"]
  by (simp add: UUID_SIZE_def)

text \<open>
  Seventeen or more pairs of digits are written past the end of the UUID, because the assertion
  allows the index 16; a dash in front of a single digit makes \<^verbatim>\<open>FromString\<close> read past the end
  of the string; and the view the buffer overload of \<^verbatim>\<open>ToString\<close> returns is longer than a buffer of fewer
  than 36 bytes.
\<close>

theorem uuid_overruns:
  assumes "16 < length bs" and "IsHex c" and "\<And>b. fmt02x b = [hex_high b, hex_low b]"
    and "length u = UUID_SIZE" and "length buffer < 36"
  shows "UUID_FromString (hex_text bs) = Inl Out_Of_Bounds
    \<and> UUID_FromString [45, c] = Inl Out_Of_Bounds
    \<and> snd (UUID_ToString_buf fmt02x buffer u) > length buffer"
proof (intro conjI)
  show "UUID_FromString (hex_text bs) = Inl Out_Of_Bounds"
    using uuid_loop_overrun [of "replicate 16 0" 0 bs "[]"] assms(1)
    by (simp add: UUID_FromString_def UUID_SIZE_def)
  show "UUID_FromString [45, c] = Inl Out_Of_Bounds"
    using assms(2) hex_not_dash [of c] by (simp add: UUID_FromString_def UUID_SIZE_def)
  have "length (UUID_ToString fmt02x u) = 36"
    using uuid_text [OF assms(3)] assms(4) by (simp add: UUID_SIZE_def)
  then show "snd (UUID_ToString_buf fmt02x buffer u) > length buffer"
    using assms(5) by (simp add: UUID_ToString_buf_def Let_def)
qed

theorem uuid_overruns_witness:
  "UUID_FromString (hex_text (replicate 17 7)) = Inl Out_Of_Bounds"
  using uuid_overruns [of "replicate 17 7" 48 "\<lambda>b. [hex_high b, hex_low b]"
      "[1, 2, 3, 4, 5, 6, 7, 8, 9, 10, 11, 12, 13, 14, 15, 16]" "[]"]
  by (simp add: UUID_SIZE_def IsHex_def)

text \<open>
  \<^verbatim>\<open>V4\<close> on sixteen secure bytes makes a UUID of version 4 and changes only the high half of byte 6:
  the variant bits of byte 8, which RFC 4122 fixes too, stay random. On UUIDs \<^verbatim>\<open>==\<close> is equality and \<^verbatim>\<open><\<close>
  the lexicographic order.
\<close>

theorem uuid_v4_version:
  assumes "length bytes = UUID_SIZE" "length a = UUID_SIZE" "length b = UUID_SIZE"
  shows "(\<exists>u. UUID_V4 (Inr bytes) = Inr u \<and> length u = UUID_SIZE \<and> UUID_Version u = 4
      \<and> u ! 6 AND 0x0F = bytes ! 6 AND 0x0F \<and> (\<forall>i<UUID_SIZE. i \<noteq> 6 \<longrightarrow> u ! i = bytes ! i))
    \<and> UUID_equal a b = Inr (a = b) \<and> UUID_less a b = Inr (ord_class.lexordp a b)"
proof (intro conjI)
  have six: "6 < length bytes" using assms(1) by (simp add: UUID_SIZE_def)
  let ?x = "(bytes ! 6 AND 0x0F) OR 0x40"
  have "?x AND 0xF0 = 0x40" "?x AND 0x0F = bytes ! 6 AND 0x0F"
    by (simp_all add: word_ao_dist and.assoc)
  then show "\<exists>u. UUID_V4 (Inr bytes) = Inr u \<and> length u = UUID_SIZE \<and> UUID_Version u = 4
      \<and> u ! 6 AND 0x0F = bytes ! 6 AND 0x0F \<and> (\<forall>i<UUID_SIZE. i \<noteq> 6 \<longrightarrow> u ! i = bytes ! i)"
    using six assms(1) by (simp add: UUID_V4_def Let_def UUID_Version_def)
  show "UUID_equal a b = Inr (a = b)"
    using memcmp_0_iff [of UUID_SIZE a b] assms(2,3) by (simp add: UUID_equal_def)
  show "UUID_less a b = Inr (ord_class.lexordp a b)"
    using less_bytes_eq [of a b] assms(2,3) by (simp add: UUID_less_def)
qed

theorem uuid_v4_version_witness:
  "\<exists>u. UUID_V4 (Inr (replicate 16 255)) = Inr u \<and> UUID_Version u = 4"
  using uuid_v4_version [of "replicate 16 255" "replicate 16 1" "replicate 16 2"]
  by (auto simp: UUID_SIZE_def)

end
