(* ===== verification/Network_Types.thy ===== *)
theory Network_Types
  imports String_Util
begin

text \<open>
  The enumerations and flag sets of \<^verbatim>\<open>Network.h\<close> and the functions of \<^verbatim>\<open>Network.cpp\<close> that print
  them and translate them to the integers of the platform.

  The macros of the system headers (\<^verbatim>\<open>AF_INET\<close>, \<^verbatim>\<open>IPPROTO_TCP\<close>, ...) are a parameter \<open>sys\<close>, the
  value of a macro by its name; what a theorem needs of them, that they are distinct, is its
  hypothesis. The sentinel \<^verbatim>\<open>_Count\<close> of an enumeration is not a value of it. The platform is the
  POSIX build.
\<close>

type_synonym header = "string \<Rightarrow> int"

type_synonym Socket = int

definition INVALID_SOCKET :: Socket where
  "INVALID_SOCKET = -1"

definition SOCKET_ERROR :: int where
  "SOCKET_ERROR = -1"

section \<open>Enumerations\<close>

datatype AddressFamily =
    Family_None | Family_Unspecified | Family_Inet4 | Family_Inet6 | Family_Unix

datatype SocketProtocol =
    Protocol_None | Protocol_Icmp | Protocol_Ip | Protocol_Raw | Protocol_Tcp | Protocol_Udp

datatype SocketShutdownMode = Shutdown_None | Shutdown_Read | Shutdown_Write | Shutdown_Both

datatype SocketType = Type_None | Type_Datagram | Type_Raw | Type_Stream

datatype SocketOpt =
    Broadcast | Debug | DontRoute | KeepAlive | Linger | Multicast | MulticastLoopback
  | MulticastTTL | NoDelay | OobInline | RecvBuf | RecvLowMark | RecvTimeout | ReuseAddress
  | ReusePort | SendBuf | SendLowMark | SendTimeout | SocketError | TcpKeepAlive | TcpKeepCount
  | TcpKeepIdle | TcpKeepInterval | TimeToLive

fun family_index :: "AddressFamily \<Rightarrow> nat" where
  "family_index Family_None = 0"
| "family_index Family_Unspecified = 1"
| "family_index Family_Inet4 = 2"
| "family_index Family_Inet6 = 3"
| "family_index Family_Unix = 4"

fun protocol_index :: "SocketProtocol \<Rightarrow> nat" where
  "protocol_index Protocol_None = 0"
| "protocol_index Protocol_Icmp = 1"
| "protocol_index Protocol_Ip = 2"
| "protocol_index Protocol_Raw = 3"
| "protocol_index Protocol_Tcp = 4"
| "protocol_index Protocol_Udp = 5"

fun shutdown_index :: "SocketShutdownMode \<Rightarrow> nat" where
  "shutdown_index Shutdown_None = 0"
| "shutdown_index Shutdown_Read = 1"
| "shutdown_index Shutdown_Write = 2"
| "shutdown_index Shutdown_Both = 3"

fun type_index :: "SocketType \<Rightarrow> nat" where
  "type_index Type_None = 0"
| "type_index Type_Datagram = 1"
| "type_index Type_Raw = 2"
| "type_index Type_Stream = 3"

definition SOCKET_OPTS :: "SocketOpt list" where
  "SOCKET_OPTS =
     [Broadcast, Debug, DontRoute, KeepAlive, Linger, Multicast, MulticastLoopback, MulticastTTL,
      NoDelay, OobInline, RecvBuf, RecvLowMark, RecvTimeout, ReuseAddress, ReusePort, SendBuf,
      SendLowMark, SendTimeout, SocketError, TcpKeepAlive, TcpKeepCount, TcpKeepIdle,
      TcpKeepInterval, TimeToLive]"

fun index_of :: "'a \<Rightarrow> 'a list \<Rightarrow> nat" where
  "index_of x [] = 0"
| "index_of x (y # ys) = (if x = y then 0 else Suc (index_of x ys))"

definition opt_index :: "SocketOpt \<Rightarrow> nat" where
  "opt_index opt = index_of opt SOCKET_OPTS"

section \<open>Enumerations and the integers of the platform\<close>

definition GetAddressFamily :: "header \<Rightarrow> AddressFamily \<Rightarrow> int" where
  "GetAddressFamily sys family =
     [sys ''AF_UNSPEC'', sys ''AF_UNSPEC'', sys ''AF_INET'', sys ''AF_INET6'', sys ''AF_UNIX'']
       ! family_index family"

definition AddressFamily_of_int :: "header \<Rightarrow> int \<Rightarrow> AddressFamily" where
  "AddressFamily_of_int sys family =
     (if family = sys ''AF_INET'' then Family_Inet4
      else if family = sys ''AF_INET6'' then Family_Inet6
      else if family = sys ''AF_UNIX'' then Family_Unix
      else if family = sys ''AF_UNSPEC'' then Family_Unspecified
      else Family_None)"

definition GetSocketProtocol :: "header \<Rightarrow> SocketProtocol \<Rightarrow> int" where
  "GetSocketProtocol sys protocol =
     [sys ''IPPROTO_NONE'', sys ''IPPROTO_TCP'', sys ''IPPROTO_UDP'', sys ''IPPROTO_ICMP'',
      sys ''IPPROTO_IP'', sys ''IPPROTO_RAW''] ! protocol_index protocol"

definition SocketProtocol_of_int :: "header \<Rightarrow> int \<Rightarrow> SocketProtocol" where
  "SocketProtocol_of_int sys protocol =
     (if protocol = sys ''IPPROTO_TCP'' then Protocol_Tcp
      else if protocol = sys ''IPPROTO_UDP'' then Protocol_Udp
      else if protocol = sys ''IPPROTO_ICMP'' then Protocol_Icmp
      else if protocol = sys ''IPPROTO_IP'' then Protocol_Ip
      else if protocol = sys ''IPPROTO_RAW'' then Protocol_Raw
      else Protocol_None)"

definition GetSocketType :: "header \<Rightarrow> SocketType \<Rightarrow> int" where
  "GetSocketType sys type =
     [SOCKET_ERROR, sys ''SOCK_DGRAM'', sys ''SOCK_RAW'', sys ''SOCK_STREAM''] ! type_index type"

definition SocketType_of_int :: "header \<Rightarrow> int \<Rightarrow> SocketType" where
  "SocketType_of_int sys type =
     (if type = sys ''SOCK_DGRAM'' then Type_Datagram
      else if type = sys ''SOCK_RAW'' then Type_Raw
      else if type = sys ''SOCK_STREAM'' then Type_Stream
      else Type_None)"

definition GetSocketOptLevel :: "header \<Rightarrow> SocketOpt \<Rightarrow> int" where
  "GetSocketOptLevel sys option =
     [sys ''SOL_SOCKET'', sys ''SOL_SOCKET'', sys ''SOL_SOCKET'', sys ''SOL_SOCKET'',
      sys ''SOL_SOCKET'', sys ''IPPROTO_IP'', sys ''IPPROTO_IP'', sys ''IPPROTO_IP'',
      sys ''IPPROTO_TCP'', sys ''SOL_SOCKET'', sys ''SOL_SOCKET'', sys ''SOL_SOCKET'',
      sys ''SOL_SOCKET'', sys ''SOL_SOCKET'', sys ''SOL_SOCKET'', sys ''SOL_SOCKET'',
      sys ''SOL_SOCKET'', sys ''SOL_SOCKET'', sys ''SOL_SOCKET'', sys ''IPPROTO_TCP'',
      sys ''IPPROTO_TCP'', sys ''IPPROTO_TCP'', sys ''IPPROTO_TCP'', sys ''IPPROTO_IP'']
       ! opt_index option"

definition GetSocketOpt :: "header \<Rightarrow> SocketOpt \<Rightarrow> int" where
  "GetSocketOpt sys option =
     [sys ''SO_BROADCAST'', sys ''SO_DEBUG'', sys ''SO_DONTROUTE'', sys ''SO_KEEPALIVE'',
      sys ''SO_LINGER'', sys ''IP_ADD_MEMBERSHIP'', sys ''IP_MULTICAST_LOOP'',
      sys ''IP_MULTICAST_TTL'', sys ''TCP_NODELAY'', sys ''SO_OOBINLINE'', sys ''SO_RCVBUF'',
      sys ''SO_RCVLOWAT'', sys ''SO_RCVTIMEO'', sys ''SO_REUSEADDR'', sys ''SO_REUSEPORT'',
      sys ''SO_SNDBUF'', sys ''SO_SNDLOWAT'', sys ''SO_SNDTIMEO'', sys ''SO_ERROR'', -1,
      sys ''TCP_KEEPCNT'', -1, sys ''TCP_KEEPINTVL'', sys ''IP_TTL''] ! opt_index option"

section \<open>Names\<close>

definition AddressFamily_ToString :: "AddressFamily \<Rightarrow> byte list" where
  "AddressFamily_ToString family =
     [lit ''None'', lit ''Unspecified'', lit ''Inet4'', lit ''Inet6'', lit ''Unix'']
       ! family_index family"

definition SocketProtocol_ToString :: "SocketProtocol \<Rightarrow> byte list" where
  "SocketProtocol_ToString protocol =
     [lit ''None'', lit ''Icmp'', lit ''Ip'', lit ''Raw'', lit ''Tcp'', lit ''Udp'']
       ! protocol_index protocol"

definition SocketShutdownMode_ToString :: "SocketShutdownMode \<Rightarrow> byte list" where
  "SocketShutdownMode_ToString mode =
     [lit ''None'', lit ''Read'', lit ''Write'', lit ''Both''] ! shutdown_index mode"

definition SocketType_ToString :: "SocketType \<Rightarrow> byte list" where
  "SocketType_ToString type =
     [lit ''None'', lit ''Datagram'', lit ''Raw'', lit ''Stream''] ! type_index type"

definition SocketOpt_ToString :: "SocketOpt \<Rightarrow> byte list" where
  "SocketOpt_ToString option =
     [lit ''SO_BROADCAST'', lit ''SO_DEBUG'', lit ''SO_DONTROUTE'', lit ''SO_KEEPALIVE'',
      lit ''SO_LINGER'', lit ''IP_ADD_MEMBERSHIP'', lit ''IP_MULTICAST_LOOP'',
      lit ''IP_MULTICAST_TTL'', lit ''SO_NODELAY'', lit ''SO_OOBINLINE'', lit ''SO_RECVBUF'',
      lit ''SO_RCVLOWAT'', lit ''SO_RCVTIMEO'', lit ''SO_REUSEADDR'', lit ''SO_REUSEPORT'',
      lit ''SO_SENDBUF'', lit ''SO_SNDLOWAT'', lit ''SO_SNDTIMEO'', lit ''SO_SOCKERR'',
      lit ''TCP_KEEPALIVE'', lit ''TCP_KEEPCNT'', lit ''TCP_KEEPIDLE'', lit ''TCP_KEEPINTVL'',
      lit ''IP_TTL''] ! opt_index option"

text \<open>The overloads that print into a caller's buffer differ only in the name they print.\<close>

definition copy_name :: "byte list \<Rightarrow> byte list \<Rightarrow> nat \<Rightarrow> (byte list option \<times> byte list) exec" where
  "copy_name value buffer len =
     Copy_n (Some buffer) (min len (length value + 1)) (Some value) (length value)"

definition AddressFamily_ToString_buffer ::
  "AddressFamily \<Rightarrow> byte list \<Rightarrow> nat \<Rightarrow> (byte list option \<times> byte list) exec" where
  "AddressFamily_ToString_buffer family = copy_name (AddressFamily_ToString family)"

definition SocketProtocol_ToString_buffer ::
  "SocketProtocol \<Rightarrow> byte list \<Rightarrow> nat \<Rightarrow> (byte list option \<times> byte list) exec" where
  "SocketProtocol_ToString_buffer protocol = copy_name (SocketProtocol_ToString protocol)"

definition SocketShutdownMode_ToString_buffer ::
  "SocketShutdownMode \<Rightarrow> byte list \<Rightarrow> nat \<Rightarrow> (byte list option \<times> byte list) exec" where
  "SocketShutdownMode_ToString_buffer mode = copy_name (SocketShutdownMode_ToString mode)"

definition SocketType_ToString_buffer ::
  "SocketType \<Rightarrow> byte list \<Rightarrow> nat \<Rightarrow> (byte list option \<times> byte list) exec" where
  "SocketType_ToString_buffer type = copy_name (SocketType_ToString type)"

definition SocketOpt_ToString_buffer ::
  "SocketOpt \<Rightarrow> byte list \<Rightarrow> nat \<Rightarrow> (byte list option \<times> byte list) exec" where
  "SocketOpt_ToString_buffer option = copy_name (SocketOpt_ToString option)"

section \<open>Properties\<close>

lemma copy_name_fits:
  assumes "length value < len" and "len \<le> length buffer" and "value \<noteq> []"
  shows "copy_name value buffer len = Inr (Some (blit buffer 0 (value @ [0])), value)"
proof -
  have len: "min len (length value + 1) - 1 = length value" using assms by simp
  have "take (length value) (blit buffer 0 value) = value"
    by (simp add: blit_def)
  moreover have "(blit buffer 0 value)[length value := 0] = blit buffer 0 (value @ [0])"
    using assms by (simp add: blit_def list_update_append Cons_nth_drop_Suc [symmetric])
  moreover have "min len (length value + 1) \<noteq> 0" using assms by auto
  ultimately show ?thesis
    using assms by (simp add: copy_name_def Copy_n_def memcpy_def Let_def len del: One_nat_def)
qed

text \<open>
  When the macros of the platform have distinct values, translating an address family
  or a socket type to the platform and back gives it back, except that \<^verbatim>\<open>AddressFamily::None\<close> comes
  back as \<^verbatim>\<open>Unspecified\<close>. The table of \<^verbatim>\<open>GetSocketProtocol\<close> does not follow the order of the
  enumeration: no protocol but \<^verbatim>\<open>None\<close> is translated to its own number, \<^verbatim>\<open>Tcp\<close> is
  translated to \<^verbatim>\<open>IPPROTO_IP\<close> and \<^verbatim>\<open>Udp\<close> to \<^verbatim>\<open>IPPROTO_RAW\<close>.
\<close>

theorem platform_enumerations:
  assumes "distinct (map sys [''AF_UNSPEC'', ''AF_INET'', ''AF_INET6'', ''AF_UNIX''])"
    and "distinct (SOCKET_ERROR # map sys [''SOCK_DGRAM'', ''SOCK_RAW'', ''SOCK_STREAM''])"
    and "distinct (map sys [''IPPROTO_NONE'', ''IPPROTO_TCP'', ''IPPROTO_UDP'', ''IPPROTO_ICMP'',
           ''IPPROTO_IP'', ''IPPROTO_RAW''])"
  shows "AddressFamily_of_int sys (GetAddressFamily sys family)
        = (if family = Family_None then Family_Unspecified else family)
    \<and> SocketType_of_int sys (GetSocketType sys type) = type
    \<and> (SocketProtocol_of_int sys (GetSocketProtocol sys protocol) = protocol
        \<longleftrightarrow> protocol = Protocol_None)
    \<and> GetSocketProtocol sys Protocol_Tcp = sys ''IPPROTO_IP''
    \<and> GetSocketProtocol sys Protocol_Udp = sys ''IPPROTO_RAW''"
proof (intro conjI)
  show "AddressFamily_of_int sys (GetAddressFamily sys family)
        = (if family = Family_None then Family_Unspecified else family)"
    using assms(1) by (cases family) (auto simp: AddressFamily_of_int_def GetAddressFamily_def)
  show "SocketType_of_int sys (GetSocketType sys type) = type"
    using assms(2) by (cases type) (auto simp: SocketType_of_int_def GetSocketType_def)
  show "SocketProtocol_of_int sys (GetSocketProtocol sys protocol) = protocol
        \<longleftrightarrow> protocol = Protocol_None"
    using assms(3)
    by (cases protocol) (auto simp: SocketProtocol_of_int_def GetSocketProtocol_def)
qed (simp_all add: GetSocketProtocol_def)

text \<open>The values of the Linux headers, for concrete runs.\<close>

definition linux_header :: header where
  "linux_header name = (case map_of
     [(''AF_UNSPEC'', 0), (''AF_UNIX'', 1), (''AF_INET'', 2), (''AF_INET6'', 10),
      (''SOCK_STREAM'', 1), (''SOCK_DGRAM'', 2), (''SOCK_RAW'', 3),
      (''IPPROTO_IP'', 0), (''IPPROTO_ICMP'', 1), (''IPPROTO_TCP'', 6), (''IPPROTO_UDP'', 17),
      (''IPPROTO_NONE'', 59), (''IPPROTO_RAW'', 255),
      (''EPOLLIN'', 1), (''EPOLLOUT'', 4), (''EPOLLERR'', 8), (''EWOULDBLOCK'', 11),
      (''O_NONBLOCK'', 2048), (''sizeof(sockaddr_in)'', 16), (''sizeof(sockaddr_in6)'', 28),
      (''sizeof(sockaddr_un)'', 110), (''sizeof(sockaddr_storage)'', 128)] name
     of Some v \<Rightarrow> v | None \<Rightarrow> -1)"

theorem platform_enumerations_witness:
  "AddressFamily_of_int linux_header (GetAddressFamily linux_header Family_Inet6) = Family_Inet6
   \<and> GetSocketProtocol linux_header Protocol_Tcp = linux_header ''IPPROTO_IP''"
proof -
  have d: "distinct (map linux_header [''AF_UNSPEC'', ''AF_INET'', ''AF_INET6'', ''AF_UNIX''])"
    "distinct (SOCKET_ERROR # map linux_header [''SOCK_DGRAM'', ''SOCK_RAW'', ''SOCK_STREAM''])"
    "distinct (map linux_header [''IPPROTO_NONE'', ''IPPROTO_TCP'', ''IPPROTO_UDP'',
       ''IPPROTO_ICMP'', ''IPPROTO_IP'', ''IPPROTO_RAW''])"
    by (simp_all add: linux_header_def SOCKET_ERROR_def)
  show ?thesis
    using platform_enumerations [OF d, of Family_Inet6 Type_Stream Protocol_Tcp] by simp
qed

end
