(* ===== verification/Inet_Address.thy ===== *)
theory Inet_Address
  imports Network_Types Memory_Util
begin

text \<open>
  The classes \<^verbatim>\<open>InetAddress\<close> and \<^verbatim>\<open>Inet6Address\<close> of \<^verbatim>\<open>Network.h\<close> and \<^verbatim>\<open>Network.cpp\<close>, their printing
  in \<^verbatim>\<open>platforms/posix/Network.cpp\<close>, and \<^verbatim>\<open>ParseAddress\<close>. An address is the list of the bytes of
  its array, 4 or 16 of them.

  The C library's \<^verbatim>\<open>inet_pton\<close> and \<^verbatim>\<open>inet_ntop\<close> are parameters. \<open>pton family text\<close> is the bytes
  that \<^verbatim>\<open>inet_pton\<close> stores when it returns 1, and \<open>ntop family bytes len\<close> the text that
  \<^verbatim>\<open>inet_ntop\<close> writes into a buffer of \<open>len\<close> bytes, if it fits.
\<close>

type_synonym InetAddress = "byte list"
type_synonym Inet6Address = "byte list"
type_synonym pton = "int \<Rightarrow> byte list \<Rightarrow> byte list option"
type_synonym ntop = "int \<Rightarrow> byte list \<Rightarrow> nat \<Rightarrow> byte list option"

section \<open>InetAddress\<close>

definition Inet_LENGTH :: nat where "Inet_LENGTH = 16"
definition Inet_SIZE :: nat where "Inet_SIZE = 4"

definition Inet_default :: InetAddress where
  "Inet_default = replicate Inet_SIZE 0"

definition InaddrLoopback :: InetAddress where
  "InaddrLoopback = [127, 0, 0, 1]"

definition InaddrAny :: InetAddress where
  "InaddrAny = [0, 0, 0, 0]"

definition InaddrBroadcast :: InetAddress where
  "InaddrBroadcast = [255, 255, 255, 255]"

definition Inet_FromDecimal :: "u32 \<Rightarrow> InetAddress" where
  "Inet_FromDecimal address =
     [ucast (drop_bit 24 address AND 0xff), ucast (drop_bit 16 address AND 0xff),
      ucast (drop_bit 8 address AND 0xff), ucast (address AND 0xff)]"

definition Inet_ToDecimal :: "InetAddress \<Rightarrow> u32" where
  "Inet_ToDecimal m =
     push_bit 24 (ucast (m ! 0)) + push_bit 16 (ucast (m ! 1)) + push_bit 8 (ucast (m ! 2))
     + ucast (m ! 3)"

text \<open>A \<^verbatim>\<open>std::string\<close> passed as a C string ends at its first zero byte.\<close>

definition c_str :: "byte list \<Rightarrow> byte list" where
  "c_str s = takeWhile (\<lambda>c. c \<noteq> 0) s"

definition Inet_FromString ::
  "header \<Rightarrow> pton \<Rightarrow> byte list \<Rightarrow> InetAddress \<Rightarrow> unit result \<times> InetAddress" where
  "Inet_FromString sys pton address m =
     (if address = [] \<or> length address < 7 \<or> length address > Inet_LENGTH
      then (Inl E_INVALID_ARGUMENT, m)
      else case pton (sys ''AF_INET'') (c_str address) of
        Some bytes \<Rightarrow> (Inr (), take Inet_SIZE bytes)
      | None \<Rightarrow> (Inl E_INVALID_ARGUMENT, m))"

definition Inet_Assign :: "byte list \<Rightarrow> InetAddress exec" where
  "Inet_Assign mem = (if Inet_SIZE \<le> length mem then Inr (take Inet_SIZE mem) else Inl Out_Of_Bounds)"

definition Inet_IsEmpty :: "InetAddress \<Rightarrow> bool" where
  "Inet_IsEmpty m \<longleftrightarrow> list_all (\<lambda>u. u = 0) m"

definition Inet6_default :: Inet6Address where
  "Inet6_default = replicate 16 0"

definition Inet_AsV6 :: "InetAddress \<Rightarrow> Inet6Address" where
  "Inet_AsV6 m =
     (if Inet_IsEmpty m then Inet6_default
      else Inet6_default[10 := 0xff, 11 := 0xff, 12 := m ! 0, 13 := m ! 1, 14 := m ! 2, 15 := m ! 3])"

definition Inet_IsPrivate :: "InetAddress \<Rightarrow> bool" where
  "Inet_IsPrivate m \<longleftrightarrow> False"

definition Inet_eq :: "InetAddress \<Rightarrow> InetAddress \<Rightarrow> bool exec" where
  "Inet_eq m addr = equal_bitwise m addr Inet_SIZE"

definition Inet_less :: "InetAddress \<Rightarrow> InetAddress \<Rightarrow> bool exec" where
  "Inet_less m addr = less_bytes m addr Inet_SIZE"

definition Inet_ToString_buffer :: "header \<Rightarrow> ntop \<Rightarrow> InetAddress \<Rightarrow> nat \<Rightarrow> byte list" where
  "Inet_ToString_buffer sys ntop address len =
     (case ntop (sys ''AF_INET'') address len of None \<Rightarrow> lit ''0.0.0.0'' | Some printed \<Rightarrow> printed)"

definition Inet_ToString :: "header \<Rightarrow> ntop \<Rightarrow> InetAddress \<Rightarrow> byte list" where
  "Inet_ToString sys ntop address = Inet_ToString_buffer sys ntop address Inet_LENGTH"

section \<open>Inet6Address\<close>

definition Inet6_LENGTH :: nat where "Inet6_LENGTH = 64"
definition Inet6_SIZE :: nat where "Inet6_SIZE = 16"

definition Inet6_FromString ::
  "header \<Rightarrow> pton \<Rightarrow> byte list \<Rightarrow> Inet6Address \<Rightarrow> unit result \<times> Inet6Address" where
  "Inet6_FromString sys pton address m =
     (if address = [] \<or> length address < 3 \<or> length address > Inet6_LENGTH
      then (Inl E_INVALID_ARGUMENT, m)
      else case pton (sys ''AF_INET6'') (c_str address) of
        Some bytes \<Rightarrow> (Inr (), take Inet6_SIZE bytes)
      | None \<Rightarrow> (Inl E_INVALID_ARGUMENT, m))"

definition Inet6_Assign :: "byte list \<Rightarrow> Inet6Address exec" where
  "Inet6_Assign mem =
     (if Inet6_SIZE \<le> length mem then Inr (take Inet6_SIZE mem) else Inl Out_Of_Bounds)"

definition Inet6_IsEmpty :: "Inet6Address \<Rightarrow> bool" where
  "Inet6_IsEmpty m \<longleftrightarrow> list_all (\<lambda>u. u = 0) m"

text \<open>The loop of \<^verbatim>\<open>IsMappedV4\<close> over the first ten bytes, from index \<open>i\<close>.\<close>

function first_ten_zero :: "Inet6Address \<Rightarrow> nat \<Rightarrow> bool" where
  "first_ten_zero bytes i =
     (if i < 10 then if bytes ! i \<noteq> 0 then False else first_ten_zero bytes (Suc i) else True)"
  by pat_completeness auto
termination
  by (relation "measure (\<lambda>(_, i). 10 - i)") auto

declare first_ten_zero.simps [simp del]

definition Inet6_IsMappedV4 :: "Inet6Address \<Rightarrow> bool" where
  "Inet6_IsMappedV4 m =
     (if Inet6_IsEmpty m then False
      else if \<not> first_ten_zero m 0 then False
      else m ! 10 = 0xff \<and> m ! 11 = 0xff)"

definition Inet6_AsV4 :: "Inet6Address \<Rightarrow> InetAddress" where
  "Inet6_AsV4 m =
     (if Inet6_IsEmpty m \<or> \<not> Inet6_IsMappedV4 m then Inet_default
      else Inet_default[0 := m ! 12, 1 := m ! 13, 2 := m ! 14, 3 := m ! 15])"

definition Inet6_IsPrivate :: "Inet6Address \<Rightarrow> bool" where
  "Inet6_IsPrivate m \<longleftrightarrow> False"

definition Inet6_eq :: "Inet6Address \<Rightarrow> Inet6Address \<Rightarrow> bool exec" where
  "Inet6_eq m addr = equal_bitwise m addr Inet6_SIZE"

definition Inet6_less :: "Inet6Address \<Rightarrow> Inet6Address \<Rightarrow> bool exec" where
  "Inet6_less m addr = less_bytes m addr Inet6_SIZE"

definition Inet6_ToString_buffer :: "header \<Rightarrow> ntop \<Rightarrow> Inet6Address \<Rightarrow> nat \<Rightarrow> byte list" where
  "Inet6_ToString_buffer sys ntop address len =
     (case ntop (sys ''AF_INET6'') address len of None \<Rightarrow> lit ''::0'' | Some printed \<Rightarrow> printed)"

definition Inet6_ToString :: "header \<Rightarrow> ntop \<Rightarrow> Inet6Address \<Rightarrow> byte list" where
  "Inet6_ToString sys ntop address = Inet6_ToString_buffer sys ntop address Inet6_LENGTH"

definition InaddrLoopback6 :: Inet6Address where
  "InaddrLoopback6 = [0, 0, 0, 0, 0, 0, 0, 0, 0, 0, 0, 0, 0, 0, 0, 1]"

definition InaddrLoopback6in4 :: Inet6Address where
  "InaddrLoopback6in4 = [0, 0, 0, 0, 0, 0, 0, 0, 0, 0, 0xff, 0xff, 127, 0, 0, 1]"

section \<open>ParseAddress\<close>

datatype ParsedAddress = Parsed_Inet InetAddress | Parsed_Inet6 Inet6Address

definition ParseAddress :: "header \<Rightarrow> pton \<Rightarrow> byte list \<Rightarrow> ParsedAddress result" where
  "ParseAddress sys pton address =
     (case Inet_FromString sys pton address Inet_default of
        (Inr _, addr4) \<Rightarrow> Inr (Parsed_Inet addr4)
      | (Inl _, _) \<Rightarrow>
          case Inet6_FromString sys pton address Inet6_default of
            (Inr _, addr6) \<Rightarrow> Inr (Parsed_Inet6 addr6)
          | (Inl _, _) \<Rightarrow> Inl E_INVALID_ARGUMENT)"

section \<open>Lemmas\<close>

lemma list4_exhaust: "length (m :: 'a list) = 4 \<Longrightarrow> \<exists>a b c d. m = [a, b, c, d]"
  by (auto simp: numeral_eq_Suc length_Suc_conv)

lemma first_ten_zero_iff:
  "i \<le> 10 \<Longrightarrow> first_ten_zero bytes i \<longleftrightarrow> (\<forall>k. i \<le> k \<and> k < 10 \<longrightarrow> bytes ! k = 0)"
proof (induction bytes i rule: first_ten_zero.induct)
  case (1 bytes i)
  show ?case
  proof (cases "i < 10")
    case True
    then have "(\<forall>k. i \<le> k \<and> k < 10 \<longrightarrow> bytes ! k = 0)
        \<longleftrightarrow> bytes ! i = 0 \<and> (\<forall>k. Suc i \<le> k \<and> k < 10 \<longrightarrow> bytes ! k = 0)"
      by (metis Suc_leD Suc_leI le_eq_less_or_eq)
    with True 1 show ?thesis
      by (subst first_ten_zero.simps) auto
  next
    case False
    then show ?thesis by (subst first_ten_zero.simps) auto
  qed
qed

lemma Inet_FromDecimal_eq: "Inet_FromDecimal w = be_bytes 4 w"
proof -
  have "(0xff :: u32) = mask 8" by (simp add: mask_eq_exp_minus_1)
  then have "ucast (v AND 0xff) = (ucast v :: byte)" for v :: u32
    by (intro bit_word_eqI) (simp only: bit_simps, auto)
  then show ?thesis
    by (simp add: Inet_FromDecimal_def be_bytes_def le_bytes_def upt_numeral_rec numeral_eq_Suc)
qed

lemma Inet_ToDecimal_eq: "length m = 4 \<Longrightarrow> Inet_ToDecimal m = be_word m"
  by (drule list4_exhaust) (auto simp: Inet_ToDecimal_def be_word_def push_bit_add)

lemma unat_Inet_ToDecimal:
  "unat (Inet_ToDecimal [a, b, c, d]) = 2 ^ 24 * unat a + 2 ^ 16 * unat b + 2 ^ 8 * unat c + unat d"
proof -
  have sum: "(((16777216 * p + 65536 * q) mod 4294967296 + 256 * r) mod 4294967296
      + s mod 4294967296) mod 4294967296 = 16777216 * p + 65536 * q + 256 * r + s"
    if "p < 256" "q < 256" "r < 256" "s < 256" for p q r s :: nat
    using that by simp
  have shift: "unat (push_bit k (ucast x :: u32)) = 2 ^ k * unat x" if "k \<le> 24" for x :: byte and k
  proof -
    have "2 ^ k * unat x < 2 ^ 24 * 2 ^ 8"
      using that by (intro mult_le_less_imp_less power_increasing) simp_all
    moreover have "unat x mod 2 ^ 32 = unat x"
      by (rule mod_less) (rule less_trans [OF unat_byte_less], simp)
    ultimately show ?thesis
      by (simp only: unsigned_push_bit_eq unsigned_ucast_eq)
        (simp add: push_bit_eq_mult take_bit_eq_mod mult.commute)
  qed
  from shift [of 24 a] shift [of 16 b] shift [of 8 c] show ?thesis
    by (simp add: Inet_ToDecimal_def unat_word_ariths unsigned_ucast_eq take_bit_eq_mod sum)
qed

lemma less_bytes_4:
  "less_bytes [a, b, c, d] [a', b', c', d'] 4
     = Inr (2 ^ 24 * unat a + 2 ^ 16 * unat b + 2 ^ 8 * unat c + unat d
            < 2 ^ 24 * unat a' + 2 ^ 16 * unat b' + 2 ^ 8 * unat c' + unat d')"
proof -
  have "unat a < 256" "unat b < 256" "unat c < 256" "unat d < 256"
    "unat a' < 256" "unat b' < 256" "unat c' < 256" "unat d' < 256" by simp_all
  moreover have four: "(4 :: nat) = Suc (Suc (Suc (Suc 0)))" by simp
  ultimately show ?thesis
    unfolding less_bytes_def four memcmp.simps
    by (auto simp: word_unat_eq_iff simp del: unat_byte_less of_nat_unat)
qed

lemma length_Inet_AsV6: "length (Inet_AsV6 m) = 16"
  by (simp add: Inet_AsV6_def Inet6_default_def)

lemma nth_Inet_AsV6:
  assumes "\<not> Inet_IsEmpty m" and "i < 16"
  shows "Inet_AsV6 m ! i = (if i < 10 then 0 else if i < 12 then 0xff else m ! (i - 12))"
proof -
  consider "i < 10" | "i = 10" | "i = 11" | "i = 12" | "i = 13" | "i = 14" | "i = 15"
    using assms(2) by linarith
  then show ?thesis
    using assms(1) by cases (simp_all add: Inet_AsV6_def Inet6_default_def)
qed

lemma Inet6_IsMappedV4_iff:
  "length n = 16 \<Longrightarrow> Inet6_IsMappedV4 n \<longleftrightarrow> (\<forall>k<10. n ! k = 0) \<and> n ! 10 = 0xff \<and> n ! 11 = 0xff"
  by (auto simp: Inet6_IsMappedV4_def first_ten_zero_iff Inet6_IsEmpty_def list_all_length)

lemma Inet6_AsV4_eq:
  "Inet6_AsV4 n = (if Inet6_IsMappedV4 n then [n ! 12, n ! 13, n ! 14, n ! 15] else [0, 0, 0, 0])"
  by (simp add: Inet6_AsV4_def Inet6_IsMappedV4_def Inet_default_def Inet_SIZE_def numeral_eq_Suc)

lemma Inet_AsV6_AsV4:
  assumes "length n = 16" and "Inet6_IsMappedV4 n" and "\<not> Inet_IsEmpty (Inet6_AsV4 n)"
  shows "Inet_AsV6 (Inet6_AsV4 n) = n"
proof (rule nth_equalityI)
  fix i assume "i < length (Inet_AsV6 (Inet6_AsV4 n))"
  then have i: "i < 16" by (simp add: length_Inet_AsV6)
  have "n ! i = (if i < 10 then 0 else if i < 12 then 0xff else [n ! 12, n ! 13, n ! 14, n ! 15] ! (i - 12))"
  proof (cases "i < 12")
    case True
    then show ?thesis
      using assms(1,2) by (auto simp: Inet6_IsMappedV4_iff less_Suc_eq numeral_eq_Suc)
  next
    case False
    with i consider "i = 12" | "i = 13" | "i = 14" | "i = 15" by linarith
    then show ?thesis by cases simp_all
  qed
  then show "Inet_AsV6 (Inet6_AsV4 n) ! i = n ! i"
    using i assms(2) nth_Inet_AsV6 [OF assms(3) i] by (simp add: Inet6_AsV4_eq)
qed (simp add: length_Inet_AsV6 assms(1))

lemma Inet6_AsV4_AsV6:
  assumes "length m = 4"
  shows "Inet6_AsV4 (Inet_AsV6 m) = m"
    and "Inet6_IsMappedV4 (Inet_AsV6 m) \<longleftrightarrow> \<not> Inet_IsEmpty m"
proof -
  obtain a b c d where m: "m = [a, b, c, d]" using list4_exhaust [OF assms] by auto
  have empty: "Inet6_AsV4 Inet6_default = [0, 0, 0, 0] \<and> \<not> Inet6_IsMappedV4 Inet6_default"
    by (simp add: Inet6_AsV4_eq Inet6_IsMappedV4_def Inet6_IsEmpty_def Inet6_default_def list_all_length)
  have mapped: "Inet6_IsMappedV4 (Inet_AsV6 m)" if "\<not> Inet_IsEmpty m"
    using that by (simp add: Inet6_IsMappedV4_iff length_Inet_AsV6 nth_Inet_AsV6)
  show "Inet6_IsMappedV4 (Inet_AsV6 m) \<longleftrightarrow> \<not> Inet_IsEmpty m"
    using mapped empty by (auto simp: Inet_AsV6_def [of m])
  show "Inet6_AsV4 (Inet_AsV6 m) = m"
  proof (cases "Inet_IsEmpty m")
    case True
    then show ?thesis using empty by (simp add: Inet_AsV6_def Inet_IsEmpty_def m)
  next
    case False
    then show ?thesis using mapped by (simp add: Inet6_AsV4_eq nth_Inet_AsV6 m)
  qed
qed

lemma loopback_mapped: "Inet_AsV6 InaddrLoopback = InaddrLoopback6in4"
  by (simp add: Inet_AsV6_def InaddrLoopback_def InaddrLoopback6in4_def Inet_IsEmpty_def Inet6_default_def
      Inet6_SIZE_def numeral_eq_Suc)

section \<open>Properties\<close>

text \<open>
  On addresses of four bytes, \<^verbatim>\<open>FromDecimal\<close> and \<^verbatim>\<open>ToDecimal\<close> are inverse,
  \<^verbatim>\<open>operator<\<close> is the order of the decimal values and \<^verbatim>\<open>operator==\<close> is equality. Mapping an IPv4
  address into IPv6 and back gives it back, and the image is a mapped address exactly when the
  address is not 0.0.0.0. A mapped address is recovered from its IPv4 form unless that
  form is 0.0.0.0.
\<close>

theorem inet_address_conversions:
  assumes "length m = 4" and "length m' = 4" and "length n = 16"
  shows "Inet_FromDecimal (Inet_ToDecimal m) = m \<and> Inet_ToDecimal (Inet_FromDecimal w) = w
    \<and> Inet_less m m' = Inr (Inet_ToDecimal m < Inet_ToDecimal m')
    \<and> Inet_eq m m' = Inr (m = m')
    \<and> Inet6_AsV4 (Inet_AsV6 m) = m
    \<and> (Inet6_IsMappedV4 (Inet_AsV6 m) \<longleftrightarrow> \<not> Inet_IsEmpty m)
    \<and> (Inet6_IsMappedV4 n \<longrightarrow> \<not> Inet_IsEmpty (Inet6_AsV4 n) \<longrightarrow> Inet_AsV6 (Inet6_AsV4 n) = n)"
proof (intro conjI impI)
  show "Inet_FromDecimal (Inet_ToDecimal m) = m"
    using be_bytes_be_word [of m, where 'a = 32] assms(1)
    by (simp add: Inet_FromDecimal_eq Inet_ToDecimal_eq)
  show "Inet_ToDecimal (Inet_FromDecimal w) = w"
    by (simp add: Inet_FromDecimal_eq Inet_ToDecimal_eq be_word_be_bytes)
  obtain a b c d a' b' c' d' where "m = [a, b, c, d]" "m' = [a', b', c', d']"
    using list4_exhaust [OF assms(1)] list4_exhaust [OF assms(2)] by auto
  then show "Inet_less m m' = Inr (Inet_ToDecimal m < Inet_ToDecimal m')"
    by (simp add: Inet_less_def Inet_SIZE_def less_bytes_4 word_less_nat_alt unat_Inet_ToDecimal)
  show "Inet_eq m m' = Inr (m = m')"
    using assms by (simp add: Inet_eq_def Inet_SIZE_def memcmp_0_iff)
qed (simp_all add: assms Inet6_AsV4_AsV6 Inet_AsV6_AsV4)

theorem inet_address_conversions_witness:
  "Inet_FromDecimal (Inet_ToDecimal [10, 0, 0, 1]) = [10, 0, 0, 1]
   \<and> Inet_AsV6 (Inet6_AsV4 [0, 0, 0, 0, 0, 0, 0, 0, 0, 0, 0xff, 0xff, 127, 0, 0, 1])
     = [0, 0, 0, 0, 0, 0, 0, 0, 0, 0, 0xff, 0xff, 127, 0, 0, 1]"
  using inet_address_conversions [of "[10, 0, 0, 1]" "[10, 0, 0, 2]"
      "[0, 0, 0, 0, 0, 0, 0, 0, 0, 0, 0xff, 0xff, 127, 0, 0, 1]"]
  by (simp add: Inet6_AsV4_eq Inet6_IsMappedV4_iff Inet_IsEmpty_def less_Suc_eq numeral_eq_Suc)



end
