(* ===== verification/Network_Flags.thy ===== *)
theory Network_Flags
  imports Network_Types
begin

text \<open>
  The flag sets of \<^verbatim>\<open>Network.h\<close>: unsigned words with the operators of \<^verbatim>\<open>FUSION_ENUM_OPS\<close>, the
  functions of \<^verbatim>\<open>Network.cpp\<close> that print them and translate them to the flags of the platform,
  and \<^verbatim>\<open>FlagUtil\<close>.
\<close>

type_synonym AddressInfoFlags = u16
type_synonym MessageOption = byte
type_synonym PollFlags = byte
type_synonym SocketOperation = byte

abbreviation (input) Flags_AddressConfig :: AddressInfoFlags where "Flags_AddressConfig \<equiv> 0x02"
abbreviation (input) Flags_AddressMapped :: AddressInfoFlags where "Flags_AddressMapped \<equiv> 0x04"
abbreviation (input) Flags_CanonicalName :: AddressInfoFlags where "Flags_CanonicalName \<equiv> 0x08"
abbreviation (input) Flags_Fdqn :: AddressInfoFlags where "Flags_Fdqn \<equiv> 0x10"
abbreviation (input) Flags_NumericHost :: AddressInfoFlags where "Flags_NumericHost \<equiv> 0x20"
abbreviation (input) Flags_NumericService :: AddressInfoFlags where "Flags_NumericService \<equiv> 0x40"
abbreviation (input) Flags_Passive :: AddressInfoFlags where "Flags_Passive \<equiv> 0x80"
abbreviation (input) Flags_All :: AddressInfoFlags where "Flags_All \<equiv> 0x0F"

abbreviation (input) Msg_Confirm :: MessageOption where "Msg_Confirm \<equiv> 0x02"
abbreviation (input) Msg_NoSignal :: MessageOption where "Msg_NoSignal \<equiv> 0x04"
abbreviation (input) Msg_OutOfBand :: MessageOption where "Msg_OutOfBand \<equiv> 0x08"
abbreviation (input) Msg_Peek :: MessageOption where "Msg_Peek \<equiv> 0x10"

abbreviation (input) Poll_Error :: PollFlags where "Poll_Error \<equiv> 0x02"
abbreviation (input) Poll_HangUp :: PollFlags where "Poll_HangUp \<equiv> 0x04"
abbreviation (input) Poll_Invalid :: PollFlags where "Poll_Invalid \<equiv> 0x08"
abbreviation (input) Poll_Read :: PollFlags where "Poll_Read \<equiv> 0x10"
abbreviation (input) Poll_Write :: PollFlags where "Poll_Write \<equiv> 0x20"

abbreviation (input) Op_None :: SocketOperation where "Op_None \<equiv> 0"
abbreviation (input) Op_Read :: SocketOperation where "Op_Read \<equiv> 0x02"
abbreviation (input) Op_Write :: SocketOperation where "Op_Write \<equiv> 0x04"
abbreviation (input) Op_Error :: SocketOperation where "Op_Error \<equiv> 0x08"

text \<open>The condition \<^verbatim>\<open>+(flags & flag)\<close> of the sources, and \<^verbatim>\<open>FlagUtil\<close>.\<close>

definition has_flag :: "'a::len word \<Rightarrow> 'a word \<Rightarrow> bool" where
  "has_flag flags flag \<longleftrightarrow> flags AND flag \<noteq> 0"

definition IsSet :: "'a::len word \<Rightarrow> 'a word \<Rightarrow> bool" where
  "IsSet flags s \<longleftrightarrow> flags AND s = s"

text \<open>A fold over the comma operator: the value is that of the last operand.\<close>

fun IsAnySet :: "'a::len word \<Rightarrow> 'a word \<Rightarrow> 'a word list \<Rightarrow> bool" where
  "IsAnySet flags s [] = IsSet flags s"
| "IsAnySet flags s (t # ts) = (let _ = IsSet flags s in IsAnySet flags t ts)"

section \<open>Names\<close>

definition name_if :: "bool \<Rightarrow> byte list \<Rightarrow> byte list list" where
  "name_if b name = (if b then [name] else [])"

definition AddressInfoFlags_ToString :: "AddressInfoFlags \<Rightarrow> byte list" where
  "AddressInfoFlags_ToString flag =
     (if flag = Flags_AddressConfig then lit ''AddressConfig''
      else if flag = Flags_AddressMapped then lit ''AddressMapped''
      else if flag = Flags_CanonicalName then lit ''CanonicalName''
      else if flag = Flags_Fdqn then lit ''Fdqn''
      else if flag = Flags_NumericHost then lit ''NumericHost''
      else if flag = Flags_NumericService then lit ''NumericService''
      else if flag = Flags_Passive then lit ''Passive''
      else if flag = Flags_All then lit ''All''
      else lit ''None'')"

definition AddressInfoFlags_FlagsToString :: "AddressInfoFlags \<Rightarrow> byte list" where
  "AddressInfoFlags_FlagsToString flags =
     (let strings =
        name_if (has_flag flags Flags_AddressConfig)
          (AddressInfoFlags_ToString Flags_AddressConfig)
        @ name_if (has_flag flags Flags_All \<or> has_flag flags Flags_AddressMapped)
          (AddressInfoFlags_ToString Flags_AddressMapped)
        @ name_if (has_flag flags Flags_CanonicalName)
          (AddressInfoFlags_ToString Flags_CanonicalName)
        @ name_if (has_flag flags Flags_Fdqn) (AddressInfoFlags_ToString Flags_Fdqn)
        @ name_if (has_flag flags Flags_NumericHost)
          (AddressInfoFlags_ToString Flags_NumericHost)
        @ name_if (has_flag flags Flags_NumericService)
          (AddressInfoFlags_ToString Flags_NumericService)
        @ name_if (has_flag flags Flags_Passive) (AddressInfoFlags_ToString Flags_Passive)
      in if strings = [] then lit ''None'' else Join strings (lit '', ''))"

definition MessageOption_ToString :: "MessageOption \<Rightarrow> byte list" where
  "MessageOption_ToString option =
     (if option = Msg_Confirm then lit ''Confirm''
      else if option = Msg_NoSignal then lit ''NoSignal''
      else if option = Msg_OutOfBand then lit ''OutOfBand''
      else if option = Msg_Peek then lit ''Peek''
      else lit ''None'')"

definition MessageOption_FlagsToString :: "MessageOption \<Rightarrow> byte list" where
  "MessageOption_FlagsToString options =
     (if options = 0 then lit ''None''
      else Join
        (name_if (has_flag options Msg_Confirm) (MessageOption_ToString Msg_Confirm)
         @ name_if (has_flag options Msg_NoSignal) (MessageOption_ToString Msg_NoSignal)
         @ name_if (has_flag options Msg_OutOfBand) (MessageOption_ToString Msg_OutOfBand)
         @ name_if (has_flag options Msg_Peek) (MessageOption_ToString Msg_Peek))
        (lit '', ''))"

definition PollFlags_ToString :: "PollFlags \<Rightarrow> byte list" where
  "PollFlags_ToString flags =
     (if flags = Poll_Error then lit ''Error''
      else if flags = Poll_HangUp then lit ''HangUp''
      else if flags = Poll_Invalid then lit ''Invalid''
      else if flags = Poll_Read then lit ''Read''
      else if flags = Poll_Write then lit ''Write''
      else lit ''None'')"

definition PollFlags_FlagsToString :: "PollFlags \<Rightarrow> byte list" where
  "PollFlags_FlagsToString flags =
     (if flags = 0 then lit ''None''
      else Join
        (name_if (has_flag flags Poll_Error) (PollFlags_ToString Poll_Error)
         @ name_if (has_flag flags Poll_HangUp) (PollFlags_ToString Poll_HangUp)
         @ name_if (has_flag flags Poll_Invalid) (PollFlags_ToString Poll_Invalid)
         @ name_if (has_flag flags Poll_Read) (PollFlags_ToString Poll_Read)
         @ name_if (has_flag flags Poll_Write) (PollFlags_ToString Poll_Write))
        (lit '', ''))"

definition SocketOperation_ToString :: "SocketOperation \<Rightarrow> byte list" where
  "SocketOperation_ToString operations =
     (if operations = Op_Error then lit ''Error''
      else if operations = Op_Read then lit ''Read''
      else if operations = Op_Write then lit ''Write''
      else lit ''None'')"

definition SocketOperation_FlagsToString :: "SocketOperation \<Rightarrow> byte list" where
  "SocketOperation_FlagsToString operations =
     (if operations = Op_None then lit ''None''
      else Join
        (name_if (has_flag operations Op_Read) (SocketOperation_ToString Op_Read)
         @ name_if (has_flag operations Op_Write) (SocketOperation_ToString Op_Write)
         @ name_if (has_flag operations Op_Error) (SocketOperation_ToString Op_Error))
        (lit '', ''))"

definition AddressInfoFlags_ToString_buffer ::
  "AddressInfoFlags \<Rightarrow> byte list \<Rightarrow> nat \<Rightarrow> (byte list option \<times> byte list) exec" where
  "AddressInfoFlags_ToString_buffer flag = copy_name (AddressInfoFlags_ToString flag)"

definition MessageOption_ToString_buffer ::
  "MessageOption \<Rightarrow> byte list \<Rightarrow> nat \<Rightarrow> (byte list option \<times> byte list) exec" where
  "MessageOption_ToString_buffer option = copy_name (MessageOption_ToString option)"

definition PollFlags_ToString_buffer ::
  "PollFlags \<Rightarrow> byte list \<Rightarrow> nat \<Rightarrow> (byte list option \<times> byte list) exec" where
  "PollFlags_ToString_buffer flag = copy_name (PollFlags_ToString flag)"

definition SocketOperation_ToString_buffer ::
  "SocketOperation \<Rightarrow> byte list \<Rightarrow> nat \<Rightarrow> (byte list option \<times> byte list) exec" where
  "SocketOperation_ToString_buffer operation = copy_name (SocketOperation_ToString operation)"

section \<open>Flags of the platform\<close>

definition flag_if :: "bool \<Rightarrow> int \<Rightarrow> int \<Rightarrow> int" where
  "flag_if b flag r = (if b then r OR flag else r)"

definition GetAddressInfoFlags :: "header \<Rightarrow> AddressInfoFlags \<Rightarrow> int" where
  "GetAddressInfoFlags sys flags =
     (flag_if (has_flag flags Flags_AddressMapped) (sys ''AI_V4MAPPED'')
      \<circ> flag_if (has_flag flags Flags_AddressConfig) (sys ''AI_ADDRCONFIG'')
      \<circ> flag_if (has_flag flags Flags_All) (sys ''AI_ALL'')
      \<circ> flag_if (has_flag flags Flags_NumericService) (sys ''AI_NUMERICSERV'')
      \<circ> flag_if (has_flag flags Flags_NumericHost) (sys ''AI_NUMERICHOST'')
      \<circ> flag_if (has_flag flags Flags_CanonicalName) (sys ''AI_CANONNAME'')
      \<circ> flag_if (has_flag flags Flags_Passive) (sys ''AI_PASSIVE'')) 0"

definition GetMessageOption :: "header \<Rightarrow> MessageOption \<Rightarrow> int" where
  "GetMessageOption sys opt =
     (flag_if (has_flag opt Msg_Peek) (sys ''MSG_PEEK'')
      \<circ> flag_if (has_flag opt Msg_OutOfBand) (sys ''MSG_OOB'')
      \<circ> flag_if (has_flag opt Msg_NoSignal) (sys ''MSG_NOSIGNAL'')
      \<circ> flag_if (has_flag opt Msg_Confirm) (sys ''MSG_CONFIRM'')) 0"

section \<open>Properties\<close>

lemma has_flag_push_bit: "has_flag flags (push_bit n 1) \<longleftrightarrow> bit (flags :: 'a::len word) n"
proof
  assume "has_flag flags (push_bit n 1)"
  then obtain k where "bit (flags AND push_bit n 1) k"
    by (auto simp: has_flag_def bit_eq_iff)
  then show "bit flags n"
    by (auto simp: bit_simps)
next
  assume "bit flags n"
  then have "bit (flags AND push_bit n 1) n"
    by (auto simp: bit_simps dest: bit_imp_le_length)
  then show "has_flag flags (push_bit n 1)"
    by (auto simp: has_flag_def)
qed

lemma has_op_flag:
  "has_flag (ops :: SocketOperation) 0x02 \<longleftrightarrow> bit ops 1"
  "has_flag ops 0x04 \<longleftrightarrow> bit ops 2"
  "has_flag ops 0x08 \<longleftrightarrow> bit ops 3"
  using has_flag_push_bit [of ops 1] has_flag_push_bit [of ops 2] has_flag_push_bit [of ops 3]
  by (simp_all add: push_bit_eq_mult)

lemma and_single_bit: "a AND 2 ^ i = (if bit a i then 2 ^ i else (0 :: byte))"
  by (rule bit_word_eqI) (auto simp: bit_and_iff bit_exp_iff)

lemma and_op:
  "a AND 2 = (if has_flag a 2 then 2 else (0 :: byte))" "a AND 4 = (if has_flag a 4 then 4 else (0 :: byte))"
  "a AND 8 = (if has_flag a 8 then 8 else (0 :: byte))"
  using and_single_bit [of a 1] and_single_bit [of a 2] and_single_bit [of a 3]
  by (simp_all add: has_op_flag)

lemma error_flag_is: "a AND 8 = (8 :: byte) \<longleftrightarrow> has_flag a 8"
  by (simp add: and_op)

lemma has_flag_or: "has_flag (a OR b) f \<longleftrightarrow> has_flag a f \<or> has_flag b f"
  by (auto simp: has_flag_def bit.conj_disj_distrib2 bit_eq_iff bit_simps)

lemma has_flag_mono: "has_flag flags f \<Longrightarrow> f AND g = f \<Longrightarrow> has_flag flags g"
  by (metis has_flag_def and.assoc and.left_commute and_zero_eq)

lemma flag_if_keeps: "r AND f = f \<Longrightarrow> flag_if b g r AND f = f"
  by (auto simp: flag_if_def bit_eq_iff bit_simps)

lemma flag_if_sets: "b \<Longrightarrow> flag_if b f r AND f = f"
  by (auto simp: flag_if_def bit_eq_iff bit_simps)

lemma IsAnySet_last: "IsAnySet flags s ts \<longleftrightarrow> IsSet flags (last (s # ts))"
  by (induction ts arbitrary: s) auto

lemma op_bits_eq:
  "(a :: SocketOperation) AND 0x0E = b AND 0x0E
     \<longleftrightarrow> (bit a 1 \<longleftrightarrow> bit b 1) \<and> (bit a 2 \<longleftrightarrow> bit b 2) \<and> (bit a 3 \<longleftrightarrow> bit b 3)"
proof -
  have "(0x0E :: byte) = 2 OR 4 OR 8" by simp
  then have "bit (0x0E :: byte) n \<longleftrightarrow> bit (2 :: byte) n \<or> bit (4 :: byte) n \<or> bit (8 :: byte) n" for n
    by (simp only: bit_or_iff)
  moreover have pow: "bit (2 ^ k :: byte) n \<longleftrightarrow> n = k \<and> k < 8" for k n
    by (auto simp: bit_exp_iff)
  have "bit (2 :: byte) n \<longleftrightarrow> n = 1" for n using pow [of 1 n] by simp
  moreover have "bit (4 :: byte) n \<longleftrightarrow> n = 2" for n using pow [of 2 n] by simp
  moreover have "bit (8 :: byte) n \<longleftrightarrow> n = 3" for n using pow [of 3 n] by simp
  ultimately have mask: "bit (0x0E :: byte) n \<longleftrightarrow> n = 1 \<or> n = 2 \<or> n = 3" for n
    by (simp only:)
  have "a AND 0x0E = b AND 0x0E
      \<longleftrightarrow> (\<forall>n. bit a n \<and> (n = 1 \<or> n = 2 \<or> n = 3) \<longleftrightarrow> bit b n \<and> (n = 1 \<or> n = 2 \<or> n = 3))"
    unfolding bit_eq_iff [of "a AND 0x0E" "b AND 0x0E"] bit_and_iff mask by (blast dest: bit_imp_possible_bit)
  then show ?thesis by metis
qed

text \<open>
  The names that \<^verbatim>\<open>FlagsToString\<close> prints of a non-empty set of socket operations
  determine its operations. Two sets are not reported as documented: \<^verbatim>\<open>AddressInfoFlags::All\<close> is
  the mask \<^verbatim>\<open>0xF\<close>, so a request with \<^verbatim>\<open>AddressConfig\<close> or \<^verbatim>\<open>CanonicalName\<close> is sent with \<^verbatim>\<open>AI_ALL\<close>
  and printed as if \<^verbatim>\<open>AddressMapped\<close> were set, whether it is or not; and \<^verbatim>\<open>IsAnySet\<close> looks at its
  last flag only.
\<close>

theorem flag_set_reports:
  "(a \<noteq> 0 \<longrightarrow> b \<noteq> 0 \<longrightarrow>
      SocketOperation_FlagsToString a = SocketOperation_FlagsToString b \<longrightarrow> a AND 0x0E = b AND 0x0E)
   \<and> (has_flag flags Flags_AddressConfig \<or> has_flag flags Flags_CanonicalName \<longrightarrow>
      GetAddressInfoFlags sys flags AND sys ''AI_ALL'' = sys ''AI_ALL''
      \<and> AddressInfoFlags_FlagsToString (flags OR Flags_AddressMapped)
        = AddressInfoFlags_FlagsToString flags)
   \<and> (IsAnySet flags s ts \<longleftrightarrow> IsSet flags (last (s # ts)))"
proof (intro conjI impI)
  assume "a \<noteq> 0" "b \<noteq> 0" and "SocketOperation_FlagsToString a = SocketOperation_FlagsToString b"
  then show "a AND 0x0E = b AND 0x0E"
    unfolding op_bits_eq SocketOperation_FlagsToString_def
    by (auto simp: has_op_flag name_if_def SocketOperation_ToString_def Join_def lit_def
        split: if_splits)
next
  assume "has_flag flags Flags_AddressConfig \<or> has_flag flags Flags_CanonicalName"
  then have all: "has_flag flags Flags_All"
    by (auto elim: has_flag_mono)
  then show "GetAddressInfoFlags sys flags AND sys ''AI_ALL'' = sys ''AI_ALL''"
    unfolding GetAddressInfoFlags_def o_apply by (intro flag_if_keeps flag_if_sets)
  show "AddressInfoFlags_FlagsToString (flags OR Flags_AddressMapped)
      = AddressInfoFlags_FlagsToString flags"
    using all unfolding AddressInfoFlags_FlagsToString_def
    by (simp add: has_flag_or Let_def name_if_def [of True]) (simp add: has_flag_def)
qed (rule IsAnySet_last)

theorem flag_set_reports_witness:
  "GetAddressInfoFlags (\<lambda>name. if name = ''AI_ALL'' then 16 else 32) Flags_AddressConfig AND 16 = 16
   \<and> (6 :: SocketOperation) AND 0x0E = 6"
  using flag_set_reports [of 6 6 "Flags_AddressConfig" "\<lambda>name. if name = ''AI_ALL'' then 16 else 32"]
  by (simp add: has_flag_def)

end
