(* ===== verification/Socket_Address.thy ===== *)
theory Socket_Address
  imports Inet_Address Network_Flags Endian
begin

text \<open>
  The class \<^verbatim>\<open>SocketAddress\<close> of \<^verbatim>\<open>Network.h\<close> and \<^verbatim>\<open>Network.cpp\<close>, its translation to and from the
  socket addresses of the platform, and \<^verbatim>\<open>MapAddressInfo\<close>.

  The structures \<^verbatim>\<open>sockaddr_in\<close>, \<^verbatim>\<open>sockaddr_in6\<close> and \<^verbatim>\<open>sockaddr_un\<close> of the system headers are
  values with the fields the code writes; a field that the code keeps in network order is
  the list of its bytes in memory. Their sizes are read from the header. The flag
  \<open>host_le\<close> tells a little-endian host. The memory behind a string view, which the number parser
  reads, is an argument.
\<close>

section \<open>Model\<close>

record InetAddr =
  ia_address :: InetAddress
  ia_port :: u16

record Inet6Addr =
  i6_address :: Inet6Address
  i6_port :: u16
  i6_flowInfo :: u32
  i6_scope :: u32

definition Unix_LENGTH :: nat where "Unix_LENGTH = 104"

datatype AddressData =
  Monostate | Data_Inet InetAddr | Data_Inet6 Inet6Addr | Data_Unix "byte list"

record SocketAddress =
  m_address :: AddressData
  m_family :: AddressFamily

datatype sockaddr =
    Sockaddr_In (sa_family: u16) (sin_port: "byte list") (sin_addr: "byte list")
  | Sockaddr_In6 (sa_family: u16) (sin6_port: "byte list") (sin6_flowinfo: "byte list")
      (sin6_addr: "byte list") (sin6_scope_id: "byte list")
  | Sockaddr_Un (sa_family: u16) (sun_path: "byte list")
  | Sockaddr_Other (sa_family: u16)

definition SocketAddress_default :: SocketAddress where
  "SocketAddress_default = \<lparr>m_address = Monostate, m_family = Family_None\<rparr>"

definition SocketAddress_of_Inet :: "InetAddress \<Rightarrow> u32 \<Rightarrow> SocketAddress" where
  "SocketAddress_of_Inet address port =
     \<lparr>m_address = Data_Inet \<lparr>ia_address = address, ia_port = ucast port\<rparr>, m_family = Family_Inet4\<rparr>"

definition SocketAddress_of_Inet6 :: "Inet6Address \<Rightarrow> u32 \<Rightarrow> SocketAddress" where
  "SocketAddress_of_Inet6 address port =
     \<lparr>m_address = Data_Inet6 \<lparr>i6_address = address, i6_port = ucast port, i6_flowInfo = 0,
        i6_scope = 0\<rparr>,
      m_family = Family_Inet6\<rparr>"

text \<open>\<^verbatim>\<open>std::get\<close> of the variant, which throws when it holds another alternative.\<close>

definition Inet :: "SocketAddress \<Rightarrow> InetAddr exec" where
  "Inet s = (case m_address s of Data_Inet a \<Rightarrow> Inr a | _ \<Rightarrow> Inl Std_Bad_Variant_Access)"

definition Inet6 :: "SocketAddress \<Rightarrow> Inet6Addr exec" where
  "Inet6 s = (case m_address s of Data_Inet6 a \<Rightarrow> Inr a | _ \<Rightarrow> Inl Std_Bad_Variant_Access)"

definition Unix :: "SocketAddress \<Rightarrow> byte list exec" where
  "Unix s = (case m_address s of Data_Unix p \<Rightarrow> Inr p | _ \<Rightarrow> Inl Std_Bad_Variant_Access)"

definition FromSockAddr :: "header \<Rightarrow> bool \<Rightarrow> sockaddr \<Rightarrow> SocketAddress \<Rightarrow> SocketAddress exec" where
  "FromSockAddr sys host_le addr s =
     (let family = AddressFamily_of_int sys (uint (sa_family addr))
      in case family of
        Family_Inet4 \<Rightarrow>
          (case addr of
             Sockaddr_In _ port bytes \<Rightarrow>
               and_then (Inet_Assign bytes) (\<lambda>a.
               Inr (s\<lparr>m_address := Data_Inet \<lparr>ia_address = a, ia_port = be_word port\<rparr>,
                      m_family := family\<rparr>))
           | _ \<Rightarrow> Inl Out_Of_Bounds)
      | Family_Inet6 \<Rightarrow>
          (case addr of
             Sockaddr_In6 _ port flowinfo bytes scope_id \<Rightarrow>
               and_then (Inet6_Assign bytes) (\<lambda>a.
               Inr (s\<lparr>m_address := Data_Inet6 \<lparr>i6_address = a, i6_port = be_word port,
                        i6_flowInfo = BigEndian_Load Swap32 host_le flowinfo,
                        i6_scope = BigEndian_Load Swap32 host_le scope_id\<rparr>,
                      m_family := family\<rparr>))
           | _ \<Rightarrow> Inl Out_Of_Bounds)
      | Family_Unix \<Rightarrow>
          (case addr of
             Sockaddr_Un _ path \<Rightarrow>
               (let unAddr = replicate (Unix_LENGTH + 1) 0
                in and_then (Length_n unAddr Unix_LENGTH) (\<lambda>len.
                   and_then (memcpy unAddr 0 (replicate len 0)) (\<lambda>unAddr.
                   and_then (memcpy unAddr 0 (take len path)) (\<lambda>unAddr.
                   Inr (s\<lparr>m_address := Data_Unix unAddr, m_family := family\<rparr>)))))
           | _ \<Rightarrow> Inl Out_Of_Bounds)
      | _ \<Rightarrow> Inl Assert_Failed)"

definition ADDR4_SOCKLEN :: "header \<Rightarrow> nat" where
  "ADDR4_SOCKLEN sys = nat (sys ''sizeof(sockaddr_in)'')"

definition ADDR6_SOCKLEN :: "header \<Rightarrow> nat" where
  "ADDR6_SOCKLEN sys = nat (sys ''sizeof(sockaddr_in6)'')"

definition ADDRUNIX_SOCKLEN :: "header \<Rightarrow> nat" where
  "ADDRUNIX_SOCKLEN sys = nat (sys ''sizeof(sockaddr_un)'')"

text \<open>
  \<open>input\<close> tells whether the buffer is not null, \<open>len\<close> is its size. The result is the structure
  that is written, if one is, and the new length.
\<close>

definition ToSockAddr ::
  "header \<Rightarrow> bool \<Rightarrow> SocketAddress \<Rightarrow> bool \<Rightarrow> nat \<Rightarrow> (sockaddr option \<times> nat) exec" where
  "ToSockAddr sys host_le s input len =
     (if \<not> input \<or> len = 0 then Inr (None, len)
      else case m_family s of
        Family_Inet4 \<Rightarrow>
          if len < ADDR4_SOCKLEN sys then Inr (None, len)
          else and_then (Inet s) (\<lambda>inet.
            Inr (Some (Sockaddr_In (of_int (GetAddressFamily sys Family_Inet4))
                   (be_bytes 2 (ia_port inet)) (take Inet_SIZE (ia_address inet))),
                 ADDR4_SOCKLEN sys))
      | Family_Inet6 \<Rightarrow>
          if len < ADDR6_SOCKLEN sys then Inr (None, len)
          else and_then (Inet6 s) (\<lambda>inet6.
            Inr (Some (Sockaddr_In6 (of_int (GetAddressFamily sys Family_Inet6))
                   (be_bytes 2 (i6_port inet6))
                   (BigEndian_Store Swap32 host_le (i6_flowInfo inet6))
                   (take Inet6_SIZE (i6_address inet6))
                   (BigEndian_Store Swap32 host_le (i6_scope inet6))),
                 ADDR6_SOCKLEN sys))
      | Family_Unix \<Rightarrow>
          if len < ADDRUNIX_SOCKLEN sys then Inr (None, len)
          else and_then (Unix s) (\<lambda>path.
            Inr (Some (Sockaddr_Un (of_int (GetAddressFamily sys Family_Unix))
                   (take Unix_LENGTH path)),
                 ADDRUNIX_SOCKLEN sys))
      | _ \<Rightarrow> Inl Assert_Failed)"

text \<open>
  The first part of \<^verbatim>\<open>FromString\<close>: the port after the first colon and the text before it. \<open>after\<close> is
  the memory that follows the text.
\<close>

definition split_port :: "byte list \<Rightarrow> byte list \<Rightarrow> (nat \<times> byte list) result exec" where
  "split_port address after =
     (case find_sub address (lit '':'') of
        None \<Rightarrow> Inr (Inr (0, address))
      | Some colon \<Rightarrow>
          let rest = drop (colon + 1) address
          in and_then (ParseNumber_unsigned 16 (rest @ after) (length rest)) (\<lambda>r.
             Inr (case r of Inl _ \<Rightarrow> Inl E_FAILURE | Inr p \<Rightarrow> Inr (p, take colon address))))"

definition FromString ::
  "header \<Rightarrow> pton \<Rightarrow> byte list \<Rightarrow> byte list \<Rightarrow> SocketAddress \<Rightarrow> (unit result \<times> SocketAddress) exec" where
  "FromString sys pton address after s =
     (if address = [] then Inr (Inl E_INVALID_ARGUMENT, s)
      else and_then (split_port address after)
        (\<lambda>r. case r of Inl e \<Rightarrow> Inr (Inl e, s)
           | Inr (port, address) \<Rightarrow>
               (case ParseAddress sys pton address of
                  Inl e \<Rightarrow> Inr (Inl e, s)
                | Inr (Parsed_Inet a) \<Rightarrow>
                    and_then (Inet s) (\<lambda>inet.
                    Inr (Inr (), s\<lparr>m_family := Family_Inet4,
                      m_address := Data_Inet (inet\<lparr>ia_port := of_nat port, ia_address := a\<rparr>)\<rparr>))
                | Inr (Parsed_Inet6 a) \<Rightarrow>
                    and_then (Inet6 s) (\<lambda>inet6.
                    Inr (Inr (), s\<lparr>m_address := Data_Inet6 (inet6\<lparr>i6_port := of_nat port,
                      i6_flowInfo := 0, i6_scope := 0, i6_address := a\<rparr>)\<rparr>)))))"

definition IsValid :: "SocketAddress \<Rightarrow> bool" where
  "IsValid s \<longleftrightarrow> m_family s \<noteq> Family_None"

text \<open>The last branch converts a failure with code \<^verbatim>\<open>E_INVALID_ARGUMENT\<close> to \<^verbatim>\<open>bool\<close>, which is true.\<close>

definition IsEmpty :: "SocketAddress \<Rightarrow> bool exec" where
  "IsEmpty s =
     (if IsValid s then Inr False
      else case m_family s of
        Family_Inet4 \<Rightarrow> and_then (Inet s) (\<lambda>a. Inr (\<not> Inet_IsEmpty (ia_address a)))
      | Family_Inet6 \<Rightarrow> and_then (Inet6 s) (\<lambda>a. Inr (\<not> Inet6_IsEmpty (i6_address a)))
      | Family_Unix \<Rightarrow> and_then (Unix s) (\<lambda>p. Inr (p ! 0 = 0))
      | _ \<Rightarrow> Inr True)"

text \<open>\<^verbatim>\<open>operator==\<close> and \<^verbatim>\<open>operator<\<close> differ in the comparison of the addresses only.\<close>

definition compare_addresses ::
  "(byte list \<Rightarrow> byte list \<Rightarrow> nat \<Rightarrow> bool exec) \<Rightarrow> SocketAddress \<Rightarrow> SocketAddress \<Rightarrow> bool exec" where
  "compare_addresses cmp s t =
     (if m_family s = m_family t then
        case m_family s of
          Family_Inet4 \<Rightarrow> and_then (Inet s) (\<lambda>a. and_then (Inet t) (\<lambda>b.
            if ia_port a = ia_port b then cmp (ia_address a) (ia_address b) Inet_SIZE
            else Inr False))
        | Family_Inet6 \<Rightarrow> and_then (Inet6 s) (\<lambda>a. and_then (Inet6 t) (\<lambda>b.
            if i6_port a = i6_port b then cmp (i6_address a) (i6_address b) Inet6_SIZE
            else Inr False))
        | Family_Unix \<Rightarrow> and_then (Unix s) (\<lambda>a. and_then (Unix t) (\<lambda>b. cmp a b Unix_LENGTH))
        | _ \<Rightarrow> Inr False
      else Inr False)"

definition SocketAddress_eq :: "SocketAddress \<Rightarrow> SocketAddress \<Rightarrow> bool exec" where
  "SocketAddress_eq s t = compare_addresses equal_bitwise s t"

definition SocketAddress_less :: "SocketAddress \<Rightarrow> SocketAddress \<Rightarrow> bool exec" where
  "SocketAddress_less s t = compare_addresses less_bytes s t"

text \<open>\<open>dec\<close> is the decimal printing of the formatting library.\<close>

definition SocketAddress_ToString ::
  "header \<Rightarrow> ntop \<Rightarrow> (u16 \<Rightarrow> byte list) \<Rightarrow> SocketAddress \<Rightarrow> byte list exec" where
  "SocketAddress_ToString sys ntop dec s =
     (case m_family s of
        Family_Inet4 \<Rightarrow> and_then (Inet s) (\<lambda>a. Inr (lit ''['' @ Inet_ToString sys ntop (ia_address a)
          @ lit '']:'' @ dec (ia_port a)))
      | Family_Inet6 \<Rightarrow> and_then (Inet6 s) (\<lambda>a. Inr (lit ''['' @ Inet6_ToString sys ntop (i6_address a)
          @ lit '']:'' @ dec (i6_port a)))
      | Family_Unix \<Rightarrow> and_then (Unix s) (\<lambda>p. Inr (lit ''unix://'' @ c_str p))
      | _ \<Rightarrow> Inr [])"

text \<open>
  The overload for a buffer, which is the memory of the caller: \<^verbatim>\<open>format_to_n\<close> writes at most \<open>len\<close> bytes
  and no terminator, and the view that is returned runs up to the next zero byte.
\<close>

definition SocketAddress_ToString_buffer ::
  "header \<Rightarrow> ntop \<Rightarrow> (u16 \<Rightarrow> byte list) \<Rightarrow> SocketAddress \<Rightarrow> byte list \<Rightarrow> nat \<Rightarrow> (byte list \<times> byte list) exec" where
  "SocketAddress_ToString_buffer sys ntop dec s buffer len =
     (if m_family s \<in> {Family_Inet4, Family_Inet6, Family_Unix}
      then and_then (SocketAddress_ToString sys ntop dec s) (\<lambda>printed.
           and_then (memcpy buffer 0 (take len printed)) (\<lambda>buffer.
             if 0 \<in> set buffer then Inr (buffer, c_str buffer) else Inl Out_Of_Bounds))
      else Inr (buffer, []))"

lemma SocketAddress_ToString_buffer_zeroed:
  assumes "SocketAddress_ToString sys ntop dec s = Inr printed" and "0 \<notin> set printed"
    and "m_family s \<in> {Family_Inet4, Family_Inet6, Family_Unix}"
  shows "SocketAddress_ToString_buffer sys ntop dec s (replicate n 0) n
    = (if length printed < n then Inr (printed @ replicate (n - length printed) 0, printed) else Inl Out_Of_Bounds)"
proof (cases "length printed < n")
  case True
  with assms show ?thesis
    by (auto simp: SocketAddress_ToString_buffer_def memcpy_def blit_def c_str_def takeWhile_append Suc_diff_Suc
        gr0_conv_Suc)
next
  case False
  then have "0 \<notin> set (take n printed)" using assms(2) by (auto dest: in_set_takeD)
  with False assms show ?thesis
    by (auto simp: SocketAddress_ToString_buffer_def memcpy_def blit_def)
qed

record AddressInfo =
  ai_info_flags :: AddressInfoFlags
  ai_info_family :: AddressFamily
  ai_info_type :: SocketType
  ai_info_protocol :: SocketProtocol

record addrinfo =
  ai_flags :: int
  ai_family :: int
  ai_protocol :: int
  ai_socktype :: int

definition MapAddressInfo :: "header \<Rightarrow> AddressInfo \<Rightarrow> addrinfo" where
  "MapAddressInfo sys addr =
     \<lparr>ai_flags = GetAddressInfoFlags sys (ai_info_flags addr),
      ai_family = (if ai_info_family addr \<noteq> Family_None then GetAddressFamily sys (ai_info_family addr)
        else GetAddressFamily sys Family_Unspecified),
      ai_protocol = (if ai_info_protocol addr \<noteq> Protocol_None
        then GetSocketProtocol sys (ai_info_protocol addr) else 0),
      ai_socktype = (if ai_info_type addr \<noteq> Type_None then GetSocketType sys (ai_info_type addr)
        else 0)\<rparr>"

section \<open>Lemmas\<close>

text \<open>The alternative of the variant is the one of the family, and the arrays have their sizes.\<close>

definition sa_wf :: "SocketAddress \<Rightarrow> bool" where
  "sa_wf s \<longleftrightarrow>
     (case m_address s of
        Monostate \<Rightarrow> m_family s = Family_None
      | Data_Inet a \<Rightarrow> m_family s = Family_Inet4 \<and> length (ia_address a) = 4
      | Data_Inet6 a \<Rightarrow> m_family s = Family_Inet6 \<and> length (i6_address a) = 16
      | Data_Unix p \<Rightarrow> m_family s = Family_Unix \<and> length p = Unix_LENGTH + 1)"

definition families_ok :: "header \<Rightarrow> bool" where
  "families_ok sys \<longleftrightarrow>
     distinct (map sys [''AF_UNSPEC'', ''AF_INET'', ''AF_INET6'', ''AF_UNIX''])
     \<and> list_all (\<lambda>n. 0 \<le> sys n \<and> sys n < 2 ^ 16) [''AF_INET'', ''AF_INET6'', ''AF_UNIX'']"

lemma family_of_stored:
  assumes "families_ok sys" and "family \<in> {Family_Inet4, Family_Inet6, Family_Unix}"
  shows "AddressFamily_of_int sys (uint (of_int (GetAddressFamily sys family) :: u16)) = family"
proof -
  have "0 \<le> GetAddressFamily sys family \<and> GetAddressFamily sys family < 2 ^ 16"
    using assms by (auto simp: families_ok_def GetAddressFamily_def)
  then have "uint (of_int (GetAddressFamily sys family) :: u16) = GetAddressFamily sys family"
    by (simp add: uint_word_of_int_eq take_bit_eq_mod)
  then show ?thesis
    using assms by (auto simp: families_ok_def AddressFamily_of_int_def GetAddressFamily_def)
qed

lemma be_word_be_bytes_u16 [simp]: "be_word (be_bytes 2 (p :: u16)) = p"
  by (rule be_word_be_bytes) simp

lemma Swap32_Swap32: "Swap32 (Swap32 v) = v"
proof -
  have "le_bytes 4 (be_word (le_bytes 4 v) :: u32) = rev (le_bytes 4 v)"
    using le_bytes_le_word [of "rev (le_bytes 4 v)", where 'a = 32] by (simp add: be_word_def)
  then show ?thesis
    by (simp add: Swap32_def be_word_def le_word_le_bytes)
qed

lemma BigEndian_Load_Store [simp]:
  "BigEndian_Load Swap32 host_le (BigEndian_Store Swap32 host_le v) = v"
  by (simp add: BigEndian_Load_def BigEndian_Store_def host_load_def host_store_def Swap32_Swap32
      le_word_le_bytes be_word_be_bytes)

lemma Length_n_empty: "Length_n (0 # s) n = Inr 0"
  by (cases n) auto

lemma FromSockAddr_Unix:
  assumes "families_ok sys" and "uint family = GetAddressFamily sys Family_Unix"
  shows "FromSockAddr sys host_le (Sockaddr_Un family path) s
    = Inr (s\<lparr>m_address := Data_Unix (replicate (Unix_LENGTH + 1) 0), m_family := Family_Unix\<rparr>)"
proof -
  have "AddressFamily_of_int sys (uint family) = Family_Unix"
    using assms by (auto simp: families_ok_def AddressFamily_of_int_def GetAddressFamily_def)
  then show ?thesis
    by (simp add: FromSockAddr_def Let_def Length_n_empty memcpy_def blit_def)
qed

lemma split_port_no_colon:
  assumes "split_port t after = Inr (Inr (port, u))"
  shows "58 \<notin> set u"
proof (cases "find_sub t [58]")
  case None
  with assms find_sub_single [of 58 t] show ?thesis by (auto simp: split_port_def lit_def)
next
  case (Some colon)
  with assms obtain r :: "number_error + nat"
    where "(case r of Inl _ \<Rightarrow> Inl E_FAILURE | Inr p \<Rightarrow> Inr (p, take colon t)) = Inr (port, u)"
    by (auto simp: split_port_def lit_def Let_def and_then_Inr_iff)
  with Some find_sub_single [of 58 t] show ?thesis by (cases r) auto
qed

lemma split_port_none: "58 \<notin> set t \<Longrightarrow> split_port t after = Inr (Inr (0, t))"
  using find_sub_single [of 58 t]
  by (auto simp: split_port_def lit_def split: option.splits) (metis nth_mem)

lemma FromString_success:
  assumes "FromString sys pton t after s = Inr (Inr (), s')"
  obtains port u where "split_port t after = Inr (Inr (port, u))"
    and "(\<exists>a. ParseAddress sys pton u = Inr (Parsed_Inet a) \<and> (\<exists>i. Inet s = Inr i))
      \<or> (\<exists>a. ParseAddress sys pton u = Inr (Parsed_Inet6 a) \<and> (\<exists>i. Inet6 s = Inr i))"
proof -
  have ne: "t \<noteq> []" using assms by (auto simp: FromString_def)
  then obtain r where r: "split_port t after = Inr r"
    using assms by (auto simp: FromString_def and_then_Inr_iff)
  obtain port u where ru: "r = Inr (port, u)"
    using assms ne r by (cases r) (auto simp: FromString_def)
  obtain p where p: "ParseAddress sys pton u = Inr p"
    using assms ne r ru by (cases "ParseAddress sys pton u") (auto simp: FromString_def)
  then show thesis
    using assms ne r ru by (cases p) (auto simp: FromString_def and_then_Inr_iff intro!: that)
qed

section \<open>Properties\<close>

text \<open>
  Property C36. A well-formed IPv4 or IPv6 socket address is unchanged by \<^verbatim>\<open>ToSockAddr\<close> into a
  buffer that is large enough followed by \<^verbatim>\<open>FromSockAddr\<close>, ports, flow information and scope
  included. \<^verbatim>\<open>FromSockAddr\<close> takes the length of a Unix path from its own empty buffer, so every Unix
  address comes back with an empty path. In the structure that is written the scope is
  stored with its most significant byte first, which a little-endian host reads with
  its bytes reversed.
\<close>

theorem sockaddr_roundtrip:
  assumes "families_ok sys" and "sa_wf s" and "m_family s \<noteq> Family_None" and "0 < len"
    and "ADDR4_SOCKLEN sys \<le> len" and "ADDR6_SOCKLEN sys \<le> len" and "ADDRUNIX_SOCKLEN sys \<le> len"
  shows "\<exists>a n. ToSockAddr sys host_le s True len = Inr (Some a, n)
    \<and> FromSockAddr sys host_le a t
      = Inr (if m_family s = Family_Unix
             then s\<lparr>m_address := Data_Unix (replicate (Unix_LENGTH + 1) 0)\<rparr> else s)
    \<and> (\<forall>i. m_address s = Data_Inet6 i \<longrightarrow> host_load True (sin6_scope_id a) = Swap32 (i6_scope i))"
proof (cases "m_address s")
  case (Data_Inet a)
  then show ?thesis
    using assms family_of_stored [OF assms(1), of Family_Inet4]
    by (auto simp: sa_wf_def ToSockAddr_def FromSockAddr_def Let_def Inet_def Inet_Assign_def
        Inet_SIZE_def intro!: SocketAddress.equality)
next
  case (Data_Inet6 a)
  have "host_load True (BigEndian_Store Swap32 host_le v) = Swap32 v" for v
    by (simp add: host_load_def BigEndian_Store_def host_store_def le_word_le_bytes)
      (simp add: Swap32_def be_word_def be_bytes_def)
  with Data_Inet6 show ?thesis
    using assms family_of_stored [OF assms(1), of Family_Inet6]
    by (auto simp: sa_wf_def ToSockAddr_def FromSockAddr_def Let_def Inet6_def Inet6_Assign_def
        Inet6_SIZE_def intro!: SocketAddress.equality)
next
  case (Data_Unix p)
  then have f: "m_family s = Family_Unix" using assms(2) by (simp add: sa_wf_def)
  have "uint (of_int (GetAddressFamily sys Family_Unix) :: u16) = GetAddressFamily sys Family_Unix"
    using assms(1) by (simp add: families_ok_def GetAddressFamily_def uint_word_of_int_eq take_bit_eq_mod)
  then show ?thesis
    using assms(4,7) f Data_Unix
    by (auto simp: ToSockAddr_def Unix_def FromSockAddr_Unix [OF assms(1)]
        intro!: SocketAddress.equality)
qed (use assms in \<open>simp add: sa_wf_def\<close>)

theorem sockaddr_roundtrip_witness:
  "\<exists>a n. ToSockAddr (linux_header) True (SocketAddress_of_Inet InaddrLoopback 8080) True 128
       = Inr (Some a, n)
     \<and> FromSockAddr linux_header True a SocketAddress_default
       = Inr (SocketAddress_of_Inet InaddrLoopback 8080)"
  using sockaddr_roundtrip [of linux_header "SocketAddress_of_Inet InaddrLoopback 8080" 128 True
      SocketAddress_default]
  by (simp add: families_ok_def linux_header_def sa_wf_def SocketAddress_of_Inet_def
      InaddrLoopback_def ADDR4_SOCKLEN_def ADDR6_SOCKLEN_def ADDRUNIX_SOCKLEN_def)

text \<open>
  \<^verbatim>\<open>FromString\<close> never succeeds on a default-constructed address: a text that
  \<^verbatim>\<open>ParseAddress\<close> accepts makes it throw, because it asks the empty variant for an
  alternative. On an address that already holds an IPv4 address it stores the parsed address
  with port 0. When \<^verbatim>\<open>inet_pton\<close> accepts as IPv6 only texts with a colon, \<^verbatim>\<open>FromString\<close> never
  succeeds on an address that holds an IPv6 address, since it cuts its text at the first colon.
\<close>

theorem socket_address_from_string:
  assumes "\<forall>u b. pton (sys ''AF_INET6'') u = Some b \<longrightarrow> 58 \<in> set u"
  shows "(\<forall>s'. FromString sys pton t after SocketAddress_default \<noteq> Inr (Inr (), s'))
    \<and> (t \<noteq> [] \<and> 58 \<notin> set t \<and> ParseAddress sys pton t = Inr p \<longrightarrow>
        FromString sys pton t after SocketAddress_default = Inl Std_Bad_Variant_Access)
    \<and> (t \<noteq> [] \<and> 58 \<notin> set t \<and> ParseAddress sys pton t = Inr (Parsed_Inet x)
        \<and> m_address s = Data_Inet a \<longrightarrow>
        FromString sys pton t after s = Inr (Inr (), s\<lparr>m_family := Family_Inet4,
          m_address := Data_Inet (a\<lparr>ia_port := 0, ia_address := x\<rparr>)\<rparr>))
    \<and> (m_address s = Data_Inet6 b \<longrightarrow> (\<forall>s'. FromString sys pton t after s \<noteq> Inr (Inr (), s')))"
proof -
  have not6: "ParseAddress sys pton u \<noteq> Inr (Parsed_Inet6 c)" if "58 \<notin> set u" for u c
    using assms that
    by (auto simp: ParseAddress_def Inet6_FromString_def c_str_def dest!: set_takeWhileD
        split: sum.splits prod.splits option.splits if_splits)
  have "FromString sys pton t after SocketAddress_default \<noteq> Inr (Inr (), s')" for s'
    by (auto elim!: FromString_success simp: SocketAddress_default_def Inet_def Inet6_def)
  moreover have "FromString sys pton t after SocketAddress_default = Inl Std_Bad_Variant_Access"
    if "t \<noteq> []" "58 \<notin> set t" "ParseAddress sys pton t = Inr p"
    using that
    by (auto simp: FromString_def split_port_none SocketAddress_default_def Inet_def Inet6_def
        split: ParsedAddress.splits)
  moreover have "FromString sys pton t after s = Inr (Inr (), s\<lparr>m_family := Family_Inet4,
      m_address := Data_Inet (a\<lparr>ia_port := 0, ia_address := x\<rparr>)\<rparr>)"
    if "t \<noteq> []" "58 \<notin> set t" "ParseAddress sys pton t = Inr (Parsed_Inet x)" "m_address s = Data_Inet a"
    using that by (simp add: FromString_def split_port_none Inet_def)
  moreover have "FromString sys pton t after s \<noteq> Inr (Inr (), s')" if "m_address s = Data_Inet6 b" for s'
    using that not6 by (auto elim!: FromString_success dest!: split_port_no_colon simp: Inet_def)
  ultimately show ?thesis by blast
qed

theorem socket_address_from_string_witness:
  "FromString linux_header (\<lambda>f u. if f = 2 then Some [127, 0, 0, 1] else None) (lit ''127.0.0.1'') []
     SocketAddress_default = Inl Std_Bad_Variant_Access"
  using socket_address_from_string [of "\<lambda>f u. if f = 2 then Some [127, 0, 0, 1] else None" linux_header
      "lit ''127.0.0.1''" "[]" "Parsed_Inet [127, 0, 0, 1]"]
  by (simp add: linux_header_def lit_def ParseAddress_def Inet_FromString_def Inet_LENGTH_def
      Inet_SIZE_def)

text \<open>
  On well-formed addresses \<^verbatim>\<open>operator==\<close> compares family, port and address.
  \<^verbatim>\<open>operator<\<close> is not the strict weak order that ordered containers need: addresses with
  different ports are never ordered, so two addresses can be ordered while a third is
  incomparable with both.
\<close>

theorem socket_address_comparison:
  "(m_address s = Data_Inet a \<and> m_address t = Data_Inet b \<and> sa_wf s \<and> sa_wf t \<longrightarrow>
      SocketAddress_eq s t = Inr (a = b))
   \<and> (\<exists>x y z. SocketAddress_less x z = Inr True
        \<and> SocketAddress_less x y = Inr False \<and> SocketAddress_less y x = Inr False
        \<and> SocketAddress_less y z = Inr False \<and> SocketAddress_less z y = Inr False)"
proof (intro conjI impI)
  assume *: "m_address s = Data_Inet a \<and> m_address t = Data_Inet b \<and> sa_wf s \<and> sa_wf t"
  then show "SocketAddress_eq s t = Inr (a = b)"
    by (cases a; cases b)
      (auto simp: SocketAddress_eq_def compare_addresses_def sa_wf_def Inet_def Inet_SIZE_def
        memcmp_0_iff)
next
  let ?a = "\<lambda>n port. SocketAddress_of_Inet [10, 0, 0, n] port"
  have "SocketAddress_less (?a 1 80) (?a 3 80) = Inr True"
    "SocketAddress_less (?a 1 80) (?a 2 81) = Inr False" "SocketAddress_less (?a 2 81) (?a 1 80) = Inr False"
    "SocketAddress_less (?a 2 81) (?a 3 80) = Inr False" "SocketAddress_less (?a 3 80) (?a 2 81) = Inr False"
    by (simp_all add: SocketAddress_less_def compare_addresses_def SocketAddress_of_Inet_def Inet_def
        Inet_SIZE_def less_bytes_4)
  then show "\<exists>x y z. SocketAddress_less x z = Inr True
        \<and> SocketAddress_less x y = Inr False \<and> SocketAddress_less y x = Inr False
        \<and> SocketAddress_less y z = Inr False \<and> SocketAddress_less z y = Inr False"
    by blast
qed

theorem socket_address_comparison_witness:
  "SocketAddress_eq (SocketAddress_of_Inet [10, 0, 0, 1] 80) (SocketAddress_of_Inet [10, 0, 0, 1] 81)
   = Inr False"
  using socket_address_comparison [of "SocketAddress_of_Inet [10, 0, 0, 1] 80"
      "\<lparr>ia_address = [10, 0, 0, 1], ia_port = 80\<rparr>" "SocketAddress_of_Inet [10, 0, 0, 1] 81"
      "\<lparr>ia_address = [10, 0, 0, 1], ia_port = 81\<rparr>"]
  by (simp add: SocketAddress_of_Inet_def sa_wf_def)

end
