(* ===== verification/Standard_Network.thy ===== *)
theory Standard_Network
  imports Socket_Address
begin

text \<open>
  The interface \<^verbatim>\<open>Network\<close> of \<^verbatim>\<open>Network.h\<close> and its implementation \<^verbatim>\<open>StandardNetwork\<close> for POSIX
  (\<^verbatim>\<open>platforms/posix/StandardNetwork.cpp\<close>, \<^verbatim>\<open>platforms/posix/Network.cpp\<close>).

  The system calls are a parameter, a record \<open>'w kernel\<close> of functions on a state \<open>'w\<close> of the
  operating system that the code cannot see. Each returns what the C function returns;
  where the call fills a structure, \<open>None\<close> says that it left it as it was. Buffers passed to the
  calls are not null. A \<^verbatim>\<open>Failure\<close> is its error code; its message and its platform code
  are left out.
\<close>

section \<open>System calls\<close>

record 'w kernel =
  sys_accept :: "Socket \<Rightarrow> 'w \<Rightarrow> (int \<times> sockaddr option) \<times> 'w"
  sys_bind :: "Socket \<Rightarrow> sockaddr \<Rightarrow> nat \<Rightarrow> 'w \<Rightarrow> int \<times> 'w"
  sys_close :: "Socket \<Rightarrow> 'w \<Rightarrow> int \<times> 'w"
  sys_connect :: "Socket \<Rightarrow> sockaddr \<Rightarrow> nat \<Rightarrow> 'w \<Rightarrow> int \<times> 'w"
  sys_socket :: "int \<Rightarrow> int \<Rightarrow> int \<Rightarrow> 'w \<Rightarrow> int \<times> 'w"
  sys_getpeername :: "Socket \<Rightarrow> 'w \<Rightarrow> (int \<times> sockaddr option) \<times> 'w"
  sys_getsockname :: "Socket \<Rightarrow> 'w \<Rightarrow> (int \<times> sockaddr option) \<times> 'w"
  sys_getsockopt :: "Socket \<Rightarrow> int \<Rightarrow> int \<Rightarrow> nat \<Rightarrow> 'w \<Rightarrow> (int \<times> byte list) \<times> 'w"
  sys_listen :: "Socket \<Rightarrow> int \<Rightarrow> 'w \<Rightarrow> int \<times> 'w"
  sys_recv :: "Socket \<Rightarrow> nat \<Rightarrow> int \<Rightarrow> 'w \<Rightarrow> (int \<times> byte list) \<times> 'w"
  sys_recvfrom :: "Socket \<Rightarrow> nat \<Rightarrow> int \<Rightarrow> 'w \<Rightarrow> (int \<times> byte list \<times> sockaddr option) \<times> 'w"
  sys_send :: "Socket \<Rightarrow> byte list \<Rightarrow> int \<Rightarrow> 'w \<Rightarrow> int \<times> 'w"
  sys_sendto :: "Socket \<Rightarrow> byte list \<Rightarrow> int \<Rightarrow> sockaddr \<Rightarrow> nat \<Rightarrow> 'w \<Rightarrow> int \<times> 'w"
  sys_fcntl_getfl :: "Socket \<Rightarrow> 'w \<Rightarrow> int \<times> 'w"
  sys_fcntl_setfl :: "Socket \<Rightarrow> int \<Rightarrow> 'w \<Rightarrow> int \<times> 'w"
  sys_setsockopt :: "Socket \<Rightarrow> int \<Rightarrow> int \<Rightarrow> byte list \<Rightarrow> 'w \<Rightarrow> int \<times> 'w"
  sys_shutdown :: "Socket \<Rightarrow> int \<Rightarrow> 'w \<Rightarrow> int \<times> 'w"
  sys_errno :: "'w \<Rightarrow> int"

text \<open>
  An operation of the network: a result or a failure, and the new state. \<open>net_bind\<close> is the pattern
  \<^verbatim>\<open>if (auto result = ...; !result) return result.Error();\<close>.
\<close>

type_synonym ('w, 'a) net = "'w \<Rightarrow> ('a result \<times> 'w) exec"

definition net_return :: "'a \<Rightarrow> ('w, 'a) net" where
  "net_return x w = Inr (Inr x, w)"

definition net_fail :: "error_code \<Rightarrow> ('w, 'a) net" where
  "net_fail e w = Inr (Inl e, w)"

definition net_bind :: "('w, 'a) net \<Rightarrow> ('a \<Rightarrow> ('w, 'b) net) \<Rightarrow> ('w, 'b) net" where
  "net_bind m f w =
     and_then (m w) (\<lambda>(r, w'). case r of Inl e \<Rightarrow> Inr (Inl e, w') | Inr x \<Rightarrow> f x w')"

text \<open>A view \<open>g\<close> of the state that an operation does not change, whatever its result.\<close>

definition keeps :: "('w \<Rightarrow> 'b) \<Rightarrow> ('w, 'a) net \<Rightarrow> bool" where
  "keeps g m \<longleftrightarrow> (\<forall>w r w'. m w = Inr (r, w') \<longrightarrow> g w' = g w)"

lemma keepsD: "keeps g m \<Longrightarrow> m w = Inr (r, w') \<Longrightarrow> g w' = g w"
  by (simp add: keeps_def)

lemma net_bind_success:
  "net_bind m f w = Inr (Inr y, w') \<longleftrightarrow> (\<exists>x w1. m w = Inr (Inr x, w1) \<and> f x w1 = Inr (Inr y, w'))"
  by (auto simp: net_bind_def and_then_Inr_iff split_sum_ex)

lemma keeps_net_fail [intro]: "keeps g (net_fail e)"
  by (simp add: keeps_def net_fail_def)

lemma keeps_net_return [intro]: "keeps g (net_return x)"
  by (simp add: keeps_def net_return_def)

lemma keeps_net_bind [intro]:
  assumes "keeps g m" and "\<And>x. keeps g (f x)"
  shows "keeps g (net_bind m f)"
  unfolding keeps_def
proof (intro allI impI)
  fix w r w' assume "net_bind m f w = Inr (r, w')"
  then obtain x w1 where m: "m w = Inr (x, w1)"
    and f: "(case x of Inl e \<Rightarrow> Inr (Inl e, w1) | Inr y \<Rightarrow> f y w1) = Inr (r, w')"
    by (auto simp: net_bind_def and_then_Inr_iff)
  from keepsD [OF assms(1) m] f show "g w' = g w"
    by (cases x) (auto dest: keepsD [OF assms(2)])
qed

section \<open>The interface\<close>

record 'w network =
  Accept :: "Socket \<Rightarrow> ('w, Socket \<times> SocketAddress) net"
  Bind :: "Socket \<Rightarrow> SocketAddress \<Rightarrow> ('w, unit) net"
  CreateSocket :: "AddressFamily \<Rightarrow> SocketProtocol \<Rightarrow> SocketType \<Rightarrow> ('w, Socket) net"
  Connect :: "Socket \<Rightarrow> SocketAddress \<Rightarrow> ('w, unit) net"
  Close :: "Socket \<Rightarrow> ('w, unit) net"
  GetPeerName :: "Socket \<Rightarrow> ('w, SocketAddress) net"
  GetSockName :: "Socket \<Rightarrow> ('w, SocketAddress) net"
  GetSocketOption :: "Socket \<Rightarrow> SocketOpt \<Rightarrow> nat \<Rightarrow> ('w, byte list) net"
  Listen :: "Socket \<Rightarrow> u32 \<Rightarrow> ('w, unit) net"
  Recv :: "Socket \<Rightarrow> nat \<Rightarrow> MessageOption \<Rightarrow> ('w, nat \<times> byte list) net"
  RecvFrom :: "Socket \<Rightarrow> nat \<Rightarrow> MessageOption \<Rightarrow> ('w, nat \<times> byte list \<times> SocketAddress) net"
  Send :: "Socket \<Rightarrow> byte list \<Rightarrow> MessageOption \<Rightarrow> ('w, nat) net"
  SendTo :: "Socket \<Rightarrow> SocketAddress \<Rightarrow> byte list \<Rightarrow> MessageOption \<Rightarrow> ('w, nat) net"
  SetBlocking :: "Socket \<Rightarrow> bool \<Rightarrow> ('w, unit) net"
  SetSocketOption :: "Socket \<Rightarrow> SocketOpt \<Rightarrow> byte list \<Rightarrow> ('w, unit) net"
  Shutdown :: "Socket \<Rightarrow> SocketShutdownMode \<Rightarrow> ('w, unit) net"
  Start :: "('w, unit) net"

record SocketConfig =
  family :: AddressFamily
  protocol :: SocketProtocol
  sock_type :: SocketType

definition with_family :: "SocketConfig \<Rightarrow> AddressFamily \<Rightarrow> SocketConfig" where
  "with_family config f = \<lparr>family = f, protocol = protocol config, sock_type = sock_type config\<rparr>"

definition TCP :: SocketConfig where
  "TCP = \<lparr>family = Family_Unspecified, protocol = Protocol_Tcp, sock_type = Type_Stream\<rparr>"

definition TCPv4 :: SocketConfig where
  "TCPv4 = with_family TCP Family_Inet4"

definition TCPv6 :: SocketConfig where
  "TCPv6 = with_family TCP Family_Inet6"

definition UDP :: SocketConfig where
  "UDP = \<lparr>family = Family_Unspecified, protocol = Protocol_Udp, sock_type = Type_Datagram\<rparr>"

definition UDPv4 :: SocketConfig where
  "UDPv4 = with_family UDP Family_Inet4"

definition UDPv6 :: SocketConfig where
  "UDPv6 = with_family UDP Family_Inet6"

definition CreateSocket_config :: "'w network \<Rightarrow> SocketConfig \<Rightarrow> ('w, Socket) net" where
  "CreateSocket_config n config = CreateSocket n (family config) (protocol config) (sock_type config)"

definition Recv_plain :: "'w network \<Rightarrow> Socket \<Rightarrow> nat \<Rightarrow> ('w, nat \<times> byte list) net" where
  "Recv_plain n sock sz = Recv n sock sz 0"

definition Send_plain :: "'w network \<Rightarrow> Socket \<Rightarrow> byte list \<Rightarrow> ('w, nat) net" where
  "Send_plain n sock buffer = Send n sock buffer 0"

definition RecvFrom_plain :: "'w network \<Rightarrow> Socket \<Rightarrow> nat \<Rightarrow> ('w, nat \<times> byte list \<times> SocketAddress) net" where
  "RecvFrom_plain n sock sz = RecvFrom n sock sz 0"

definition SendTo_plain :: "'w network \<Rightarrow> Socket \<Rightarrow> SocketAddress \<Rightarrow> byte list \<Rightarrow> ('w, nat) net" where
  "SendTo_plain n sock address buffer = SendTo n sock address buffer 0"

section \<open>StandardNetwork\<close>

definition GetLastNetworkFailure :: "header \<Rightarrow> 'w kernel \<Rightarrow> 'w \<Rightarrow> error_code" where
  "GetLastNetworkFailure sys k w =
     (let err = sys_errno k w
      in if err = sys ''ENOTCONN'' then E_FAILURE
         else if err = sys ''EWOULDBLOCK'' then E_NET_WOULD_BLOCK
         else if err = sys ''EADDRINUSE'' \<or> err = sys ''EADDRNOTAVAIL'' then E_RESOURCE_NOT_AVAILABLE
         else if err = sys ''EALREADY'' then E_NET_INPROGRESS
         else if err = sys ''ECONNABORTED'' \<or> err = sys ''EHOSTUNREACH'' then E_NET_CONN_ABORTED
         else if err = sys ''ECONNREFUSED'' then E_NET_CONN_REFUSED
         else if err = sys ''ECONNRESET'' then E_NET_CONN_RESET
         else if err = sys ''EINPROGRESS'' then E_NET_INPROGRESS
         else if err = sys ''ENETDOWN'' then E_NET_CONN_ABORTED
         else if err = sys ''EISCONN'' then E_NET_CONNECTED
         else if err = sys ''ETIMEDOUT'' then E_NET_TIMEOUT
         else E_FAILURE)"

definition last_failure :: "header \<Rightarrow> 'w kernel \<Rightarrow> ('w, 'a) net" where
  "last_failure sys k w = net_fail (GetLastNetworkFailure sys k w) w"

text \<open>The zeroed buffer that the code passes to calls that store a socket address.\<close>

definition filled :: "sockaddr option \<Rightarrow> sockaddr" where
  "filled stored = (case stored of None \<Rightarrow> Sockaddr_Other 0 | Some addr \<Rightarrow> addr)"

text \<open>Calls that report failure by \<^verbatim>\<open>SOCKET_ERROR\<close> and have no other result.\<close>

definition checked :: "header \<Rightarrow> 'w kernel \<Rightarrow> ('w \<Rightarrow> int \<times> 'w) \<Rightarrow> ('w, unit) net" where
  "checked sys k call w =
     (case call w of (r, w') \<Rightarrow> if r = SOCKET_ERROR then last_failure sys k w' else net_return () w')"

definition Standard_Accept ::
  "header \<Rightarrow> bool \<Rightarrow> 'w kernel \<Rightarrow> Socket \<Rightarrow> ('w, Socket \<times> SocketAddress) net" where
  "Standard_Accept sys host_le k server w =
     (if server = INVALID_SOCKET then net_fail E_INVALID_ARGUMENT w
      else case sys_accept k server w of ((sock, stored), w') \<Rightarrow>
        if sock = 0 then last_failure sys k w'
        else and_then (FromSockAddr sys host_le (filled stored) SocketAddress_default)
          (\<lambda>address. net_return (sock, address) w'))"

definition Standard_Bind ::
  "header \<Rightarrow> bool \<Rightarrow> 'w kernel \<Rightarrow> Socket \<Rightarrow> SocketAddress \<Rightarrow> ('w, unit) net" where
  "Standard_Bind sys host_le k sock address w =
     (if sock = INVALID_SOCKET then net_fail E_INVALID_ARGUMENT w
      else and_then (ToSockAddr sys host_le address True (nat (sys ''sizeof(sockaddr_storage)'')))
        (\<lambda>(addr, len). case addr of
           None \<Rightarrow> net_fail E_INVALID_ARGUMENT w
         | Some a \<Rightarrow> checked sys k (sys_bind k sock a len) w))"

definition Standard_Close :: "header \<Rightarrow> 'w kernel \<Rightarrow> Socket \<Rightarrow> ('w, unit) net" where
  "Standard_Close sys k sock w =
     (if sock = INVALID_SOCKET then net_fail E_INVALID_ARGUMENT w
      else checked sys k (sys_close k sock) w)"

definition Standard_Connect ::
  "header \<Rightarrow> bool \<Rightarrow> 'w kernel \<Rightarrow> Socket \<Rightarrow> SocketAddress \<Rightarrow> ('w, unit) net" where
  "Standard_Connect sys host_le k sock address w =
     (if sock = INVALID_SOCKET then net_fail E_INVALID_ARGUMENT w
      else and_then (ToSockAddr sys host_le address True (nat (sys ''sizeof(sockaddr_storage)'')))
        (\<lambda>(addr, len). case addr of
           None \<Rightarrow> net_fail E_INVALID_ARGUMENT w
         | Some a \<Rightarrow> checked sys k (sys_connect k sock a len) w))"

definition Standard_CreateSocket ::
  "header \<Rightarrow> 'w kernel \<Rightarrow> AddressFamily \<Rightarrow> SocketProtocol \<Rightarrow> SocketType \<Rightarrow> ('w, Socket) net" where
  "Standard_CreateSocket sys k fam proto type w =
     (case sys_socket k (GetAddressFamily sys fam) (GetSocketType sys type)
             (GetSocketProtocol sys proto) w of
        (sock, w') \<Rightarrow> if sock = 0 then last_failure sys k w' else net_return sock w')"

definition stored_name ::
  "header \<Rightarrow> bool \<Rightarrow> 'w kernel \<Rightarrow> (Socket \<Rightarrow> 'w \<Rightarrow> (int \<times> sockaddr option) \<times> 'w) \<Rightarrow> Socket
     \<Rightarrow> ('w, SocketAddress) net" where
  "stored_name sys host_le k call sock w =
     (if sock = INVALID_SOCKET then net_fail E_INVALID_ARGUMENT w
      else case call sock w of ((r, stored), w') \<Rightarrow>
        if r = SOCKET_ERROR then last_failure sys k w'
        else and_then (FromSockAddr sys host_le (filled stored) SocketAddress_default)
          (\<lambda>address. net_return address w'))"

definition Standard_GetPeerName ::
  "header \<Rightarrow> bool \<Rightarrow> 'w kernel \<Rightarrow> Socket \<Rightarrow> ('w, SocketAddress) net" where
  "Standard_GetPeerName sys host_le k = stored_name sys host_le k (sys_getpeername k)"

definition Standard_GetSockName ::
  "header \<Rightarrow> bool \<Rightarrow> 'w kernel \<Rightarrow> Socket \<Rightarrow> ('w, SocketAddress) net" where
  "Standard_GetSockName sys host_le k = stored_name sys host_le k (sys_getsockname k)"

definition Standard_GetSocketOption ::
  "header \<Rightarrow> 'w kernel \<Rightarrow> Socket \<Rightarrow> SocketOpt \<Rightarrow> nat \<Rightarrow> ('w, byte list) net" where
  "Standard_GetSocketOption sys k sock option sz w =
     (if sock = INVALID_SOCKET then net_fail E_INVALID_ARGUMENT w
      else case sys_getsockopt k sock (GetSocketOptLevel sys option) (GetSocketOpt sys option) sz w of
        ((res, data), w') \<Rightarrow>
          if res = SOCKET_ERROR then last_failure sys k w' else net_return data w')"

definition Standard_Listen :: "header \<Rightarrow> 'w kernel \<Rightarrow> Socket \<Rightarrow> u32 \<Rightarrow> ('w, unit) net" where
  "Standard_Listen sys k sock backlog w =
     (if sock = INVALID_SOCKET then net_fail E_INVALID_ARGUMENT w
      else checked sys k (sys_listen k sock (sint backlog)) w)"

text \<open>The conversion of a byte count to \<^verbatim>\<open>size_t\<close>.\<close>

definition size_t :: "int \<Rightarrow> nat" where
  "size_t r = nat (r mod 2 ^ 64)"

definition Standard_Recv ::
  "header \<Rightarrow> 'w kernel \<Rightarrow> Socket \<Rightarrow> nat \<Rightarrow> MessageOption \<Rightarrow> ('w, nat \<times> byte list) net" where
  "Standard_Recv sys k sock sz flags w =
     (if sock = INVALID_SOCKET then net_fail E_INVALID_ARGUMENT w
      else if sz = 0 then net_return (0, []) w
      else case sys_recv k sock sz (GetMessageOption sys flags) w of ((result, data), w') \<Rightarrow>
        if result = SOCKET_ERROR then last_failure sys k w'
        else if result = 0 then net_fail E_NET_DISCONNECTED w'
        else net_return (size_t result, data) w')"

text \<open>With a size of 0 the function returns a default-constructed \<^verbatim>\<open>Result\<close>, which is a failure.\<close>

definition Standard_RecvFrom ::
  "header \<Rightarrow> bool \<Rightarrow> 'w kernel \<Rightarrow> Socket \<Rightarrow> nat \<Rightarrow> MessageOption
     \<Rightarrow> ('w, nat \<times> byte list \<times> SocketAddress) net" where
  "Standard_RecvFrom sys host_le k sock sz flags w =
     (if sock = INVALID_SOCKET then net_fail E_INVALID_ARGUMENT w
      else if sz = 0 then net_fail E_FAILURE w
      else case sys_recvfrom k sock sz (GetMessageOption sys flags) w of
        ((result, data, stored), w') \<Rightarrow>
          if result = SOCKET_ERROR then last_failure sys k w'
          else and_then (FromSockAddr sys host_le (filled stored) SocketAddress_default)
            (\<lambda>address. net_return (size_t result, data, address) w'))"

definition Standard_Send ::
  "header \<Rightarrow> 'w kernel \<Rightarrow> Socket \<Rightarrow> byte list \<Rightarrow> MessageOption \<Rightarrow> ('w, nat) net" where
  "Standard_Send sys k sock buffer flags w =
     (if sock = INVALID_SOCKET then net_fail E_INVALID_ARGUMENT w
      else if length buffer = 0 then net_return 0 w
      else case sys_send k sock buffer (GetMessageOption sys flags) w of (result, w') \<Rightarrow>
        if result = SOCKET_ERROR then last_failure sys k w' else net_return (size_t result) w')"

definition Standard_SendTo ::
  "header \<Rightarrow> bool \<Rightarrow> 'w kernel \<Rightarrow> Socket \<Rightarrow> SocketAddress \<Rightarrow> byte list \<Rightarrow> MessageOption \<Rightarrow> ('w, nat) net" where
  "Standard_SendTo sys host_le k sock address buffer flags w =
     (if sock = INVALID_SOCKET then net_fail E_INVALID_ARGUMENT w
      else if length buffer = 0 then net_return 0 w
      else and_then (ToSockAddr sys host_le address True (nat (sys ''sizeof(sockaddr_storage)'')))
        (\<lambda>(addr, len). case addr of
           None \<Rightarrow> net_fail E_INVALID_ARGUMENT w
         | Some a \<Rightarrow>
             (case sys_sendto k sock buffer (GetMessageOption sys flags) a len w of (result, w') \<Rightarrow>
                if result = SOCKET_ERROR then last_failure sys k w'
                else net_return (size_t result) w')))"

text \<open>The failure of \<^verbatim>\<open>Fcntl::GetFlags\<close> carries the code of \<^verbatim>\<open>errno\<close>; its only caller drops it.\<close>

definition Fcntl_GetFlags :: "header \<Rightarrow> 'w kernel \<Rightarrow> Socket \<Rightarrow> ('w, int) net" where
  "Fcntl_GetFlags sys k sock w =
     (if sock = INVALID_SOCKET then net_fail E_INVALID_ARGUMENT w
      else case sys_fcntl_getfl k sock w of (flags, w') \<Rightarrow>
        if flags = SOCKET_ERROR then net_fail E_FAILURE w' else net_return flags w')"

definition Fcntl_SetFlags :: "header \<Rightarrow> 'w kernel \<Rightarrow> Socket \<Rightarrow> int \<Rightarrow> ('w, unit) net" where
  "Fcntl_SetFlags sys k sock flags w =
     (if sock = INVALID_SOCKET then net_fail E_INVALID_ARGUMENT w
      else checked sys k (sys_fcntl_setfl k sock flags) w)"

text \<open>A failure of \<^verbatim>\<open>Fcntl\<close> is replaced by the last network failure.\<close>

definition or_last_failure :: "header \<Rightarrow> 'w kernel \<Rightarrow> ('w, 'a) net \<Rightarrow> ('w, 'a) net" where
  "or_last_failure sys k m w =
     and_then (m w) (\<lambda>(r, w'). case r of Inl _ \<Rightarrow> last_failure sys k w' | Inr x \<Rightarrow> net_return x w')"

definition Standard_SetBlocking :: "header \<Rightarrow> 'w kernel \<Rightarrow> Socket \<Rightarrow> bool \<Rightarrow> ('w, unit) net" where
  "Standard_SetBlocking sys k sock blocking w =
     (if sock = INVALID_SOCKET then net_fail E_INVALID_ARGUMENT w
      else net_bind (or_last_failure sys k (Fcntl_GetFlags sys k sock)) (\<lambda>flags.
        or_last_failure sys k (Fcntl_SetFlags sys k sock
          (if \<not> blocking then flags OR sys ''O_NONBLOCK'' else flags AND NOT (sys ''O_NONBLOCK'')))) w)"

definition Standard_SetSocketOption ::
  "header \<Rightarrow> 'w kernel \<Rightarrow> Socket \<Rightarrow> SocketOpt \<Rightarrow> byte list \<Rightarrow> ('w, unit) net" where
  "Standard_SetSocketOption sys k sock option data w =
     (if sock = INVALID_SOCKET then net_fail E_INVALID_ARGUMENT w
      else checked sys k
        (sys_setsockopt k sock (GetSocketOptLevel sys option) (GetSocketOpt sys option) data) w)"

definition Standard_Shutdown ::
  "header \<Rightarrow> 'w kernel \<Rightarrow> Socket \<Rightarrow> SocketShutdownMode \<Rightarrow> ('w, unit) net" where
  "Standard_Shutdown sys k sock mode w =
     (if sock = INVALID_SOCKET then net_fail E_INVALID_ARGUMENT w
      else case mode of
        Shutdown_Read \<Rightarrow> checked sys k (sys_shutdown k sock (sys ''SHUT_RD'')) w
      | Shutdown_Write \<Rightarrow> checked sys k (sys_shutdown k sock (sys ''SHUT_WR'')) w
      | Shutdown_Both \<Rightarrow> checked sys k (sys_shutdown k sock (sys ''SHUT_RDWR'')) w
      | Shutdown_None \<Rightarrow> net_fail E_INVALID_ARGUMENT w)"

text \<open>Functions without an implementation on POSIX.\<close>

definition Ioctl_SetOption :: "Socket \<Rightarrow> int \<Rightarrow> u64 \<Rightarrow> ('w, unit) net" where
  "Ioctl_SetOption sock option value = net_fail E_NOT_SUPPORTED"

definition Poll :: "(Socket \<times> PollFlags) list \<Rightarrow> int \<Rightarrow> ('w, nat) net" where
  "Poll fds timeout = net_fail E_NOT_IMPLEMENTED"

definition Standard_Start :: "('w, unit) net" where
  "Standard_Start = net_return ()"

definition standard_network :: "header \<Rightarrow> bool \<Rightarrow> 'w kernel \<Rightarrow> 'w network" where
  "standard_network sys host_le k =
     \<lparr>Accept = Standard_Accept sys host_le k, Bind = Standard_Bind sys host_le k,
      CreateSocket = Standard_CreateSocket sys k, Connect = Standard_Connect sys host_le k,
      Close = Standard_Close sys k, GetPeerName = Standard_GetPeerName sys host_le k,
      GetSockName = Standard_GetSockName sys host_le k, GetSocketOption = Standard_GetSocketOption sys k,
      Listen = Standard_Listen sys k, Recv = Standard_Recv sys k, RecvFrom = Standard_RecvFrom sys host_le k,
      Send = Standard_Send sys k, SendTo = Standard_SendTo sys host_le k,
      SetBlocking = Standard_SetBlocking sys k, SetSocketOption = Standard_SetSocketOption sys k,
      Shutdown = Standard_Shutdown sys k, Start = Standard_Start\<rparr>"

text \<open>\<^verbatim>\<open>Network::Create\<close>.\<close>

definition Network_Create :: "header \<Rightarrow> bool \<Rightarrow> 'w kernel \<Rightarrow> ('w, 'w network) net" where
  "Network_Create sys host_le k =
     (let network = standard_network sys host_le k in net_bind (Start network) (\<lambda>_. net_return network))"

section \<open>The contract of a network\<close>

text \<open>
  What the clients of the interface rely on, whatever the operating system does: an operation on
  \<^verbatim>\<open>INVALID_SOCKET\<close> fails and touches nothing, and a \<^verbatim>\<open>Send\<close> of no bytes sends nothing.
\<close>

locale network_contract =
  fixes N :: "'w network"
  assumes accept_invalid: "Accept N INVALID_SOCKET w = net_fail E_INVALID_ARGUMENT w"
    and bind_invalid: "Bind N INVALID_SOCKET a w = net_fail E_INVALID_ARGUMENT w"
    and connect_invalid: "Connect N INVALID_SOCKET a w = net_fail E_INVALID_ARGUMENT w"
    and close_invalid: "Close N INVALID_SOCKET w = net_fail E_INVALID_ARGUMENT w"
    and name_invalid: "GetSockName N INVALID_SOCKET w = net_fail E_INVALID_ARGUMENT w"
    and listen_invalid: "Listen N INVALID_SOCKET n w = net_fail E_INVALID_ARGUMENT w"
    and recv_invalid: "Recv N INVALID_SOCKET m opt w = net_fail E_INVALID_ARGUMENT w"
    and send_invalid: "Send N INVALID_SOCKET buffer opt w = net_fail E_INVALID_ARGUMENT w"
    and blocking_invalid: "SetBlocking N INVALID_SOCKET b w = net_fail E_INVALID_ARGUMENT w"
    and peer_invalid: "GetPeerName N INVALID_SOCKET w = net_fail E_INVALID_ARGUMENT w"
    and get_option_invalid: "GetSocketOption N INVALID_SOCKET opn m w = net_fail E_INVALID_ARGUMENT w"
    and set_option_invalid: "SetSocketOption N INVALID_SOCKET opn data w = net_fail E_INVALID_ARGUMENT w"
    and recv_from_invalid: "RecvFrom N INVALID_SOCKET m opt w = net_fail E_INVALID_ARGUMENT w"
    and send_to_invalid: "SendTo N INVALID_SOCKET a buffer opt w = net_fail E_INVALID_ARGUMENT w"
    and shutdown_invalid: "Shutdown N INVALID_SOCKET mode w = net_fail E_INVALID_ARGUMENT w"
    and send_nothing: "sock \<noteq> INVALID_SOCKET \<Longrightarrow> Send N sock [] opt w = net_return 0 w"
begin

lemma send_empty_keeps_state: "\<exists>r. Send_plain N sock [] w = Inr (r, w)"
  by (cases "sock = INVALID_SOCKET")
    (simp_all add: Send_plain_def send_invalid send_nothing net_fail_def net_return_def)

lemma valid_argument:
  "Bind N s a w = Inr (Inr x, w') \<Longrightarrow> s \<noteq> INVALID_SOCKET"
  "Connect N s a w = Inr (Inr x, w') \<Longrightarrow> s \<noteq> INVALID_SOCKET"
  "SetBlocking N s b w = Inr (Inr x, w') \<Longrightarrow> s \<noteq> INVALID_SOCKET"
  by (auto simp: bind_invalid connect_invalid blocking_invalid net_fail_def)

lemma close_invalid_keeps_state: "Close N INVALID_SOCKET w = Inr (Inl E_INVALID_ARGUMENT, w)"
  by (simp add: close_invalid net_fail_def)

end

interpretation standard: network_contract "standard_network sys host_le k" for sys host_le k
  by unfold_locales
    (simp_all add: standard_network_def Standard_Accept_def Standard_Bind_def Standard_Connect_def
      Standard_Close_def Standard_GetSockName_def stored_name_def Standard_Listen_def
      Standard_Recv_def Standard_Send_def Standard_SetBlocking_def Standard_GetPeerName_def
      Standard_GetSocketOption_def Standard_SetSocketOption_def Standard_RecvFrom_def Standard_SendTo_def
      Standard_Shutdown_def)

section \<open>Lemmas\<close>

lemma FromSockAddr_unfilled:
  assumes "sys ''AF_INET'' \<noteq> 0" and "sys ''AF_INET6'' \<noteq> 0" and "sys ''AF_UNIX'' \<noteq> 0"
  shows "FromSockAddr sys host_le (filled None) s = Inl Assert_Failed"
  using assms by (auto simp: FromSockAddr_def filled_def Let_def AddressFamily_of_int_def)

lemma keeps_checked: "(\<And>w r w'. call w = (r, w') \<Longrightarrow> g w' = g w) \<Longrightarrow> keeps g (checked sys k call)"
  by (auto simp: keeps_def checked_def last_failure_def net_fail_def net_return_def
      split: prod.splits if_splits)

lemma keeps_or_last_failure [intro]:
  assumes "keeps g m" shows "keeps g (or_last_failure sys k m)"
  unfolding keeps_def
proof (intro allI impI)
  fix w r w' assume "or_last_failure sys k m w = Inr (r, w')"
  then obtain x w1 where m: "m w = Inr (x, w1)"
    and f: "(case x of Inl e \<Rightarrow> last_failure sys k w1 | Inr y \<Rightarrow> net_return y w1) = Inr (r, w')"
    by (auto simp: or_last_failure_def and_then_Inr_iff)
  from keepsD [OF assms m] f show "g w' = g w"
    by (cases x) (auto simp: last_failure_def net_fail_def net_return_def)
qed

section \<open>Properties\<close>

text \<open>
  \<^verbatim>\<open>SetBlocking\<close> reads the flags of the descriptor and writes them back with the
  non-blocking bit cleared or set and no other bit changed.
\<close>

theorem set_blocking_flags:
  assumes "sock \<noteq> INVALID_SOCKET" and "sys_fcntl_getfl k sock w = (flags, w1)" and "flags \<noteq> -1"
    and "sys ''O_NONBLOCK'' = 2 ^ b"
    and "sys_fcntl_setfl k sock (if blocking then unset_bit b flags else set_bit b flags) w1 = (r, w2)"
    and "r \<noteq> -1"
  shows "SetBlocking (standard_network sys host_le k) sock blocking w = Inr (Inr (), w2)"
proof -
  have "flags OR 2 ^ b = set_bit b flags" "flags AND NOT (2 ^ b) = unset_bit b flags"
    by (simp_all add: set_bit_eq_or unset_bit_eq_and_not push_bit_eq_mult)
  then show ?thesis
    using assms
    by (auto simp: standard_network_def Standard_SetBlocking_def net_bind_def or_last_failure_def
        Fcntl_GetFlags_def Fcntl_SetFlags_def checked_def SOCKET_ERROR_def net_return_def)
qed

text \<open>
  Three failures of the operating system are not reported as failures. When
  \<^verbatim>\<open>socket\<close> returns -1, \<^verbatim>\<open>CreateSocket\<close> succeeds with the invalid socket, and a valid descriptor 0 is
  reported as a failure. When \<^verbatim>\<open>accept\<close> returns -1, as it does on a non-blocking socket with no
  connection waiting, \<^verbatim>\<open>Accept\<close> reads the address that was not stored and an assertion fails; so does
  \<^verbatim>\<open>RecvFrom\<close> on a socket whose sender is not reported.
\<close>

theorem standard_network_errors:
  assumes "sys ''AF_INET'' \<noteq> 0" and "sys ''AF_INET6'' \<noteq> 0" and "sys ''AF_UNIX'' \<noteq> 0"
    and "sock \<noteq> INVALID_SOCKET"
  shows "(sys_socket k (GetAddressFamily sys fam) (GetSocketType sys type) (GetSocketProtocol sys proto) w
          = (-1, w') \<longrightarrow>
        CreateSocket (standard_network sys host_le k) fam proto type w = Inr (Inr INVALID_SOCKET, w'))
    \<and> (sys_socket k (GetAddressFamily sys fam) (GetSocketType sys type) (GetSocketProtocol sys proto) w
          = (0, w') \<longrightarrow>
        (\<exists>e. CreateSocket (standard_network sys host_le k) fam proto type w = Inr (Inl e, w')))
    \<and> (sys_accept k sock w = ((-1, None), w') \<longrightarrow>
        Accept (standard_network sys host_le k) sock w = Inl Assert_Failed)
    \<and> (0 < n \<and> sys_recvfrom k sock n (GetMessageOption sys flags) w = ((r, data, None), w') \<and> 0 < r \<longrightarrow>
        Standard_RecvFrom sys host_le k sock n flags w = Inl Assert_Failed)"
  using assms FromSockAddr_unfilled [of sys host_le SocketAddress_default]
  by (auto simp: standard_network_def Standard_CreateSocket_def Standard_Accept_def
      Standard_RecvFrom_def net_return_def last_failure_def net_fail_def INVALID_SOCKET_def
      SOCKET_ERROR_def)

text \<open>A kernel in which every call fails, for concrete runs.\<close>

definition failing_kernel :: "'w kernel" where
  "failing_kernel =
     \<lparr>sys_accept = \<lambda>_ w. ((-1, None), w), sys_bind = \<lambda>_ _ _ w. (-1, w), sys_close = \<lambda>_ w. (-1, w),
      sys_connect = \<lambda>_ _ _ w. (-1, w), sys_socket = \<lambda>_ _ _ w. (-1, w),
      sys_getpeername = \<lambda>_ w. ((-1, None), w), sys_getsockname = \<lambda>_ w. ((-1, None), w),
      sys_getsockopt = \<lambda>_ _ _ _ w. ((-1, []), w), sys_listen = \<lambda>_ _ w. (-1, w),
      sys_recv = \<lambda>_ _ _ w. ((-1, []), w), sys_recvfrom = \<lambda>_ _ _ w. ((-1, [], None), w),
      sys_send = \<lambda>_ _ _ w. (-1, w), sys_sendto = \<lambda>_ _ _ _ _ w. (-1, w),
      sys_fcntl_getfl = \<lambda>_ w. (-1, w), sys_fcntl_setfl = \<lambda>_ _ w. (-1, w),
      sys_setsockopt = \<lambda>_ _ _ _ w. (-1, w), sys_shutdown = \<lambda>_ _ w. (-1, w), sys_errno = \<lambda>_. 11\<rparr>"

theorem standard_network_errors_witness:
  "CreateSocket (standard_network linux_header True failing_kernel) Family_Inet4 Protocol_Tcp Type_Stream ()
     = Inr (Inr INVALID_SOCKET, ())
   \<and> Accept (standard_network linux_header True failing_kernel) 3 () = Inl Assert_Failed"
  using standard_network_errors [of linux_header 3 failing_kernel Family_Inet4 Type_Stream Protocol_Tcp
      "()" "()" True]
  by (simp add: linux_header_def INVALID_SOCKET_def failing_kernel_def)

theorem set_blocking_flags_witness:
  "SetBlocking (standard_network (\<lambda>_. 2048) True
       (failing_kernel\<lparr>sys_fcntl_getfl := \<lambda>_ w. (2, w), sys_fcntl_setfl := \<lambda>_ f w. (if f = 2050 then 0 else -1, w)\<rparr>))
     3 False () = Inr (Inr (), ())"
  using set_blocking_flags [of 3 "failing_kernel\<lparr>sys_fcntl_getfl := \<lambda>_ w. (2, w),
      sys_fcntl_setfl := \<lambda>_ f w. (if f = 2050 then 0 else -1, w)\<rparr>" "()" 2 "()" "\<lambda>_. 2048" 11 False 0 "()" True]
  by (simp add: INVALID_SOCKET_def set_bit_eq_or)

end
