(* ===== verification/Socket_Options.thy ===== *)
theory Socket_Options
  imports Standard_Network
begin

text \<open>
  The typed socket options of \<^verbatim>\<open>Network.h\<close> and \<^verbatim>\<open>Impl/Network.h\<close>: the template \<^verbatim>\<open>SocketOption<opt, T>\<close>, the type
  that each alias of the namespace \<^verbatim>\<open>SocketOptions\<close> gives its option, and the overloads of
  \<^verbatim>\<open>GetSocketOption\<close> and \<^verbatim>\<open>SetSocketOption\<close> by type, over the virtual functions that pass raw bytes. An
  \<^verbatim>\<open>int32_t\<close> in memory is \<open>host_store\<close> of its word in the byte order of the host.
\<close>

section \<open>Model\<close>

datatype option_type = Bool_Type | Int_Type | Duration_Type | Group_Type

text \<open>The aliases; \<^verbatim>\<open>OobInline\<close> has none.\<close>

fun SocketOptions :: "SocketOpt \<Rightarrow> option_type option" where
  "SocketOptions Broadcast = Some Bool_Type"
| "SocketOptions Debug = Some Bool_Type"
| "SocketOptions DontRoute = Some Bool_Type"
| "SocketOptions KeepAlive = Some Bool_Type"
| "SocketOptions Linger = Some Duration_Type"
| "SocketOptions Multicast = Some Group_Type"
| "SocketOptions MulticastLoopback = Some Bool_Type"
| "SocketOptions MulticastTTL = Some Int_Type"
| "SocketOptions NoDelay = Some Duration_Type"
| "SocketOptions OobInline = None"
| "SocketOptions RecvBuf = Some Int_Type"
| "SocketOptions RecvLowMark = Some Int_Type"
| "SocketOptions RecvTimeout = Some Duration_Type"
| "SocketOptions ReuseAddress = Some Bool_Type"
| "SocketOptions ReusePort = Some Bool_Type"
| "SocketOptions SendBuf = Some Int_Type"
| "SocketOptions SendLowMark = Some Int_Type"
| "SocketOptions SendTimeout = Some Duration_Type"
| "SocketOptions SocketError = Some Int_Type"
| "SocketOptions TcpKeepAlive = Some Duration_Type"
| "SocketOptions TcpKeepCount = Some Int_Type"
| "SocketOptions TcpKeepIdle = Some Duration_Type"
| "SocketOptions TcpKeepInterval = Some Duration_Type"
| "SocketOptions TimeToLive = Some Int_Type"

text \<open>
  The overloads. \<open>get\<close> and \<open>put\<close> are the virtual functions; the first returns the bytes that the
  operating system stores at the start of the buffer. An option object to read is constructed from a
  pointer to a variable; \<open>out\<close> is the value of that variable before the call, and the getters return
  its value after it. The size is that of the type.
\<close>

type_synonym 'w raw_get = "Socket \<Rightarrow> SocketOpt \<Rightarrow> nat \<Rightarrow> ('w, byte list) net"
type_synonym 'w raw_put = "Socket \<Rightarrow> SocketOpt \<Rightarrow> byte list \<Rightarrow> ('w, unit) net"

definition GetSocketOption_bool :: "bool \<Rightarrow> 'w raw_get \<Rightarrow> Socket \<Rightarrow> SocketOpt \<Rightarrow> ('w, bool) net" where
  "GetSocketOption_bool host_le get sock opt w =
     (if sock = INVALID_SOCKET then net_fail E_INVALID_ARGUMENT w
      else net_bind (get sock opt 4) (\<lambda>stored.
        let value = host_load host_le (blit (host_store host_le (0 :: u32)) 0 stored) :: u32
        in net_return (value \<noteq> 0)) w)"

definition GetSocketOption_int :: "bool \<Rightarrow> 'w raw_get \<Rightarrow> Socket \<Rightarrow> SocketOpt \<Rightarrow> u32 \<Rightarrow> ('w, u32) net" where
  "GetSocketOption_int host_le get sock opt out w =
     (if sock = INVALID_SOCKET then net_fail E_INVALID_ARGUMENT w
      else net_bind (get sock opt 4) (\<lambda>stored.
        net_return (host_load host_le (blit (host_store host_le out) 0 stored))) w)"

definition GetSocketOption_other :: "Socket \<Rightarrow> SocketOpt \<Rightarrow> ('w, 'a) net" where
  "GetSocketOption_other sock opt = net_fail E_NOT_IMPLEMENTED"

definition SetSocketOption_bool :: "bool \<Rightarrow> 'w raw_put \<Rightarrow> Socket \<Rightarrow> SocketOpt \<Rightarrow> bool \<Rightarrow> ('w, unit) net" where
  "SetSocketOption_bool host_le put sock opt data w =
     (if sock = INVALID_SOCKET then net_fail E_INVALID_ARGUMENT w
      else let value = (if data then 1 else 0) :: u32
        in net_bind (put sock opt (host_store host_le value)) net_return w)"

definition SetSocketOption_int :: "bool \<Rightarrow> 'w raw_put \<Rightarrow> Socket \<Rightarrow> SocketOpt \<Rightarrow> u32 \<Rightarrow> ('w, unit) net" where
  "SetSocketOption_int host_le put sock opt data w =
     (if sock = INVALID_SOCKET then net_fail E_INVALID_ARGUMENT w
      else net_bind (put sock opt (host_store host_le data)) net_return w)"

definition SetSocketOption_other :: "Socket \<Rightarrow> SocketOpt \<Rightarrow> ('w, unit) net" where
  "SetSocketOption_other sock opt = net_fail E_NOT_IMPLEMENTED"

section \<open>Lemmas\<close>

lemma host_load_store: "8 * (LENGTH('a) div 8) = LENGTH('a) \<Longrightarrow> host_load host_le (host_store host_le x) = (x :: 'a::len word)"
  by (simp add: host_load_def host_store_def le_word_le_bytes be_word_be_bytes)

lemma blit_all: "length xs = length ys \<Longrightarrow> blit xs 0 ys = ys"
  by (simp add: blit_def)

section \<open>Properties\<close>

text \<open>
  When the operating system accepts the bytes of an option and gives the same bytes
  back, the typed overloads of \<^verbatim>\<open>StandardNetwork\<close> read the flag or the number that was set. Any non-zero number
  reads as a flag that is set. Options with a duration or a multicast group, among them
  \<^verbatim>\<open>NoDelay\<close>, can neither be set nor read, whatever the operating system does.
\<close>

theorem socket_option_roundtrip:
  assumes "sock \<noteq> INVALID_SOCKET"
    and "\<And>data. length data = 4 \<Longrightarrow> sys_setsockopt k sock (GetSocketOptLevel sys opt) (GetSocketOpt sys opt) data w = (0, store data)"
    and "\<And>data. length data = 4 \<Longrightarrow> sys_getsockopt k sock (GetSocketOptLevel sys opt) (GetSocketOpt sys opt) 4 (store data)
      = ((0, data), store data)"
  shows "(\<exists>w'. SetSocketOption_bool host_le (SetSocketOption (standard_network sys host_le k)) sock opt b w = Inr (Inr (), w')
        \<and> GetSocketOption_bool host_le (GetSocketOption (standard_network sys host_le k)) sock opt w' = Inr (Inr b, w'))
    \<and> (\<exists>w'. SetSocketOption_int host_le (SetSocketOption (standard_network sys host_le k)) sock opt v w = Inr (Inr (), w')
        \<and> GetSocketOption_int host_le (GetSocketOption (standard_network sys host_le k)) sock opt out w' = Inr (Inr v, w')
        \<and> GetSocketOption_bool host_le (GetSocketOption (standard_network sys host_le k)) sock opt w' = Inr (Inr (v \<noteq> 0), w'))
    \<and> SocketOptions NoDelay = Some Duration_Type
    \<and> SetSocketOption_other sock NoDelay w = Inr (Inl E_NOT_IMPLEMENTED, w)
    \<and> (GetSocketOption_other sock NoDelay w :: (u64 result \<times> 'w) exec) = Inr (Inl E_NOT_IMPLEMENTED, w)"
proof -
  let ?store = "host_store host_le :: u32 \<Rightarrow> byte list"
  have len [simp]: "length (?store x) = 4" for x by (simp add: host_store_def)
  have load [simp]: "host_load host_le (?store x) = x" for x by (rule host_load_store) simp
  have put: "SetSocketOption (standard_network sys host_le k) sock opt (?store x) w = Inr (Inr (), store (?store x))" for x
    using assms(1) assms(2) [of "?store x"]
    by (simp add: standard_network_def Standard_SetSocketOption_def checked_def SOCKET_ERROR_def net_return_def)
  have get: "GetSocketOption (standard_network sys host_le k) sock opt 4 (store (?store x)) = Inr (Inr (?store x), store (?store x))" for x
    using assms(1) assms(3) [of "?store x"]
    by (simp add: standard_network_def Standard_GetSocketOption_def SOCKET_ERROR_def net_return_def)
  note defs = SetSocketOption_bool_def GetSocketOption_bool_def SetSocketOption_int_def GetSocketOption_int_def
    net_bind_def net_return_def put get blit_all Let_def
  have "SetSocketOption_bool host_le (SetSocketOption (standard_network sys host_le k)) sock opt b w
      = Inr (Inr (), store (?store (if b then 1 else 0)))"
    "GetSocketOption_bool host_le (GetSocketOption (standard_network sys host_le k)) sock opt (store (?store (if b then 1 else 0)))
      = Inr (Inr b, store (?store (if b then 1 else 0)))"
    "SetSocketOption_int host_le (SetSocketOption (standard_network sys host_le k)) sock opt v w = Inr (Inr (), store (?store v))"
    "GetSocketOption_int host_le (GetSocketOption (standard_network sys host_le k)) sock opt out (store (?store v)) = Inr (Inr v, store (?store v))"
    "GetSocketOption_bool host_le (GetSocketOption (standard_network sys host_le k)) sock opt (store (?store v)) = Inr (Inr (v \<noteq> 0), store (?store v))"
    using assms(1) by (simp_all add: defs)
  then show ?thesis
    by (auto simp: SetSocketOption_other_def GetSocketOption_other_def net_fail_def)
qed

text \<open>A kernel that keeps the bytes of one option.\<close>

definition option_kernel :: "byte list kernel" where
  "option_kernel = failing_kernel\<lparr>sys_setsockopt := \<lambda>_ _ _ data _. (0, data), sys_getsockopt := \<lambda>_ _ _ _ w. ((0, w), w)\<rparr>"

theorem socket_option_roundtrip_witness:
  "\<exists>w'. SetSocketOption_int True (SetSocketOption (standard_network linux_header True option_kernel)) 5 RecvBuf 4096 [] = Inr (Inr (), w')
     \<and> GetSocketOption_int True (GetSocketOption (standard_network linux_header True option_kernel)) 5 RecvBuf 0 w' = Inr (Inr 4096, w')"
  using socket_option_roundtrip [of 5 option_kernel linux_header RecvBuf "[]" "\<lambda>d. d" True False 4096 0]
  by (simp add: option_kernel_def INVALID_SOCKET_def) blast

end
