(* ===== verification/Socket_Pair.thy ===== *)
theory Socket_Pair
  imports Standard_Network
begin

text \<open>
  The class \<^verbatim>\<open>SocketPair\<close> of \<^verbatim>\<open>Network.cpp\<close>: two connected sockets that a socket service uses to
  wake its poller. Its operations call a \<^verbatim>\<open>Network\<close>, here any record of the interface.
\<close>

section \<open>Model\<close>

record SocketPair =
  reader :: Socket
  writer :: Socket

definition SocketPair_default :: SocketPair where
  "SocketPair_default = \<lparr>reader = INVALID_SOCKET, writer = INVALID_SOCKET\<rparr>"

text \<open>
  \<^verbatim>\<open>Start\<close> from the creation of the listener \<open>listener\<close> on, up to the two sockets of the pair: the
  writer, connected to the listener, and the reader, accepted from it.
\<close>

definition connect_pair :: "'w network \<Rightarrow> Socket \<Rightarrow> ('w, Socket \<times> Socket) net" where
  "connect_pair n listener =
     net_bind (Bind n listener (SocketAddress_of_Inet InaddrLoopback 0)) (\<lambda>_.
     net_bind (Listen n listener 1) (\<lambda>_.
     net_bind (GetSockName n listener) (\<lambda>remote.
     net_bind (CreateSocket_config n TCPv4) (\<lambda>write.
     net_bind (Connect n write remote) (\<lambda>_.
     net_bind (SetBlocking n write False) (\<lambda>_.
     net_bind (Accept n listener) (\<lambda>(sock, _).
     net_return (sock, write))))))))"

definition Start_listening ::
  "'w network \<Rightarrow> bool \<Rightarrow> Socket \<Rightarrow> SocketPair \<Rightarrow> 'w \<Rightarrow> (unit result \<times> SocketPair \<times> 'w) exec" where
  "Start_listening n blocking listener p w =
     and_then (connect_pair n listener w) (\<lambda>(r, w1).
       case r of Inl e \<Rightarrow> Inr (Inl e, p, w1)
       | Inr (read, write) \<Rightarrow>
           let p' = p\<lparr>reader := read, writer := write\<rparr>
           in and_then
             (net_bind (SetBlocking n (writer p') blocking) (\<lambda>_. SetBlocking n (reader p') blocking) w1)
             (\<lambda>(r, w2). Inr (r, p', w2)))"

text \<open>The scope guard closes the listener on every way out, also when there is none.\<close>

definition SocketPair_Start ::
  "'w network \<Rightarrow> bool \<Rightarrow> SocketPair \<Rightarrow> 'w \<Rightarrow> (unit result \<times> SocketPair \<times> 'w) exec" where
  "SocketPair_Start n blocking p w =
     (if reader p \<noteq> INVALID_SOCKET then Inr (Inr (), p, w)
      else and_then (CreateSocket_config n TCPv4 w) (\<lambda>(r, w1).
        case r of
          Inl e \<Rightarrow> and_then (Close n INVALID_SOCKET w1) (\<lambda>(_, w2). Inr (Inl e, p, w2))
        | Inr listener \<Rightarrow>
            and_then (Start_listening n blocking listener p w1) (\<lambda>(res, p', w2).
            and_then (Close n listener w2) (\<lambda>(_, w3). Inr (res, p', w3)))))"

definition SocketPair_Stop :: "'w network \<Rightarrow> SocketPair \<Rightarrow> 'w \<Rightarrow> (SocketPair \<times> 'w) exec" where
  "SocketPair_Stop n p w =
     and_then
       (if reader p \<noteq> INVALID_SOCKET
        then and_then (Close n (reader p) w) (\<lambda>(_, w1). Inr (p\<lparr>reader := INVALID_SOCKET\<rparr>, w1))
        else Inr (p, w))
       (\<lambda>(p, w).
          if writer p \<noteq> INVALID_SOCKET
          then and_then (Close n (writer p) w) (\<lambda>(_, w1). Inr (p\<lparr>writer := INVALID_SOCKET\<rparr>, w1))
          else Inr (p, w))"

text \<open>\<^verbatim>\<open>Create\<close>: when \<^verbatim>\<open>Start\<close> fails, the new pair is destroyed, which stops it.\<close>

definition SocketPair_Create :: "'w network \<Rightarrow> bool \<Rightarrow> 'w \<Rightarrow> (SocketPair result \<times> 'w) exec" where
  "SocketPair_Create n blocking w =
     and_then (SocketPair_Start n blocking SocketPair_default w) (\<lambda>(r, p, w1).
       case r of
         Inl e \<Rightarrow> and_then (SocketPair_Stop n p w1) (\<lambda>(_, w2). Inr (Inl e, w2))
       | Inr _ \<Rightarrow> Inr (Inr p, w1))"

text \<open>
  The loop of \<^verbatim>\<open>Drain\<close>, which ends only when a \<^verbatim>\<open>Recv\<close> fails: \<open>None\<close> when it never does.
\<close>

partial_function (option) drain_loop ::
  "'w network \<Rightarrow> Socket \<Rightarrow> 'w \<Rightarrow> (unit result \<times> 'w) exec option" where
  "drain_loop n sock w =
     (case Recv_plain n sock 16 w of
        Inl f \<Rightarrow> Some (Inl f)
      | Inr (Inr _, w') \<Rightarrow> drain_loop n sock w'
      | Inr (Inl e, w') \<Rightarrow>
          if e \<noteq> E_SUCCESS \<and> e \<noteq> E_NET_WOULD_BLOCK then Some (Inr (Inl e, w'))
          else if e = E_NET_WOULD_BLOCK then Some (Inr (Inr (), w'))
          else drain_loop n sock w')"

definition SocketPair_Drain ::
  "'w network \<Rightarrow> SocketPair \<Rightarrow> 'w \<Rightarrow> (unit result \<times> 'w) exec option" where
  "SocketPair_Drain n p w =
     (if reader p = INVALID_SOCKET then Some (Inr (Inl E_NOT_INITIALIZED, w))
      else drain_loop n (reader p) w)"

section \<open>Draining\<close>

text \<open>
  \<open>drained n sock w r w'\<close>: receives of up to 16 bytes lead from \<open>w\<close> to \<open>w'\<close>, the last of which fails
  and gives the result \<open>r\<close>.
\<close>

inductive drained :: "'w network \<Rightarrow> Socket \<Rightarrow> 'w \<Rightarrow> unit result \<Rightarrow> 'w \<Rightarrow> bool" for n sock where
  stop: "Recv_plain n sock 16 w = Inr (Inl e, w') \<Longrightarrow> e \<noteq> E_SUCCESS \<Longrightarrow>
    r = (if e = E_NET_WOULD_BLOCK then Inr () else Inl e) \<Longrightarrow> drained n sock w r w'"
| more: "Recv_plain n sock 16 w = Inr (Inr got, w1) \<Longrightarrow> drained n sock w1 r w' \<Longrightarrow> drained n sock w r w'"
| again: "Recv_plain n sock 16 w = Inr (Inl E_SUCCESS, w1) \<Longrightarrow> drained n sock w1 r w' \<Longrightarrow>
    drained n sock w r w'"

lemma drain_loop_drained: "drained n sock w r w' \<Longrightarrow> drain_loop n sock w = Some (Inr (r, w'))"
  by (induction rule: drained.induct) (subst drain_loop.simps; simp)+

lemma drain_loop_returns:
  "drain_loop n sock w = Some y \<Longrightarrow> y = Inr (r, w') \<Longrightarrow> drained n sock w r w'"
proof (induction arbitrary: r w' rule: drain_loop.raw_induct [rotated 1, consumes 1])
  case (1 loop n sock w y)
  show ?case
  proof (cases "Recv_plain n sock 16 w")
    case (Inl f)
    with 1 show ?thesis by simp
  next
    case (Inr rw)
    obtain res w1 where rw: "rw = (res, w1)" by (cases rw)
    show ?thesis
    proof (cases res)
      case (Inl e)
      then have recv: "Recv_plain n sock 16 w = Inr (Inl e, w1)" using Inr rw by simp
      show ?thesis
      proof (cases "e = E_SUCCESS")
        case True
        with recv 1 show ?thesis by (auto intro: drained.again)
      next
        case False
        with recv 1 show ?thesis by (auto intro: drained.stop [of n sock w e] split: if_splits)
      qed
    next
      case (Inr got)
      with 1 \<open>Recv_plain n sock 16 w = Inr rw\<close> rw show ?thesis
        by (auto intro: drained.more)
    qed
  qed
qed

lemma drain_loop_iff: "drain_loop n sock w = Some (Inr (r, w')) \<longleftrightarrow> drained n sock w r w'"
  by (blast intro: drain_loop_drained drain_loop_returns)

section \<open>Starting a pair\<close>

context network_contract
begin

lemma connect_pair_writer:
  "connect_pair N l w = Inr (Inr (read, wr), w') \<Longrightarrow> wr \<noteq> INVALID_SOCKET"
  by (auto simp: connect_pair_def net_bind_success net_return_def dest: valid_argument(2))

lemma start_writer:
  assumes "SocketPair_Start N b p w = Inr (r, p', w')" and "writer p \<noteq> INVALID_SOCKET \<or> reader p = INVALID_SOCKET"
  shows "writer p' \<noteq> INVALID_SOCKET \<or> reader p' = INVALID_SOCKET"
proof -
  have "writer p' \<noteq> INVALID_SOCKET \<or> p' = p" if "Start_listening N b l p v = Inr (r, p', v')" for l v v'
    using that
    by (auto simp: Start_listening_def and_then_Inr_iff split_sum_ex Let_def dest: connect_pair_writer)
  with assms show ?thesis
    by (auto simp: SocketPair_Start_def and_then_Inr_iff split_sum_ex split: if_splits)
qed

lemma stop_invalid:
  "SocketPair_Stop N p w = Inr (p', w') \<Longrightarrow> p' = \<lparr>reader = INVALID_SOCKET, writer = INVALID_SOCKET\<rparr>"
  by (cases p) (auto simp: SocketPair_Stop_def and_then_Inr_iff split: if_splits)

end

section \<open>The descriptors of a pair\<close>

text \<open>
  A network with a set \<open>opened\<close> of open descriptors: what its operations do to the set. The
  lemmas follow a \<^verbatim>\<open>Start\<close> that succeeds.
\<close>

locale descriptor_network = network_contract N for N :: "'w network" +
  fixes opened :: "'w \<Rightarrow> Socket set"
  assumes create_opens: "\<And>f p t w s w'. CreateSocket N f p t w = Inr (Inr s, w') \<Longrightarrow> s \<noteq> INVALID_SOCKET \<Longrightarrow>
      s \<notin> opened w \<and> opened w' = insert s (opened w)"
    and accept_opens: "\<And>l w s a w'. Accept N l w = Inr (Inr (s, a), w') \<Longrightarrow> s \<noteq> INVALID_SOCKET \<Longrightarrow>
      s \<notin> opened w \<and> opened w' = insert s (opened w)"
    and close_releases: "\<And>s w r w'. Close N s w = Inr (r, w') \<Longrightarrow> opened w' = opened w - {s}"
    and bind_keeps: "\<And>s a w r w'. Bind N s a w = Inr (r, w') \<Longrightarrow> opened w' = opened w"
    and connect_keeps: "\<And>s a w r w'. Connect N s a w = Inr (r, w') \<Longrightarrow> opened w' = opened w"
    and listen_keeps: "\<And>s b w r w'. Listen N s b w = Inr (r, w') \<Longrightarrow> opened w' = opened w"
    and name_keeps: "\<And>s w r w'. GetSockName N s w = Inr (r, w') \<Longrightarrow> opened w' = opened w"
    and blocking_keeps: "\<And>s b w r w'. SetBlocking N s b w = Inr (r, w') \<Longrightarrow> opened w' = opened w"
begin

lemma connect_pair_success:
  assumes "connect_pair N l w = Inr (Inr (read, wr), w')"
  shows "l \<noteq> INVALID_SOCKET" and "wr \<noteq> INVALID_SOCKET" and "wr \<notin> opened w"
    and "read \<noteq> INVALID_SOCKET \<Longrightarrow> read \<notin> insert wr (opened w) \<and> opened w' = {read, wr} \<union> opened w"
proof -
  obtain w1 w2 w3 w4 w5 w6 remote a where
    steps: "Bind N l (SocketAddress_of_Inet InaddrLoopback 0) w = Inr (Inr (), w1)"
      "Listen N l 1 w1 = Inr (Inr (), w2)" "GetSockName N l w2 = Inr (Inr remote, w3)"
      "CreateSocket_config N TCPv4 w3 = Inr (Inr wr, w4)" "Connect N wr remote w4 = Inr (Inr (), w5)"
      "SetBlocking N wr False w5 = Inr (Inr (), w6)" "Accept N l w6 = Inr (Inr (read, a), w')"
    using assms by (auto simp: connect_pair_def net_bind_success net_return_def)
  show l: "l \<noteq> INVALID_SOCKET" using steps(1) by (rule valid_argument)
  show wr: "wr \<noteq> INVALID_SOCKET" using steps(5) by (rule valid_argument)
  have w3: "opened w3 = opened w"
    using bind_keeps [OF steps(1)] listen_keeps [OF steps(2)] name_keeps [OF steps(3)] by simp
  have created: "wr \<notin> opened w3 \<and> opened w4 = insert wr (opened w3)"
    using create_opens steps(4) wr unfolding CreateSocket_config_def by blast
  then show "wr \<notin> opened w" using w3 by simp
  have w6: "opened w6 = insert wr (opened w)"
    using connect_keeps [OF steps(5)] blocking_keeps [OF steps(6)] created w3 by simp
  show "read \<notin> insert wr (opened w) \<and> opened w' = {read, wr} \<union> opened w"
    if "read \<noteq> INVALID_SOCKET"
    using accept_opens [OF steps(7) that] w6 by auto
qed

lemma start_success:
  assumes "SocketPair_Start N b p w = Inr (Inr (), p', w')" and "reader p = INVALID_SOCKET"
  shows "reader p' \<noteq> INVALID_SOCKET \<and> writer p' \<noteq> INVALID_SOCKET \<and> reader p' \<noteq> writer p'
    \<and> reader p' \<notin> opened w \<and> writer p' \<notin> opened w
    \<and> opened w' = {reader p', writer p'} \<union> opened w"
proof -
  obtain l w1 w2 where c: "CreateSocket_config N TCPv4 w = Inr (Inr l, w1)"
    and s: "Start_listening N b l p w1 = Inr (Inr (), p', w2)"
    and "\<exists>r. Close N l w2 = Inr (r, w')"
    using assms by (auto simp: SocketPair_Start_def and_then_Inr_iff split_sum_ex)
  then have w': "opened w' = opened w2 - {l}" using close_releases by blast
  obtain read wr w3 w4 where p: "connect_pair N l w1 = Inr (Inr (read, wr), w3)"
    and b1: "SetBlocking N wr b w3 = Inr (Inr (), w4)"
    and b2: "SetBlocking N read b w4 = Inr (Inr (), w2)"
    and p': "p' = p\<lparr>reader := read, writer := wr\<rparr>"
    using s by (auto simp: Start_listening_def and_then_Inr_iff net_bind_success Let_def split_sum_ex)
  note pair = connect_pair_success [OF p]
  have read: "read \<noteq> INVALID_SOCKET" using b2 by (rule valid_argument)
  have "l \<notin> opened w \<and> opened w1 = insert l (opened w)"
    using create_opens c pair(1) unfolding CreateSocket_config_def by blast
  moreover have "opened w2 = {read, wr} \<union> opened w1"
    using blocking_keeps [OF b1] blocking_keeps [OF b2] pair(4) [OF read] by simp
  ultimately show ?thesis
    using w' p' read pair by auto
qed

lemma stop_releases:
  assumes "SocketPair_Stop N p w = Inr (p', w')"
  shows "p' = \<lparr>reader = INVALID_SOCKET, writer = INVALID_SOCKET\<rparr>
    \<and> opened w' = opened w - ({reader p, writer p} - {INVALID_SOCKET})"
  using assms
  by (cases p) (auto simp: SocketPair_Stop_def and_then_Inr_iff split: if_splits
      dest!: close_releases)

end

text \<open>
  What the operating system documents of its descriptors: \<^verbatim>\<open>socket\<close> and \<^verbatim>\<open>accept\<close> open a new
  descriptor or return -1, \<^verbatim>\<open>close\<close> releases its argument, and the other calls that \<^verbatim>\<open>Start\<close> uses
  neither open nor release one. \<^verbatim>\<open>StandardNetwork\<close> carries it over to the interface.
\<close>

locale descriptor_kernel =
  fixes sys :: header and host_le :: bool and k :: "'w kernel" and opened :: "'w \<Rightarrow> Socket set"
  assumes not_invalid: "\<And>w. -1 \<notin> opened w"
    and socket_new: "\<And>d t p w s w'. sys_socket k d t p w = (s, w') \<Longrightarrow>
      opened w' = opened w \<union> ({s} - {-1}) \<and> s \<notin> opened w"
    and accept_new: "\<And>l w s a w'. sys_accept k l w = ((s, a), w') \<Longrightarrow>
      opened w' = opened w \<union> ({s} - {-1}) \<and> s \<notin> opened w"
    and close_old: "\<And>s w r w'. sys_close k s w = (r, w') \<Longrightarrow> opened w' = opened w - {s}"
    and bind_same: "\<And>s a l w r w'. sys_bind k s a l w = (r, w') \<Longrightarrow> opened w' = opened w"
    and connect_same: "\<And>s a l w r w'. sys_connect k s a l w = (r, w') \<Longrightarrow> opened w' = opened w"
    and listen_same: "\<And>s b w r w'. sys_listen k s b w = (r, w') \<Longrightarrow> opened w' = opened w"
    and name_same: "\<And>s w x w'. sys_getsockname k s w = (x, w') \<Longrightarrow> opened w' = opened w"
    and getfl_same: "\<And>s w r w'. sys_fcntl_getfl k s w = (r, w') \<Longrightarrow> opened w' = opened w"
    and setfl_same: "\<And>s f w r w'. sys_fcntl_setfl k s f w = (r, w') \<Longrightarrow> opened w' = opened w"
begin

lemma keeps_calls:
  "keeps opened (checked sys k (sys_bind k s a l))"
  "keeps opened (checked sys k (sys_connect k s a l))"
  "keeps opened (checked sys k (sys_listen k s b))"
  "keeps opened (checked sys k (sys_fcntl_setfl k s f))"
  by (intro keeps_checked; blast dest: bind_same connect_same listen_same setfl_same)+

lemma keeps_flags:
  "keeps opened (Fcntl_GetFlags sys k s)" "keeps opened (Fcntl_SetFlags sys k s f)"
  using keeps_calls(4)
  by (auto simp: keeps_def Fcntl_GetFlags_def Fcntl_SetFlags_def net_fail_def net_return_def
      split: prod.splits if_splits dest: getfl_same)

lemma keeps_standard:
  "keeps opened (Standard_Bind sys host_le k s a)" "keeps opened (Standard_Connect sys host_le k s a)"
  "keeps opened (Standard_Listen sys k s b)" "keeps opened (Standard_SetBlocking sys k s c)"
proof -
  show "keeps opened (Standard_Bind sys host_le k s a)" "keeps opened (Standard_Connect sys host_le k s a)"
    "keeps opened (Standard_Listen sys k s b)"
    using keeps_calls
    by (auto simp: keeps_def Standard_Bind_def Standard_Connect_def Standard_Listen_def net_fail_def
        and_then_Inr_iff split: if_splits option.split_asm)
  have "keeps opened (net_bind (or_last_failure sys k (Fcntl_GetFlags sys k s)) (\<lambda>flags.
      or_last_failure sys k (Fcntl_SetFlags sys k s (g flags))))" for g
    using keeps_flags by blast
  then show "keeps opened (Standard_SetBlocking sys k s c)"
    unfolding Standard_SetBlocking_def [abs_def] by (auto simp: keeps_def net_fail_def)
qed

end

sublocale descriptor_kernel \<subseteq> descriptor_network "standard_network sys host_le k" opened
proof
  fix f p t w s w'
  assume "CreateSocket (standard_network sys host_le k) f p t w = Inr (Inr s, w')" "s \<noteq> INVALID_SOCKET"
  then show "s \<notin> opened w \<and> opened w' = insert s (opened w)"
    by (auto simp: standard_network_def Standard_CreateSocket_def last_failure_def net_fail_def
        net_return_def INVALID_SOCKET_def split: prod.splits if_splits dest: socket_new)
next
  fix l w s a w'
  assume "Accept (standard_network sys host_le k) l w = Inr (Inr (s, a), w')" "s \<noteq> INVALID_SOCKET"
  then show "s \<notin> opened w \<and> opened w' = insert s (opened w)"
    by (auto simp: standard_network_def Standard_Accept_def last_failure_def net_fail_def and_then_Inr_iff
        net_return_def INVALID_SOCKET_def split: prod.splits if_splits dest: accept_new)
next
  fix s w r w'
  assume "Close (standard_network sys host_le k) s w = Inr (r, w')"
  then show "opened w' = opened w - {s}"
    using not_invalid [of w] close_old [of s w]
    by (auto simp: standard_network_def Standard_Close_def checked_def last_failure_def net_fail_def
        net_return_def INVALID_SOCKET_def split: prod.splits if_splits)
next
  fix s w r w'
  assume "GetSockName (standard_network sys host_le k) s w = Inr (r, w')"
  then show "opened w' = opened w"
    by (auto simp: standard_network_def Standard_GetSockName_def stored_name_def net_fail_def
        last_failure_def net_return_def and_then_Inr_iff split: prod.splits if_splits dest: name_same)
qed (simp_all add: standard_network_def keepsD [OF keeps_standard(1)] keepsD [OF keeps_standard(2)]
  keepsD [OF keeps_standard(3)] keepsD [OF keeps_standard(4)])

context descriptor_kernel
begin

lemmas standard_start = start_success
lemmas standard_stop = stop_releases

end

section \<open>A simulated operating system\<close>

text \<open>
  A kernel whose state is the list of its open descriptors and the number of bytes that wait on
  the one connection it has, for concrete runs. A receive with nothing waiting would block;
  every other call succeeds.
\<close>

type_synonym sim = "int list \<times> nat"

definition fresh :: "int list \<Rightarrow> int" where
  "fresh fds = foldr max fds 2 + 1"

definition sim_kernel :: "sim kernel" where
  "sim_kernel =
     \<lparr>sys_accept = \<lambda>_ (fds, b). ((fresh fds, Some (Sockaddr_In 2 [0, 80] [127, 0, 0, 1])), (fresh fds # fds, b)),
      sys_bind = \<lambda>_ _ _ w. (0, w), sys_close = \<lambda>s (fds, b). (0, (filter (\<lambda>x. x \<noteq> s) fds, b)),
      sys_connect = \<lambda>_ _ _ w. (0, w), sys_socket = \<lambda>_ _ _ (fds, b). (fresh fds, (fresh fds # fds, b)),
      sys_getpeername = \<lambda>_ w. ((0, Some (Sockaddr_In 2 [0, 80] [127, 0, 0, 1])), w),
      sys_getsockname = \<lambda>_ w. ((0, Some (Sockaddr_In 2 [0, 80] [127, 0, 0, 1])), w),
      sys_getsockopt = \<lambda>_ _ _ _ w. ((0, []), w), sys_listen = \<lambda>_ _ w. (0, w),
      sys_recv = \<lambda>_ n _ (fds, b). if b = 0 then ((-1, []), (fds, b))
        else ((int (min n b), replicate (min n b) 0), (fds, b - min n b)),
      sys_recvfrom = \<lambda>_ _ _ w. ((-1, [], None), w),
      sys_send = \<lambda>_ d _ (fds, b). (int (length d), (fds, b + length d)),
      sys_sendto = \<lambda>_ d _ _ _ (fds, b). (int (length d), (fds, b + length d)),
      sys_fcntl_getfl = \<lambda>_ w. (0, w), sys_fcntl_setfl = \<lambda>_ _ w. (0, w),
      sys_setsockopt = \<lambda>_ _ _ _ w. (0, w), sys_shutdown = \<lambda>_ _ w. (0, w), sys_errno = \<lambda>_. 11\<rparr>"

definition sim_opened :: "sim \<Rightarrow> Socket set" where
  "sim_opened w = set (filter (\<lambda>x. 0 \<le> x) (fst w))"

abbreviation sim_network :: "sim network" where
  "sim_network \<equiv> standard_network linux_header True sim_kernel"

lemma fresh_greater: "x \<in> set fds \<Longrightarrow> x < fresh fds"
  by (induction fds) (auto simp: fresh_def)

lemma fresh_positive: "2 < fresh fds"
  by (induction fds) (auto simp: fresh_def)

lemma sim_opened_simps [simp]:
  "sim_opened (fresh fds # fds, b) = insert (fresh fds) (sim_opened (fds, b))" "fresh fds \<notin> sim_opened (fds, b)"
  "fresh fds \<noteq> -1" "-1 \<noteq> fresh fds"
  "sim_opened (filter (\<lambda>x. x \<noteq> s) fds, b) = sim_opened (fds, b) - {s}" "-1 \<notin> sim_opened w"
  using fresh_positive [of fds] fresh_greater [of "fresh fds" fds] by (auto simp: sim_opened_def)

interpretation sim: descriptor_kernel linux_header True sim_kernel sim_opened
  by unfold_locales (auto simp: sim_kernel_def)

interpretation unconnected: descriptor_kernel linux_header True
    "sim_kernel\<lparr>sys_connect := \<lambda>_ _ _ w. (-1, w)\<rparr>" sim_opened
  by unfold_locales (auto simp: sim_kernel_def)

lemmas standard_defs =
  standard_network_def Standard_CreateSocket_def Standard_Bind_def Standard_Listen_def
  Standard_GetSockName_def stored_name_def Standard_Connect_def Standard_SetBlocking_def
  Standard_Accept_def Standard_Close_def Standard_Send_def or_last_failure_def Fcntl_GetFlags_def Fcntl_SetFlags_def
  checked_def INVALID_SOCKET_def SOCKET_ERROR_def SocketAddress_of_Inet_def InaddrLoopback_def
  ToSockAddr_def FromSockAddr_def filled_def AddressFamily_of_int_def GetAddressFamily_def Inet_def
  Inet_Assign_def Inet_SIZE_def ADDR4_SOCKLEN_def last_failure_def GetLastNetworkFailure_def
  net_bind_def net_return_def net_fail_def SocketAddress_default_def

lemma sim_start:
  "SocketPair_Start sim_network False SocketPair_default ([], 0)
     = Inr (Inr (), \<lparr>reader = 5, writer = 4\<rparr>, ([5, 4], 0))"
  "SocketPair_Start (standard_network linux_header True (sim_kernel\<lparr>sys_connect := \<lambda>_ _ _ w. (-1, w)\<rparr>))
     False SocketPair_default ([], 0) = Inr (Inl E_NET_WOULD_BLOCK, SocketPair_default, ([4], 0))"
  by (simp_all add: SocketPair_Start_def SocketPair_default_def CreateSocket_config_def TCPv4_def TCP_def with_family_def
      Start_listening_def connect_pair_def standard_defs sim_kernel_def linux_header_def fresh_def Let_def)

section \<open>Properties\<close>

text \<open>
  Property C28. On an operating system that keeps its descriptors as documented, a \<^verbatim>\<open>Start\<close> that
  succeeds leaves exactly two new descriptors open, the reader and the writer, the listener being
  closed again, and \<^verbatim>\<open>Stop\<close> then releases both. A \<^verbatim>\<open>Start\<close> that fails to connect leaves the
  pair empty with a descriptor still open, which no later \<^verbatim>\<open>Stop\<close> closes.
\<close>

theorem socket_pair_descriptors:
  assumes "descriptor_kernel k opened" and "reader p = INVALID_SOCKET"
    and "SocketPair_Start (standard_network sys host_le k) blocking p w = Inr (Inr (), p', w')"
  shows "reader p' \<noteq> writer p' \<and> reader p' \<notin> opened w \<and> writer p' \<notin> opened w
    \<and> opened w' = {reader p', writer p'} \<union> opened w
    \<and> (\<forall>p'' w''. SocketPair_Stop (standard_network sys host_le k) p' w' = Inr (p'', w'') \<longrightarrow>
         p'' = SocketPair_default \<and> opened w'' = opened w)
    \<and> (\<exists>k' e w''. descriptor_kernel k' sim_opened
         \<and> SocketPair_Start (standard_network linux_header True k') False SocketPair_default ([], 0)
           = Inr (Inl e, SocketPair_default, w'') \<and> sim_opened w'' \<noteq> {})"
proof -
  note started = descriptor_kernel.standard_start [OF assms(1,3,2)]
  have "p'' = SocketPair_default \<and> opened w'' = opened w"
    if "SocketPair_Stop (standard_network sys host_le k) p' w' = Inr (p'', w'')" for p'' w''
    using descriptor_kernel.standard_stop [OF assms(1) that] started
    by (auto simp: SocketPair_default_def)
  moreover have "sim_opened ([4], 0) \<noteq> {}" by (simp add: sim_opened_def)
  with unconnected.descriptor_kernel_axioms sim_start(2)
  have "\<exists>k' e w''. descriptor_kernel k' sim_opened
         \<and> SocketPair_Start (standard_network linux_header True k') False SocketPair_default ([], 0)
           = Inr (Inl e, SocketPair_default, w'') \<and> sim_opened w'' \<noteq> {}"
    by blast
  ultimately show ?thesis using started by blast
qed

theorem socket_pair_descriptors_witness:
  "sim_opened ([5, 4], 0) = {5, 4} \<union> sim_opened ([], 0)"
  using socket_pair_descriptors [OF sim.descriptor_kernel_axioms, of SocketPair_default linux_header
      True False "([], 0)" "\<lparr>reader = 5, writer = 4\<rparr>" "([5, 4], 0)"] sim_start(1)
  by (simp add: SocketPair_default_def)

text \<open>
  Property C29. \<^verbatim>\<open>Drain\<close> returns when the reader has a bounded amount of data pending, that is, when
  every \<^verbatim>\<open>Recv\<close> either fails or leaves less than before; its result is success exactly when the last
  \<^verbatim>\<open>Recv\<close> would block, and the error of the last \<^verbatim>\<open>Recv\<close> otherwise. It does not return while
  \<^verbatim>\<open>Recv\<close> keeps succeeding.
\<close>

theorem drain_returns:
  assumes "reader p \<noteq> INVALID_SOCKET"
    and "\<forall>w. \<exists>r w'. Recv_plain n (reader p) 16 w = Inr (r, w') \<and> r \<noteq> Inl E_SUCCESS
      \<and> (case r of Inl _ \<Rightarrow> True | Inr _ \<Rightarrow> pending w' < (pending w :: nat))"
  shows "\<exists>r w1 w' e. SocketPair_Drain n p w = Some (Inr (r, w'))
    \<and> Recv_plain n (reader p) 16 w1 = Inr (Inl e, w')
    \<and> r = (if e = E_NET_WOULD_BLOCK then Inr () else Inl e)
    \<and> (\<forall>m q v. reader q \<noteq> INVALID_SOCKET \<and> (\<forall>v. \<exists>got v'. Recv_plain m (reader q) 16 v = Inr (Inr got, v'))
        \<longrightarrow> SocketPair_Drain m q (v :: 'v) = None)"
proof -
  have "\<exists>r w1 w' e. drained n (reader p) w r w' \<and> Recv_plain n (reader p) 16 w1 = Inr (Inl e, w')
    \<and> r = (if e = E_NET_WOULD_BLOCK then Inr () else Inl e)"
  proof (induction "pending w" arbitrary: w rule: less_induct)
    case less
    obtain r w' where rw: "Recv_plain n (reader p) 16 w = Inr (r, w')" "r \<noteq> Inl E_SUCCESS"
      "case r of Inl _ \<Rightarrow> True | Inr _ \<Rightarrow> pending w' < pending w"
      using assms(2) by blast
    show ?case
    proof (cases r)
      case (Inl e)
      with rw show ?thesis by (blast intro: drained.stop)
    next
      case (Inr got)
      then have "pending w' < pending w" using rw by simp
      from less [OF this] show ?thesis
        using rw(1) Inr by (blast intro: drained.more)
    qed
  qed
  moreover have "drain_loop m sock v = None"
    if "\<forall>v. \<exists>got v'. Recv_plain m sock 16 v = Inr (Inr got, v')" for m sock and v :: 'v
  proof -
    have "drain_loop m sock v = Some y \<Longrightarrow> \<forall>v. \<exists>got v'. Recv_plain m sock 16 v = Inr (Inr got, v') \<Longrightarrow> False"
      for y and v :: 'v
    proof (induction rule: drain_loop.raw_induct [rotated 1, consumes 1])
      case (1 loop m sock v y)
      then obtain got v' where "Recv_plain m sock 16 v = Inr (Inr got, v')" by blast
      with 1 show ?case by simp
    qed
    with that show ?thesis by (meson option.exhaust)
  qed
  then have "SocketPair_Drain m q v = None"
    if "reader q \<noteq> INVALID_SOCKET" "\<forall>v. \<exists>got v'. Recv_plain m (reader q) 16 v = Inr (Inr got, v')"
    for m q and v :: 'v
    using that by (simp add: SocketPair_Drain_def)
  ultimately show ?thesis
    using assms(1) unfolding SocketPair_Drain_def [of n p] drain_loop_iff [symmetric]
    by (simp only: if_False) blast
qed

lemma sim_recv:
  "Recv_plain sim_network 5 16 (fds, b)
   = (if b = 0 then Inr (Inl E_NET_WOULD_BLOCK, (fds, 0))
      else Inr (Inr (size_t (int (min 16 b)), replicate (min 16 b) 0), (fds, b - min 16 b)))"
  by (simp add: Recv_plain_def Standard_Recv_def standard_defs sim_kernel_def linux_header_def min_def)

theorem drain_returns_witness:
  "\<exists>r w'. SocketPair_Drain sim_network \<lparr>reader = 5, writer = 4\<rparr> ([5, 4], 40) = Some (Inr (r, w'))"
proof -
  have "\<forall>w. \<exists>r w'. Recv_plain sim_network 5 16 w = Inr (r, w')
      \<and> r \<noteq> Inl E_SUCCESS \<and> (case r of Inl _ \<Rightarrow> True | Inr _ \<Rightarrow> snd w' < snd w)"
    by (auto simp: sim_recv)
  then show ?thesis
    using drain_returns [of "\<lparr>reader = 5, writer = 4\<rparr>" sim_network snd "([5, 4], 40)"]
    by (simp add: INVALID_SOCKET_def) blast
qed

end
