(* ===== verification/Socket_Service.thy ===== *)
theory Socket_Service
  imports Socket_Pair
begin

text \<open>
  What the socket services share: \<^verbatim>\<open>SocketEvent\<close> and \<^verbatim>\<open>SocketService\<close> of \<^verbatim>\<open>Network.h\<close>, and the contract
  that a service keeps of the operations a client has registered.
\<close>

record SocketEvent =
  ev_sock :: Socket
  ev_events :: SocketOperation

text \<open>\<^verbatim>\<open>SocketService::Execute()\<close> passes a timeout of -1 second, in nanoseconds.\<close>

definition default_timeout :: int where
  "default_timeout = -1000000000"

datatype service_type = Service_Default | Service_Select | Service_Epoll | Service_Iocp | Service_Kqueue

datatype service_class = Select_Class | EPoll_Class

text \<open>\<^verbatim>\<open>SocketService::Create\<close> on Linux, up to the start of the service it chooses.\<close>

definition choose_service :: "service_type \<Rightarrow> service_class result" where
  "choose_service type =
     (case type of
        Service_Iocp \<Rightarrow> Inl E_NOT_SUPPORTED
      | Service_Default \<Rightarrow> Inr EPoll_Class
      | Service_Epoll \<Rightarrow> Inr EPoll_Class
      | Service_Kqueue \<Rightarrow> Inl E_NOT_SUPPORTED
      | Service_Select \<Rightarrow> Inr Select_Class)"

text \<open>
  The operations that both services keep for a socket after an \<^verbatim>\<open>Add\<close> that succeeds: it extends the operations
  unless all the old ones are among the new, in which case it changes nothing.
\<close>

definition add_ops :: "SocketOperation \<Rightarrow> SocketOperation \<Rightarrow> SocketOperation" where
  "add_ops old new = (if old = 0 then new else if old OR new \<noteq> new then old OR new else old)"

lemma add_ops_eq: "add_ops old ops = (if old = 0 then ops else if old AND NOT ops = 0 then old else old OR ops)"
proof -
  have "old OR ops \<noteq> ops \<longleftrightarrow> old AND NOT ops \<noteq> 0"
    by (auto simp: bit_eq_iff [of _ ops] bit_eq_iff [of _ "0 :: byte"] bit_simps)
  then show ?thesis by (auto simp: add_ops_def)
qed

lemma add_ops_not_0: "ops \<noteq> 0 \<Longrightarrow> add_ops old ops \<noteq> 0"
  by (auto simp: add_ops_def bit_eq_iff [of _ "0 :: byte"] bit_simps)

text \<open>
  The contract of \<^verbatim>\<open>Add\<close>, \<^verbatim>\<open>Remove\<close> and \<^verbatim>\<open>Close\<close>: \<open>interest s sock\<close> is the set of operations registered for
  a socket, empty when it is not registered. An operation that succeeds touches its own socket only; a first
  \<^verbatim>\<open>Add\<close> registers what it is given, \<^verbatim>\<open>Remove\<close> registers nothing new and none of what it is
  given, and \<^verbatim>\<open>Close\<close> clears the socket.
\<close>

locale interest_service =
  fixes interest :: "'s \<Rightarrow> Socket \<Rightarrow> SocketOperation"
    and inv :: "'s \<Rightarrow> bool"
    and add :: "Socket \<Rightarrow> SocketOperation \<Rightarrow> 's \<Rightarrow> (unit result \<times> 's) exec"
    and remove :: "Socket \<Rightarrow> SocketOperation \<Rightarrow> 's \<Rightarrow> (unit result \<times> 's) exec"
    and close :: "Socket \<Rightarrow> 's \<Rightarrow> (unit result \<times> 's) exec"
  assumes add_inv: "inv s \<Longrightarrow> add k ops s = Inr (Inr u, s') \<Longrightarrow> inv s'"
    and remove_inv: "inv s \<Longrightarrow> remove k ops s = Inr (Inr u, s') \<Longrightarrow> inv s'"
    and close_inv: "inv s \<Longrightarrow> close k s = Inr (Inr u, s') \<Longrightarrow> inv s'"
    and add_other: "inv s \<Longrightarrow> add k ops s = Inr (Inr u, s') \<Longrightarrow> j \<noteq> k \<Longrightarrow> interest s' j = interest s j"
    and remove_other: "inv s \<Longrightarrow> remove k ops s = Inr (Inr u, s') \<Longrightarrow> j \<noteq> k \<Longrightarrow> interest s' j = interest s j"
    and close_other: "inv s \<Longrightarrow> close k s = Inr (Inr u, s') \<Longrightarrow> j \<noteq> k \<Longrightarrow> interest s' j = interest s j"
    and add_first: "inv s \<Longrightarrow> add k ops s = Inr (Inr u, s') \<Longrightarrow> interest s k = 0 \<Longrightarrow> interest s' k = ops"
    and remove_ops: "inv s \<Longrightarrow> remove k ops s = Inr (Inr u, s') \<Longrightarrow>
      interest s' k AND ops = 0 \<and> interest s' k AND NOT (interest s k) = 0"
    and close_clears: "inv s \<Longrightarrow> close k s = Inr (Inr u, s') \<Longrightarrow> interest s' k = 0"
begin

text \<open>The requests of a client and a run of them that all succeed.\<close>

definition apply_request :: "bool \<times> Socket \<times> SocketOperation \<Rightarrow> 's \<Rightarrow> (unit result \<times> 's) exec" where
  "apply_request rq s = (case rq of (b, k, ops) \<Rightarrow> if b then add k ops s else remove k ops s)"

inductive serves :: "'s \<Rightarrow> (bool \<times> Socket \<times> SocketOperation) list \<Rightarrow> 's \<Rightarrow> bool" where
  nil: "serves s [] s"
| cons: "apply_request rq s = Inr (Inr u, s1) \<Longrightarrow> serves s1 rqs s2 \<Longrightarrow> serves s (rq # rqs) s2"

lemma apply_inv: "apply_request rq s = Inr (Inr u, s') \<Longrightarrow> inv s \<Longrightarrow> inv s'"
  by (cases rq) (auto simp: apply_request_def split: if_splits intro: add_inv remove_inv)

lemma serves_inv: "serves s rqs s' \<Longrightarrow> inv s \<Longrightarrow> inv s'"
  by (induction rule: serves.induct) (auto dest: apply_inv)

lemma serves_other:
  "serves s rqs s' \<Longrightarrow> inv s \<Longrightarrow> \<forall>rq \<in> set rqs. fst (snd rq) \<noteq> j \<Longrightarrow> interest s' j = interest s j"
proof (induction rule: serves.induct)
  case (cons rq s u s1 rqs s2)
  obtain b k ops where rq: "rq = (b, k, ops)" by (cases rq)
  with cons.hyps(1) cons.prems have "interest s1 j = interest s j"
    by (auto simp: apply_request_def split: if_splits
        dest: add_other [where j = j] remove_other [where j = j])
  with cons show ?case by (simp add: apply_inv)
qed simp

lemma serves_frame:
  assumes "\<And>k ops s r s'. add k ops s = Inr (r, s') \<Longrightarrow> P s \<Longrightarrow> Q s s'"
    and "\<And>k ops s r s'. remove k ops s = Inr (r, s') \<Longrightarrow> P s \<Longrightarrow> Q s s'"
    and "\<And>s s'. Q s s' \<Longrightarrow> P s'" and "\<And>s s' s''. Q s s' \<Longrightarrow> Q s' s'' \<Longrightarrow> Q s s''" and "\<And>s. P s \<Longrightarrow> Q s s"
  shows "serves s rqs s' \<Longrightarrow> P s \<Longrightarrow> Q s s'"
proof (induction rule: serves.induct)
  case (nil s)
  then show ?case by (rule assms(5))
next
  case (cons rq s u s1 rqs s2)
  obtain b k ops where "rq = (b, k, ops)" by (cases rq)
  with cons.hyps(1) have "Q s s1"
    using cons.prems assms(1,2) by (cases b) (auto simp: apply_request_def)
  with cons.IH show ?case using assms(3,4) by blast
qed

text \<open>
  A client that registers a fresh socket, goes on with other sockets and closes it leaves the
  other sockets as those requests left them, and the registration holds until the close.
\<close>

lemma register_then_close:
  assumes "inv s" and "interest s k = 0" and "add k ops s = Inr (Inr (), s1)"
    and "serves s1 rqs s2" and "\<forall>rq \<in> set rqs. fst (snd rq) \<noteq> k" and "close k s2 = Inr (Inr (), s3)"
  shows "interest s2 k = ops \<and> interest s3 k = 0 \<and> (\<forall>j. j \<noteq> k \<longrightarrow> interest s3 j = interest s2 j)"
proof -
  have "inv s1" using assms by (blast intro: add_inv)
  moreover from this have "inv s2" using assms(4) by (blast intro: serves_inv)
  ultimately show ?thesis
    using assms add_first [OF assms(1,3,2)] serves_other [OF assms(4)]
    by (auto dest: close_clears close_other)
qed

end

end
