(* ===== verification/Select_Service.thy ===== *)
theory Select_Service
  imports Socket_Service
begin

text \<open>
  The class \<^verbatim>\<open>SelectSocketService\<close> of \<^verbatim>\<open>SelectSocketService.cpp\<close>. Its members are a record; the state
  of the network it refers to is the field \<open>world\<close>. Every method runs under \<^verbatim>\<open>m_mutex\<close>, so a method is
  one step, except where it gives the mutex up: \<^verbatim>\<open>Execute\<close> releases it around \<^verbatim>\<open>select\<close> and is
  modelled as \<open>Execute_begin\<close> and \<open>Execute_end\<close>, and \<^verbatim>\<open>Stop\<close> waits for the poller on
  \<^verbatim>\<open>m_cond\<close> and is modelled as \<open>Stop_begin\<close> and \<open>Stop_finish\<close>. What \<^verbatim>\<open>select\<close> returns is an
  argument of \<open>Execute_end\<close>. An \<^verbatim>\<open>fd_set\<close> is the list of its members; using a descriptor
  outside its range is undefined behaviour.
\<close>

section \<open>State\<close>

record 'w select_service =
  m_pipe :: SocketPair
  m_polling :: bool
  m_notify :: bool
  m_started :: bool
  m_shutdown :: bool
  m_events :: "SocketEvent list"
  m_results :: "SocketEvent list"
  world :: 'w

definition Select_new :: "'w \<Rightarrow> 'w select_service" where
  "Select_new w = \<lparr>m_pipe = SocketPair_default, m_polling = False, m_notify = False, m_started = False,
     m_shutdown = False, m_events = [], m_results = [], world = w\<rparr>"

text \<open>\<^verbatim>\<open>std::find\<close> with \<^verbatim>\<open>SocketEvent::operator==\<close>.\<close>

fun find_event :: "Socket \<Rightarrow> SocketEvent list \<Rightarrow> nat option" where
  "find_event sock [] = None"
| "find_event sock (ev # evs) =
     (if ev_sock ev = sock then Some 0 else map_option Suc (find_event sock evs))"

definition erase :: "nat \<Rightarrow> 'a list \<Rightarrow> 'a list" where
  "erase i xs = take i xs @ drop (Suc i) xs"

section \<open>Operations\<close>

definition NotifyLocked :: "'w network \<Rightarrow> 'w select_service \<Rightarrow> 'w select_service exec" where
  "NotifyLocked n s =
     (if \<not> m_polling s then Inr (s\<lparr>m_notify := True\<rparr>)
      else and_then (Send_plain n (writer (m_pipe s)) [119, 97, 107, 101, 0] (world s))
        (\<lambda>(_, w). Inr (s\<lparr>world := w\<rparr>)))"

definition Select_Notify :: "'w network \<Rightarrow> 'w select_service \<Rightarrow> 'w select_service exec" where
  "Select_Notify n s = NotifyLocked n s"

definition Select_Add ::
  "'w network \<Rightarrow> Socket \<Rightarrow> SocketOperation \<Rightarrow> 'w select_service \<Rightarrow> (unit result \<times> 'w select_service) exec" where
  "Select_Add n sock events s =
     (if sock = INVALID_SOCKET then Inr (Inl E_INVALID_ARGUMENT, s)
      else if events = Op_None then Inr (Inr (), s)
      else
        let evs = (case find_event sock (m_events s) of
            Some i \<Rightarrow>
              (let old = ev_events (m_events s ! i)
               in if old OR events \<noteq> events
                  then (m_events s)[i := (m_events s ! i)\<lparr>ev_events := old OR events\<rparr>] else m_events s)
          | None \<Rightarrow> m_events s @ [\<lparr>ev_sock = sock, ev_events = events\<rparr>])
        in and_then (NotifyLocked n (s\<lparr>m_events := evs\<rparr>)) (\<lambda>s. Inr (Inr (), s)))"

definition Select_Close ::
  "'w network \<Rightarrow> Socket \<Rightarrow> 'w select_service \<Rightarrow> (unit result \<times> 'w select_service) exec" where
  "Select_Close n sock s =
     (if sock = INVALID_SOCKET then Inr (Inl E_INVALID_ARGUMENT, s)
      else case find_event sock (m_events s) of
        Some i \<Rightarrow> and_then (NotifyLocked n (s\<lparr>m_events := erase i (m_events s)\<rparr>)) (\<lambda>s. Inr (Inr (), s))
      | None \<Rightarrow> Inr (Inr (), s))"

definition Select_Remove ::
  "'w network \<Rightarrow> Socket \<Rightarrow> SocketOperation \<Rightarrow> 'w select_service \<Rightarrow> (unit result \<times> 'w select_service) exec" where
  "Select_Remove n sock events s =
     (if sock = INVALID_SOCKET then Inr (Inl E_INVALID_ARGUMENT, s)
      else if events = Op_None then Inr (Inr (), s)
      else case find_event sock (m_events s) of
        Some i \<Rightarrow>
          (let old = ev_events (m_events s ! i);
               ops = (if old AND events \<noteq> Op_None then old AND NOT events else old);
               evs = (if ops = Op_None then erase i (m_events s)
                      else (m_events s)[i := (m_events s ! i)\<lparr>ev_events := ops\<rparr>])
           in and_then (NotifyLocked n (s\<lparr>m_events := evs\<rparr>)) (\<lambda>s. Inr (Inr (), s)))
      | None \<Rightarrow> Inr (Inr (), s))"

definition Select_Start ::
  "'w network \<Rightarrow> 'w select_service \<Rightarrow> (unit result \<times> 'w select_service) exec" where
  "Select_Start n s =
     (if m_started s \<or> m_shutdown s then Inr (Inl E_FAILURE, s)
      else and_then (SocketPair_Start n False (m_pipe s) (world s)) (\<lambda>(r, p, w).
        let s = s\<lparr>m_pipe := p, world := w\<rparr>
        in case r of Inl e \<Rightarrow> Inr (Inl e, s)
           | Inr _ \<Rightarrow> Inr (Inr (), s\<lparr>m_started := True, m_shutdown := False\<rparr>)))"

text \<open>
  \<^verbatim>\<open>Stop\<close> up to the wait. The result is \<open>None\<close> when the call returns at once, and otherwise tells whether it
  waits for the poller.
\<close>

definition Stop_begin ::
  "'w network \<Rightarrow> 'w select_service \<Rightarrow> (bool option \<times> 'w select_service) exec" where
  "Stop_begin n s =
     (if m_shutdown s then Inr (None, s)
      else and_then (NotifyLocked n (s\<lparr>m_shutdown := True, m_events := [], m_results := []\<rparr>))
        (\<lambda>s. Inr (Some (m_polling s), s)))"

definition Stop_finish :: "'w network \<Rightarrow> 'w select_service \<Rightarrow> 'w select_service exec" where
  "Stop_finish n s =
     and_then (SocketPair_Stop n (m_pipe s) (world s)) (\<lambda>(p, w). Inr (s\<lparr>m_pipe := p, world := w\<rparr>))"

text \<open>The callback that \<^verbatim>\<open>Stop()\<close> passes, which takes the mutex again, and the destructor.\<close>

definition Stop_callback :: "'w select_service \<Rightarrow> unit exec" where
  "Stop_callback s = and_then (fusion_assert (m_shutdown s)) (\<lambda>_. fusion_assert (m_events s = []))"

definition Select_destroy :: "'w select_service \<Rightarrow> unit exec" where
  "Select_destroy s =
     and_then
       (if m_started s
        then and_then (fusion_assert (m_shutdown s)) (\<lambda>_. fusion_assert (\<not> m_polling s))
        else Inr ())
       (\<lambda>_. and_then (fusion_assert (m_events s = [])) (\<lambda>_. fusion_assert (m_results s = [])))"

section \<open>Execute\<close>

type_synonym fd_set = "Socket list"

definition FD_ok :: "header \<Rightarrow> Socket \<Rightarrow> bool" where
  "FD_ok sys sock \<longleftrightarrow> 0 \<le> sock \<and> sock < sys ''FD_SETSIZE''"

definition FD_SET :: "header \<Rightarrow> Socket \<Rightarrow> fd_set \<Rightarrow> fd_set exec" where
  "FD_SET sys sock fds =
     (if \<not> FD_ok sys sock then Inl Out_Of_Bounds
      else Inr (if sock \<in> set fds then fds else sock # fds))"

definition FD_ISSET :: "header \<Rightarrow> Socket \<Rightarrow> fd_set \<Rightarrow> bool exec" where
  "FD_ISSET sys sock fds = (if \<not> FD_ok sys sock then Inl Out_Of_Bounds else Inr (sock \<in> set fds))"

record select_sets =
  nfds :: int
  reads :: fd_set
  writes :: fd_set
  errors :: fd_set

definition set_if :: "header \<Rightarrow> bool \<Rightarrow> Socket \<Rightarrow> fd_set \<Rightarrow> fd_set exec" where
  "set_if sys b sock fds =
     (if b then and_then (FD_ISSET sys sock fds) (\<lambda>present.
        if \<not> present then FD_SET sys sock fds else Inr fds) else Inr fds)"

definition add_event :: "header \<Rightarrow> SocketEvent \<Rightarrow> select_sets \<Rightarrow> select_sets exec" where
  "add_event sys ev sets =
     and_then (set_if sys (has_flag (ev_events ev) Op_Read) (ev_sock ev) (reads sets)) (\<lambda>rs.
     and_then (set_if sys (has_flag (ev_events ev) Op_Write) (ev_sock ev) (writes sets)) (\<lambda>ws.
     and_then (set_if sys (has_flag (ev_events ev) Op_Error) (ev_sock ev) (errors sets)) (\<lambda>es.
     Inr \<lparr>nfds = max (nfds sets) (ev_sock ev + 1), reads = rs, writes = ws, errors = es\<rparr>)))"

fun add_events :: "header \<Rightarrow> SocketEvent list \<Rightarrow> select_sets \<Rightarrow> select_sets exec" where
  "add_events sys [] sets = Inr sets"
| "add_events sys (ev # evs) sets = and_then (add_event sys ev sets) (add_events sys evs)"

definition interest_sets :: "header \<Rightarrow> Socket \<Rightarrow> SocketEvent list \<Rightarrow> select_sets exec" where
  "interest_sets sys notify evs =
     and_then (add_events sys evs \<lparr>nfds = 0, reads = [], writes = [], errors = []\<rparr>) (\<lambda>sets.
     and_then (FD_SET sys notify (reads sets)) (\<lambda>rs.
     Inr (sets\<lparr>nfds := max (nfds sets) (notify + 1), reads := rs\<rparr>)))"

text \<open>The time \<^verbatim>\<open>select\<close> waits, in seconds and microseconds, from a timeout in nanoseconds; \<open>None\<close> is no limit.\<close>

definition select_timeout :: "int \<Rightarrow> (int \<times> int) option" where
  "select_timeout timeout =
     (if timeout > 0 then Some (timeout div 1000000000, (timeout - 1000000000 * (timeout div 1000000000)) div 1000)
      else None)"

record select_request =
  req_notify :: Socket
  req_sets :: select_sets
  req_timeout :: "(int \<times> int) option"

text \<open>
  \<^verbatim>\<open>Execute\<close> up to the call of \<^verbatim>\<open>select\<close>: it fails, or it goes on to poll with the request.
\<close>

definition Execute_begin ::
  "header \<Rightarrow> int \<Rightarrow> 'w select_service \<Rightarrow> ((error_code + select_request) \<times> 'w select_service) exec" where
  "Execute_begin sys timeout s =
     (if m_shutdown s then
        and_then (fusion_assert (m_events s = [])) (\<lambda>_.
        and_then (fusion_assert (m_results s = [])) (\<lambda>_. Inr (Inl E_CANCELLED, s)))
      else
        and_then (fusion_assert (\<not> m_polling s)) (\<lambda>_.
        let notify = reader (m_pipe s)
        in and_then (interest_sets sys notify (m_events s)) (\<lambda>sets.
           Inr (Inr \<lparr>req_notify = notify, req_sets = sets, req_timeout = select_timeout timeout\<rparr>,
                s\<lparr>m_polling := True\<rparr>))))"

definition forward_if :: "header \<Rightarrow> SocketEvent \<Rightarrow> SocketOperation \<Rightarrow> fd_set \<Rightarrow> SocketOperation \<Rightarrow> SocketOperation exec" where
  "forward_if sys ev opn fds forward =
     (if has_flag (ev_events ev) opn
      then and_then (FD_ISSET sys (ev_sock ev) fds) (\<lambda>b. Inr (if b then forward OR opn else forward))
      else Inr forward)"

definition forwarded :: "header \<Rightarrow> SocketEvent \<Rightarrow> select_sets \<Rightarrow> SocketOperation exec" where
  "forwarded sys ev ready =
     and_then (forward_if sys ev Op_Read (reads ready) Op_None) (\<lambda>f.
     and_then (forward_if sys ev Op_Write (writes ready) f) (\<lambda>f.
     forward_if sys ev Op_Error (errors ready) f))"

fun collect :: "header \<Rightarrow> Socket \<Rightarrow> select_sets \<Rightarrow> SocketEvent list \<Rightarrow> SocketEvent list \<Rightarrow> SocketEvent list exec" where
  "collect sys notify ready [] results = Inr results"
| "collect sys notify ready (ev # evs) results =
     (if ev_sock ev = notify then collect sys notify ready evs results
      else and_then (forwarded sys ev ready) (\<lambda>forward.
        collect sys notify ready evs
          (if forward \<noteq> Op_None then results @ [\<lparr>ev_sock = ev_sock ev, ev_events = forward\<rparr>] else results)))"

text \<open>
  \<^verbatim>\<open>Execute\<close> from the return of \<^verbatim>\<open>select\<close> on: \<open>res\<close> is its result, \<open>ready\<close> the sets it leaves and
  \<open>err\<close> the code of \<^verbatim>\<open>GetLastNetworkFailure\<close>. \<^verbatim>\<open>return {}\<close> is a default-constructed \<^verbatim>\<open>Result\<close>, which
  holds a failure. \<open>None\<close> says that \<^verbatim>\<open>Drain\<close> does not return.
\<close>

definition Execute_end ::
  "header \<Rightarrow> 'w network \<Rightarrow> select_request \<Rightarrow> int \<Rightarrow> select_sets \<Rightarrow> error_code \<Rightarrow> 'w select_service
     \<Rightarrow> (SocketEvent list result \<times> 'w select_service) exec option" where
  "Execute_end sys n req res ready err s =
     (if \<not> m_polling s then Some (Inl Assert_Failed)
      else
        let s = s\<lparr>m_polling := False, m_notify := False\<rparr>
        in if m_shutdown s then Some (Inr (Inl E_FAILURE, s))
           else if res = SOCKET_ERROR then Some (Inr (Inl err, s))
           else if res = 0 then Some (Inr (Inl E_FAILURE, s))
           else
             case FD_ISSET sys (req_notify req) (reads ready) of
               Inl f \<Rightarrow> Some (Inl f)
             | Inr woken \<Rightarrow>
                 (case (if woken then SocketPair_Drain n (m_pipe s) (world s) else Some (Inr (Inr (), world s))) of
                    None \<Rightarrow> None
                  | Some (Inl f) \<Rightarrow> Some (Inl f)
                  | Some (Inr (Inl e, w)) \<Rightarrow> Some (Inr (Inl e, s\<lparr>world := w\<rparr>))
                  | Some (Inr (Inr _, w)) \<Rightarrow>
                      Some (and_then (collect sys (req_notify req) ready (m_events s) [])
                        (\<lambda>results. Inr (Inr results, s\<lparr>world := w, m_results := results\<rparr>)))))"

section \<open>Registered operations\<close>

definition events_ok :: "SocketEvent list \<Rightarrow> bool" where
  "events_ok evs \<longleftrightarrow> distinct (map ev_sock evs) \<and> (\<forall>ev \<in> set evs. ev_sock ev \<noteq> INVALID_SOCKET \<and> ev_events ev \<noteq> 0)"

definition event_ops :: "SocketEvent list \<Rightarrow> Socket \<Rightarrow> SocketOperation" where
  "event_ops evs sock = (case find_event sock evs of Some i \<Rightarrow> ev_events (evs ! i) | None \<Rightarrow> 0)"

lemma find_event_None: "find_event sock evs = None \<longleftrightarrow> sock \<notin> ev_sock ` set evs"
  by (induction evs) auto

lemma find_event_Some: "find_event sock evs = Some i \<Longrightarrow> i < length evs \<and> ev_sock (evs ! i) = sock"
  by (induction evs arbitrary: i) (auto split: if_splits)

lemma event_ops_unique:
  "distinct (map ev_sock evs) \<Longrightarrow> i < length evs \<Longrightarrow> event_ops evs (ev_sock (evs ! i)) = ev_events (evs ! i)"
proof -
  assume d: "distinct (map ev_sock evs)" and i: "i < length evs"
  then obtain j where j: "find_event (ev_sock (evs ! i)) evs = Some j"
    using find_event_None [of "ev_sock (evs ! i)" evs] by fastforce
  with find_event_Some [OF j] d i have "j = i"
    by (metis distinct_conv_nth length_map nth_map)
  with j show ?thesis by (simp add: event_ops_def)
qed

lemma event_ops_absent: "sock \<notin> ev_sock ` set evs \<Longrightarrow> event_ops evs sock = 0"
  by (simp add: event_ops_def find_event_None [symmetric] split: option.splits)

lemma event_ops_eq:
  "distinct (map ev_sock evs) \<Longrightarrow> event_ops evs sock =
     (case map_of (map (\<lambda>ev. (ev_sock ev, ev_events ev)) evs) sock of Some ops \<Rightarrow> ops | None \<Rightarrow> 0)"
  by (induction evs) (auto simp: event_ops_def split: option.splits)

lemma map_of_update:
  assumes "distinct (map ev_sock evs)" and "i < length evs" and "ev_sock (evs ! i) = k" and "ev_sock ev = k"
  shows "event_ops (evs[i := ev]) j = (if j = k then ev_events ev else event_ops evs j)"
    and "distinct (map ev_sock (evs[i := ev]))"
proof -
  have same: "map ev_sock (evs[i := ev]) = map ev_sock evs"
    using assms by (metis list_update_id map_update nth_map)
  with assms(1) show d: "distinct (map ev_sock (evs[i := ev]))" by simp
  show "event_ops (evs[i := ev]) j = (if j = k then ev_events ev else event_ops evs j)"
  proof (cases "j \<in> ev_sock ` set evs")
    case True
    then obtain m where m: "m < length evs" "ev_sock (evs ! m) = j" by (auto simp: in_set_conv_nth)
    have "ev_sock (evs[i := ev] ! m) = j"
      using m same by (metis length_list_update nth_map)
    with event_ops_unique [OF d, of m] event_ops_unique [OF assms(1) m(1)] m assms show ?thesis
      by (cases "m = i") (auto simp: distinct_conv_nth)
  next
    case False
    moreover have "j \<notin> ev_sock ` set (evs[i := ev])"
      using False same by (metis list.set_map)
    ultimately show ?thesis using assms by (auto simp: event_ops_absent)
  qed
qed

lemma erase_events:
  assumes "distinct (map ev_sock evs)" and "i < length evs" and "ev_sock (evs ! i) = k"
  shows "event_ops (erase i evs) j = (if j = k then 0 else event_ops evs j)"
    and "distinct (map ev_sock (erase i evs))" and "set (erase i evs) \<subseteq> set evs"
proof -
  have evs: "evs = take i evs @ evs ! i # drop (Suc i) evs"
    using assms(2) by (simp add: id_take_nth_drop)
  show "set (erase i evs) \<subseteq> set evs"
    by (auto simp: erase_def dest: in_set_takeD in_set_dropD)
  have d: "distinct (map ev_sock (take i evs @ evs ! i # drop (Suc i) evs))"
    using assms(1) evs by simp
  then show "distinct (map ev_sock (erase i evs))"
    by (simp add: erase_def)
  have "event_ops (xs @ x # ys) j = (if j = ev_sock x then ev_events x else event_ops (xs @ ys) j)"
    if "distinct (map ev_sock (xs @ x # ys))" for xs x ys
    using that by (subst (1 2) event_ops_eq) (auto simp: map_add_def split: option.splits dest!: map_of_SomeD)
  from this [OF d] have "event_ops evs j = (if j = k then ev_events (evs ! i) else event_ops (erase i evs) j)"
    using evs assms(3) by (simp add: erase_def)
  moreover have "k \<notin> ev_sock ` set (erase i evs)"
    using d assms(3) by (auto simp: erase_def)
  ultimately show "event_ops (erase i evs) j = (if j = k then 0 else event_ops evs j)"
    by (auto simp: event_ops_absent)
qed

lemma event_ops_append:
  "k \<notin> ev_sock ` set evs \<Longrightarrow> event_ops (evs @ [\<lparr>ev_sock = k, ev_events = ops\<rparr>]) j
     = (if j = k then ops else event_ops evs j)"
proof -
  assume k: "k \<notin> ev_sock ` set evs"
  have "find_event j (evs @ [ev]) = (case find_event j evs of Some i \<Rightarrow> Some i
      | None \<Rightarrow> if ev_sock ev = j then Some (length evs) else None)" for ev
    by (induction evs) (auto split: option.splits)
  with k show ?thesis
    by (auto simp: event_ops_def nth_append find_event_None dest: find_event_Some split: option.splits)
qed

lemma events_ok_update:
  "events_ok evs \<Longrightarrow> find_event k evs = Some i \<Longrightarrow> ops \<noteq> 0 \<Longrightarrow> events_ok (evs[i := (evs ! i)\<lparr>ev_events := ops\<rparr>])"
  using map_of_update(2) [of evs i k "(evs ! i)\<lparr>ev_events := ops\<rparr>"] find_event_Some [of k evs i]
  by (auto simp: events_ok_def dest!: set_update_subset_insert [THEN subsetD])

lemma events_ok_erase: "events_ok evs \<Longrightarrow> find_event k evs = Some i \<Longrightarrow> events_ok (erase i evs)"
  using erase_events(2,3) [of evs i k] find_event_Some [of k evs i] by (auto simp: events_ok_def)

text \<open>Notifying changes the flag or the network, nothing else.\<close>

lemma NotifyLocked_frame:
  "NotifyLocked n s = Inr s' \<Longrightarrow> \<exists>b w. s' = s\<lparr>m_notify := b, world := w\<rparr>"
  by (auto simp: NotifyLocked_def and_then_Inr_iff split: if_splits)
    (metis select_service.surjective select_service.update_convs(3,8))+

lemma NotifyLocked_fields:
  assumes "NotifyLocked n s = Inr s'"
  shows "m_events s' = m_events s" "m_pipe s' = m_pipe s" "m_polling s' = m_polling s"
    "m_shutdown s' = m_shutdown s" "m_started s' = m_started s" "m_results s' = m_results s"
  using NotifyLocked_frame [OF assms] by auto

text \<open>
  The three operations as functions on the list of events. A second \<^verbatim>\<open>Add\<close> extends the operations of its
  socket unless all the old ones are among the new, in which case it changes nothing.
\<close>

lemma Select_Add_events:
  assumes "events_ok (m_events s)" and "Select_Add n k ops s = Inr (r, s')"
  shows "events_ok (m_events s')"
    and "event_ops (m_events s') j
      = (if j = k \<and> r = Inr () \<and> ops \<noteq> 0 then add_ops (event_ops (m_events s) k) ops
         else event_ops (m_events s) j)"
proof -
  consider (invalid) "k = INVALID_SOCKET" | (nothing) "k \<noteq> INVALID_SOCKET" "ops = 0"
    | (old) i where "k \<noteq> INVALID_SOCKET" "ops \<noteq> 0" "find_event k (m_events s) = Some i"
    | (new) "k \<noteq> INVALID_SOCKET" "ops \<noteq> 0" "find_event k (m_events s) = None"
    by fastforce
  then have "events_ok (m_events s') \<and> event_ops (m_events s') j
      = (if j = k \<and> r = Inr () \<and> ops \<noteq> 0 then add_ops (event_ops (m_events s) k) ops
         else event_ops (m_events s) j)"
  proof cases
    case (old i)
    let ?old = "ev_events (m_events s ! i)"
    have "?old \<noteq> 0" using assms(1) find_event_Some [OF old(3)] by (auto simp: events_ok_def)
    moreover have "event_ops (m_events s) k = ?old" using old by (simp add: event_ops_def)
    moreover have "?old OR ops \<noteq> 0" using \<open>?old \<noteq> 0\<close> by (auto simp: bit_eq_iff [of _ "0 :: byte"] bit_simps)
    ultimately show ?thesis
      using assms old find_event_Some [OF old(3)] events_ok_update [OF assms(1) old(3)]
        map_of_update(1) [of "m_events s" i k "(m_events s ! i)\<lparr>ev_events := ?old OR ops\<rparr>" j]
      by (auto simp: Select_Add_def Let_def and_then_Inr_iff add_ops_def events_ok_def
          dest!: NotifyLocked_fields(1) split: if_splits)
  next
    case new
    from new(3) have k: "k \<notin> ev_sock ` set (m_events s)" by (simp only: find_event_None) simp
    then have "event_ops (m_events s) k = 0" by (rule event_ops_absent)
    with k new show ?thesis
      using assms event_ops_append [OF k, of ops j]
      by (auto simp: Select_Add_def Let_def and_then_Inr_iff add_ops_def events_ok_def
          dest!: NotifyLocked_fields(1))
  qed (use assms in \<open>auto simp: Select_Add_def\<close>)
  then show "events_ok (m_events s')" "event_ops (m_events s') j
      = (if j = k \<and> r = Inr () \<and> ops \<noteq> 0 then add_ops (event_ops (m_events s) k) ops
         else event_ops (m_events s) j)" by blast+
qed

lemma Select_Close_events:
  assumes "events_ok (m_events s)" and "Select_Close n k s = Inr (r, s')"
  shows "events_ok (m_events s')"
    and "event_ops (m_events s') j = (if j = k \<and> r = Inr () then 0 else event_ops (m_events s) j)"
  using assms events_ok_erase [OF assms(1), of k] find_event_Some [of k "m_events s"]
    erase_events(1) [of "m_events s" _ k j]
  by (auto simp: Select_Close_def and_then_Inr_iff events_ok_def find_event_None event_ops_absent
      dest!: NotifyLocked_fields(1) split: if_splits option.splits)

lemma Select_Remove_events:
  assumes "events_ok (m_events s)" and "Select_Remove n k ops s = Inr (r, s')"
  shows "events_ok (m_events s')"
    and "event_ops (m_events s') j
      = (if j = k \<and> r = Inr () then event_ops (m_events s) k AND NOT ops else event_ops (m_events s) j)"
proof -
  consider (nothing) "k = INVALID_SOCKET \<or> ops = 0"
    | (old) i where "k \<noteq> INVALID_SOCKET" "ops \<noteq> 0" "find_event k (m_events s) = Some i"
    | (new) "k \<noteq> INVALID_SOCKET" "ops \<noteq> 0" "find_event k (m_events s) = None"
    by fastforce
  then have "events_ok (m_events s') \<and> event_ops (m_events s') j
      = (if j = k \<and> r = Inr () then event_ops (m_events s) k AND NOT ops else event_ops (m_events s) j)"
  proof cases
    case (old i)
    let ?old = "ev_events (m_events s ! i)" and ?ops = "ev_events (m_events s ! i) AND NOT ops"
    have same: "(if ?old AND ops \<noteq> 0 then ?old AND NOT ops else ?old) = ?ops"
      by (auto simp: bit_eq_iff [of _ "ev_events (m_events s ! i) AND NOT ops"] bit_eq_iff [of _ "0 :: byte"] bit_simps)
    have "event_ops (m_events s) k = ?old" using old by (simp add: event_ops_def)
    then show ?thesis
      using assms old find_event_Some [OF old(3)] events_ok_update [OF assms(1) old(3), of ?ops]
        events_ok_erase [OF assms(1) old(3)] erase_events(1) [of "m_events s" i k j]
        map_of_update(1) [of "m_events s" i k "(m_events s ! i)\<lparr>ev_events := ?ops\<rparr>" j]
      by (auto simp: Select_Remove_def Let_def and_then_Inr_iff same events_ok_def
          dest!: NotifyLocked_fields(1) split: if_splits)
  next
    case new
    moreover from new have "event_ops (m_events s) k = 0" by (simp add: event_ops_def)
    ultimately show ?thesis
      using assms by (auto simp: Select_Remove_def)
  qed (use assms in \<open>auto simp: Select_Remove_def split: if_splits\<close>)
  then show "events_ok (m_events s')" "event_ops (m_events s') j
      = (if j = k \<and> r = Inr () then event_ops (m_events s) k AND NOT ops else event_ops (m_events s) j)"
    by blast+
qed

interpretation select: interest_service "\<lambda>s. event_ops (m_events s)" "\<lambda>s. events_ok (m_events s)"
  "Select_Add n" "Select_Remove n" "Select_Close n" for n
proof
  fix s k ops u s'
  assume "events_ok (m_events s)" "Select_Remove n k ops s = Inr (Inr u, s')"
  then have "event_ops (m_events s') k = event_ops (m_events s) k AND NOT ops"
    using Select_Remove_events(2) [of s n k ops "Inr u" s' k] by simp
  then show "event_ops (m_events s') k AND ops = 0
      \<and> event_ops (m_events s') k AND NOT (event_ops (m_events s) k) = 0"
    by (auto simp: bit_eq_iff [of _ "0 :: byte"] bit_simps)
next
  fix s k ops u s'
  assume "events_ok (m_events s)" "Select_Add n k ops s = Inr (Inr u, s')" "event_ops (m_events s) k = 0"
  then show "event_ops (m_events s') k = ops"
    using Select_Add_events(2) [of s n k ops "Inr u" s' k] by (auto simp: add_ops_def)
next
  fix s k u s'
  assume "events_ok (m_events s)" "Select_Close n k s = Inr (Inr u, s')"
  then show "event_ops (m_events s') k = 0"
    using Select_Close_events(2) [of s n k "Inr u" s' k] by simp
next
  fix s :: "'a select_service" and k ops and u :: unit and s' :: "'a select_service" and j :: Socket
  assume ok: "events_ok (m_events s)" and "j \<noteq> k"
  then show "Select_Add n k ops s = Inr (Inr u, s') \<Longrightarrow> event_ops (m_events s') j = event_ops (m_events s) j"
    and "Select_Remove n k ops s = Inr (Inr u, s') \<Longrightarrow> event_ops (m_events s') j = event_ops (m_events s) j"
    and "Select_Close n k s = Inr (Inr u, s') \<Longrightarrow> event_ops (m_events s') j = event_ops (m_events s) j"
    by (simp_all add: Select_Add_events(2) [OF ok, where j = j] Select_Remove_events(2) [OF ok, where j = j]
        Select_Close_events(2) [OF ok, where j = j])
qed (rule Select_Add_events Select_Remove_events Select_Close_events; assumption)+

section \<open>A service that nobody polls\<close>

definition idle_frame :: "'w select_service \<Rightarrow> 'w select_service \<Rightarrow> bool" where
  "idle_frame s s' \<longleftrightarrow> \<not> m_polling s' \<and> m_pipe s' = m_pipe s \<and> m_started s' = m_started s
     \<and> m_shutdown s' = m_shutdown s \<and> m_results s' = m_results s \<and> world s' = world s"

lemma NotifyLocked_idle: "\<not> m_polling s \<Longrightarrow> NotifyLocked n s = Inr (s\<lparr>m_notify := True\<rparr>)"
  by (simp add: NotifyLocked_def)

lemma Select_Add_idle: "Select_Add n k ops s = Inr (r, s') \<Longrightarrow> \<not> m_polling s \<Longrightarrow> idle_frame s s'"
  by (auto simp: Select_Add_def NotifyLocked_idle Let_def idle_frame_def split: if_splits)

lemma Select_Remove_idle: "Select_Remove n k ops s = Inr (r, s') \<Longrightarrow> \<not> m_polling s \<Longrightarrow> idle_frame s s'"
  by (auto simp: Select_Remove_def NotifyLocked_idle Let_def idle_frame_def split: if_splits option.splits)

lemma select_serves_idle:
  assumes "interest_service.serves (Select_Add n) (Select_Remove n) s rqs s'" and "\<not> m_polling s"
  shows "idle_frame s s'"
  by (rule select.serves_frame [where P = "\<lambda>s. \<not> m_polling s" and Q = idle_frame, OF _ _ _ _ _ assms])
    (auto simp: idle_frame_def dest: Select_Add_idle [unfolded idle_frame_def] Select_Remove_idle [unfolded idle_frame_def])

section \<open>The sets of a poll\<close>

definition wants :: "SocketEvent list \<Rightarrow> SocketOperation \<Rightarrow> Socket set" where
  "wants evs opn = {ev_sock ev | ev. ev \<in> set evs \<and> has_flag (ev_events ev) opn}"

definition usable :: "header \<Rightarrow> SocketEvent list \<Rightarrow> bool" where
  "usable sys evs \<longleftrightarrow> (\<forall>sock \<in> wants evs Op_Read \<union> wants evs Op_Write \<union> wants evs Op_Error. FD_ok sys sock)"

lemma wants_Cons: "wants (ev # evs) opn = (if has_flag (ev_events ev) opn then {ev_sock ev} else {}) \<union> wants evs opn"
  by (auto simp: wants_def)

lemma set_if_eq:
  "set_if sys b sock fds = (if b \<and> \<not> FD_ok sys sock then Inl Out_Of_Bounds
     else Inr (if b \<and> sock \<notin> set fds then sock # fds else fds))"
  by (auto simp: set_if_def FD_ISSET_def FD_SET_def)

lemma set_if_ok:
  "b \<longrightarrow> FD_ok sys sock \<Longrightarrow> \<exists>fds'. set_if sys b sock fds = Inr fds' \<and> set fds' = set fds \<union> (if b then {sock} else {})"
  by (auto simp: set_if_eq)

lemma add_events_sets:
  "usable sys evs \<Longrightarrow> \<exists>sets'. add_events sys evs sets = Inr sets'
     \<and> set (reads sets') = set (reads sets) \<union> wants evs Op_Read
     \<and> set (writes sets') = set (writes sets) \<union> wants evs Op_Write
     \<and> set (errors sets') = set (errors sets) \<union> wants evs Op_Error
     \<and> nfds sets \<le> nfds sets' \<and> (\<forall>ev \<in> set evs. ev_sock ev < nfds sets')"
proof (induction evs arbitrary: sets)
  case Nil
  then show ?case by (simp add: wants_def)
next
  case (Cons ev evs)
  then have ok: "has_flag (ev_events ev) Op_Read \<or> has_flag (ev_events ev) Op_Write
      \<or> has_flag (ev_events ev) Op_Error \<longrightarrow> FD_ok sys (ev_sock ev)" and us: "usable sys evs"
    by (auto simp: usable_def wants_Cons)
  obtain sets1 where sets1: "add_event sys ev sets = Inr sets1"
    "set (reads sets1) = set (reads sets) \<union> wants [ev] Op_Read"
    "set (writes sets1) = set (writes sets) \<union> wants [ev] Op_Write"
    "set (errors sets1) = set (errors sets) \<union> wants [ev] Op_Error"
    "nfds sets \<le> nfds sets1" "ev_sock ev < nfds sets1"
  proof -
    note ok3 = set_if_ok [of "has_flag (ev_events ev) Op_Read" sys "ev_sock ev" "reads sets"]
      set_if_ok [of "has_flag (ev_events ev) Op_Write" sys "ev_sock ev" "writes sets"]
      set_if_ok [of "has_flag (ev_events ev) Op_Error" sys "ev_sock ev" "errors sets"]
    then obtain rs ws es where
      "set_if sys (has_flag (ev_events ev) Op_Read) (ev_sock ev) (reads sets) = Inr rs"
      "set_if sys (has_flag (ev_events ev) Op_Write) (ev_sock ev) (writes sets) = Inr ws"
      "set_if sys (has_flag (ev_events ev) Op_Error) (ev_sock ev) (errors sets) = Inr es"
      "set rs = set (reads sets) \<union> (if has_flag (ev_events ev) Op_Read then {ev_sock ev} else {})"
      "set ws = set (writes sets) \<union> (if has_flag (ev_events ev) Op_Write then {ev_sock ev} else {})"
      "set es = set (errors sets) \<union> (if has_flag (ev_events ev) Op_Error then {ev_sock ev} else {})"
      using ok by blast
    then show thesis
      by (intro that [of "\<lparr>nfds = max (nfds sets) (ev_sock ev + 1), reads = rs, writes = ws, errors = es\<rparr>"])
        (simp_all add: add_event_def wants_Cons wants_def [of "[]"])
  qed
  obtain sets2 where "add_events sys evs sets1 = Inr sets2"
     "set (reads sets2) = set (reads sets1) \<union> wants evs Op_Read"
     "set (writes sets2) = set (writes sets1) \<union> wants evs Op_Write"
     "set (errors sets2) = set (errors sets1) \<union> wants evs Op_Error"
     "nfds sets1 \<le> nfds sets2" "\<forall>ev \<in> set evs. ev_sock ev < nfds sets2"
    using Cons.IH [OF us, of sets1] by blast
  with sets1 show ?case
    by (intro exI [of _ sets2]) (auto simp: wants_Cons wants_def [of "[]"])
qed

lemma add_events_fault:
  "\<not> usable sys evs \<Longrightarrow> add_events sys evs sets = Inl Out_Of_Bounds"
proof (induction evs arbitrary: sets)
  case Nil
  then show ?case by (simp add: usable_def wants_def)
next
  case (Cons ev evs)
  show ?case
  proof (cases "add_event sys ev sets")
    case (Inl f)
    then have "f = Out_Of_Bounds" by (auto simp: add_event_def set_if_eq split: if_splits)
    with Inl show ?thesis by simp
  next
    case (Inr sets')
    then have "\<not> usable sys evs"
      using Cons.prems by (auto simp: add_event_def set_if_eq usable_def wants_Cons split: if_splits)
    with Inr show ?thesis by (simp add: Cons.IH)
  qed
qed

lemma interest_sets_eq:
  assumes "usable sys evs" and "FD_ok sys notify"
  shows "\<exists>sets. interest_sets sys notify evs = Inr sets
    \<and> set (reads sets) = {notify} \<union> wants evs Op_Read \<and> set (writes sets) = wants evs Op_Write
    \<and> set (errors sets) = wants evs Op_Error
    \<and> notify < nfds sets \<and> (\<forall>ev \<in> set evs. ev_sock ev < nfds sets)"
proof -
  obtain sets where "add_events sys evs \<lparr>nfds = 0, reads = [], writes = [], errors = []\<rparr> = Inr sets"
     "set (reads sets) = wants evs Op_Read" "set (writes sets) = wants evs Op_Write"
     "set (errors sets) = wants evs Op_Error" "\<forall>ev \<in> set evs. ev_sock ev < nfds sets"
    using add_events_sets [OF assms(1), of "\<lparr>nfds = 0, reads = [], writes = [], errors = []\<rparr>"] by auto
  with assms(2) show ?thesis
    by (auto simp: interest_sets_def FD_SET_def max_def)
qed

section \<open>The events of a poll\<close>

definition ready_ops :: "select_sets \<Rightarrow> SocketEvent \<Rightarrow> SocketOperation" where
  "ready_ops ready ev = ev_events ev AND
     ((if ev_sock ev \<in> set (reads ready) then Op_Read else 0)
      OR (if ev_sock ev \<in> set (writes ready) then Op_Write else 0)
      OR (if ev_sock ev \<in> set (errors ready) then Op_Error else 0))"

definition ready_events :: "Socket \<Rightarrow> select_sets \<Rightarrow> SocketEvent list \<Rightarrow> SocketEvent list" where
  "ready_events notify ready evs =
     map (\<lambda>ev. \<lparr>ev_sock = ev_sock ev, ev_events = ready_ops ready ev\<rparr>)
       (filter (\<lambda>ev. ev_sock ev \<noteq> notify \<and> ready_ops ready ev \<noteq> 0) evs)"

lemma forwarded_eq: "FD_ok sys (ev_sock ev) \<Longrightarrow> forwarded sys ev ready = Inr (ready_ops ready ev)"
  by (auto simp: forwarded_def forward_if_def FD_ISSET_def ready_ops_def bit.conj_disj_distrib and_op)

lemma collect_eq:
  "\<forall>ev \<in> set evs. FD_ok sys (ev_sock ev) \<Longrightarrow>
    collect sys notify ready evs results = Inr (results @ ready_events notify ready evs)"
  by (induction evs arbitrary: results) (auto simp: ready_events_def forwarded_eq)

section \<open>Properties\<close>

text \<open>
  Property C27. On a service whose registered sockets are distinct and valid, as all its operations
  keep them, \<^verbatim>\<open>Close\<close> clears a socket and \<^verbatim>\<open>Remove\<close> clears the operations it is given. \<^verbatim>\<open>Add\<close> registers a
  new socket and adds its operations to those of a registered one, except that it changes nothing
  when the new operations include all the old ones, so that the others among them are lost.
  None touches another socket.
\<close>

theorem select_registration:
  assumes "events_ok (m_events s)"
  shows "(Select_Add n k ops s = Inr (Inr (), s') \<and> ops \<noteq> 0 \<longrightarrow>
        events_ok (m_events s')
        \<and> event_ops (m_events s') k = (let old = event_ops (m_events s) k in
            if old = 0 then ops else if old AND NOT ops = 0 then old else old OR ops)
        \<and> (\<forall>j. j \<noteq> k \<longrightarrow> event_ops (m_events s') j = event_ops (m_events s) j))
    \<and> (Select_Remove n k ops s = Inr (Inr (), s') \<longrightarrow>
        events_ok (m_events s')
        \<and> event_ops (m_events s') k = event_ops (m_events s) k AND NOT ops
        \<and> (\<forall>j. j \<noteq> k \<longrightarrow> event_ops (m_events s') j = event_ops (m_events s) j))
    \<and> (Select_Close n k s = Inr (Inr (), s') \<longrightarrow>
        events_ok (m_events s') \<and> event_ops (m_events s') k = 0
        \<and> (\<forall>j. j \<noteq> k \<longrightarrow> event_ops (m_events s') j = event_ops (m_events s) j))"
proof -
  show ?thesis
  proof (intro conjI impI)
    assume *: "Select_Add n k ops s = Inr (Inr (), s') \<and> ops \<noteq> 0"
    note a = Select_Add_events [OF assms, of n k ops "Inr ()" s']
    from * show "events_ok (m_events s')" by (blast intro: a(1))
    from * a(2) [of k] show "event_ops (m_events s') k = (let old = event_ops (m_events s) k in
            if old = 0 then ops else if old AND NOT ops = 0 then old else old OR ops)"
      by (simp add: Let_def add_ops_eq)
    from * a(2) show "\<forall>j. j \<noteq> k \<longrightarrow> event_ops (m_events s') j = event_ops (m_events s) j" by simp
  next
    assume *: "Select_Remove n k ops s = Inr (Inr (), s')"
    note r = Select_Remove_events [OF assms *]
    from r show "events_ok (m_events s')" "event_ops (m_events s') k = event_ops (m_events s) k AND NOT ops"
      "\<forall>j. j \<noteq> k \<longrightarrow> event_ops (m_events s') j = event_ops (m_events s) j" by simp_all
  next
    assume *: "Select_Close n k s = Inr (Inr (), s')"
    note c = Select_Close_events [OF assms *]
    from c show "events_ok (m_events s')" "event_ops (m_events s') k = 0"
      "\<forall>j. j \<noteq> k \<longrightarrow> event_ops (m_events s') j = event_ops (m_events s) j" by simp_all
  qed
qed

theorem select_registration_witness:
  "event_ops (m_events ((Select_new ([], 0))\<lparr>m_events := [\<lparr>ev_sock = 7, ev_events = Op_Read\<rparr>], m_notify := True\<rparr>)) 7 = Op_Read"
  using select_registration [of "(Select_new ([], 0))\<lparr>m_events := [\<lparr>ev_sock = 7, ev_events = Op_Read\<rparr>]\<rparr>" sim_network 7
      "Op_Read OR Op_Write" "(Select_new ([], 0))\<lparr>m_events := [\<lparr>ev_sock = 7, ev_events = Op_Read\<rparr>], m_notify := True\<rparr>"]
  by (simp add: events_ok_def INVALID_SOCKET_def Select_Add_def Select_new_def NotifyLocked_def event_ops_def)

text \<open>
  A poll that starts hands \<^verbatim>\<open>select\<close> exactly the registered sockets, by operation, with the
  notification socket added to the readers and a first argument above every descriptor. A
  registered socket outside the range of \<^verbatim>\<open>fd_set\<close>, which \<^verbatim>\<open>Add\<close> accepts, makes it write outside
  the sets.
\<close>

theorem select_request_sets:
  assumes "\<not> m_shutdown s" and "\<not> m_polling s" and "FD_ok sys (reader (m_pipe s))"
  shows "(usable sys (m_events s) \<longrightarrow> (\<exists>req sets. Execute_begin sys timeout s = Inr (Inr req, s\<lparr>m_polling := True\<rparr>)
        \<and> req_sets req = sets \<and> req_timeout req = select_timeout timeout
        \<and> set (reads sets) = {reader (m_pipe s)} \<union> wants (m_events s) Op_Read
        \<and> set (writes sets) = wants (m_events s) Op_Write \<and> set (errors sets) = wants (m_events s) Op_Error
        \<and> reader (m_pipe s) < nfds sets \<and> (\<forall>ev \<in> set (m_events s). ev_sock ev < nfds sets)))
    \<and> (\<not> usable sys (m_events s) \<longrightarrow> Execute_begin sys timeout s = Inl Out_Of_Bounds)"
proof (intro conjI impI)
  assume "usable sys (m_events s)"
  from interest_sets_eq [OF this assms(3)] obtain sets
    where "interest_sets sys (reader (m_pipe s)) (m_events s) = Inr sets"
      "set (reads sets) = {reader (m_pipe s)} \<union> wants (m_events s) Op_Read"
      "set (writes sets) = wants (m_events s) Op_Write" "set (errors sets) = wants (m_events s) Op_Error"
      "reader (m_pipe s) < nfds sets" "\<forall>ev \<in> set (m_events s). ev_sock ev < nfds sets"
    by blast
  then show "\<exists>req sets. Execute_begin sys timeout s = Inr (Inr req, s\<lparr>m_polling := True\<rparr>)
        \<and> req_sets req = sets \<and> req_timeout req = select_timeout timeout
        \<and> set (reads sets) = {reader (m_pipe s)} \<union> wants (m_events s) Op_Read
        \<and> set (writes sets) = wants (m_events s) Op_Write \<and> set (errors sets) = wants (m_events s) Op_Error
        \<and> reader (m_pipe s) < nfds sets \<and> (\<forall>ev \<in> set (m_events s). ev_sock ev < nfds sets)"
    using assms by (auto simp: Execute_begin_def Let_def)
next
  assume "\<not> usable sys (m_events s)"
  then show "Execute_begin sys timeout s = Inl Out_Of_Bounds"
    using assms by (simp add: Execute_begin_def Let_def interest_sets_def add_events_fault)
qed

theorem select_request_sets_witness:
  "Execute_begin (\<lambda>_. 1024) 0
     ((Select_new ([], 0))\<lparr>m_pipe := \<lparr>reader = 5, writer = 4\<rparr>, m_events := [\<lparr>ev_sock = 2000, ev_events = Op_Read\<rparr>]\<rparr>)
   = Inl Out_Of_Bounds"
  using select_request_sets [of "(Select_new ([], 0))\<lparr>m_pipe := \<lparr>reader = 5, writer = 4\<rparr>,
      m_events := [\<lparr>ev_sock = 2000, ev_events = Op_Read\<rparr>]\<rparr>" "\<lambda>_. 1024" 0]
  by (simp add: Select_new_def FD_ok_def usable_def wants_def has_flag_def)

text \<open>
  When \<^verbatim>\<open>select\<close> reports ready sockets, and what was sent to the notification socket can be
  drained, \<^verbatim>\<open>Execute\<close> returns, in the order of registration, every registered socket with an
  operation that is registered and ready, with exactly those operations. A poll that times out,
  or that is interrupted by \<^verbatim>\<open>Stop\<close>, returns a failure with code \<^verbatim>\<open>E_FAILURE\<close>.
\<close>

theorem select_results:
  assumes "m_polling s" and "FD_ok sys (req_notify req)" and "\<forall>ev \<in> set (m_events s). FD_ok sys (ev_sock ev)"
  shows "(\<not> m_shutdown s \<and> 0 < res
        \<and> (if req_notify req \<in> set (reads ready) then SocketPair_Drain n (m_pipe s) (world s) = Some (Inr (Inr (), w))
           else w = world s) \<longrightarrow>
        Execute_end sys n req res ready err s
        = Some (Inr (Inr (ready_events (req_notify req) ready (m_events s)),
            s\<lparr>m_polling := False, m_notify := False, world := w,
              m_results := ready_events (req_notify req) ready (m_events s)\<rparr>)))
    \<and> (m_shutdown s \<or> res = 0 \<longrightarrow>
        Execute_end sys n req res ready err s = Some (Inr (Inl E_FAILURE, s\<lparr>m_polling := False, m_notify := False\<rparr>)))"
  using assms by (auto simp: Execute_end_def FD_ISSET_def collect_eq Let_def SOCKET_ERROR_def)

theorem select_results_witness:
  "Execute_end (\<lambda>_. 1024) sim_network \<lparr>req_notify = 5, req_sets = \<lparr>nfds = 8, reads = [5, 7], writes = [7], errors = []\<rparr>, req_timeout = None\<rparr> 1
     \<lparr>nfds = 8, reads = [7], writes = [], errors = []\<rparr> E_FAILURE
     ((Select_new ([], 0))\<lparr>m_polling := True, m_events := [\<lparr>ev_sock = 7, ev_events = Op_Read OR Op_Write\<rparr>]\<rparr>)
   = Some (Inr (Inr [\<lparr>ev_sock = 7, ev_events = Op_Read\<rparr>],
       (Select_new ([], 0))\<lparr>m_events := [\<lparr>ev_sock = 7, ev_events = Op_Read OR Op_Write\<rparr>],
         m_results := [\<lparr>ev_sock = 7, ev_events = Op_Read\<rparr>]\<rparr>))"
  using select_results [of "(Select_new ([], 0))\<lparr>m_polling := True, m_events := [\<lparr>ev_sock = 7, ev_events = Op_Read OR Op_Write\<rparr>]\<rparr>"
      "\<lambda>_. 1024" "\<lparr>req_notify = 5, req_sets = \<lparr>nfds = 8, reads = [5, 7], writes = [7], errors = []\<rparr>, req_timeout = None\<rparr>" 1
      "\<lparr>nfds = 8, reads = [7], writes = [], errors = []\<rparr>" sim_network "([], 0)" E_FAILURE]
  by (simp add: Select_new_def FD_ok_def ready_events_def ready_ops_def)

end
