(* ===== verification/Select_Machine.thy ===== *)
theory Select_Machine
  imports Select_Service
begin

text \<open>
  The threads around a \<^verbatim>\<open>SelectSocketService\<close>: one thread that polls with \<^verbatim>\<open>Execute\<close> and any number of
  threads that call the other methods. The steps interleave as the mutex allows. \<open>poller\<close> holds the
  request of a poller that is inside \<^verbatim>\<open>select\<close>, \<open>stopping\<close> tells whether a call of \<^verbatim>\<open>Stop\<close> waits
  on \<^verbatim>\<open>m_cond\<close>. No code of the class notifies \<^verbatim>\<open>m_cond\<close>, so a waiting \<^verbatim>\<open>Stop\<close> can only wake up spuriously;
  the parameter \<open>spurious\<close> tells whether that happens.
\<close>

section \<open>Waking the poller\<close>

text \<open>
  \<open>pending s w\<close>: data sent through the socket \<open>s\<close> waits to be read at its other end. Sending
  something leaves data pending, either what was sent or what already fills the buffer.
\<close>

locale wake_network = network_contract N for N :: "'w network" +
  fixes pending :: "Socket \<Rightarrow> 'w \<Rightarrow> bool"
  assumes send_pending: "\<And>s b opt w r w'. Send N s b opt w = Inr (r, w') \<Longrightarrow> s \<noteq> INVALID_SOCKET \<Longrightarrow>
    b \<noteq> [] \<Longrightarrow> pending s w'"

locale wake_kernel =
  fixes sys :: header and host_le :: bool and k :: "'w kernel" and pending :: "Socket \<Rightarrow> 'w \<Rightarrow> bool"
  assumes sys_send_pending: "\<And>s b f w r w'. sys_send k s b f w = (r, w') \<Longrightarrow> b \<noteq> [] \<Longrightarrow> pending s w'"

sublocale wake_kernel \<subseteq> wake_network "standard_network sys host_le k" pending
proof
  fix s b opt w r w'
  assume "Send (standard_network sys host_le k) s b opt w = Inr (r, w')" "s \<noteq> INVALID_SOCKET" "b \<noteq> []"
  then show "pending s w'"
    by (auto simp: standard_network_def Standard_Send_def last_failure_def net_fail_def net_return_def
        split: prod.splits if_splits dest: sys_send_pending)
qed

definition sim_pending :: "Socket \<Rightarrow> sim \<Rightarrow> bool" where
  "sim_pending s w \<longleftrightarrow> 0 < snd w"

interpretation sim_wake: wake_kernel linux_header True sim_kernel sim_pending
  by unfold_locales (auto simp: sim_kernel_def sim_pending_def)

section \<open>Steps\<close>

record 'w select_config =
  svc :: "'w select_service"
  poller :: "select_request option"
  stopping :: bool

inductive select_step ::
  "header \<Rightarrow> 'w network \<Rightarrow> (Socket \<Rightarrow> 'w \<Rightarrow> bool) \<Rightarrow> bool \<Rightarrow> 'w select_config \<Rightarrow> 'w select_config \<Rightarrow> bool"
  for sys n pending spurious where
  add: "Select_Add n k ops (svc c) = Inr (r, s) \<Longrightarrow> select_step sys n pending spurious c (c\<lparr>svc := s\<rparr>)"
| remove: "Select_Remove n k ops (svc c) = Inr (r, s) \<Longrightarrow> select_step sys n pending spurious c (c\<lparr>svc := s\<rparr>)"
| close: "Select_Close n k (svc c) = Inr (r, s) \<Longrightarrow> select_step sys n pending spurious c (c\<lparr>svc := s\<rparr>)"
| notify: "Select_Notify n (svc c) = Inr s \<Longrightarrow> select_step sys n pending spurious c (c\<lparr>svc := s\<rparr>)"
| start: "Select_Start n (svc c) = Inr (r, s) \<Longrightarrow> select_step sys n pending spurious c (c\<lparr>svc := s\<rparr>)"
| poll_refused: "poller c = None \<Longrightarrow> Execute_begin sys timeout (svc c) = Inr (Inl e, s) \<Longrightarrow>
    select_step sys n pending spurious c (c\<lparr>svc := s\<rparr>)"
| poll_begin: "poller c = None \<Longrightarrow> Execute_begin sys timeout (svc c) = Inr (Inr req, s) \<Longrightarrow>
    select_step sys n pending spurious c (c\<lparr>svc := s, poller := Some req\<rparr>)"
| poll_end: "poller c = Some req \<Longrightarrow> Execute_end sys n req res ready err (svc c) = Some (Inr (r, s)) \<Longrightarrow>
    select_step sys n pending spurious c (c\<lparr>svc := s, poller := None\<rparr>)"
| stop_again: "Stop_begin n (svc c) = Inr (None, s) \<Longrightarrow> select_step sys n pending spurious c (c\<lparr>svc := s\<rparr>)"
| stop_now: "Stop_begin n (svc c) = Inr (Some False, s) \<Longrightarrow> Stop_finish n s = Inr s' \<Longrightarrow>
    select_step sys n pending spurious c (c\<lparr>svc := s'\<rparr>)"
| stop_wait: "Stop_begin n (svc c) = Inr (Some True, s) \<Longrightarrow>
    select_step sys n pending spurious c (c\<lparr>svc := s, stopping := True\<rparr>)"
| stop_wake: "spurious \<Longrightarrow> stopping c \<Longrightarrow> \<not> m_polling (svc c) \<Longrightarrow> Stop_finish n (svc c) = Inr s \<Longrightarrow>
    select_step sys n pending spurious c (c\<lparr>svc := s, stopping := False\<rparr>)"
| environment: "(pending (writer (m_pipe (svc c))) (world (svc c)) \<Longrightarrow> pending (writer (m_pipe (svc c))) w) \<Longrightarrow>
    select_step sys n pending spurious c (c\<lparr>svc := (svc c)\<lparr>world := w\<rparr>\<rparr>)"

inductive select_reachable ::
  "header \<Rightarrow> 'w network \<Rightarrow> (Socket \<Rightarrow> 'w \<Rightarrow> bool) \<Rightarrow> bool \<Rightarrow> 'w select_config \<Rightarrow> bool"
  for sys n pending spurious where
  initial: "select_reachable sys n pending spurious \<lparr>svc = Select_new w, poller = None, stopping = False\<rparr>"
| step: "select_reachable sys n pending spurious c \<Longrightarrow> select_step sys n pending spurious c c' \<Longrightarrow>
    select_reachable sys n pending spurious c'"

section \<open>The invariant\<close>

definition poller_ok :: "header \<Rightarrow> (Socket \<Rightarrow> 'w \<Rightarrow> bool) \<Rightarrow> 'w select_service \<Rightarrow> select_request \<Rightarrow> bool" where
  "poller_ok sys pending s req \<longleftrightarrow>
     req_notify req = reader (m_pipe s) \<and> reader (m_pipe s) \<noteq> INVALID_SOCKET
     \<and> (m_shutdown s \<or> interest_sets sys (req_notify req) (m_events s) \<noteq> Inr (req_sets req) \<longrightarrow>
        pending (writer (m_pipe s)) (world s))"

definition machine_inv :: "header \<Rightarrow> (Socket \<Rightarrow> 'w \<Rightarrow> bool) \<Rightarrow> 'w select_config \<Rightarrow> bool" where
  "machine_inv sys pending c \<longleftrightarrow>
     events_ok (m_events (svc c))
     \<and> (writer (m_pipe (svc c)) \<noteq> INVALID_SOCKET \<or> reader (m_pipe (svc c)) = INVALID_SOCKET)
     \<and> (stopping c \<longrightarrow> m_shutdown (svc c))
     \<and> (m_polling (svc c) \<longleftrightarrow> poller c \<noteq> None)
     \<and> (\<forall>req. poller c = Some req \<longrightarrow> poller_ok sys pending (svc c) req)"

text \<open>
  The methods that change the registered operations: they leave the rest of the state alone, and they
  either change nothing or wake the poller.
\<close>

definition same_threads :: "'w select_service \<Rightarrow> 'w select_service \<Rightarrow> bool" where
  "same_threads s s' \<longleftrightarrow> m_pipe s' = m_pipe s \<and> m_polling s' = m_polling s \<and> m_started s' = m_started s"

lemma registration_notifies:
  "Select_Add n k ops s = Inr (r, s') \<Longrightarrow> s' = s \<or> (\<exists>evs. NotifyLocked n (s\<lparr>m_events := evs\<rparr>) = Inr s')"
  "Select_Remove n k ops s = Inr (r, s') \<Longrightarrow> s' = s \<or> (\<exists>evs. NotifyLocked n (s\<lparr>m_events := evs\<rparr>) = Inr s')"
  "Select_Close n k s = Inr (r, s') \<Longrightarrow> s' = s \<or> (\<exists>evs. NotifyLocked n (s\<lparr>m_events := evs\<rparr>) = Inr s')"
  "Select_Notify n s = Inr s' \<Longrightarrow> s' = s \<or> (\<exists>evs. NotifyLocked n (s\<lparr>m_events := evs\<rparr>) = Inr s')"
proof -
  show "Select_Add n k ops s = Inr (r, s') \<Longrightarrow> s' = s \<or> (\<exists>evs. NotifyLocked n (s\<lparr>m_events := evs\<rparr>) = Inr s')"
    by (simp only: Select_Add_def Let_def and_then_Inr_iff split: if_split_asm) blast+
  show "Select_Remove n k ops s = Inr (r, s') \<Longrightarrow> s' = s \<or> (\<exists>evs. NotifyLocked n (s\<lparr>m_events := evs\<rparr>) = Inr s')"
    by (cases "find_event k (m_events s)")
      (simp_all only: Select_Remove_def Let_def and_then_Inr_iff option.case split: if_split_asm, blast+)
  show "Select_Close n k s = Inr (r, s') \<Longrightarrow> s' = s \<or> (\<exists>evs. NotifyLocked n (s\<lparr>m_events := evs\<rparr>) = Inr s')"
    by (cases "find_event k (m_events s)") (auto simp: Select_Close_def and_then_Inr_iff split: if_splits)
  assume "Select_Notify n s = Inr s'"
  then have "NotifyLocked n (s\<lparr>m_events := m_events s\<rparr>) = Inr s'" by (simp add: Select_Notify_def)
  then show "s' = s \<or> (\<exists>evs. NotifyLocked n (s\<lparr>m_events := evs\<rparr>) = Inr s')" by blast
qed

context wake_network
begin

lemma notify_wakes:
  assumes "NotifyLocked N s = Inr s'" and "writer (m_pipe s) \<noteq> INVALID_SOCKET" and "m_polling s"
  shows "pending (writer (m_pipe s)) (world s')"
  using assms
  by (auto simp: NotifyLocked_def Send_plain_def and_then_Inr_iff intro: send_pending)

lemma registration_wakes:
  assumes "Select_Add N k ops s = Inr (r, s') \<or> Select_Remove N k ops s = Inr (r, s')
      \<or> Select_Close N k s = Inr (r, s') \<or> Select_Notify N s = Inr s'"
    and "writer (m_pipe s) \<noteq> INVALID_SOCKET \<or> reader (m_pipe s) = INVALID_SOCKET"
  shows "same_threads s s' \<and> m_shutdown s' = m_shutdown s
    \<and> (s' = s \<or> (m_polling s \<longrightarrow> reader (m_pipe s) \<noteq> INVALID_SOCKET \<longrightarrow> pending (writer (m_pipe s)) (world s')))"
proof -
  have "s' = s \<or> (\<exists>evs. NotifyLocked N (s\<lparr>m_events := evs\<rparr>) = Inr s')"
    using assms(1) by (elim disjE) (drule registration_notifies, assumption)+
  then show ?thesis
  proof
    assume "\<exists>evs. NotifyLocked N (s\<lparr>m_events := evs\<rparr>) = Inr s'"
    then obtain evs where "NotifyLocked N (s\<lparr>m_events := evs\<rparr>) = Inr s'" ..
    from NotifyLocked_fields [OF this] notify_wakes [OF this] show ?thesis
      using assms(2) by (auto simp: same_threads_def)
  qed (simp add: same_threads_def)
qed

lemma registration_inv:
  assumes "Select_Add N k ops (svc c) = Inr (r, s) \<or> Select_Remove N k ops (svc c) = Inr (r, s)
      \<or> Select_Close N k (svc c) = Inr (r, s) \<or> Select_Notify N (svc c) = Inr s"
    and "machine_inv sys pending c"
  shows "machine_inv sys pending (c\<lparr>svc := s\<rparr>)"
proof -
  have "events_ok (m_events s)"
    using assms
    by (auto simp: machine_inv_def Select_Notify_def NotifyLocked_fields
        intro: Select_Add_events(1) Select_Remove_events(1) Select_Close_events(1))
  moreover note registration_wakes [OF assms(1)]
  ultimately show ?thesis
    using assms(2) by (auto simp: machine_inv_def same_threads_def poller_ok_def)
qed

lemma start_inv:
  assumes "Select_Start N (svc c) = Inr (r, s)" and "machine_inv sys pending c"
  shows "machine_inv sys pending (c\<lparr>svc := s\<rparr>)"
proof (cases "m_started (svc c) \<or> m_shutdown (svc c)")
  case True
  with assms show ?thesis by (auto simp: Select_Start_def)
next
  case False
  with assms(1) obtain r' p w where p: "SocketPair_Start N False (m_pipe (svc c)) (world (svc c)) = Inr (r', p, w)"
    and s: "s = (svc c)\<lparr>m_pipe := p, world := w\<rparr> \<or> s = (svc c)\<lparr>m_pipe := p, world := w, m_started := True, m_shutdown := False\<rparr>"
    by (auto simp: Select_Start_def and_then_Inr_iff Let_def split_sum_ex)
  have "writer p \<noteq> INVALID_SOCKET \<or> reader p = INVALID_SOCKET"
    using start_writer [OF p] assms(2) by (auto simp: machine_inv_def)
  moreover have "p = m_pipe (svc c) \<and> w = world (svc c)" if "reader (m_pipe (svc c)) \<noteq> INVALID_SOCKET"
    using p that by (simp add: SocketPair_Start_def)
  ultimately show ?thesis
    using assms(2) s False by (auto simp: machine_inv_def poller_ok_def)
qed

lemma begin_inv:
  assumes "Execute_begin sys timeout (svc c) = Inr (Inr req, s)" and "poller c = None"
    and "machine_inv sys pending c"
  shows "machine_inv sys pending (c\<lparr>svc := s, poller := Some req\<rparr>)"
proof -
  obtain sets where sets: "interest_sets sys (reader (m_pipe (svc c))) (m_events (svc c)) = Inr sets"
    and s: "s = (svc c)\<lparr>m_polling := True\<rparr>" "\<not> m_shutdown (svc c)"
      "req_notify req = reader (m_pipe (svc c))" "req_sets req = sets"
    using assms(1) by (auto simp: Execute_begin_def Let_def and_then_Inr_iff split: if_splits)
  have "reader (m_pipe (svc c)) \<noteq> INVALID_SOCKET"
    using sets by (auto simp: interest_sets_def and_then_Inr_iff FD_SET_def FD_ok_def INVALID_SOCKET_def
        split: if_splits)
  with sets s assms(3) show ?thesis by (simp add: machine_inv_def poller_ok_def)
qed

lemma stop_inv:
  assumes "Stop_begin N (svc c) = Inr (b, s)" and "machine_inv sys pending c"
  shows "b = None \<Longrightarrow> machine_inv sys pending (c\<lparr>svc := s\<rparr>)"
    and "b = Some True \<Longrightarrow> machine_inv sys pending (c\<lparr>svc := s, stopping := True\<rparr>)"
    and "b = Some False \<Longrightarrow> Stop_finish N s = Inr s' \<Longrightarrow> machine_inv sys pending (c\<lparr>svc := s'\<rparr>)"
proof -
  show "b = None \<Longrightarrow> machine_inv sys pending (c\<lparr>svc := s\<rparr>)"
    using assms by (auto simp: Stop_begin_def and_then_Inr_iff split: if_splits)
  have stopped: "events_ok (m_events s) \<and> m_pipe s = m_pipe (svc c) \<and> m_shutdown s
      \<and> (m_polling s \<longleftrightarrow> m_polling (svc c)) \<and> (m_polling s \<longleftrightarrow> b = Some True)
      \<and> (m_polling s \<longrightarrow> writer (m_pipe s) \<noteq> INVALID_SOCKET \<longrightarrow> pending (writer (m_pipe s)) (world s))"
    if "b \<noteq> None"
  proof -
    have n: "NotifyLocked N ((svc c)\<lparr>m_shutdown := True, m_events := [], m_results := []\<rparr>) = Inr s"
      and "m_polling s \<longleftrightarrow> b = Some True"
      using assms(1) that by (auto simp: Stop_begin_def and_then_Inr_iff split: if_splits)
    with NotifyLocked_fields [OF n] notify_wakes [OF n] show ?thesis by (simp add: events_ok_def)
  qed
  show "machine_inv sys pending (c\<lparr>svc := s, stopping := True\<rparr>)" if "b = Some True"
    using stopped that assms(2) by (auto simp: machine_inv_def poller_ok_def)
  show "machine_inv sys pending (c\<lparr>svc := s'\<rparr>)" if "b = Some False" and f: "Stop_finish N s = Inr s'"
  proof -
    obtain w where "s' = s\<lparr>m_pipe := \<lparr>reader = INVALID_SOCKET, writer = INVALID_SOCKET\<rparr>, world := w\<rparr>"
      using f by (auto simp: Stop_finish_def and_then_Inr_iff dest!: stop_invalid)
    with stopped that(1) assms(2) show ?thesis by (auto simp: machine_inv_def)
  qed
qed

lemma end_frame:
  "Execute_end sys N req res ready err s = Some (Inr (r, s')) \<Longrightarrow>
     m_events s' = m_events s \<and> m_pipe s' = m_pipe s \<and> m_shutdown s' = m_shutdown s \<and> \<not> m_polling s'"
  by (auto simp: Execute_end_def Let_def and_then_Inr_iff split: if_splits option.split_asm sum.split_asm)

lemma step_inv:
  assumes "select_step sys N pending spurious c c'" and "machine_inv sys pending c"
  shows "machine_inv sys pending c'"
  using assms
proof (induction rule: select_step.induct)
  case (poll_refused c timeout e s)
  then show ?case by (auto simp: Execute_begin_def Let_def and_then_Inr_iff split: if_splits)
next
  case (poll_end c req res ready err r s)
  then show ?case using end_frame [OF poll_end.hyps(2)] by (simp add: machine_inv_def)
next
  case (stop_wake c s)
  then show ?case
    by (auto simp: machine_inv_def poller_ok_def Stop_finish_def and_then_Inr_iff dest!: stop_invalid)
next
  case (environment c w)
  then show ?case by (auto simp: machine_inv_def poller_ok_def)
qed (auto intro: registration_inv start_inv begin_inv stop_inv)

lemma reachable_inv: "select_reachable sys N pending spurious c \<Longrightarrow> machine_inv sys pending c"
proof (induction rule: select_reachable.induct)
  case (initial w)
  show ?case by (simp add: machine_inv_def Select_new_def SocketPair_default_def events_ok_def)
next
  case (step c c')
  then show ?case by (blast intro: step_inv)
qed

end

context wake_kernel
begin

lemmas standard_reachable_inv = reachable_inv

end

section \<open>Runs\<close>

lemma stopping_stays:
  assumes "(select_step sys n pending False)\<^sup>*\<^sup>* c c'" and "stopping c"
  shows "stopping c'"
  using assms
proof (induction rule: rtranclp_induct)
  case (step c' c'')
  from step.hyps(2) step.IH [OF step.prems] show ?case by cases auto
qed

lemma add_after_stop:
  assumes "m_shutdown s" and "Select_Add n k ops s = Inr (Inr (), s')" and "k \<noteq> INVALID_SOCKET" and "ops \<noteq> 0"
  shows "Execute_begin sys timeout s' = Inl Assert_Failed" and "Select_destroy s' = Inl Assert_Failed"
proof -
  obtain evs where n: "NotifyLocked n (s\<lparr>m_events := evs\<rparr>) = Inr s'" and "evs \<noteq> []"
  proof (cases "find_event k (m_events s)")
    case None
    with assms(2-) show thesis by (auto simp: Select_Add_def and_then_Inr_iff intro!: that)
  next
    case (Some i)
    then have "m_events s \<noteq> []" by (auto dest: find_event_Some)
    with Some assms(2-) show thesis
      by (auto simp: Select_Add_def Let_def and_then_Inr_iff intro!: that split: if_splits)
  qed
  with NotifyLocked_fields [OF n] assms(1)
  have "m_shutdown s'" "m_events s' \<noteq> []" by simp_all
  then show "Execute_begin sys timeout s' = Inl Assert_Failed" by (simp add: Execute_begin_def)
  show "Select_destroy s' = Inl Assert_Failed"
    using \<open>m_events s' \<noteq> []\<close> by (cases "m_polling s'") (auto simp: Select_destroy_def \<open>m_shutdown s'\<close>)
qed

text \<open>A run on the simulated system: start, poll, and one of the other threads acts meanwhile.\<close>

definition sim_header :: header where
  "sim_header name = (if name = ''FD_SETSIZE'' then 1024 else linux_header name)"

definition sim_request :: select_request where
  "sim_request = \<lparr>req_notify = 5, req_sets = \<lparr>nfds = 6, reads = [5], writes = [], errors = []\<rparr>, req_timeout = None\<rparr>"

definition sim_polling :: "sim select_service" where
  "sim_polling = (Select_new ([5, 4], 0))\<lparr>m_pipe := \<lparr>reader = 5, writer = 4\<rparr>, m_started := True, m_polling := True\<rparr>"

lemma sim_started:
  "Select_Start sim_network (Select_new ([], 0)) = Inr (Inr (), sim_polling\<lparr>m_polling := False\<rparr>)"
  by (simp add: Select_Start_def Select_new_def sim_start SocketPair_default_def [symmetric] sim_polling_def Let_def)

lemma sim_poll:
  "Execute_begin sim_header 0 (sim_polling\<lparr>m_polling := False\<rparr>) = Inr (Inr sim_request, sim_polling)"
  by (simp add: Execute_begin_def sim_polling_def Select_new_def interest_sets_def FD_SET_def FD_ok_def
      sim_header_def sim_request_def select_timeout_def Let_def)

lemma sim_reachable:
  "select_reachable sim_header sim_network sim_pending sp
     \<lparr>svc = sim_polling, poller = Some sim_request, stopping = False\<rparr>"
proof -
  let ?c = "\<lambda>s p. \<lparr>svc = s, poller = p, stopping = False\<rparr>"
  have "select_reachable sim_header sim_network sim_pending sp (?c (Select_new ([], 0)) None)"
    by (rule select_reachable.initial)
  from select_reachable.step [OF this select_step.start, of _ "sim_polling\<lparr>m_polling := False\<rparr>"] sim_started
  have "select_reachable sim_header sim_network sim_pending sp (?c (sim_polling\<lparr>m_polling := False\<rparr>) None)"
    by simp
  from select_reachable.step [OF this select_step.poll_begin, of 0 sim_request sim_polling] sim_poll
  show ?thesis by simp
qed

lemma sim_stop:
  "Stop_begin sim_network sim_polling
     = Inr (Some True, sim_polling\<lparr>m_shutdown := True, world := ([5, 4], 5)\<rparr>)"
  by (simp add: Stop_begin_def sim_polling_def Select_new_def NotifyLocked_def Send_plain_def standard_defs
      sim_kernel_def)

lemma sim_stopping:
  "select_reachable sim_header sim_network sim_pending sp
     \<lparr>svc = sim_polling\<lparr>m_shutdown := True, m_polling := False, world := ([5, 4], 5)\<rparr>, poller = None, stopping = True\<rparr>"
proof -
  let ?s = "sim_polling\<lparr>m_shutdown := True, world := ([5, 4], 5)\<rparr>"
  have "Execute_end sim_header sim_network sim_request 1 \<lparr>nfds = 6, reads = [5], writes = [], errors = []\<rparr> E_FAILURE ?s
      = Some (Inr (Inl E_FAILURE, ?s\<lparr>m_polling := False, m_notify := False\<rparr>))"
    by (simp add: Execute_end_def sim_polling_def Let_def)
  moreover have "?s\<lparr>m_polling := False, m_notify := False\<rparr> = ?s\<lparr>m_polling := False\<rparr>"
    by (simp add: sim_polling_def Select_new_def)
  moreover from select_reachable.step [OF sim_reachable select_step.stop_wait, of ?s] sim_stop
  have "select_reachable sim_header sim_network sim_pending sp
      \<lparr>svc = ?s, poller = Some sim_request, stopping = True\<rparr>"
    by simp
  ultimately show ?thesis
    using select_reachable.step [OF _ select_step.poll_end, of _ _ _ sp
        "\<lparr>svc = ?s, poller = Some sim_request, stopping = True\<rparr>" sim_request 1
        "\<lparr>nfds = 6, reads = [5], writes = [], errors = []\<rparr>" E_FAILURE "Inl E_FAILURE"]
    by simp
qed

section \<open>Properties\<close>





end
