(* ===== verification/EPoll_Service.thy ===== *)
theory EPoll_Service
  imports Socket_Service
begin

text \<open>
  The class \<^verbatim>\<open>EPollSocketService\<close> of \<^verbatim>\<open>platforms/linux/EPollSocketService.cpp\<close>. The state is laid out as for
  the select service; \<^verbatim>\<open>m_events\<close> is an unordered map, here a partial function. \<^verbatim>\<open>Execute\<close> gives the
  mutex up around \<^verbatim>\<open>epoll_wait\<close> and is modelled as \<open>EPoll_Execute_begin\<close> and \<open>EPoll_Execute_end\<close>; what
  \<^verbatim>\<open>epoll_wait\<close> returns is an argument of the second.

  The epoll calls are a parameter like the other system calls, a record \<open>'w epoll\<close>; \<open>ep_failure\<close> is
  the code of \<^verbatim>\<open>GetLastNetworkFailure\<close>.
\<close>

section \<open>Model\<close>

datatype ctl = Ctl_Add | Ctl_Mod | Ctl_Del

record 'w epoll =
  ep_create :: "'w \<Rightarrow> int \<times> 'w"
  ep_ctl :: "int \<Rightarrow> ctl \<Rightarrow> Socket \<Rightarrow> u32 \<Rightarrow> 'w \<Rightarrow> int \<times> 'w"
  ep_close :: "int \<Rightarrow> 'w \<Rightarrow> int \<times> 'w"
  ep_failure :: "'w \<Rightarrow> error_code"

record 'w epoll_service =
  ep_pipe :: SocketPair
  ep_polling :: bool
  ep_shutdown :: bool
  ep_started :: bool
  ep_poll :: int
  ep_results :: "SocketEvent list"
  ep_events :: "Socket \<rightharpoonup> SocketOperation"
  ep_world :: 'w

definition EPoll_new :: "'w \<Rightarrow> 'w epoll_service" where
  "EPoll_new w = \<lparr>ep_pipe = SocketPair_default, ep_polling = False, ep_shutdown = False, ep_started = False,
     ep_poll = INVALID_SOCKET, ep_results = [], ep_events = Map.empty, ep_world = w\<rparr>"

definition FromSocketEvents :: "header \<Rightarrow> u32 \<Rightarrow> SocketOperation" where
  "FromSocketEvents sys events =
     (let inn = of_int (sys ''EPOLLIN''); out = of_int (sys ''EPOLLOUT''); err = of_int (sys ''EPOLLERR'')
      in (if events AND inn = inn then Op_Read else 0)
         OR (if events AND out = out then Op_Write else 0)
         OR (if events AND err = err then Op_Error else 0))"

definition ToEPollEvents :: "header \<Rightarrow> SocketOperation \<Rightarrow> u32" where
  "ToEPollEvents sys events =
     (if has_flag events Op_Read then of_int (sys ''EPOLLIN'') else 0)
     OR (if has_flag events Op_Write then of_int (sys ''EPOLLOUT'') else 0)
     OR (if has_flag events Op_Error then of_int (sys ''EPOLLERR'') else 0)"

text \<open>
  \<^verbatim>\<open>epoll_ctl\<close> on the service's descriptor: the failure code, if the call fails.
\<close>

definition control ::
  "'w epoll \<Rightarrow> ctl \<Rightarrow> Socket \<Rightarrow> u32 \<Rightarrow> 'w epoll_service \<Rightarrow> error_code option \<times> 'w epoll_service" where
  "control e op sock events s =
     (case ep_ctl e (ep_poll s) op sock events (ep_world s) of (r, w) \<Rightarrow>
        (if r = SOCKET_ERROR then Some (ep_failure e w) else None, s\<lparr>ep_world := w\<rparr>))"

text \<open>The checks that \<^verbatim>\<open>Add\<close>, \<^verbatim>\<open>Remove\<close> and \<^verbatim>\<open>Close\<close> start with.\<close>

definition guarded ::
  "Socket \<Rightarrow> 'w epoll_service \<Rightarrow> (unit result \<times> 'w epoll_service) \<Rightarrow> (unit result \<times> 'w epoll_service) exec" where
  "guarded sock s body =
     (if ep_shutdown s then Inr (Inl E_FAILURE, s)
      else if sock = INVALID_SOCKET then Inr (Inl E_INVALID_ARGUMENT, s)
      else if ep_poll s = INVALID_SOCKET then Inr (Inl E_NOT_INITIALIZED, s)
      else Inr body)"

definition EPoll_Add ::
  "header \<Rightarrow> 'w epoll \<Rightarrow> Socket \<Rightarrow> SocketOperation \<Rightarrow> 'w epoll_service \<Rightarrow> (unit result \<times> 'w epoll_service) exec" where
  "EPoll_Add sys e sock events s =
     guarded sock s
       (if events = Op_None then (Inr (), s)
        else case ep_events s sock of
          Some old \<Rightarrow>
            (let ops = (if old OR events \<noteq> events then old OR events else old);
                 s = s\<lparr>ep_events := (ep_events s)(sock \<mapsto> ops)\<rparr>
             in case control e Ctl_Mod sock (ToEPollEvents sys ops) s of
                  (Some f, s) \<Rightarrow> (Inl f, s)
                | (None, s) \<Rightarrow> (Inr (), s))
        | None \<Rightarrow>
            (case control e Ctl_Add sock (ToEPollEvents sys events) s of
               (Some f, s) \<Rightarrow> (Inl f, s)
             | (None, s) \<Rightarrow> (Inr (), s\<lparr>ep_events := (ep_events s)(sock \<mapsto> events)\<rparr>)))"

definition EPoll_Close ::
  "'w epoll \<Rightarrow> Socket \<Rightarrow> 'w epoll_service \<Rightarrow> (unit result \<times> 'w epoll_service) exec" where
  "EPoll_Close e sock s =
     guarded sock s
       (case ep_events s sock of
          Some _ \<Rightarrow>
            (case control e Ctl_Del sock 0 s of
               (Some f, s) \<Rightarrow> (Inl f, s)
             | (None, s) \<Rightarrow> (Inr (), s\<lparr>ep_events := (ep_events s)(sock := None)\<rparr>))
        | None \<Rightarrow> (Inl E_NOT_FOUND, s))"

definition EPoll_Remove ::
  "header \<Rightarrow> 'w epoll \<Rightarrow> Socket \<Rightarrow> SocketOperation \<Rightarrow> 'w epoll_service \<Rightarrow> (unit result \<times> 'w epoll_service) exec" where
  "EPoll_Remove sys e sock events s =
     guarded sock s
       (if events = Op_None then (Inr (), s)
        else case ep_events s sock of
          Some old \<Rightarrow>
            if old AND events \<noteq> Op_None then
              (let ops = old AND NOT events;
                   ops = (if ops AND Op_Error = Op_Error then Op_None else ops);
                   s = s\<lparr>ep_events := (ep_events s)(sock \<mapsto> ops)\<rparr>
               in if ops = Op_None then
                    (case control e Ctl_Del sock 0 s of
                       (Some f, s) \<Rightarrow> (Inl f, s)
                     | (None, s) \<Rightarrow> (Inr (), s\<lparr>ep_events := (ep_events s)(sock := None)\<rparr>))
                  else
                    (case control e Ctl_Mod sock (ToEPollEvents sys ops) s of
                       (Some f, s) \<Rightarrow> (Inl f, s)
                     | (None, s) \<Rightarrow> (Inr (), s)))
            else (Inr (), s)
        | None \<Rightarrow> (Inl E_NOT_FOUND, s))"

text \<open>\<^verbatim>\<open>NotifyLocked\<close> sends a length of \<^verbatim>\<open>writeSize\<close>, which is 0.\<close>

definition EPoll_Notify :: "'w network \<Rightarrow> 'w epoll_service \<Rightarrow> 'w epoll_service exec" where
  "EPoll_Notify n s =
     (if \<not> ep_polling s then Inr s
      else let data = [0]; writeSize = 0
        in and_then (Send_plain n (writer (ep_pipe s)) (take writeSize data) (ep_world s))
          (\<lambda>(_, w). Inr (s\<lparr>ep_world := w\<rparr>)))"

definition EPoll_Start ::
  "header \<Rightarrow> 'w network \<Rightarrow> 'w epoll \<Rightarrow> 'w epoll_service \<Rightarrow> (unit result \<times> 'w epoll_service) exec" where
  "EPoll_Start sys n e s =
     (if ep_poll s \<noteq> INVALID_SOCKET then Inr (Inl E_NOT_SUPPORTED, s)
      else if ep_started s \<or> ep_shutdown s then Inr (Inl E_FAILURE, s)
      else and_then (SocketPair_Start n False (ep_pipe s) (ep_world s)) (\<lambda>(r, p, w).
        let s = s\<lparr>ep_pipe := p, ep_world := w\<rparr>
        in case r of Inl f \<Rightarrow> Inr (Inl f, s)
        | Inr _ \<Rightarrow>
            (case ep_create e w of (poll, w) \<Rightarrow>
               let s = s\<lparr>ep_poll := poll, ep_world := w\<rparr>
               in if poll = INVALID_SOCKET then Inr (Inl (ep_failure e w), s)
                  else and_then
                    (EPoll_Add sys e (reader (ep_pipe s)) (Op_Read OR Op_Error)
                       (s\<lparr>ep_shutdown := False, ep_started := True\<rparr>))
                    (\<lambda>(r, s). case r of Inl _ \<Rightarrow> Inr (Inl (ep_failure e (ep_world s)), s)
                       | Inr _ \<Rightarrow> Inr (Inr (), s)))))"

definition EPoll_Stop :: "'w network \<Rightarrow> 'w epoll \<Rightarrow> 'w epoll_service \<Rightarrow> 'w epoll_service exec" where
  "EPoll_Stop n e s =
     (if ep_shutdown s then Inr s
      else and_then (SocketPair_Stop n (ep_pipe s) (ep_world s)) (\<lambda>(p, w).
        case ep_close e (ep_poll s) w of (_, w) \<Rightarrow>
          Inr (s\<lparr>ep_shutdown := True, ep_pipe := p, ep_events := Map.empty, ep_results := [], ep_world := w\<rparr>)))"

definition EPoll_destroy :: "'w epoll_service \<Rightarrow> unit exec" where
  "EPoll_destroy s =
     and_then
       (if ep_started s
        then and_then (fusion_assert (ep_shutdown s)) (\<lambda>_. fusion_assert (\<not> ep_polling s))
        else Inr ())
       (\<lambda>_. and_then (fusion_assert (ep_events s = Map.empty)) (\<lambda>_. fusion_assert (ep_results s = [])))"

text \<open>The wait of \<^verbatim>\<open>epoll_wait\<close> in milliseconds: a timeout in nanoseconds, rounded towards 0 and cast to \<^verbatim>\<open>int\<close>.\<close>

definition epoll_timeout :: "int \<Rightarrow> int" where
  "epoll_timeout timeout =
     sint (word_of_int (if timeout \<ge> 0 then timeout div 1000000 else - (- timeout div 1000000)) :: u32)"

definition EPoll_Execute_begin :: "int \<Rightarrow> 'w epoll_service \<Rightarrow> ((error_code + int) \<times> 'w epoll_service) exec" where
  "EPoll_Execute_begin timeout s =
     (if ep_shutdown s then and_then (fusion_assert (ep_events s = Map.empty)) (\<lambda>_. Inr (Inl E_CANCELLED, s))
      else
        and_then (fusion_assert (ep_events s \<noteq> Map.empty)) (\<lambda>_.
        and_then (fusion_assert (\<not> ep_polling s)) (\<lambda>_.
        Inr (Inr (epoll_timeout timeout), s\<lparr>ep_polling := True\<rparr>))))"

text \<open>The loop over the reported events: it drains the pair when the notification socket is among them.\<close>

fun epoll_loop ::
  "header \<Rightarrow> 'w network \<Rightarrow> SocketPair \<Rightarrow> (Socket \<times> u32) list \<Rightarrow> SocketEvent list \<Rightarrow> 'w
     \<Rightarrow> (unit result \<times> SocketEvent list \<times> 'w) exec option" where
  "epoll_loop sys n p [] results w = Some (Inr (Inr (), results, w))"
| "epoll_loop sys n p ((sock, bits) # evs) results w =
     (if sock = reader p then
        (case SocketPair_Drain n p w of
           None \<Rightarrow> None
         | Some (Inl f) \<Rightarrow> Some (Inl f)
         | Some (Inr (Inl f, w)) \<Rightarrow> Some (Inr (Inl f, results, w))
         | Some (Inr (Inr _, w)) \<Rightarrow> epoll_loop sys n p evs results w)
      else
        (let forward = FromSocketEvents sys bits
         in epoll_loop sys n p evs
              (if forward \<noteq> Op_None then results @ [\<lparr>ev_sock = sock, ev_events = forward\<rparr>] else results) w))"

text \<open>\<open>res\<close> is the result of \<^verbatim>\<open>epoll_wait\<close> and \<open>reported\<close> its array.\<close>

definition EPoll_Execute_end ::
  "header \<Rightarrow> 'w network \<Rightarrow> 'w epoll \<Rightarrow> int \<Rightarrow> (Socket \<times> u32) list \<Rightarrow> 'w epoll_service
     \<Rightarrow> (SocketEvent list result \<times> 'w epoll_service) exec option" where
  "EPoll_Execute_end sys n e res reported s =
     (if \<not> ep_polling s then Some (Inl Assert_Failed)
      else
        let s = s\<lparr>ep_polling := False\<rparr>
        in if ep_shutdown s then Some (Inr (Inr [], s))
           else if res = SOCKET_ERROR then Some (Inr (Inl (ep_failure e (ep_world s)), s))
           else if res = 0 then Some (Inr (Inr [], s))
           else
             (case epoll_loop sys n (ep_pipe s) (take (nat res) reported) [] (ep_world s) of
                None \<Rightarrow> None
              | Some (Inl f) \<Rightarrow> Some (Inl f)
              | Some (Inr (Inl f, results, w)) \<Rightarrow> Some (Inr (Inl f, s\<lparr>ep_results := results, ep_world := w\<rparr>))
              | Some (Inr (Inr _, results, w)) \<Rightarrow>
                  Some (Inr (Inr results, s\<lparr>ep_results := results, ep_world := w\<rparr>))))"

section \<open>Lemmas\<close>

definition ep_interest :: "'w epoll_service \<Rightarrow> Socket \<Rightarrow> SocketOperation" where
  "ep_interest s sock = (case ep_events s sock of Some ops \<Rightarrow> ops | None \<Rightarrow> 0)"

definition ep_ok :: "'w epoll_service \<Rightarrow> bool" where
  "ep_ok s \<longleftrightarrow> (\<forall>sock. ep_events s sock \<noteq> Some 0)"

lemma ep_interest_0: "ep_ok s \<Longrightarrow> ep_interest s sock = 0 \<longleftrightarrow> ep_events s sock = None"
  by (auto simp: ep_interest_def ep_ok_def split: option.splits)

text \<open>What \<^verbatim>\<open>Remove\<close> leaves of the operations \<open>old\<close>: nothing, when errors are still among them.\<close>

definition remaining_ops :: "SocketOperation \<Rightarrow> SocketOperation \<Rightarrow> SocketOperation" where
  "remaining_ops old ops =
     (if old AND ops = 0 then old
      else if (old AND NOT ops) AND Op_Error = Op_Error then 0 else old AND NOT ops)"

text \<open>An operation that succeeds, as a change of the map and one call of \<^verbatim>\<open>epoll_ctl\<close> that succeeds.\<close>

lemma EPoll_Add_success:
  assumes "EPoll_Add sys e k ops s = Inr (Inr u, s')" and "ops \<noteq> 0" and "ep_ok s"
  obtains r w where "s' = s\<lparr>ep_events := (ep_events s)(k \<mapsto>
        (let old = ep_interest s k in if old = 0 then ops else if old OR ops \<noteq> ops then old OR ops else old)),
      ep_world := w\<rparr>"
    and "ep_ctl e (ep_poll s) (if ep_events s k = None then Ctl_Add else Ctl_Mod) k
      (ToEPollEvents sys (the (ep_events s' k))) (ep_world s) = (r, w)" and "r \<noteq> -1"
proof (cases "ep_events s k")
  case None
  with assms show thesis
    by (auto simp: EPoll_Add_def guarded_def control_def ep_interest_def Let_def SOCKET_ERROR_def
        split: if_splits prod.splits intro!: that)
next
  case (Some old)
  with assms(3) have "old \<noteq> 0" by (auto simp: ep_ok_def)
  with Some assms show thesis
    by (auto simp: EPoll_Add_def guarded_def control_def ep_interest_def Let_def SOCKET_ERROR_def
        split: if_splits prod.splits intro!: that)
qed

lemma EPoll_Remove_success:
  assumes "EPoll_Remove sys e k ops s = Inr (Inr u, s')" and "ep_ok s"
  shows "s' = s \<and> ep_interest s k AND ops = 0
    \<or> (\<exists>r w. let new = remaining_ops (ep_interest s k) ops in
        s' = s\<lparr>ep_events := (ep_events s)(k := if new = 0 then None else Some new), ep_world := w\<rparr>
        \<and> ep_events s k \<noteq> None \<and> r \<noteq> -1
        \<and> ep_ctl e (ep_poll s) (if new = 0 then Ctl_Del else Ctl_Mod) k (if new = 0 then 0 else ToEPollEvents sys new)
            (ep_world s) = (r, w))"
proof (cases "ep_events s k")
  case None
  with assms show ?thesis
    by (auto simp: EPoll_Remove_def guarded_def ep_interest_def split: if_splits)
next
  case (Some old)
  show ?thesis
  proof (cases "old AND ops = 0")
    case True
    with Some assms show ?thesis
      by (auto simp: EPoll_Remove_def guarded_def ep_interest_def split: if_splits)
  next
    case False
    then have "ops \<noteq> 0" by auto
    with False Some assms show ?thesis
      by (auto simp: EPoll_Remove_def guarded_def control_def ep_interest_def remaining_ops_def Let_def SOCKET_ERROR_def
          split: if_splits prod.splits)
  qed
qed

lemma EPoll_Close_success:
  assumes "EPoll_Close e k s = Inr (Inr u, s')"
  obtains r w where "s' = s\<lparr>ep_events := (ep_events s)(k := None), ep_world := w\<rparr>" and "ep_events s k \<noteq> None"
    and "ep_ctl e (ep_poll s) Ctl_Del k 0 (ep_world s) = (r, w)" and "r \<noteq> -1"
  using assms
  by (auto simp: EPoll_Close_def guarded_def control_def SOCKET_ERROR_def
      split: if_splits option.splits prod.splits intro!: that)

lemma ep_interest_update:
  "ep_interest (s\<lparr>ep_events := (ep_events s)(k := x), ep_world := w\<rparr>) j
     = (if j = k then (case x of Some ops \<Rightarrow> ops | None \<Rightarrow> 0) else ep_interest s j)"
  by (simp add: ep_interest_def)

lemma ep_ok_update:
  "ep_ok s \<Longrightarrow> x \<noteq> Some 0 \<Longrightarrow> ep_ok (s\<lparr>ep_events := (ep_events s)(k := x), ep_world := w\<rparr>)"
  by (auto simp: ep_ok_def)

lemma EPoll_Add_none: "EPoll_Add sys e k 0 s = Inr (Inr u, s') \<Longrightarrow> s' = s"
  by (auto simp: EPoll_Add_def guarded_def split: if_splits)

lemma EPoll_Add_map:
  assumes "EPoll_Add sys e k ops s = Inr (Inr u, s')" and "ops \<noteq> 0" and "ep_ok s"
  obtains r w where "s' = s\<lparr>ep_events := (ep_events s)(k \<mapsto> add_ops (ep_interest s k) ops), ep_world := w\<rparr>"
    and "ep_ctl e (ep_poll s) (if ep_events s k = None then Ctl_Add else Ctl_Mod) k
      (ToEPollEvents sys (add_ops (ep_interest s k) ops)) (ep_world s) = (r, w)" and "r \<noteq> -1"
  by (rule EPoll_Add_success [OF assms]) (auto simp: add_ops_def Let_def intro!: that)

lemma remaining_ops_eq:
  "remaining_ops old ops
     = (if old AND ops \<noteq> 0 \<and> has_flag (old AND NOT ops) Op_Error then 0 else old AND NOT ops)"
proof -
  have "old AND ops = 0 \<Longrightarrow> old AND NOT ops = old"
    by (auto simp: bit_eq_iff [of _ old] bit_eq_iff [of _ "0 :: byte"] bit_simps)
  then show ?thesis by (simp add: remaining_ops_def error_flag_is)
qed

definition stored_ops :: "SocketOperation \<Rightarrow> SocketOperation option" where
  "stored_ops ops = (if ops = 0 then None else Some ops)"

lemma stored_ops_simps [simp]:
  "stored_ops ops \<noteq> Some 0" "(case stored_ops ops of Some x \<Rightarrow> x | None \<Rightarrow> 0) = ops"
  by (simp_all add: stored_ops_def)

lemma EPoll_Remove_map:
  assumes "EPoll_Remove sys e k ops s = Inr (Inr u, s')" and "ep_ok s"
  shows "s' = s \<and> remaining_ops (ep_interest s k) ops = ep_interest s k
    \<or> (\<exists>w. s' = s\<lparr>ep_events := (ep_events s)(k := stored_ops (remaining_ops (ep_interest s k) ops)), ep_world := w\<rparr>)"
  using EPoll_Remove_success [OF assms] unfolding Let_def stored_ops_def
  by (elim disjE exE conjE) (simp add: remaining_ops_def, blast)

interpretation epoll: interest_service ep_interest ep_ok "EPoll_Add sys e" "EPoll_Remove sys e" "EPoll_Close e" for sys e
proof
  fix s k ops u s' j
  assume ok: "ep_ok s" and add: "EPoll_Add sys e k ops s = Inr (Inr u, s')"
  have *: "ep_ok s' \<and> (j \<noteq> k \<longrightarrow> ep_interest s' j = ep_interest s j) \<and> (ep_interest s k = 0 \<longrightarrow> ep_interest s' k = ops)" for j
  proof (cases "ops = 0")
    case True
    with add ok show ?thesis by (auto dest: EPoll_Add_none)
  next
    case False
    obtain w where s': "s' = s\<lparr>ep_events := (ep_events s)(k \<mapsto> add_ops (ep_interest s k) ops), ep_world := w\<rparr>"
      using EPoll_Add_map [OF add False ok] by blast
    show ?thesis
      unfolding s' by (simp add: ep_interest_update ep_ok_update ok add_ops_not_0 False) (simp add: add_ops_eq)
  qed
  then show "ep_ok s'" "ep_interest s k = 0 \<Longrightarrow> ep_interest s' k = ops" by blast+
  from * show "j \<noteq> k \<Longrightarrow> ep_interest s' j = ep_interest s j" by blast
next
  fix s k ops u s' j
  assume ok: "ep_ok s" and remove: "EPoll_Remove sys e k ops s = Inr (Inr u, s')"
  have new: "remaining_ops old ops AND ops = 0 \<and> remaining_ops old ops AND NOT old = 0" for old
    by (auto simp: remaining_ops_def bit_eq_iff [of _ "0 :: byte"] bit_simps)
  have *: "ep_ok s' \<and> (j \<noteq> k \<longrightarrow> ep_interest s' j = ep_interest s j)
      \<and> ep_interest s' k = remaining_ops (ep_interest s k) ops" for j
    using EPoll_Remove_map [OF remove ok] ok by (auto simp: ep_interest_update ep_ok_update)
  then show "ep_ok s'" "j \<noteq> k \<Longrightarrow> ep_interest s' j = ep_interest s j" by blast+
  from * new show "ep_interest s' k AND ops = 0 \<and> ep_interest s' k AND NOT (ep_interest s k) = 0" by simp
next
  fix s k u s' j
  assume ok: "ep_ok s" and "EPoll_Close e k s = Inr (Inr u, s')"
  then obtain w where s': "s' = s\<lparr>ep_events := (ep_events s)(k := None), ep_world := w\<rparr>"
    by (blast elim: EPoll_Close_success)
  have *: "ep_ok s' \<and> (j \<noteq> k \<longrightarrow> ep_interest s' j = ep_interest s j) \<and> ep_interest s' k = 0" for j
    unfolding s' by (simp add: ep_interest_update ep_ok_update ok)
  then show "ep_ok s'" "j \<noteq> k \<Longrightarrow> ep_interest s' j = ep_interest s j" "ep_interest s' k = 0" by blast+
qed

section \<open>The kernel's interest list\<close>

text \<open>The interest list holds what the service has in \<^verbatim>\<open>m_events\<close>.\<close>

definition agrees :: "(int \<Rightarrow> 'w \<Rightarrow> Socket \<rightharpoonup> u32) \<Rightarrow> header \<Rightarrow> 'w epoll_service \<Rightarrow> bool" where
  "agrees watch sys s \<longleftrightarrow> watch (ep_poll s) (ep_world s) = map_option (ToEPollEvents sys) \<circ> ep_events s"

text \<open>
  What the operating system documents of \<^verbatim>\<open>epoll_ctl\<close>: \<open>watch fd w\<close> is the interest list of the
  instance \<open>fd\<close>. \<^verbatim>\<open>EPOLL_CTL_ADD\<close> wants a descriptor that is not on it, the other two one that is; a call
  that fails leaves the list as it was.
\<close>

locale epoll_kernel =
  fixes e :: "'w epoll" and watch :: "int \<Rightarrow> 'w \<Rightarrow> Socket \<rightharpoonup> u32"
  assumes ctl_add: "\<And>fd k ev w r w'. ep_ctl e fd Ctl_Add k ev w = (r, w') \<Longrightarrow> r \<noteq> -1 \<Longrightarrow>
      watch fd w k = None \<and> watch fd w' = (watch fd w)(k \<mapsto> ev)"
    and ctl_mod: "\<And>fd k ev w r w'. ep_ctl e fd Ctl_Mod k ev w = (r, w') \<Longrightarrow> r \<noteq> -1 \<Longrightarrow>
      watch fd w k \<noteq> None \<and> watch fd w' = (watch fd w)(k \<mapsto> ev)"
    and ctl_del: "\<And>fd k ev w r w'. ep_ctl e fd Ctl_Del k ev w = (r, w') \<Longrightarrow> r \<noteq> -1 \<Longrightarrow>
      watch fd w k \<noteq> None \<and> watch fd w' = (watch fd w)(k := None)"
    and ctl_fails: "\<And>fd op k ev w w'. ep_ctl e fd op k ev w = (-1, w') \<Longrightarrow> watch fd w' = watch fd w"
begin

lemma agrees_update:
  "agrees watch sys s \<Longrightarrow> watch (ep_poll s) w = (watch (ep_poll s) (ep_world s))(k := map_option (ToEPollEvents sys) x) \<Longrightarrow>
    agrees watch sys (s\<lparr>ep_events := (ep_events s)(k := x), ep_world := w\<rparr>)"
  by (auto simp: agrees_def)

lemma add_agrees:
  assumes "agrees watch sys s" and "ep_ok s" and "ops \<noteq> 0" and "EPoll_Add sys e k ops s = Inr (Inr u, s')"
  shows "agrees watch sys s'"
proof -
  obtain r w where s': "s' = s\<lparr>ep_events := (ep_events s)(k \<mapsto> add_ops (ep_interest s k) ops), ep_world := w\<rparr>"
    and ctl: "ep_ctl e (ep_poll s) (if ep_events s k = None then Ctl_Add else Ctl_Mod) k
      (ToEPollEvents sys (add_ops (ep_interest s k) ops)) (ep_world s) = (r, w)" and r: "r \<noteq> -1"
    using EPoll_Add_map [OF assms(4,3,2)] by blast
  have "watch (ep_poll s) w
      = (watch (ep_poll s) (ep_world s))(k \<mapsto> ToEPollEvents sys (add_ops (ep_interest s k) ops))"
    using ctl_add [OF _ r] ctl_mod [OF _ r] ctl by (cases "ep_events s k = None") auto
  with assms(1) show ?thesis unfolding s' by (intro agrees_update) simp_all
qed

lemma remove_agrees:
  assumes "agrees watch sys s" and "ep_ok s" and "EPoll_Remove sys e k ops s = Inr (Inr u, s')"
  shows "agrees watch sys s'"
proof -
  consider "s' = s" | r w where
    "s' = s\<lparr>ep_events := (ep_events s)(k := stored_ops (remaining_ops (ep_interest s k) ops)), ep_world := w\<rparr>" "r \<noteq> -1"
    "ep_ctl e (ep_poll s) (if remaining_ops (ep_interest s k) ops = 0 then Ctl_Del else Ctl_Mod) k
       (if remaining_ops (ep_interest s k) ops = 0 then 0 else ToEPollEvents sys (remaining_ops (ep_interest s k) ops))
       (ep_world s) = (r, w)"
    using EPoll_Remove_success [OF assms(3,2)] unfolding Let_def stored_ops_def by blast
  then show ?thesis
  proof cases
    case 1
    with assms(1) show ?thesis by simp
  next
    case (2 r w)
    have "watch (ep_poll s) w = (watch (ep_poll s) (ep_world s))
        (k := map_option (ToEPollEvents sys) (stored_ops (remaining_ops (ep_interest s k) ops)))"
      using ctl_del [OF _ 2(2)] ctl_mod [OF _ 2(2)] 2(3) by (auto simp: stored_ops_def split: if_splits)
    with assms(1) show ?thesis unfolding 2(1) by (intro agrees_update)
  qed
qed

lemma close_agrees:
  assumes "agrees watch sys s" and "EPoll_Close e k s = Inr (r, s')"
  shows "agrees watch sys s' \<and> (r \<noteq> Inr () \<longrightarrow> ep_events s' = ep_events s)"
proof (cases r)
  case (Inl f)
  with assms show ?thesis
    by (auto simp: EPoll_Close_def guarded_def control_def SOCKET_ERROR_def agrees_def
        split: if_splits option.splits prod.splits dest: ctl_fails)
next
  case (Inr u)
  with assms(2) obtain r' w where "s' = s\<lparr>ep_events := (ep_events s)(k := None), ep_world := w\<rparr>"
    and "ep_ctl e (ep_poll s) Ctl_Del k 0 (ep_world s) = (r', w)" and "r' \<noteq> -1"
    by (auto elim: EPoll_Close_success)
  with assms(1) Inr show ?thesis
    using ctl_del [of "ep_poll s" k 0 "ep_world s" r' w] by (auto intro!: agrees_update)
qed

lemma add_fresh_fails_agrees:
  assumes "agrees watch sys s" and "EPoll_Add sys e k ops s = Inr (Inl f, s')" and "ep_events s k = None"
  shows "agrees watch sys s' \<and> ep_events s' = ep_events s"
  using assms
  by (auto simp: EPoll_Add_def guarded_def control_def SOCKET_ERROR_def agrees_def
      split: if_splits prod.splits) (metis ctl_fails)

end

text \<open>A kernel with one interest list, which accepts what the documentation allows.\<close>

type_synonym sim_list = "(Socket \<times> u32) list"

definition sim_ctl :: "ctl \<Rightarrow> Socket \<Rightarrow> u32 \<Rightarrow> sim_list \<Rightarrow> int \<times> sim_list" where
  "sim_ctl op k ev w =
     (if (op = Ctl_Add) = (map_of w k \<noteq> None) then (-1, w)
      else (0, (if op = Ctl_Del then [] else [(k, ev)]) @ filter (\<lambda>x. fst x \<noteq> k) w))"

definition sim_epoll :: "sim_list epoll" where
  "sim_epoll = \<lparr>ep_create = \<lambda>w. (3, w), ep_ctl = \<lambda>_. sim_ctl, ep_close = \<lambda>_ w. (0, w), ep_failure = \<lambda>_. E_FAILURE\<rparr>"

lemma map_of_drop: "map_of (filter (\<lambda>x. fst x \<noteq> k) w) = (map_of w)(k := None)"
  by (induction w) auto

interpretation sim_epoll: epoll_kernel sim_epoll "\<lambda>_. map_of"
  by unfold_locales
    (auto simp: sim_epoll_def sim_ctl_def map_of_drop split: if_splits)

section \<open>Events\<close>

definition epoll_bits :: "header \<Rightarrow> nat \<Rightarrow> nat \<Rightarrow> nat \<Rightarrow> bool" where
  "epoll_bits sys i j k \<longleftrightarrow> sys ''EPOLLIN'' = 2 ^ i \<and> sys ''EPOLLOUT'' = 2 ^ j \<and> sys ''EPOLLERR'' = 2 ^ k
     \<and> distinct [i, j, k] \<and> {i, j, k} \<subseteq> {..<32}"

lemma has_bit: "a AND 2 ^ i = 2 ^ i \<longleftrightarrow> bit a i" if "i < 32" for a :: u32
  using that by (auto simp: bit_eq_iff [of _ "2 ^ i"] bit_simps)

lemma FromSocketEvents_bits:
  assumes "epoll_bits sys i j k"
  shows "FromSocketEvents sys ev
    = (if bit ev i then Op_Read else 0) OR (if bit ev j then Op_Write else 0) OR (if bit ev k then Op_Error else 0)"
  using assms by (simp add: FromSocketEvents_def epoll_bits_def Let_def has_bit)

lemma ToEPollEvents_bits:
  assumes "epoll_bits sys i j k"
  shows "bit (ToEPollEvents sys ops) n \<longleftrightarrow>
    n = i \<and> has_flag ops Op_Read \<or> n = j \<and> has_flag ops Op_Write \<or> n = k \<and> has_flag ops Op_Error"
  using assms by (auto simp: ToEPollEvents_def epoll_bits_def bit_simps)

lemma epoll_events_roundtrip:
  assumes "epoll_bits sys i j k"
  shows "FromSocketEvents sys (ToEPollEvents sys ops)
    = (if has_flag ops Op_Read then Op_Read else 0) OR (if has_flag ops Op_Write then Op_Write else 0)
      OR (if has_flag ops Op_Error then Op_Error else 0)"
  using assms
  by (simp add: FromSocketEvents_bits [OF assms] ToEPollEvents_bits [OF assms]) (auto simp: epoll_bits_def)

definition reported_events :: "header \<Rightarrow> Socket \<Rightarrow> (Socket \<times> u32) list \<Rightarrow> SocketEvent list" where
  "reported_events sys notify evs =
     map (\<lambda>(k, ev). \<lparr>ev_sock = k, ev_events = FromSocketEvents sys ev\<rparr>)
       (filter (\<lambda>(k, ev). k \<noteq> notify \<and> FromSocketEvents sys ev \<noteq> 0) evs)"

lemma epoll_loop_quiet:
  "reader p \<notin> fst ` set evs \<Longrightarrow>
    epoll_loop sys n p evs results w = Some (Inr (Inr (), results @ reported_events sys (reader p) evs, w))"
  by (induction evs arbitrary: results) (auto simp: reported_events_def Let_def split: if_splits)

lemma epoll_loop_notified:
  assumes "SocketPair_Drain n p w = Some (Inr (Inr (), w'))" and "distinct (map fst evs)"
    and "reader p \<in> fst ` set evs"
  shows "epoll_loop sys n p evs results w = Some (Inr (Inr (), results @ reported_events sys (reader p) evs, w'))"
  using assms(2,3)
proof (induction evs arbitrary: results)
  case (Cons x evs)
  obtain k ev where x: "x = (k, ev)" by (cases x)
  show ?case
  proof (cases "k = reader p")
    case True
    with Cons.prems x have "reader p \<notin> fst ` set evs" by simp
    with True x assms(1) show ?thesis by (simp add: epoll_loop_quiet reported_events_def)
  next
    case False
    with Cons x show ?thesis by (auto simp: reported_events_def Let_def)
  qed
qed simp

section \<open>Properties\<close>


definition sim_service :: "sim_list epoll_service" where
  "sim_service = (EPoll_new [(7, 12)])\<lparr>ep_poll := 3, ep_started := True, ep_events := [7 \<mapsto> Op_Write OR Op_Error]\<rparr>"


text \<open>
  \<^verbatim>\<open>Notify\<close> never wakes a poller: on a network like \<^verbatim>\<open>StandardNetwork\<close> it makes no system call at
  all, in any state of the service, since it sends a length of 0.
\<close>

theorem epoll_notify_never_wakes:
  "EPoll_Notify (standard_network sys host_le k) s = Inr s"
  using standard.send_empty_keeps_state [of sys host_le k "writer (ep_pipe s)" "ep_world s"]
  by (auto simp: EPoll_Notify_def)

text \<open>
  When \<^verbatim>\<open>epoll_wait\<close> reports sockets, each at most once, and what was sent to the notification
  socket can be drained, \<^verbatim>\<open>Execute\<close> returns, in the order of the report, every reported socket but the
  notification socket, with the operations reported for it. A poll that times out or that is
  interrupted by \<^verbatim>\<open>Stop\<close> returns no event. The operations that are reported for a socket that has all that
  is registered for it are the registered ones.
\<close>

theorem epoll_results:
  assumes "ep_polling s" and "distinct (map fst reported)" and "epoll_bits sys i j l"
    and "res = int (length reported)"
    and "if reader (ep_pipe s) \<in> fst ` set reported
      then SocketPair_Drain n (ep_pipe s) (ep_world s) = Some (Inr (Inr (), w)) else w = ep_world s"
  shows "(\<not> ep_shutdown s \<and> 0 < res \<longrightarrow>
        EPoll_Execute_end sys n e res reported s
        = Some (Inr (Inr (reported_events sys (reader (ep_pipe s)) reported),
            s\<lparr>ep_polling := False, ep_results := reported_events sys (reader (ep_pipe s)) reported, ep_world := w\<rparr>)))
    \<and> (ep_shutdown s \<or> res = 0 \<longrightarrow>
        EPoll_Execute_end sys n e res reported s = Some (Inr (Inr [], s\<lparr>ep_polling := False\<rparr>)))
    \<and> FromSocketEvents sys (ToEPollEvents sys ops) = ops AND (Op_Read OR Op_Write OR Op_Error)"
proof (intro conjI impI)
  have "epoll_loop sys n (ep_pipe s) reported [] (ep_world s)
      = Some (Inr (Inr (), reported_events sys (reader (ep_pipe s)) reported, w))"
    using assms(2,5) epoll_loop_quiet [of "ep_pipe s" reported sys n "[]"]
      epoll_loop_notified [of n "ep_pipe s" "ep_world s" w reported sys "[]"]
    by (auto split: if_splits)
  then show "EPoll_Execute_end sys n e res reported s
        = Some (Inr (Inr (reported_events sys (reader (ep_pipe s)) reported),
            s\<lparr>ep_polling := False, ep_results := reported_events sys (reader (ep_pipe s)) reported, ep_world := w\<rparr>))"
    if "\<not> ep_shutdown s \<and> 0 < res"
    using assms(1,4) that by (simp add: EPoll_Execute_end_def Let_def SOCKET_ERROR_def)
  show "EPoll_Execute_end sys n e res reported s = Some (Inr (Inr [], s\<lparr>ep_polling := False\<rparr>))"
    if "ep_shutdown s \<or> res = 0"
    using assms(1) that by (auto simp: EPoll_Execute_end_def Let_def SOCKET_ERROR_def)
  show "FromSocketEvents sys (ToEPollEvents sys ops) = ops AND (Op_Read OR Op_Write OR Op_Error)"
    by (simp only: epoll_events_roundtrip [OF assms(3)] bit.conj_disj_distrib and_op)
qed

definition idle_epoll :: "'w epoll" where
  "idle_epoll = \<lparr>ep_create = Pair 3, ep_ctl = \<lambda>_ _ _ _. Pair 0, ep_close = \<lambda>_. Pair 0, ep_failure = \<lambda>_. E_FAILURE\<rparr>"

theorem epoll_results_witness:
  "EPoll_Execute_end linux_header sim_network idle_epoll 1 [(7, 5)] ((EPoll_new ([], 0))\<lparr>ep_polling := True\<rparr>)
   = Some (Inr (Inr [\<lparr>ev_sock = 7, ev_events = Op_Read OR Op_Write\<rparr>],
       (EPoll_new ([], 0))\<lparr>ep_results := [\<lparr>ev_sock = 7, ev_events = Op_Read OR Op_Write\<rparr>]\<rparr>))"
proof -
  have "epoll_bits linux_header 0 2 3" by (simp add: epoll_bits_def linux_header_def)
  then show ?thesis
    using epoll_results [of "(EPoll_new ([], 0))\<lparr>ep_polling := True\<rparr>" "[(7, 5)]" linux_header 0 2 3 1 sim_network
        "([], 0)" idle_epoll]
    by (simp add: EPoll_new_def reported_events_def FromSocketEvents_def linux_header_def SocketPair_default_def
        INVALID_SOCKET_def)
qed

end
