(* ===== verification/Path_Normalize.thy ===== *)
theory Path_Normalize
  imports Fusion_Prelude "HOL-Library.Sublist"
begin

text \<open>
  The part of \<^verbatim>\<open>PathUtil::Normalize\<close> (\<^verbatim>\<open>PathUtil.cpp\<close>, POSIX build) that works on the text of the path alone: the
  in-place loop over the segments and the trimming around it. It is proved to compute the
  resolution of the segments of the path on a stack. A \<^verbatim>\<open>std::string\<close> is a list of bytes; reading the
  character at its size gives 0, and \<^verbatim>\<open>npos\<close> is \<open>None\<close>.
\<close>

section \<open>Model\<close>

definition SeparatorUnix :: byte where "SeparatorUnix = 47"
definition SeparatorWindows :: byte where "SeparatorWindows = 92"
definition SeparatorDrive :: byte where "SeparatorDrive = 58"

definition kPathDot :: "byte list" where "kPathDot = [46]"
definition kPathDoubleDot :: "byte list" where "kPathDoubleDot = [46, 46]"
definition kPathTilde :: "byte list" where "kPathTilde = [126]"

text \<open>\<^verbatim>\<open>find_first_of\<close> and \<^verbatim>\<open>rfind\<close> with one character and a position.\<close>

definition find_first_of :: "byte \<Rightarrow> nat \<Rightarrow> byte list \<Rightarrow> nat option" where
  "find_first_of c pos s = List.find (\<lambda>i. s ! i = c) [pos..<length s]"

definition rfind :: "byte \<Rightarrow> nat \<Rightarrow> byte list \<Rightarrow> nat option" where
  "rfind c pos s = List.find (\<lambda>i. s ! i = c) (rev [0..<min (length s) (Suc pos)])"

definition erase_range :: "nat \<Rightarrow> nat \<Rightarrow> byte list \<Rightarrow> byte list exec" where
  "erase_range pos count s =
     (if pos \<le> length s then Inr (take pos s @ drop (pos + count) s) else Inl Std_Out_Of_Range)"

definition char_at :: "byte list \<Rightarrow> nat \<Rightarrow> byte exec" where
  "char_at s i =
     (if i < length s then Inr (s ! i) else if i = length s then Inr 0 else Inl Out_Of_Bounds)"

definition IsNormalizedRoot :: "byte list \<Rightarrow> bool" where
  "IsNormalizedRoot path \<longleftrightarrow> length path = 1 \<and> path ! 0 = SeparatorUnix"

definition IsAbsolute :: "byte list \<Rightarrow> bool" where
  "IsAbsolute path \<longleftrightarrow> path \<noteq> [] \<and> path ! 0 = SeparatorUnix"

definition Normcase :: "byte list \<Rightarrow> byte list" where
  "Normcase path = path"

fun purge_trailing :: "byte list \<Rightarrow> byte list" where
  "purge_trailing path =
     (if 1 < length path \<and> last path = SeparatorUnix then purge_trailing (butlast path) else path)"

declare purge_trailing.simps [simp del]

text \<open>The branch of the loop for a segment \<^verbatim>\<open>..\<close>; a position below 0 wraps to the end of the string, as does a count.\<close>

definition double_dot ::
  "byte list \<Rightarrow> nat \<Rightarrow> nat \<Rightarrow> nat \<Rightarrow> nat \<Rightarrow> (byte list \<times> nat \<times> nat) exec" where
  "double_dot path prefixOffset currentOffset sz segmentOffset =
     (let root = take currentOffset path in
      and_then (fusion_assert (length root \<ge> prefixOffset)) (\<lambda>_.
      and_then (fusion_assert (currentOffset \<ge> prefixOffset)) (\<lambda>_.
      if IsNormalizedRoot root then
        and_then (erase_range currentOffset (sz + segmentOffset) path) (\<lambda>path.
        Inr (path, prefixOffset, currentOffset))
      else if length root = prefixOffset then
        Inr (path, prefixOffset + (sz + segmentOffset), currentOffset + (sz + segmentOffset))
      else case rfind SeparatorUnix (if currentOffset \<ge> 2 then currentOffset - 2 else length path) path of
        Some prevSeparator \<Rightarrow>
          (let index = prevSeparator + 1;
               stop = currentOffset + sz + segmentOffset;
               count = (if index \<le> stop then stop - index else length path)
           in and_then (erase_range index count path) (\<lambda>path. Inr (path, prefixOffset, index)))
      | None \<Rightarrow>
          (let count = (currentOffset - prefixOffset) + sz + segmentOffset
           in and_then (erase_range prefixOffset count path) (\<lambda>path.
              Inr (path, prefixOffset, prefixOffset))))))"

function skip_separators :: "nat \<Rightarrow> byte list \<Rightarrow> nat" where
  "skip_separators i path =
     (if i < length path \<and> path ! i = SeparatorUnix then skip_separators (Suc i) path else i)"
  by pat_completeness auto
termination
  by (relation "measure (\<lambda>(i, path). length path - i)") auto

declare skip_separators.simps [simp del]

text \<open>The body of the loop for the segment of length \<open>len\<close> at \<^verbatim>\<open>currentOffset\<close>.\<close>

definition edit_segment ::
  "byte list \<Rightarrow> nat \<Rightarrow> nat \<Rightarrow> nat \<Rightarrow> nat \<Rightarrow> (byte list \<times> nat \<times> nat) exec" where
  "edit_segment path prefixOffset currentOffset len segmentOffset =
     (let segment = slice currentOffset len path
      in if segment = [] \<or> segment = kPathDot \<or> segment = kPathTilde then
           and_then (erase_range currentOffset (length segment + segmentOffset) path) (\<lambda>path.
           Inr (path, prefixOffset, currentOffset))
         else if segment = kPathDoubleDot then
           double_dot path prefixOffset currentOffset (length segment) segmentOffset
         else Inr (path, prefixOffset, currentOffset + (length segment + segmentOffset)))"

text \<open>The assertions after it, and the removal of the separators that follow.\<close>

definition eat_separators :: "byte list \<Rightarrow> nat \<Rightarrow> nat \<Rightarrow> byte list exec" where
  "eat_separators path prefixOffset currentOffset =
     and_then (fusion_assert (currentOffset \<ge> prefixOffset)) (\<lambda>_.
     and_then (fusion_assert (length path \<ge> prefixOffset)) (\<lambda>_.
     let end' = skip_separators currentOffset path in
     and_then (fusion_assert (end' \<ge> currentOffset)) (\<lambda>_.
     erase_range currentOffset (end' - currentOffset) path)))"

text \<open>One turn of the loop; the first component tells whether it goes on.\<close>

definition normalize_step :: "byte list \<Rightarrow> nat \<Rightarrow> nat \<Rightarrow> (bool \<times> byte list \<times> nat \<times> nat) exec" where
  "normalize_step path prefixOffset currentOffset =
     (let separator = find_first_of SeparatorUnix currentOffset path;
          segmentLength = (case separator of
              None \<Rightarrow> length path - currentOffset
            | Some i \<Rightarrow> min (i - currentOffset) (length path - currentOffset)) in
      and_then (char_at path (currentOffset + segmentLength)) (\<lambda>c.
      let segmentOffset = (if c = SeparatorUnix then 1 else 0) in
      and_then (fusion_assert (segmentLength \<le> length path)) (\<lambda>_.
      and_then (edit_segment path prefixOffset currentOffset segmentLength segmentOffset)
        (\<lambda>(path, prefixOffset, currentOffset).
      and_then (eat_separators path prefixOffset currentOffset) (\<lambda>path.
      Inr (\<not> (separator = None \<or> currentOffset = length path), path, prefixOffset, currentOffset))))))"

lemma skip_separators_ge: "i \<le> skip_separators i path"
proof (induction i path rule: skip_separators.induct)
  case (1 i path)
  then show ?case by (subst skip_separators.simps) (auto intro: Suc_leD)
qed

lemma find_first_of_Some:
  "find_first_of c pos s = Some i \<Longrightarrow> pos \<le> i \<and> i < length s \<and> s ! i = c"
  by (auto simp: find_first_of_def find_Some_iff)

lemma double_dot_shrinks:
  assumes "double_dot path pre cur sz so = Inr (path', pre', cur')" and "cur + sz + so \<le> length path"
  shows "length path' - cur' \<le> length path - (cur + sz + so)"
  using assms
  by (auto simp: double_dot_def erase_range_def Let_def exec_iff split: if_splits option.splits)

lemma normalize_step_shrinks:
  assumes "normalize_step path pre cur = Inr (True, path', pre', cur')"
  shows "length path' - cur' < length path - cur"
proof -
  obtain i where i: "find_first_of SeparatorUnix cur path = Some i"
    using assms by (cases "find_first_of SeparatorUnix cur path")
      (auto simp: normalize_step_def Let_def exec_iff split: if_splits)
  note found = find_first_of_Some [OF i]
  have [simp]: "min (i - cur) (length path - cur) = i - cur" "char_at path (cur + (i - cur)) = Inr SeparatorUnix"
    using found by (simp_all add: char_at_def min_def diff_le_mono)
  obtain path1 where edit: "edit_segment path pre cur (i - cur) 1 = Inr (path1, pre', cur')"
    and eat: "eat_separators path1 pre' cur' = Inr path'"
    using assms by (auto simp: normalize_step_def i Let_def exec_iff)
  have len: "length (slice cur (i - cur) path) = i - cur"
    using found by (simp add: slice_def min_absorb2 diff_le_mono)
  have "length path1 - cur' \<le> length path - (i + 1)"
    using edit found double_dot_shrinks [of path pre cur "i - cur" 1 path1 pre' cur']
    unfolding edit_segment_def Let_def len
    by (auto simp: erase_range_def exec_iff split: if_splits)
  moreover have "length path' \<le> length path1"
    using eat by (auto simp: eat_separators_def erase_range_def exec_iff Let_def split: if_splits)
  ultimately show ?thesis using found by linarith
qed

function normalize_loop :: "byte list \<Rightarrow> nat \<Rightarrow> nat \<Rightarrow> byte list exec" where
  "normalize_loop path prefixOffset currentOffset =
     (case normalize_step path prefixOffset currentOffset of
        Inl f \<Rightarrow> Inl f
      | Inr (continue, path, prefixOffset, currentOffset) \<Rightarrow>
          if continue then normalize_loop path prefixOffset currentOffset else Inr path)"
  by pat_completeness auto
termination
  by (relation "measure (\<lambda>(path, _, cur). length path - cur)") (auto intro: normalize_step_shrinks)

declare normalize_loop.simps [simp del]

text \<open>\<^verbatim>\<open>Normalize\<close> from the computation of the prefix on, for a path that is not empty.\<close>

definition trim_result :: "byte list \<Rightarrow> byte list" where
  "trim_result path =
     (let path = (if path \<noteq> [] \<and> \<not> IsNormalizedRoot path \<and> last path = SeparatorUnix then butlast path else path)
      in if IsNormalizedRoot path then (if last path \<noteq> SeparatorUnix then path @ [SeparatorUnix] else path)
         else path)"

definition normalize_text :: "byte list \<Rightarrow> byte list exec" where
  "normalize_text path =
     (let prefixOffset = (if path ! 0 = SeparatorUnix then 1 else 0)
      in and_then (normalize_loop path prefixOffset prefixOffset) (\<lambda>path. Inr (trim_result path)))"

section \<open>Specification\<close>

text \<open>
  The segments of a path, between its separators, and their resolution on a stack: empty
  segments, \<^verbatim>\<open>.\<close> and \<^verbatim>\<open>~\<close> are dropped and \<^verbatim>\<open>..\<close> removes the segment before it. At the bottom of the stack it is dropped
  in an absolute path and counted in a relative one.
\<close>

fun segments :: "byte list \<Rightarrow> byte list list" where
  "segments [] = [[]]"
| "segments (c # cs) =
     (if c = 47 then [] # segments cs else (c # hd (segments cs)) # tl (segments cs))"

fun resolve_one :: "bool \<Rightarrow> nat \<times> byte list list \<Rightarrow> byte list \<Rightarrow> nat \<times> byte list list" where
  "resolve_one absolute (k, st) s =
     (if s = [] \<or> s = [46] \<or> s = [126] then (k, st)
      else if s = [46, 46] then (if st \<noteq> [] then (k, butlast st) else (if absolute then k else Suc k, []))
      else (k, st @ [s]))"

definition resolve :: "bool \<Rightarrow> byte list \<Rightarrow> nat \<times> byte list list" where
  "resolve absolute path = foldl (resolve_one absolute) (0, []) (segments path)"

fun joined :: "byte list list \<Rightarrow> byte list" where
  "joined [] = []"
| "joined [s] = s"
| "joined (s # t # ss) = s @ 47 # joined (t # ss)"

fun render :: "bool \<Rightarrow> nat \<times> byte list list \<Rightarrow> byte list" where
  "render absolute (k, st) = (if absolute then [47] else []) @ joined (replicate k [46, 46] @ st)"

definition good_segment :: "byte list \<Rightarrow> bool" where
  "good_segment s \<longleftrightarrow> s \<noteq> [] \<and> 47 \<notin> set s \<and> s \<noteq> [46] \<and> s \<noteq> [46, 46] \<and> s \<noteq> [126]"

section \<open>Correctness of the loop\<close>

lemmas path_consts = SeparatorUnix_def kPathDot_def kPathDoubleDot_def kPathTilde_def

definition body :: "byte list list \<Rightarrow> byte list" where
  "body st = concat (map (\<lambda>s. s @ [47]) st)"

definition path_prefix :: "bool \<Rightarrow> nat \<Rightarrow> byte list" where
  "path_prefix absolute k = (if absolute then [47] else body (replicate k [46, 46]))"

lemma body_simps [simp]:
  "body [] = []" "body (s # st) = s @ 47 # body st" "body (st @ st') = body st @ body st'"
  by (simp_all add: body_def)

lemma segments_not_Nil [simp]: "segments p \<noteq> []"
  by (cases p) simp_all

lemma segments_plain: "47 \<notin> set s \<Longrightarrow> segments s = [s]"
  by (induction s) auto

lemma segments_append: "47 \<notin> set s \<Longrightarrow> segments (s @ 47 # r) = s # segments r"
  by (induction s) auto

lemma resolve_separators:
  "foldl (resolve_one a) ks (segments (dropWhile (\<lambda>c. c = 47) r)) = foldl (resolve_one a) ks (segments r)"
  by (induction r) (simp_all, cases ks, simp)

lemma body_joined: "st \<noteq> [] \<Longrightarrow> body st = joined st @ [47]"
  by (induction st rule: joined.induct) simp_all

lemma joined_snoc: "joined (st @ [s]) = body st @ s"
  by (induction st rule: joined.induct) simp_all

lemma find_first_of_None: "47 \<notin> set rest \<Longrightarrow> find_first_of 47 (length head) (head @ rest) = None"
  by (auto simp: find_first_of_def find_None_iff nth_append) (metis less_diff_conv2 nth_mem add.commute)

lemma find_first_of_next:
  "47 \<notin> set s \<Longrightarrow> find_first_of 47 (length head) (head @ s @ 47 # r) = Some (length head + length s)"
  by (auto simp: find_first_of_def find_Some_iff nth_append intro!: exI [of _ "length s"] dest: nth_mem)

lemma rfind_before:
  assumes "47 \<notin> set s"
  shows "rfind 47 (length A + length s) (A @ 47 # s @ tail) = Some (length A)"
proof -
  let ?p = "A @ 47 # s @ tail" and ?n = "Suc (length A + length s)"
  have n: "min (length ?p) ?n = ?n" by simp
  have nth: "rev [0..<?n] ! j = length A + length s - j" if "j \<le> length s" for j
    using that by (simp add: rev_nth del: upt_Suc)
  have "?p ! (length A + length s - j) \<noteq> 47" if "j < length s" for j
  proof -
    have "length A + length s - j = length (A @ [47]) + (length s - Suc j)" using that by simp
    then have "?p ! (length A + length s - j) = (s @ tail) ! (length s - Suc j)"
      by (metis nth_append_length_plus append_Cons append_Nil append_assoc)
    moreover have k: "length s - Suc j < length s" using that by simp
    ultimately have "?p ! (length A + length s - j) = s ! (length s - Suc j)" by (simp only: nth_append if_True)
    with nth_mem [OF k] assms show ?thesis by metis
  qed
  then show ?thesis
    unfolding rfind_def n find_Some_iff
    by (intro exI [of _ "length s"]) (auto simp: nth simp del: upt_Suc)
qed

lemma rfind_none: "47 \<notin> set s \<Longrightarrow> s \<noteq> [] \<Longrightarrow> rfind 47 (length s - 1) (s @ tail) = None"
  by (auto simp: rfind_def find_None_iff nth_append) (metis nth_mem)

lemma skip_separators_eq:
  "skip_separators (length head) (head @ r) = length head + length (takeWhile (\<lambda>c. c = 47) r)"
proof (induction r arbitrary: head)
  case Nil
  then show ?case by (subst skip_separators.simps) simp
next
  case (Cons c r)
  from Cons.IH [of "head @ [c]"] show ?case
    by (subst skip_separators.simps) (auto simp: SeparatorUnix_def)
qed

lemma eat_separators_eq:
  assumes "pre \<le> length head"
  shows "eat_separators (head @ r) pre (length head) = Inr (head @ dropWhile (\<lambda>c. c = 47) r)"
  using assms
  by (simp add: eat_separators_def skip_separators_eq erase_range_def Let_def dropWhile_eq_drop)

text \<open>The state of the loop: \<open>k\<close> leading \<^verbatim>\<open>..\<close> of a relative path and the stack of segments.\<close>

definition stack_ok :: "bool \<Rightarrow> nat \<times> byte list list \<Rightarrow> bool" where
  "stack_ok absolute ks \<longleftrightarrow> (\<forall>s \<in> set (snd ks). good_segment s) \<and> (absolute \<longrightarrow> fst ks = 0)"

definition processed :: "bool \<Rightarrow> nat \<times> byte list list \<Rightarrow> byte list" where
  "processed absolute ks = path_prefix absolute (fst ks) @ body (snd ks)"

lemma resolve_one_ok: "stack_ok a ks \<Longrightarrow> 47 \<notin> set s \<Longrightarrow> stack_ok a (resolve_one a ks s)"
  by (cases ks) (auto simp: stack_ok_def good_segment_def dest: in_set_butlastD)

lemma body_replicate_Suc: "body (replicate (Suc k) d) = body (replicate k d) @ d @ [47]"
  by (simp add: body_def replicate_append_same [symmetric] del: replicate_append_same)

lemma body_last: "body st = [] \<or> (\<exists>A. body st = A @ [47])"
  by (cases st rule: rev_cases) auto

lemma path_prefix_last: "path_prefix a k @ body st = [] \<or> (\<exists>A. path_prefix a k @ body st = A @ [47])"
proof (cases "body st = []")
  case True
  then show ?thesis using body_last [of "replicate k [46, 46]"] by (auto simp: path_prefix_def)
next
  case False
  with body_last [of st] show ?thesis by (metis append_assoc)
qed

lemma IsNormalizedRoot_processed:
  assumes "stack_ok a (k, st)"
  shows "IsNormalizedRoot (path_prefix a k @ body st) \<longleftrightarrow> a \<and> st = []"
proof (cases st)
  case Nil
  then show ?thesis by (cases k) (auto simp: IsNormalizedRoot_def path_prefix_def SeparatorUnix_def)
next
  case (Cons s st')
  with assms have "0 < length s" by (auto simp: stack_ok_def good_segment_def)
  with Cons show ?thesis by (simp add: IsNormalizedRoot_def)
qed

lemma double_dot_pop:
  assumes "stack_ok a (k, st @ [x])"
  shows "double_dot (processed a (k, st @ [x]) @ [46, 46] @ tail) (length (path_prefix a k))
      (length (processed a (k, st @ [x]))) 2 so
    = Inr (processed a (k, st) @ drop so tail, length (path_prefix a k), length (processed a (k, st)))"
proof -
  let ?pre = "path_prefix a k" and ?A = "path_prefix a k @ body st"
  have x: "47 \<notin> set x" "x \<noteq> []" using assms by (auto simp: stack_ok_def good_segment_def)
  have notroot: "\<not> IsNormalizedRoot (?A @ x @ [47])"
    using IsNormalizedRoot_processed [OF assms] by simp
  have pos: "length (?A @ x @ [47]) - 2 = length ?A + length x - 1" "2 \<le> length (?A @ x @ [47])"
    using x by (auto simp: Suc_le_eq)
  from path_prefix_last [of a k st] show ?thesis
  proof (elim disjE exE)
    assume A: "?A = []"
    then have "rfind 47 (length x - 1) (x @ 47 # 46 # 46 # tail) = None" using rfind_none [OF x] by simp
    with A pos notroot x show ?thesis
      by (simp add: double_dot_def processed_def Let_def SeparatorUnix_def erase_range_def numeral_eq_Suc)
  next
    fix B assume B: "?A = B @ [47]"
    then have "rfind 47 (length B + length x) (B @ 47 # x @ 47 # 46 # 46 # tail) = Some (length B)"
      using rfind_before [OF x(1)] by simp
    moreover have "processed a (k, st @ [x]) = B @ 47 # x @ [47]" "processed a (k, st) = B @ [47]"
      using B by (simp_all add: processed_def)
    moreover have "length ?pre \<le> Suc (length B)" using B by (metis length_append length_append_singleton le_add1)
    moreover have "length x > 0" using x by simp
    ultimately show ?thesis
      using notroot B by (auto simp: double_dot_def Let_def SeparatorUnix_def erase_range_def numeral_eq_Suc)
  qed
qed

lemma double_dot_bottom:
  assumes "stack_ok a (k, [])"
  shows "double_dot (processed a (k, []) @ [46, 46] @ tail) (length (path_prefix a k)) (length (processed a (k, []))) 2 so
    = (if a then Inr (processed a (k, []) @ drop so tail, 1, 1)
       else Inr (processed a (k, []) @ [46, 46] @ tail, length (path_prefix a k) + 2 + so,
         length (processed a (k, [])) + 2 + so))"
  using IsNormalizedRoot_processed [OF assms] assms
  by (auto simp: double_dot_def processed_def Let_def erase_range_def stack_ok_def path_prefix_def)


lemma trim_plain: "p \<noteq> [] \<Longrightarrow> last p \<noteq> 47 \<Longrightarrow> trim_result p = p"
  by (cases p) (auto simp: trim_result_def IsNormalizedRoot_def SeparatorUnix_def Let_def)

lemma trim_separator: "q \<noteq> [] \<Longrightarrow> q \<noteq> [47] \<Longrightarrow> trim_result (q @ [47]) = q"
  by (cases q; cases "tl q") (auto simp: trim_result_def IsNormalizedRoot_def SeparatorUnix_def Let_def)

lemma trim_roots [simp]: "trim_result [] = []" "trim_result [47] = [47]"
  by (simp_all add: trim_result_def IsNormalizedRoot_def SeparatorUnix_def Let_def)

lemma good_last: "good_segment s \<Longrightarrow> s \<noteq> [] \<and> last s \<noteq> 47"
  by (auto simp: good_segment_def dest: last_in_set)

lemma trim_pushed:
  "s \<noteq> [] \<Longrightarrow> last s \<noteq> 47 \<Longrightarrow> stack_ok a (k, st) \<Longrightarrow>
    trim_result (processed a (k, st) @ s) = (if a then [47] else []) @ joined (replicate k [46, 46] @ st @ [s])"
  using joined_snoc [of "replicate k [46, 46] @ st" s]
  by (subst trim_plain) (auto simp: processed_def path_prefix_def stack_ok_def)

lemma trim_processed:
  assumes ok: "stack_ok a (k, st)"
  shows "trim_result (processed a (k, st)) = render a (k, st)"
proof (cases "replicate k [46, 46] @ st" rule: rev_cases)
  case Nil
  then show ?thesis by (cases k) (auto simp: processed_def path_prefix_def)
next
  case (snoc ys y)
  then have "y \<in> set (replicate k [46, 46] @ st)" by (metis in_set_conv_decomp)
  then have y: "y \<noteq> []" "y \<noteq> [47]" "last y \<noteq> 47" using ok
    by (auto simp: stack_ok_def dest!: bspec [of _ _ y] good_last split: if_splits)
  let ?q = "(if a then [47] else []) @ joined (replicate k [46, 46] @ st)"
  have "processed a (k, st) = (if a then [47] else []) @ body (replicate k [46, 46] @ st)"
    using ok by (auto simp: processed_def path_prefix_def stack_ok_def)
  also have "\<dots> = ?q @ [47]" by (subst body_joined) (simp_all add: snoc)
  finally have eq: "processed a (k, st) = ?q @ [47]" .
  have "?q \<noteq> []" "last ?q \<noteq> 47" using y by (simp_all add: snoc joined_snoc)
  then have "trim_result (?q @ [47]) = ?q" by (intro trim_separator) auto
  then show ?thesis using eq by simp
qed

lemma edit_segment_eq:
  "edit_segment (head @ s @ tail) pre (length head) (length s) so =
     (if s = [] \<or> s = [46] \<or> s = [126] then Inr (head @ drop so tail, pre, length head)
      else if s = [46, 46] then double_dot (head @ s @ tail) pre (length head) 2 so
      else Inr (head @ s @ tail, pre, length head + (length s + so)))"
proof -
  have "slice (length head) (length s) (head @ s @ tail) = s" by (simp add: slice_def)
  then show ?thesis
    by (simp only: edit_segment_def path_consts erase_range_def Let_def) (auto simp: numeral_2_eq_2)
qed

lemma edit_next:
  assumes ok: "stack_ok a ks" and s: "47 \<notin> set s"
  defines "ks' \<equiv> resolve_one a ks s"
  shows "edit_segment (processed a ks @ s @ 47 # r) (length (path_prefix a (fst ks)))
      (length (processed a ks)) (length s) 1
    = Inr (processed a ks' @ r, length (path_prefix a (fst ks')), length (processed a ks'))"
proof -
  obtain k st where ks: "ks = (k, st)" by (cases ks)
  consider "s = [] \<or> s = [46] \<or> s = [126]" | "s = [46, 46]" "st = []" | x st' where "s = [46, 46]" "st = st' @ [x]"
    | "s \<noteq> []" "s \<noteq> [46]" "s \<noteq> [126]" "s \<noteq> [46, 46]"
    by (cases st rule: rev_cases) auto
  then show ?thesis
  proof cases
    case 1
    then show ?thesis unfolding edit_segment_eq by (auto simp: ks'_def ks)
  next
    case 2
    with double_dot_bottom [of a k "47 # r" 1] ok show ?thesis
      unfolding edit_segment_eq by (auto simp: ks'_def ks processed_def path_prefix_def stack_ok_def
          body_replicate_Suc simp del: replicate_Suc)
  next
    case 3
    with double_dot_pop [of a k st' x "47 # r" 1] ok show ?thesis
      unfolding edit_segment_eq by (auto simp: ks'_def ks)
  next
    case 4
    then show ?thesis unfolding edit_segment_eq by (simp add: ks'_def ks processed_def)
  qed
qed

lemma prefix_le [simp]: "length (path_prefix a k) \<le> length (processed a (k, st))"
  by (simp add: processed_def)

lemma edit_last:
  assumes ok: "stack_ok a ks" and s: "47 \<notin> set s"
  obtains p pre where "edit_segment (processed a ks @ s) (length (path_prefix a (fst ks)))
      (length (processed a ks)) (length s) 0 = Inr (p, pre, length p)"
    and "pre \<le> length p" and "trim_result p = render a (resolve_one a ks s)"
proof -
  obtain k st where ks: "ks = (k, st)" by (cases ks)
  note edit = edit_segment_eq [of "processed a ks" s "[]" _ 0, simplified]
  consider "s = [] \<or> s = [46] \<or> s = [126]" | "s = [46, 46]" "st = []" "a" | "s = [46, 46]" "st = []" "\<not> a"
    | x st' where "s = [46, 46]" "st = st' @ [x]"
    | "s \<noteq> []" "s \<noteq> [46]" "s \<noteq> [126]" "s \<noteq> [46, 46]"
    by (cases st rule: rev_cases) auto
  then show ?thesis
  proof cases
    case 1
    then have "edit_segment (processed a ks @ s) (length (path_prefix a (fst ks)))
      (length (processed a ks)) (length s) 0 = Inr (processed a ks, length (path_prefix a k), length (processed a ks))"
      unfolding edit by (auto simp: ks)
    from that [OF this] 1 ok trim_processed [of a k st] show ?thesis by (auto simp: ks)
  next
    case 2
    with ok double_dot_bottom [of a k "[]" 0] have "edit_segment (processed a ks @ s) (length (path_prefix a (fst ks)))
      (length (processed a ks)) (length s) 0 = Inr (processed a ks, 1, length (processed a ks))"
      unfolding edit by (simp add: ks processed_def path_prefix_def)
    from that [OF this] 2 ok trim_processed [of a k st] show ?thesis
      by (simp add: ks processed_def path_prefix_def)
  next
    case 3
    with ok double_dot_bottom [of a k "[]" 0] have "edit_segment (processed a ks @ s) (length (path_prefix a (fst ks)))
      (length (processed a ks)) (length s) 0
        = Inr (processed a ks @ s, length (path_prefix a k) + 2, length (processed a ks @ s))"
      unfolding edit by (simp add: ks)
    from that [OF this] 3 ok trim_pushed [of s a k st] show ?thesis
      by (simp add: ks replicate_append_same)
  next
    case 4
    with ok double_dot_pop [of a k st' x "[]" 0] have "edit_segment (processed a ks @ s) (length (path_prefix a (fst ks)))
      (length (processed a ks)) (length s) 0
        = Inr (processed a (k, st'), length (path_prefix a k), length (processed a (k, st')))"
      unfolding edit by (simp add: ks)
    moreover have "stack_ok a (k, st')" using ok 4 by (simp add: ks stack_ok_def)
    ultimately show ?thesis using that 4 trim_processed [of a k st'] by (simp add: ks)
  next
    case 5
    with s have "good_segment s" by (simp add: good_segment_def)
    have "edit_segment (processed a ks @ s) (length (path_prefix a (fst ks)))
      (length (processed a ks)) (length s) 0
        = Inr (processed a ks @ s, length (path_prefix a k), length (processed a ks @ s))"
      unfolding edit using 5 by (simp add: ks)
    from that [OF this] 5 ok trim_pushed [of s a k st] good_last [OF \<open>good_segment s\<close>] show ?thesis
      by (simp add: ks trans_le_add1)
  qed
qed

lemma normalize_step_next:
  fixes r :: "byte list"
  assumes ok: "stack_ok a ks" and s: "47 \<notin> set s"
  defines "ks' \<equiv> resolve_one a ks s" and "r' \<equiv> dropWhile (\<lambda>c. c = 47) r"
  shows "normalize_step (processed a ks @ s @ 47 # r) (length (path_prefix a (fst ks))) (length (processed a ks))
    = Inr (r' \<noteq> [], processed a ks' @ r', length (path_prefix a (fst ks')), length (processed a ks'))"
proof -
  have "length (path_prefix a (fst ks')) \<le> length (processed a ks')" by (cases ks') simp
  then have "eat_separators (processed a ks' @ r) (length (path_prefix a (fst ks'))) (length (processed a ks'))
      = Inr (processed a ks' @ r')" unfolding r'_def by (rule eat_separators_eq)
  moreover have "char_at (processed a ks @ s @ 47 # r) (length (processed a ks) + length s) = Inr 47"
    by (simp add: char_at_def nth_append)
  ultimately show ?thesis
    using edit_next [OF ok s, of r] find_first_of_next [OF s, of "processed a ks" r]
    by (simp add: normalize_step_def SeparatorUnix_def Let_def ks'_def)
qed

lemma normalize_step_last:
  assumes ok: "stack_ok a ks" and s: "47 \<notin> set s"
  obtains p pre cur where "normalize_step (processed a ks @ s) (length (path_prefix a (fst ks))) (length (processed a ks))
      = Inr (False, p, pre, cur)" and "trim_result p = render a (resolve_one a ks s)"
proof -
  obtain p pre where edit: "edit_segment (processed a ks @ s) (length (path_prefix a (fst ks)))
      (length (processed a ks)) (length s) 0 = Inr (p, pre, length p)"
    and p: "pre \<le> length p" "trim_result p = render a (resolve_one a ks s)" using edit_last [OF ok s] .
  have "char_at (processed a ks @ s) (length (processed a ks) + length s) = Inr 0"
    by (simp add: char_at_def)
  moreover have "eat_separators p pre (length p) = Inr p" using eat_separators_eq [OF p(1), of "[]"] by simp
  ultimately have "normalize_step (processed a ks @ s) (length (path_prefix a (fst ks))) (length (processed a ks))
      = Inr (False, p, pre, length p)"
    using edit find_first_of_None [OF s, of "processed a ks"]
    by (simp add: normalize_step_def SeparatorUnix_def Let_def)
  from that [OF this p(2)] show ?thesis .
qed

text \<open>The loop resolves the segments that remain on the stack it has built.\<close>

lemma normalize_loop_resolves:
  assumes "stack_ok a ks"
  shows "\<exists>p. normalize_loop (processed a ks @ rest) (length (path_prefix a (fst ks))) (length (processed a ks)) = Inr p
    \<and> trim_result p = render a (foldl (resolve_one a) ks (segments rest))"
  using assms
proof (induction "length rest" arbitrary: ks rest rule: less_induct)
  case less
  show ?case
  proof (cases "47 \<in> set rest")
    case False
    from normalize_step_last [OF less.prems False] obtain p pre cur where
      "normalize_step (processed a ks @ rest) (length (path_prefix a (fst ks))) (length (processed a ks))
        = Inr (False, p, pre, cur)" "trim_result p = render a (resolve_one a ks rest)" .
    then show ?thesis by (subst normalize_loop.simps) (simp add: segments_plain [OF False])
  next
    case True
    then obtain s r where rest: "rest = s @ 47 # r" and s: "47 \<notin> set s" by (metis split_list_first)
    let ?ks = "resolve_one a ks s" and ?r = "dropWhile (\<lambda>c. c = 47) r"
    note step = normalize_step_next [OF less.prems s, of r]
    have ok: "stack_ok a ?ks" using resolve_one_ok [OF less.prems s] .
    have fold: "foldl (resolve_one a) ks (segments rest) = foldl (resolve_one a) ?ks (segments ?r)"
      by (simp add: rest segments_append [OF s] resolve_separators)
    show ?thesis
    proof (cases "?r = []")
      case True
      have "foldl (resolve_one a) ks (segments rest) = ?ks" unfolding fold True by (cases ?ks) simp
      moreover have "trim_result (processed a ?ks) = render a ?ks"
        using ok trim_processed by (cases ?ks) simp
      ultimately show ?thesis using step True
        by (subst normalize_loop.simps) (simp add: rest)
    next
      case False
      have "length ?r < length rest" using length_dropWhile_le [of "\<lambda>c. c = 47" r] by (simp add: rest)
      from less.hyps [OF this ok] fold step False show ?thesis
        by (subst normalize_loop.simps) (simp add: rest)
    qed
  qed
qed

theorem normalize_text_resolves:
  assumes "path \<noteq> []"
  shows "normalize_text path = Inr (render (IsAbsolute path) (resolve (IsAbsolute path) path))"
proof (cases "IsAbsolute path")
  case True
  then obtain rest where path: "path = 47 # rest" by (cases path) (auto simp: IsAbsolute_def SeparatorUnix_def)
  have "stack_ok True (0, [])" by (simp add: stack_ok_def)
  from normalize_loop_resolves [OF this, of rest] True show ?thesis
    by (auto simp: path normalize_text_def processed_def path_prefix_def SeparatorUnix_def resolve_def)
next
  case False
  have "stack_ok False (0, [])" by (simp add: stack_ok_def)
  from normalize_loop_resolves [OF this, of path] False assms show ?thesis
    by (auto simp: normalize_text_def processed_def path_prefix_def SeparatorUnix_def resolve_def IsAbsolute_def)
qed

end
