(* ===== verification/Environment.thy ===== *)
theory Environment
  imports Fusion_Prelude "HOL-Library.AList"
begin

text \<open>
  \<^verbatim>\<open>Environment\<close> (\<^verbatim>\<open>Environment.cpp\<close>, \<^verbatim>\<open>platforms/posix/Environment.cpp\<close>) over the environment of the process, and the
  \<^verbatim>\<open>TemporaryEnvironment\<close> that undoes what it has set. The environment is a map from names to values; \<open>memory\<close>
  tells whether \<^verbatim>\<open>setenv\<close> finds the memory it needs. A name with a separator or without a character is not
  valid for \<^verbatim>\<open>setenv\<close> and \<^verbatim>\<open>unsetenv\<close>. Strings reach these functions through \<^verbatim>\<open>c_str\<close> and end at their first 0. The
  lock \<^verbatim>\<open>s_envMutex\<close> makes every operation one step.
\<close>

section \<open>Model\<close>

record process_env =
  vars :: "byte list \<rightharpoonup> byte list"
  memory :: bool

definition c_str :: "byte list \<Rightarrow> byte list" where
  "c_str s = takeWhile (\<lambda>c. c \<noteq> 0) s"

definition valid_name :: "byte list \<Rightarrow> bool" where
  "valid_name name \<longleftrightarrow> name \<noteq> [] \<and> 61 \<notin> set name"

definition setenv :: "process_env \<Rightarrow> byte list \<Rightarrow> byte list \<Rightarrow> process_env \<times> int" where
  "setenv e name val =
     (if valid_name name \<and> memory e then (e\<lparr>vars := (vars e)(name \<mapsto> val)\<rparr>, 0) else (e, -1))"

definition unsetenv :: "process_env \<Rightarrow> byte list \<Rightarrow> process_env \<times> int" where
  "unsetenv e name = (if valid_name name then (e\<lparr>vars := (vars e)(name := None)\<rparr>, 0) else (e, -1))"

definition Environment_Get :: "process_env \<Rightarrow> byte list \<Rightarrow> byte list \<Rightarrow> byte list" where
  "Environment_Get e var defaultValue =
     (if var = [] then defaultValue
      else case vars e (c_str var) of None \<Rightarrow> defaultValue | Some val \<Rightarrow> val)"

definition Environment_Set :: "process_env \<Rightarrow> byte list \<Rightarrow> byte list \<Rightarrow> process_env \<times> bool" where
  "Environment_Set e var val =
     (if var = [] \<or> val = [] then (e, False)
      else let (e', r) = setenv e (c_str var) (c_str val) in (e', r = 0))"

definition Environment_Unset :: "process_env \<Rightarrow> byte list \<Rightarrow> process_env \<times> bool" where
  "Environment_Unset e var =
     (if var = [] then (e, False) else let (e', r) = unsetenv e (c_str var) in (e', r = 0))"

definition Environment_Has :: "process_env \<Rightarrow> byte list \<Rightarrow> bool" where
  "Environment_Has e var \<longleftrightarrow> Environment_Get e var [] \<noteq> []"

text \<open>\<^verbatim>\<open>TemporaryEnvironment\<close>: the entries of \<^verbatim>\<open>m_values\<close>, with distinct keys.\<close>

type_synonym tracked = "(byte list \<times> byte list) list"

definition TemporaryEnvironment_Set ::
  "process_env \<times> tracked \<Rightarrow> byte list \<Rightarrow> byte list \<Rightarrow> (process_env \<times> tracked) \<times> bool" where
  "TemporaryEnvironment_Set st var val =
     (let (e, entries) = st;
          (e', result) = Environment_Set e var val
      in ((e', if result then AList.update var val entries else entries), result))"

definition TemporaryEnvironment_Unset ::
  "process_env \<times> tracked \<Rightarrow> byte list \<Rightarrow> (process_env \<times> tracked) \<times> bool" where
  "TemporaryEnvironment_Unset st var =
     (let (e, entries) = st;
          (e', present) = Environment_Unset e var;
          tracked = (map_of entries var \<noteq> None)
      in ((e', if tracked then AList.delete var entries else entries), present \<and> tracked))"

definition TemporaryEnvironment_destroy :: "process_env \<times> tracked \<Rightarrow> process_env" where
  "TemporaryEnvironment_destroy st =
     foldl (\<lambda>e (key, _). fst (Environment_Unset e key)) (fst st) (snd st)"

text \<open>A sequence of calls on one \<^verbatim>\<open>TemporaryEnvironment\<close>.\<close>

datatype env_call = Call_Set "byte list" "byte list" | Call_Unset "byte list"

fun env_call_step :: "process_env \<times> tracked \<Rightarrow> env_call \<Rightarrow> process_env \<times> tracked" where
  "env_call_step st (Call_Set var val) = fst (TemporaryEnvironment_Set st var val)"
| "env_call_step st (Call_Unset var) = fst (TemporaryEnvironment_Unset st var)"

definition TemporaryEnvironment_scope :: "process_env \<Rightarrow> env_call list \<Rightarrow> process_env" where
  "TemporaryEnvironment_scope e calls = TemporaryEnvironment_destroy (foldl env_call_step (e, []) calls)"

text \<open>The names a call changes in the environment.\<close>

fun touches :: "bool \<Rightarrow> env_call \<Rightarrow> byte list set" where
  "touches mem (Call_Set var val) =
     (if var \<noteq> [] \<and> val \<noteq> [] \<and> valid_name (c_str var) \<and> mem then {c_str var} else {})"
| "touches mem (Call_Unset var) = (if valid_name (c_str var) then {c_str var} else {})"

section \<open>Properties\<close>

lemma Environment_Set_success:
  "snd (Environment_Set e var val) \<longleftrightarrow> val \<noteq> [] \<and> valid_name (c_str var) \<and> memory e"
  by (auto simp: Environment_Set_def setenv_def valid_name_def c_str_def)

lemma Environment_Set_fst:
  "fst (Environment_Set e var val) =
     (if snd (Environment_Set e var val) then e\<lparr>vars := (vars e)(c_str var \<mapsto> c_str val)\<rparr> else e)"
  by (auto simp: Environment_Set_def setenv_def)

lemma Environment_Unset_eq:
  "Environment_Unset e var =
     (if valid_name (c_str var) then (e\<lparr>vars := (vars e)(c_str var := None)\<rparr>, True) else (e, False))"
  by (auto simp: Environment_Unset_def unsetenv_def valid_name_def c_str_def)

text \<open>
  A value that was set is read back, up to its first 0, and no other variable changes; a failed call changes
  nothing; an unset variable reads as the default.
\<close>

lemma environment_set_get:
  "(snd (Environment_Set e var val) \<longleftrightarrow> val \<noteq> [] \<and> valid_name (c_str var) \<and> memory e) \<and>
   Environment_Get (fst (Environment_Set e var val)) var' d =
     (if snd (Environment_Set e var val) \<and> c_str var' = c_str var then c_str val
      else Environment_Get e var' d) \<and>
   Environment_Get (fst (Environment_Unset e var)) var' d =
     (if valid_name (c_str var) \<and> c_str var' = c_str var then d else Environment_Get e var' d) \<and>
   (snd (Environment_Set e var val) \<longrightarrow>
     Environment_Has (fst (Environment_Set e var val)) var = (hd val \<noteq> 0))"
proof -
  have ne: "var' \<noteq> []" if "valid_name (c_str var)" "c_str var' = c_str var" for var'
    using that by (auto simp: valid_name_def c_str_def)
  have hd: "c_str val \<noteq> [] \<longleftrightarrow> hd val \<noteq> 0" if "val \<noteq> []"
    using that by (cases val) (auto simp: c_str_def)
  show ?thesis
    using ne [of var'] ne [of var] hd
    by (auto simp: Environment_Set_success Environment_Set_fst Environment_Unset_eq Environment_Get_def
        Environment_Has_def)
qed

text \<open>While a \<^verbatim>\<open>TemporaryEnvironment\<close> lives, what its calls changed is tracked or unset.\<close>

definition tracked_keys :: "tracked \<Rightarrow> byte list set" where
  "tracked_keys entries = fst ` set entries"

lemma tracked_keys_simps [simp]:
  "tracked_keys [] = {}"
  "tracked_keys (AList.update k v entries) = insert k (tracked_keys entries)"
  "tracked_keys (AList.delete k entries) = tracked_keys entries - {k}"
  "tracked_keys ((k, v) # entries) = insert k (tracked_keys entries)"
  by (simp_all add: tracked_keys_def dom_map_of_conv_image_fst [symmetric] dom_update update_conv' delete_conv' dom_def)
    auto

lemma map_of_tracked: "map_of entries k = None \<longleftrightarrow> k \<notin> tracked_keys entries"
  by (simp add: tracked_keys_def map_of_eq_None_iff)

definition scope_ok :: "process_env \<Rightarrow> byte list set \<Rightarrow> process_env \<times> tracked \<Rightarrow> bool" where
  "scope_ok e0 touched st \<longleftrightarrow>
     memory (fst st) = memory e0 \<and>
     (\<forall>k. k \<notin> touched \<longrightarrow> vars (fst st) k = vars e0 k) \<and>
     (\<forall>k \<in> touched. vars (fst st) k \<noteq> None \<longrightarrow> k \<in> c_str ` tracked_keys (snd st)) \<and>
     (\<forall>key \<in> tracked_keys (snd st). valid_name (c_str key) \<and> c_str key \<in> touched)"

lemma env_call_step_ok:
  assumes "scope_ok e0 touched st"
  shows "scope_ok e0 (touched \<union> touches (memory e0) call) (env_call_step st call)"
proof (cases call)
  case (Call_Set var val)
  obtain e entries where st: "st = (e, entries)" by (cases st)
  show ?thesis
  proof (cases "snd (Environment_Set e var val)")
    case True
    then have "var \<noteq> []" by (auto simp: Environment_Set_success valid_name_def c_str_def)
    with True show ?thesis using assms
      by (auto simp: Call_Set st TemporaryEnvironment_Set_def Environment_Set_fst scope_ok_def case_prod_beta
          Environment_Set_success update_keys split: if_splits)
  next
    case False
    then show ?thesis using assms
      by (auto simp: Call_Set st TemporaryEnvironment_Set_def Environment_Set_fst scope_ok_def case_prod_beta
          Environment_Set_success)
  qed
next
  case (Call_Unset var)
  obtain e entries where st: "st = (e, entries)" by (cases st)
  show ?thesis using assms
    by (auto simp: Call_Unset st TemporaryEnvironment_Unset_def Environment_Unset_eq scope_ok_def
        case_prod_beta map_of_tracked split: if_splits)
qed

lemma destroy_unsets:
  assumes "\<forall>key \<in> tracked_keys entries. valid_name (c_str key)"
  shows "TemporaryEnvironment_destroy (e, entries) = e\<lparr>vars := vars e |` (- c_str ` tracked_keys entries)\<rparr>"
  using assms
proof (induction entries arbitrary: e)
  case Nil
  then show ?case by (simp add: TemporaryEnvironment_destroy_def)
next
  case (Cons kv entries)
  obtain k v where kv: "kv = (k, v)" by (cases kv)
  have "vars e |` (- c_str ` tracked_keys (kv # entries))
      = (vars e)(c_str k := None) |` (- c_str ` tracked_keys entries)"
    by (auto simp: kv restrict_map_def fun_eq_iff)
  moreover have "TemporaryEnvironment_destroy (e, kv # entries)
      = TemporaryEnvironment_destroy (e\<lparr>vars := (vars e)(c_str k := None)\<rparr>, entries)"
    using Cons.prems by (simp add: TemporaryEnvironment_destroy_def kv Environment_Unset_eq)
  moreover have "\<forall>key \<in> tracked_keys entries. valid_name (c_str key)" using Cons.prems by (simp add: kv)
  ultimately show ?case
    using Cons.IH [of "e\<lparr>vars := (vars e)(c_str k := None)\<rparr>", simplified] by (simp only: simp_thms fun_upd_def)
qed

text \<open>
  Property C26. When a \<^verbatim>\<open>TemporaryEnvironment\<close> ends, every variable that one of its calls set or unset is
  absent from the environment and every other one is as it was before: the values that were replaced are
  not restored.
\<close>

theorem temporary_environment_scope:
  "TemporaryEnvironment_scope e calls =
     e\<lparr>vars := vars e |` (- (\<Union>call \<in> set calls. touches (memory e) call))\<rparr>"
proof -
  let ?T = "\<lambda>calls. \<Union>call \<in> set calls. touches (memory e) call"
  have ok: "scope_ok e (?T calls) (foldl env_call_step (e, []) calls)"
  proof (induction calls rule: rev_induct)
    case Nil
    then show ?case by (simp add: scope_ok_def)
  next
    case (snoc call calls)
    from env_call_step_ok [OF this, of call] show ?case by (simp add: Un_commute)
  qed
  obtain e' entries where st: "foldl env_call_step (e, []) calls = (e', entries)" by fastforce
  have keys: "\<forall>key \<in> tracked_keys entries. valid_name (c_str key) \<and> c_str key \<in> ?T calls"
    and mem: "memory e' = memory e"
    and same: "\<And>k. k \<notin> ?T calls \<Longrightarrow> vars e' k = vars e k"
    and gone: "\<And>k. k \<in> ?T calls \<Longrightarrow> k \<notin> c_str ` tracked_keys entries \<Longrightarrow> vars e' k = None"
    using ok unfolding st scope_ok_def by (simp_all only: fst_conv snd_conv) blast+
  have "vars e' |` (- c_str ` tracked_keys entries) = vars e |` (- ?T calls)"
  proof
    fix k
    from keys have "k \<in> c_str ` tracked_keys entries \<Longrightarrow> k \<in> ?T calls" by blast
    with same [of k] gone [of k]
    show "(vars e' |` (- c_str ` tracked_keys entries)) k = (vars e |` (- ?T calls)) k"
      unfolding restrict_map_def Compl_iff by presburger
  qed
  moreover have "TemporaryEnvironment_scope e calls = e'\<lparr>vars := vars e' |` (- c_str ` tracked_keys entries)\<rparr>"
    unfolding TemporaryEnvironment_scope_def st using keys by (intro destroy_unsets) blast
  ultimately show ?thesis using mem by (intro process_env.equality) simp_all
qed

end
