(* ===== verification/Path_Util.thy ===== *)
theory Path_Util
  imports Path_Normalize Environment
begin

text \<open>
  \<^verbatim>\<open>PathUtil\<close> of the POSIX build (\<^verbatim>\<open>PathUtil.cpp\<close>, \<^verbatim>\<open>platforms/posix/PathUtil.cpp\<close>, \<^verbatim>\<open>Impl/PathUtil.h\<close>): the functions that need
  the environment, the working directory and the home directory, on top of the text part in
  \<^verbatim>\<open>Path_Normalize\<close>. \<^verbatim>\<open>Normalize\<close> calls \<^verbatim>\<open>GetCwdPath\<close>, \<^verbatim>\<open>GetHomePath\<close> and \<^verbatim>\<open>Join\<close>, which call it again, and the recursion need
  not end: it is a \<^verbatim>\<open>partial_function\<close> whose value \<open>None\<close> says that no call returns. What the system reports
  (\<^verbatim>\<open>getcwd\<close>, \<^verbatim>\<open>getpwuid\<close>, \<^verbatim>\<open>readlink\<close>) is a field of a record, with \<open>None\<close> for a failure.
\<close>

section \<open>Model\<close>

type_synonym 'a call = "'a exec option"

definition call_then :: "'a call \<Rightarrow> ('a \<Rightarrow> 'b call) \<Rightarrow> 'b call" where
  "call_then m k = Option.bind m (\<lambda>r. case r of Inl f \<Rightarrow> Some (Inl f) | Inr x \<Rightarrow> k x)"

definition return :: "'a \<Rightarrow> 'a call" where
  "return x = Some (Inr x)"

record path_env =
  process :: process_env
  getcwd :: "byte list option"
  pw_dir_uid :: "byte list option"
  pw_dir_euid :: "byte list option"
  self_exe :: "byte list option"

definition FUSION_CWD :: "byte list" where "FUSION_CWD = [70, 85, 83, 73, 79, 78, 95, 67, 87, 68]"
definition FUSION_HOME :: "byte list" where "FUSION_HOME = [70, 85, 83, 73, 79, 78, 95, 72, 79, 77, 69]"
definition HOME :: "byte list" where "HOME = [72, 79, 77, 69]"
definition TMPDIR :: "byte list" where "TMPDIR = [84, 77, 80, 68, 73, 82]"
definition XDG_CACHE_HOME :: "byte list" where
  "XDG_CACHE_HOME = [88, 68, 71, 95, 67, 65, 67, 72, 69, 95, 72, 79, 77, 69]"
definition XDG_CONFIG_HOME :: "byte list" where
  "XDG_CONFIG_HOME = [88, 68, 71, 95, 67, 79, 78, 70, 73, 71, 95, 72, 79, 77, 69]"
definition XDG_DATA_HOME :: "byte list" where
  "XDG_DATA_HOME = [88, 68, 71, 95, 68, 65, 84, 65, 95, 72, 79, 77, 69]"

definition env_var :: "path_env \<Rightarrow> byte list \<Rightarrow> byte list" where
  "env_var E var = Environment_Get (process E) var []"

definition join_text :: "byte list \<Rightarrow> byte list \<Rightarrow> byte list" where
  "join_text existing segment =
     (if IsAbsolute segment \<or> existing = [] then segment
      else if segment \<noteq> [] then
        existing @ (if last existing \<noteq> SeparatorUnix \<and> last existing \<noteq> SeparatorWindows then [SeparatorUnix] else [])
          @ segment
      else existing)"

text \<open>The functions that \<^verbatim>\<open>Normalize\<close> calls, over the \<^verbatim>\<open>Normalize\<close> they call in turn.\<close>

definition Join_by :: "(byte list \<Rightarrow> byte list call) \<Rightarrow> byte list \<Rightarrow> byte list \<Rightarrow> byte list call" where
  "Join_by norm existing segment = norm (join_text existing segment)"

definition GetCwdPath_by :: "(byte list \<Rightarrow> byte list call) \<Rightarrow> path_env \<Rightarrow> byte list call" where
  "GetCwdPath_by norm E =
     (if env_var E FUSION_CWD \<noteq> [] then return (env_var E FUSION_CWD)
      else case getcwd E of None \<Rightarrow> return [] | Some cwd \<Rightarrow> norm (c_str cwd))"

definition GetHomePath_by :: "(byte list \<Rightarrow> byte list call) \<Rightarrow> path_env \<Rightarrow> byte list call" where
  "GetHomePath_by norm E =
     (if env_var E FUSION_HOME \<noteq> [] then norm (env_var E FUSION_HOME)
      else if env_var E HOME \<noteq> [] then norm (env_var E HOME)
      else case pw_dir_uid E of Some pw_dir \<Rightarrow> norm (c_str pw_dir)
      | None \<Rightarrow> (case pw_dir_euid E of Some pw_dir \<Rightarrow> norm (c_str pw_dir) | None \<Rightarrow> return []))"

lemma call_then_mono [partial_function_mono]:
  assumes "mono_option B" and "\<And>y. mono_option (\<lambda>f. C y f)"
  shows "mono_option (\<lambda>f. call_then (B f) (\<lambda>y. C y f))"
  unfolding call_then_def
proof (intro partial_function_mono assms)
  show "mono_option (\<lambda>f. case r of Inl e \<Rightarrow> Some (Inl e) | Inr x \<Rightarrow> C x f)" for r
    using assms(2) by (cases r) (auto intro: partial_function_mono)
qed

lemma Join_by_mono [partial_function_mono]:
  "(\<And>p. mono_option (\<lambda>f. N f p)) \<Longrightarrow> mono_option (\<lambda>f. Join_by (N f) existing segment)"
  by (simp add: Join_by_def)

lemma GetCwdPath_by_mono [partial_function_mono]:
  "(\<And>p. mono_option (\<lambda>f. N f p)) \<Longrightarrow> mono_option (\<lambda>f. GetCwdPath_by (N f) E)"
  by (cases "env_var E FUSION_CWD = []"; cases "getcwd E") (auto simp: GetCwdPath_by_def intro: partial_function_mono)

lemma GetHomePath_by_mono [partial_function_mono]:
  "(\<And>p. mono_option (\<lambda>f. N f p)) \<Longrightarrow> mono_option (\<lambda>f. GetHomePath_by (N f) E)"
  by (cases "env_var E FUSION_HOME = []"; cases "env_var E HOME = []"; cases "pw_dir_uid E"; cases "pw_dir_euid E")
    (auto simp: GetHomePath_by_def intro: partial_function_mono)

partial_function (option) Normalize :: "path_env \<Rightarrow> byte list \<Rightarrow> byte list call" where
  "Normalize E path0 =
     (if path0 = [] then return []
      else let path = purge_trailing (Normcase path0) in
        if path ! 0 = 46 \<and> length path = 1 then GetCwdPath_by (Normalize E) E
        else if path ! 0 = 46 \<and> 2 \<le> length path \<and> (path ! 1 = SeparatorUnix \<or> path ! 1 = 46) then
          call_then (GetCwdPath_by (Normalize E) E) (\<lambda>cwd. Join_by (Normalize E) cwd path)
        else if path ! 0 = 126 then
          (if length path = 1 then GetHomePath_by (Normalize E) E
           else call_then (GetHomePath_by (Normalize E) E) (\<lambda>home. Join_by (Normalize E) home path))
        else Some (normalize_text path))"

definition GetCwdPath :: "path_env \<Rightarrow> byte list call" where
  "GetCwdPath E = GetCwdPath_by (Normalize E) E"

definition GetHomePath :: "path_env \<Rightarrow> byte list call" where
  "GetHomePath E = GetHomePath_by (Normalize E) E"

definition Join :: "path_env \<Rightarrow> byte list \<Rightarrow> byte list \<Rightarrow> byte list call" where
  "Join E = Join_by (Normalize E)"

fun Join_all :: "path_env \<Rightarrow> byte list \<Rightarrow> byte list list \<Rightarrow> byte list call" where
  "Join_all E path [] = return path"
| "Join_all E path (arg # args) = call_then (Join E path arg) (\<lambda>path. Join_all E path args)"

definition Join_variadic ::
  "path_env \<Rightarrow> byte list \<Rightarrow> byte list \<Rightarrow> byte list \<Rightarrow> byte list list \<Rightarrow> byte list call" where
  "Join_variadic E a b c args = Join_all E [] (a # b # c # args)"

definition Basename :: "path_env \<Rightarrow> byte list \<Rightarrow> byte list call" where
  "Basename E path =
     call_then (Normalize E path) (\<lambda>normalized.
     if IsNormalizedRoot normalized then return []
     else case rfind SeparatorUnix (length normalized) normalized of
       None \<Rightarrow> return normalized
     | Some separator \<Rightarrow> Some (erase_range 0 (separator + 1) normalized))"

definition Dirname :: "path_env \<Rightarrow> byte list \<Rightarrow> byte list call" where
  "Dirname E path =
     call_then (Normalize E path) (\<lambda>normalized.
     if IsNormalizedRoot normalized then return normalized
     else case rfind SeparatorUnix (length normalized) normalized of
       None \<Rightarrow> return []
     | Some separator \<Rightarrow>
         (let normalized = take separator normalized
          in return (if normalized = [] \<or> IsNormalizedRoot normalized then normalized @ [SeparatorUnix]
             else normalized)))"

definition Extension :: "path_env \<Rightarrow> byte list \<Rightarrow> byte list call" where
  "Extension E file =
     call_then (Basename E file) (\<lambda>basename.
     if basename = [] then return []
     else case rfind 46 (length basename) basename of
       None \<Rightarrow> return []
     | Some dot \<Rightarrow> Some (erase_range 0 (dot + 1) basename))"

definition IsRelative :: "path_env \<Rightarrow> byte list \<Rightarrow> byte list \<Rightarrow> bool call" where
  "IsRelative E child parent =
     call_then (Normalize E parent) (\<lambda>p.
     call_then (Normalize E child) (\<lambda>c.
     if length p \<ge> length c \<or> take (length p) c \<noteq> p then return False
     else return (c ! length p = SeparatorUnix \<or> IsNormalizedRoot p)))"

definition IsSeparator :: "byte \<Rightarrow> bool" where
  "IsSeparator c \<longleftrightarrow> c = SeparatorUnix \<or> c = SeparatorWindows"

definition IsSpecialCharacter :: "byte \<Rightarrow> bool" where
  "IsSpecialCharacter c \<longleftrightarrow> c = SeparatorUnix \<or> c = SeparatorWindows \<or> c = SeparatorDrive \<or> c = 126"

definition LongPath :: "path_env \<Rightarrow> byte list \<Rightarrow> byte list call" where
  "LongPath E path = Normalize E path"

definition RelPath :: "path_env \<Rightarrow> byte list \<Rightarrow> byte list \<Rightarrow> byte list call" where
  "RelPath E path parent =
     (if path = [] then return []
      else if IsAbsolute path then Normalize E path
      else if parent = [] then
        call_then (GetCwdPath E) (\<lambda>cwd. if cwd \<noteq> [] then Join E cwd path else Join E parent path)
      else Join E parent path)"

text \<open>The directories of the platform.\<close>

definition app_path :: "path_env \<Rightarrow> byte list \<Rightarrow> byte list \<Rightarrow> byte list call" where
  "app_path E var subdirectory =
     call_then (GetHomePath E) (\<lambda>path.
     if path = [] then return []
     else if env_var E var \<noteq> [] then return (env_var E var)
     else Join E path subdirectory)"

definition GetAppCachePath :: "path_env \<Rightarrow> byte list call" where
  "GetAppCachePath E = app_path E XDG_CACHE_HOME [46, 99, 97, 99, 104, 101]"

definition GetAppConfigPath :: "path_env \<Rightarrow> byte list call" where
  "GetAppConfigPath E = app_path E XDG_CONFIG_HOME [46, 99, 111, 110, 102, 105, 103]"

definition GetAppDataPath :: "path_env \<Rightarrow> byte list call" where
  "GetAppDataPath E = app_path E XDG_DATA_HOME [46, 108, 111, 99, 97, 108, 47, 115, 104, 97, 114, 101]"

definition GetConfigPath :: "byte list" where
  "GetConfigPath = [47, 101, 116, 99]"

definition GetExecutablePath :: "path_env \<Rightarrow> byte list call" where
  "GetExecutablePath E = (case self_exe E of None \<Rightarrow> return [] | Some path \<Rightarrow> Dirname E path)"

definition GetProgramFilesPath :: "bool \<Rightarrow> byte list" where
  "GetProgramFilesPath use64 = []"

definition GetTempPath :: "path_env \<Rightarrow> byte list call" where
  "GetTempPath E =
     (if env_var E TMPDIR \<noteq> [] then Normalize E (env_var E TMPDIR) else return [47, 116, 109, 112])"

section \<open>Resolution\<close>

lemma segments_split: "segments (p @ 47 # q) = segments p @ segments q"
  by (induction p) (auto simp: hd_append tl_append split: list.split)

lemma segments_plain_all: "s \<in> set (segments p) \<Longrightarrow> 47 \<notin> set s"
proof (induction p arbitrary: s)
  case (Cons c p)
  then show ?case by (cases "segments p") (auto split: if_splits)
qed simp

lemma resolve_append_separator: "resolve a (p @ [47]) = resolve a p"
  unfolding resolve_def segments_split by (cases "foldl (resolve_one a) (0, []) (segments p)") simp

lemma resolve_append:
  "resolve a (p @ 47 # q) = foldl (resolve_one a) (resolve a p) (segments q)"
  by (simp add: resolve_def segments_split)

lemma resolve_ok: "stack_ok a (resolve a p)"
proof -
  have "stack_ok a (foldl (resolve_one a) ks ss)" if "stack_ok a ks" "\<forall>s \<in> set ss. 47 \<notin> set s" for ks ss
    using that by (induction ss arbitrary: ks) (simp_all add: resolve_one_ok)
  from this [of "(0, [])" "segments p"] show ?thesis
    by (auto simp: resolve_def stack_ok_def dest: segments_plain_all)
qed

lemma resolve_absolute:
  obtains st where "resolve True p = (0, st)" and "\<forall>s \<in> set st. good_segment s"
  using resolve_ok [of True p] that by (cases "resolve True p") (auto simp: stack_ok_def)

lemma segments_joined: "st \<noteq> [] \<Longrightarrow> \<forall>s \<in> set st. 47 \<notin> set s \<Longrightarrow> segments (joined st) = st"
  by (induction st rule: joined.induct) (simp_all add: segments_plain segments_append)

lemma resolve_one_good: "good_segment s \<Longrightarrow> resolve_one a (k, st) s = (k, st @ [s])"
  by (simp add: good_segment_def)

lemma foldl_resolve_good:
  "\<forall>s \<in> set ss. good_segment s \<Longrightarrow> foldl (resolve_one a) (k, st) ss = (k, st @ ss)"
  by (induction ss arbitrary: st) (simp_all add: resolve_one_good del: resolve_one.simps)

lemma good_plain: "\<forall>s \<in> set st. good_segment s \<Longrightarrow> \<forall>s \<in> set st. 47 \<notin> set s"
  by (simp add: good_segment_def)

lemma segments_render:
  "\<forall>s \<in> set st. good_segment s \<Longrightarrow> segments (render True (0, st)) = [] # (if st = [] then [[]] else st)"
  using segments_joined [of st] good_plain [of st] by auto

lemma resolve_render: "\<forall>s \<in> set st. good_segment s \<Longrightarrow> resolve True (render True (0, st)) = (0, st)"
  using foldl_resolve_good [of st True 0 "[]"]
  unfolding resolve_def by (subst segments_render) auto

lemma IsAbsolute_render [simp]: "IsAbsolute (render True ks)"
  by (cases ks) (simp add: IsAbsolute_def SeparatorUnix_def)

section \<open>Normalize\<close>

lemma call_then_simps [simp]:
  "call_then (return x) k = k x" "call_then (Some (Inr x)) k = k x" "call_then None k = None"
  "call_then (Some (Inl f)) k = Some (Inl f)"
  by (simp_all add: call_then_def return_def)

lemma purge_trailing_split:
  assumes "path \<noteq> []"
  obtains n where "path = purge_trailing path @ replicate n 47" and "purge_trailing path \<noteq> []"
    and "purge_trailing path ! 0 = path ! 0"
proof -
  have "\<exists>n. path = purge_trailing path @ replicate n 47 \<and> purge_trailing path \<noteq> []" using assms
  proof (induction path rule: purge_trailing.induct)
    case (1 path)
    show ?case
    proof (cases "1 < length path \<and> last path = SeparatorUnix")
      case True
      then have ne: "butlast path \<noteq> []" by (cases path rule: rev_cases) auto
      from "1.IH" [OF True ne] obtain n where
        n: "butlast path = purge_trailing (butlast path) @ replicate n 47" "purge_trailing (butlast path) \<noteq> []" by blast
      have "path = butlast path @ [47]" using True "1.prems" by (metis SeparatorUnix_def append_butlast_last_id)
      also have "\<dots> = purge_trailing (butlast path) @ replicate (Suc n) 47"
        by (subst n) (simp add: replicate_append_same)
      finally have "path = purge_trailing (butlast path) @ replicate (Suc n) 47" .
      moreover have "purge_trailing path = purge_trailing (butlast path)"
        using True by (subst purge_trailing.simps) simp
      ultimately show ?thesis using n(2) by metis
    next
      case False
      then have "purge_trailing path = path" by (subst purge_trailing.simps) auto
      then show ?thesis using "1.prems" by (metis append_Nil2 replicate_0)
    qed
  qed
  then obtain n where n: "path = purge_trailing path @ replicate n 47" "purge_trailing path \<noteq> []" by blast
  then have "purge_trailing path ! 0 = path ! 0" by (metis nth_append length_greater_0_conv)
  with that n show ?thesis by blast
qed

lemma resolve_replicate: "resolve a (p @ replicate n 47) = resolve a p"
proof (induction n)
  case (Suc n)
  have "p @ replicate (Suc n) 47 = (p @ replicate n 47) @ [47]" by (simp add: replicate_append_same)
  with Suc show ?case by (simp only: resolve_append_separator)
qed simp

lemma purge_trailing_facts:
  assumes "path \<noteq> []"
  shows "purge_trailing path \<noteq> []" "purge_trailing path ! 0 = path ! 0"
    "IsAbsolute (purge_trailing path) = IsAbsolute path" "resolve a (purge_trailing path) = resolve a path"
proof -
  obtain n where n: "path = purge_trailing path @ replicate n 47" "purge_trailing path \<noteq> []"
    "purge_trailing path ! 0 = path ! 0" using purge_trailing_split [OF assms] .
  then show "purge_trailing path \<noteq> []" "purge_trailing path ! 0 = path ! 0" by simp_all
  then show "IsAbsolute (purge_trailing path) = IsAbsolute path" using assms by (simp add: IsAbsolute_def)
  show "resolve a (purge_trailing path) = resolve a path" using n(1) resolve_replicate by metis
qed

text \<open>The paths that start at the working directory or at the home directory.\<close>

definition dot_path :: "byte list \<Rightarrow> bool" where
  "dot_path path \<longleftrightarrow> path ! 0 = 46 \<and> (length path = 1 \<or> path ! 1 = 47 \<or> path ! 1 = 46)"

definition special_path :: "byte list \<Rightarrow> bool" where
  "special_path path \<longleftrightarrow> dot_path (purge_trailing path) \<or> path ! 0 = 126"

lemma Normalize_empty [simp]: "Normalize E [] = Some (Inr [])"
  by (simp add: Normalize.simps return_def)

lemma Normalize_plain:
  assumes "path \<noteq> []" and "\<not> special_path path"
  shows "Normalize E path = Some (Inr (render (IsAbsolute path) (resolve (IsAbsolute path) path)))"
  using assms normalize_text_resolves [OF purge_trailing_facts(1) [OF assms(1)]] purge_trailing_facts [OF assms(1)]
  by (subst Normalize.simps) (auto simp: Normcase_def special_path_def dot_path_def SeparatorUnix_def Let_def)

lemma absolute_not_special: "IsAbsolute path \<Longrightarrow> \<not> special_path path"
  using purge_trailing_facts [of path] by (auto simp: IsAbsolute_def special_path_def dot_path_def SeparatorUnix_def)

lemma Normalize_absolute:
  "IsAbsolute path \<Longrightarrow> Normalize E path = Some (Inr (render True (resolve True path)))"
  using Normalize_plain [of path E] absolute_not_special [of path] by (auto simp: IsAbsolute_def)

lemma Normalize_dot:
  assumes "path \<noteq> []" and "dot_path (purge_trailing path)"
  shows "Normalize E path =
    (if length (purge_trailing path) = 1 then GetCwdPath E
     else call_then (GetCwdPath E) (\<lambda>cwd. Join E cwd (purge_trailing path)))"
proof -
  have "length (purge_trailing path) = 1 \<or> 2 \<le> length (purge_trailing path)"
    using purge_trailing_facts(1) [OF assms(1)] by (cases "purge_trailing path"; cases "tl (purge_trailing path)") auto
  with assms show ?thesis
    by (subst Normalize.simps)
      (auto simp: Normcase_def dot_path_def SeparatorUnix_def Let_def GetCwdPath_def Join_def)
qed

lemma Normalize_tilde:
  assumes "path \<noteq> []" and "path ! 0 = 126"
  shows "Normalize E path =
    (if length (purge_trailing path) = 1 then GetHomePath E
     else call_then (GetHomePath E) (\<lambda>home. Join E home (purge_trailing path)))"
  using assms purge_trailing_facts(2) [OF assms(1)]
  by (subst Normalize.simps) (auto simp: Normcase_def Let_def GetHomePath_def Join_def)

text \<open>The directory that \<^verbatim>\<open>GetHomePath\<close> normalizes.\<close>

definition home_dir :: "path_env \<Rightarrow> byte list option" where
  "home_dir E =
     (if env_var E FUSION_HOME \<noteq> [] then Some (env_var E FUSION_HOME)
      else if env_var E HOME \<noteq> [] then Some (env_var E HOME)
      else case pw_dir_uid E of Some d \<Rightarrow> Some (c_str d) | None \<Rightarrow> map_option c_str (pw_dir_euid E))"

lemma GetHomePath_home_dir:
  "GetHomePath E = (case home_dir E of None \<Rightarrow> return [] | Some d \<Rightarrow> Normalize E d)"
  by (auto simp: GetHomePath_def GetHomePath_by_def home_dir_def split: option.split)

definition cwd_absolute :: "path_env \<Rightarrow> bool" where
  "cwd_absolute E \<longleftrightarrow>
     IsAbsolute (env_var E FUSION_CWD) \<or>
     env_var E FUSION_CWD = [] \<and> (case getcwd E of Some d \<Rightarrow> IsAbsolute (c_str d) | None \<Rightarrow> False)"

definition home_absolute :: "path_env \<Rightarrow> bool" where
  "home_absolute E \<longleftrightarrow> (case home_dir E of Some d \<Rightarrow> IsAbsolute d | None \<Rightarrow> False)"

lemma cwd_absolute_returns:
  assumes "cwd_absolute E"
  obtains cwd where "GetCwdPath E = Some (Inr cwd)" and "IsAbsolute cwd"
proof (cases "env_var E FUSION_CWD = []")
  case True
  then obtain d where "getcwd E = Some d" "IsAbsolute (c_str d)"
    using assms by (auto simp: cwd_absolute_def IsAbsolute_def split: option.splits)
  then show ?thesis using True that Normalize_absolute [of "c_str d" E]
    by (simp add: GetCwdPath_def GetCwdPath_by_def)
next
  case False
  then show ?thesis using assms that by (auto simp: cwd_absolute_def GetCwdPath_def GetCwdPath_by_def return_def)
qed

lemma home_absolute_returns:
  assumes "home_absolute E"
  obtains home where "GetHomePath E = Some (Inr home)" and "IsAbsolute home"
  using assms that Normalize_absolute [of _ E]
  by (auto simp: home_absolute_def GetHomePath_home_dir split: option.splits)

lemma IsAbsolute_append [simp]: "IsAbsolute base \<Longrightarrow> IsAbsolute (base @ rest)"
  by (auto simp: IsAbsolute_def nth_append)

lemma join_text_absolute: "IsAbsolute base \<Longrightarrow> IsAbsolute (join_text base p)"
  by (auto simp: join_text_def) (simp add: IsAbsolute_def)

lemma resolve_join:
  assumes "IsAbsolute base" and "last base \<noteq> 92" and "\<not> IsAbsolute p"
  shows "resolve True (join_text base p) = resolve True (base @ 47 # p)"
proof (cases "p = []")
  case True
  then show ?thesis using assms(3)
    by (auto simp: join_text_def resolve_append_separator assms(1) IsAbsolute_def)
next
  case False
  have ne: "base \<noteq> []" using assms(1) by (simp add: IsAbsolute_def)
  show ?thesis
  proof (cases "last base = 47")
    case True
    then obtain b where b: "base = b @ [47]" using ne by (metis append_butlast_last_id)
    have "join_text base p = b @ 47 # p" using False True assms by (simp add: join_text_def b SeparatorUnix_def)
    moreover have "resolve True (base @ 47 # p) = foldl (resolve_one True) (resolve True b) (segments p)"
      unfolding resolve_append [of True base] by (simp only: b resolve_append_separator)
    ultimately show ?thesis by (simp add: resolve_append)
  next
    case last: False
    then show ?thesis using False assms ne by (simp add: join_text_def SeparatorUnix_def SeparatorWindows_def)
  qed
qed

text \<open>An environment with \<^verbatim>\<open>HOME=/h\<close> and the working directory \<^verbatim>\<open>/w\<close>.\<close>

definition sample_env :: path_env where
  "sample_env = \<lparr>process = \<lparr>vars = [HOME \<mapsto> [47, 104]], memory = True\<rparr>, getcwd = Some [47, 119],
     pw_dir_uid = None, pw_dir_euid = None, self_exe = None\<rparr>"

lemmas env_names = FUSION_CWD_def FUSION_HOME_def HOME_def

lemma sample_env_ok: "cwd_absolute sample_env" "home_absolute sample_env"
  by (simp_all add: cwd_absolute_def home_absolute_def home_dir_def env_var_def Environment_Get_def sample_env_def
      c_str_def env_names IsAbsolute_def SeparatorUnix_def)



text \<open>
  Property C24. When the working directory and the home directory are absolute, \<^verbatim>\<open>Normalize\<close> returns for
  every path; a path that starts with \<^verbatim>\<open>./\<close> or \<^verbatim>\<open>..\<close> is resolved from the working directory and one that starts with a
  tilde from the home directory, unless that directory ends in a backslash.
\<close>

theorem normalize_returns:
  assumes "cwd_absolute E" and "home_absolute E"
  shows "\<exists>r cwd home. Normalize E path = Some (Inr r) \<and>
     GetCwdPath E = Some (Inr cwd) \<and> GetHomePath E = Some (Inr home) \<and>
     (path \<noteq> [] \<and> special_path path \<longrightarrow> IsAbsolute r) \<and>
     (path \<noteq> [] \<and> dot_path (purge_trailing path) \<and> length (purge_trailing path) \<noteq> 1 \<and> last cwd \<noteq> 92 \<longrightarrow>
       r = render True (resolve True (cwd @ 47 # path))) \<and>
     (path \<noteq> [] \<and> path ! 0 = 126 \<and> length (purge_trailing path) \<noteq> 1 \<and> last home \<noteq> 92 \<longrightarrow>
       r = render True (resolve True (home @ 47 # path)))"
proof -
  obtain cwd where cwd: "GetCwdPath E = Some (Inr cwd)" "IsAbsolute cwd" using cwd_absolute_returns [OF assms(1)] .
  obtain home where home: "GetHomePath E = Some (Inr home)" "IsAbsolute home"
    using home_absolute_returns [OF assms(2)] .
  show ?thesis
  proof (cases "path = []")
    case True
    then show ?thesis using cwd home by simp
  next
    case ne: False
    note purge = purge_trailing_facts [OF ne]
    have join: "Join E base (purge_trailing path) = Some (Inr (render True (resolve True (join_text base (purge_trailing path)))))"
      if "IsAbsolute base" for base
      unfolding Join_def Join_by_def using that by (intro Normalize_absolute join_text_absolute)
    have res: "resolve True (join_text base (purge_trailing path)) = resolve True (base @ 47 # path)"
      if "IsAbsolute base" "last base \<noteq> 92" "\<not> IsAbsolute path" for base
    proof -
      obtain n where n: "path = purge_trailing path @ replicate n 47" using purge_trailing_split [OF ne] .
      have "resolve True (base @ 47 # path) = resolve True ((base @ 47 # purge_trailing path) @ replicate n 47)"
        by (subst n) simp
      also have "\<dots> = resolve True (base @ 47 # purge_trailing path)" by (rule resolve_replicate)
      finally show ?thesis using resolve_join [of base "purge_trailing path"] that purge(3) by simp
    qed
    consider "dot_path (purge_trailing path)" | "path ! 0 = 126" | "\<not> special_path path"
      by (auto simp: special_path_def)
    then show ?thesis
    proof cases
      case 1
      then have "\<not> IsAbsolute path" "path ! 0 \<noteq> 126"
        using purge by (auto simp: dot_path_def IsAbsolute_def SeparatorUnix_def)
      then show ?thesis using Normalize_dot [OF ne 1, of E] cwd home join [of cwd] res [of cwd] by auto
    next
      case 2
      then have "\<not> IsAbsolute path" "\<not> dot_path (purge_trailing path)"
        using purge by (auto simp: dot_path_def IsAbsolute_def SeparatorUnix_def)
      then show ?thesis using Normalize_tilde [OF ne 2, of E] cwd home join [of home] res [of home] 2 by auto
    next
      case 3
      then show ?thesis using Normalize_plain [OF ne 3, of E] cwd home by (auto simp: special_path_def)
    qed
  qed
qed

theorem normalize_returns_witness:
  "Normalize sample_env [46, 46, 47, 97] = Some (Inr [47, 97]) \<and>
   Normalize sample_env [126, 47, 97] = Some (Inr [47, 104, 47, 97])"
proof -
  have dirs: "GetCwdPath sample_env = Some (Inr [47, 119])" "GetHomePath sample_env = Some (Inr [47, 104])"
    using Normalize_absolute [of "[47, 119]" sample_env] Normalize_absolute [of "[47, 104]" sample_env]
    by (simp_all add: GetCwdPath_def GetCwdPath_by_def GetHomePath_home_dir home_dir_def env_var_def
        Environment_Get_def c_str_def env_names IsAbsolute_def SeparatorUnix_def resolve_def sample_env_def)
  have purge: "purge_trailing [46, 46, 47, 97] = [46, 46, 47, 97]" "purge_trailing [126, 47, 97] = [126, 47, 97]"
    by (simp_all add: purge_trailing.simps SeparatorUnix_def)
  show ?thesis
    using normalize_returns [OF sample_env_ok, of "[46, 46, 47, 97]"] normalize_returns [OF sample_env_ok, of "[126, 47, 97]"]
    by (simp add: dirs purge dot_path_def resolve_def)
qed

section \<open>The recursion that does not end\<close>

lemma purge_trailing_idem:
  assumes "last path \<noteq> 47"
  shows "purge_trailing path = path"
  using assms by (subst purge_trailing.simps) (simp add: SeparatorUnix_def)

lemma purge_trailing_last: "1 < length (purge_trailing path) \<Longrightarrow> last (purge_trailing path) \<noteq> 47"
proof (induction path rule: purge_trailing.induct)
  case (1 path)
  then show ?case
    by (auto simp: purge_trailing.simps [of path] SeparatorUnix_def split: if_splits)
qed

definition dot_dir :: "byte list \<Rightarrow> bool" where
  "dot_dir p \<longleftrightarrow> p \<noteq> [] \<and> dot_path (purge_trailing p) \<and> length (purge_trailing p) \<noteq> 1"

lemma dot_dir_join:
  assumes "dot_dir p" and "cwd = [] \<or> dot_path cwd"
  shows "dot_dir (join_text cwd (purge_trailing p))"
proof -
  let ?q = "purge_trailing p"
  have q: "?q \<noteq> []" "dot_path ?q" "length ?q \<noteq> 1" and rel: "\<not> IsAbsolute ?q" "last ?q \<noteq> 47"
    using assms(1) purge_trailing_facts(1) [of p] purge_trailing_last [of p]
    by (auto simp: dot_dir_def dot_path_def IsAbsolute_def SeparatorUnix_def neq_Nil_conv)
  have last: "last (join_text cwd ?q) \<noteq> 47" using q rel by (simp add: join_text_def)
  have "dot_path (join_text cwd ?q) \<and> length (join_text cwd ?q) \<noteq> 1"
  proof (cases "cwd = []")
    case True
    then show ?thesis using q by (simp add: join_text_def)
  next
    case False
    then have "dot_path cwd" using assms(2) by simp
    with False q rel show ?thesis
      by (cases cwd; cases "tl cwd") (auto simp: join_text_def dot_path_def SeparatorUnix_def SeparatorWindows_def nth_append)
  qed
  then show ?thesis using purge_trailing_idem [OF last] q by (auto simp: dot_dir_def join_text_def)
qed

text \<open>The bases from which \<^verbatim>\<open>GetCwdPath\<close> gives no start: none at all, or a \<^verbatim>\<open>FUSION_CWD\<close> that is itself relative to it.\<close>

definition cwd_circular :: "path_env \<Rightarrow> bool" where
  "cwd_circular E \<longleftrightarrow>
     (if env_var E FUSION_CWD = [] then getcwd E = None else dot_path (env_var E FUSION_CWD))"

definition home_circular :: "path_env \<Rightarrow> bool" where
  "home_circular E \<longleftrightarrow> (case home_dir E of Some d \<Rightarrow> d \<noteq> [] \<and> d ! 0 = 126 | None \<Rightarrow> True)"

lemma cwd_circular_diverges:
  assumes "cwd_circular E" and "dot_dir p"
  shows "Normalize E p = None"
proof (rule ccontr)
  assume "Normalize E p \<noteq> None"
  then obtain y where "Normalize E p = Some y" by blast
  then have "\<not> (cwd_circular E \<and> dot_dir p)"
  proof (induction rule: Normalize.raw_induct [of "\<lambda>E p _. \<not> (cwd_circular E \<and> dot_dir p)", rotated, consumes 1])
    case step: (1 f E p y)
    show ?case
    proof
      assume bad: "cwd_circular E \<and> dot_dir p"
      let ?q = "purge_trailing p"
      have q: "p \<noteq> []" "?q ! 0 = 46" "length ?q \<noteq> 1" "2 \<le> length ?q" "?q ! 1 = 47 \<or> ?q ! 1 = 46"
        using bad purge_trailing_facts(1) [of p] by (auto simp: dot_dir_def dot_path_def Suc_le_eq neq_Nil_conv)
      obtain cwd where cwd: "GetCwdPath_by (f E) E = return cwd" "cwd = [] \<or> dot_path cwd"
        using bad by (auto simp: GetCwdPath_by_def cwd_circular_def split: if_splits)
      have "f E (join_text cwd ?q) = Some y"
        using step(2) q cwd by (simp add: Normcase_def Let_def Join_by_def SeparatorUnix_def)
      from step(1) [OF this] bad dot_dir_join [of p cwd] cwd(2) show False by blast
    qed
  qed
  with assms show False by blast
qed

definition tilde_dir :: "path_env \<Rightarrow> byte list \<Rightarrow> bool" where
  "tilde_dir E p \<longleftrightarrow> p \<noteq> [] \<and> p ! 0 = 126 \<and> (home_dir E = None \<longrightarrow> length (purge_trailing p) \<noteq> 1)"

lemma GetHomePath_by_eq: "GetHomePath_by f E = (case home_dir E of None \<Rightarrow> return [] | Some d \<Rightarrow> f d)"
  by (auto simp: GetHomePath_by_def home_dir_def split: option.split)

lemma call_then_Some: "call_then m k = Some y \<Longrightarrow> \<exists>r. m = Some r"
  by (cases m) simp_all

lemma home_circular_diverges:
  assumes "home_circular E" and "tilde_dir E p"
  shows "Normalize E p = None"
proof (rule ccontr)
  assume "Normalize E p \<noteq> None"
  then obtain y where "Normalize E p = Some y" by blast
  then have "\<not> (home_circular E \<and> tilde_dir E p)"
  proof (induction rule: Normalize.raw_induct [of "\<lambda>E p _. \<not> (home_circular E \<and> tilde_dir E p)", rotated, consumes 1])
    case step: (1 f E p y)
    show ?case
    proof
      assume bad: "home_circular E \<and> tilde_dir E p"
      let ?q = "purge_trailing p"
      have p: "p \<noteq> []" and q: "?q ! 0 = 126" "?q \<noteq> []" using bad purge_trailing_facts(1,2) [of p] by (auto simp: tilde_dir_def)
      have body: "(if length ?q = 1 then GetHomePath_by (f E) E
          else call_then (GetHomePath_by (f E) E) (\<lambda>home. f E (join_text home ?q))) = Some y"
        using step(2) p q by (auto simp: Normcase_def Let_def Join_by_def split: if_splits)
      show False
      proof (cases "home_dir E")
        case None
        then have "length ?q \<noteq> 1" using bad by (simp add: tilde_dir_def)
        moreover from this have "last ?q \<noteq> 47" using purge_trailing_last [of p] q by (auto simp: neq_Nil_conv)
        moreover have "f E ?q = Some y" using body None calculation by (simp add: GetHomePath_by_eq join_text_def)
        ultimately show False
          using step(1) [of E ?q y] bad q purge_trailing_idem [of ?q] by (auto simp: tilde_dir_def)
      next
        case (Some d)
        with body obtain r where "f E d = Some r"
          by (auto simp: GetHomePath_by_eq split: if_splits dest: call_then_Some)
        from step(1) [OF this] bad Some show False by (auto simp: tilde_dir_def home_circular_def)
      qed
    qed
  qed
  with assms show False by blast
qed

text \<open>
  \<^verbatim>\<open>Normalize\<close> never returns for \<^verbatim>\<open>./a\<close> or \<^verbatim>\<open>../a\<close> when the working directory is unknown or \<^verbatim>\<open>FUSION_CWD\<close>
  starts with a dot segment, and for \<^verbatim>\<open>~/a\<close> when the home directory is unknown or itself starts with a tilde.
\<close>

theorem normalize_diverges:
  "(cwd_circular E \<and> dot_dir p \<longrightarrow> Normalize E p = None) \<and>
   (home_circular E \<and> tilde_dir E p \<longrightarrow> Normalize E p = None)"
  using cwd_circular_diverges home_circular_diverges by blast

theorem normalize_diverges_witness:
  "Normalize (sample_env\<lparr>getcwd := None\<rparr>) [46, 46, 47, 97] = None \<and>
   Normalize (sample_env\<lparr>process := \<lparr>vars = [HOME \<mapsto> [126]], memory = True\<rparr>\<rparr>) [126] = None"
proof -
  have "cwd_circular (sample_env\<lparr>getcwd := None\<rparr>)"
    by (simp add: cwd_circular_def env_var_def Environment_Get_def sample_env_def c_str_def env_names)
  moreover have "dot_dir [46, 46, 47, 97]"
    by (simp add: dot_dir_def dot_path_def purge_trailing.simps SeparatorUnix_def)
  moreover have "home_dir (sample_env\<lparr>process := \<lparr>vars = [HOME \<mapsto> [126]], memory = True\<rparr>\<rparr>) = Some [126]"
    by (simp add: home_dir_def env_var_def Environment_Get_def sample_env_def c_str_def env_names)
  ultimately show ?thesis
    using normalize_diverges [of "sample_env\<lparr>getcwd := None\<rparr>" "[46, 46, 47, 97]"]
      normalize_diverges [of "sample_env\<lparr>process := \<lparr>vars = [HOME \<mapsto> [126]], memory = True\<rparr>\<rparr>" "[126]"]
    by (simp add: home_circular_def tilde_dir_def)
qed

section \<open>Basename, Dirname and IsRelative\<close>

lemma rfind_all:
  assumes "47 \<notin> set s"
  shows "rfind 47 (length (A @ 47 # s)) (A @ 47 # s) = Some (length A)"
proof -
  have "rfind 47 (length (A @ 47 # s)) (A @ 47 # s) = rfind 47 (length A + length s) (A @ 47 # s)"
    by (simp add: rfind_def)
  then show ?thesis using rfind_before [OF assms, of A "[]"] by simp
qed

lemma render_snoc:
  obtains A where "render True (0, st @ [x]) = A @ 47 # x" and "A = (if st = [] then [] else render True (0, st))"
  using that [of "if st = [] then [] else render True (0, st)"] joined_snoc [of st x] body_joined [of st]
  by (cases "st = []") simp_all

lemma IsNormalizedRoot_render:
  "\<forall>s \<in> set st. good_segment s \<Longrightarrow> IsNormalizedRoot (render True (0, st)) \<longleftrightarrow> st = []"
  by (cases st rule: joined.cases) (auto simp: IsNormalizedRoot_def SeparatorUnix_def good_segment_def)

lemma Basename_Dirname_absolute:
  assumes "IsAbsolute path" and "resolve True path = (0, st)" and "\<forall>s \<in> set st. good_segment s"
  shows "Basename E path = Some (Inr (if st = [] then [] else last st))"
    and "Dirname E path = Some (Inr (render True (0, butlast st)))"
proof -
  have norm: "Normalize E path = Some (Inr (render True (0, st)))"
    using Normalize_absolute [OF assms(1)] assms(2) by (simp del: render.simps)
  note root = IsNormalizedRoot_render [OF assms(3)]
  have "Basename E path = Some (Inr (if st = [] then [] else last st)) \<and>
    Dirname E path = Some (Inr (render True (0, butlast st)))"
  proof (cases st rule: rev_cases)
    case Nil
    then show ?thesis using norm root
      by (simp add: Basename_def Dirname_def return_def)
  next
    case (snoc st' x)
    then have x: "47 \<notin> set x" and st': "\<forall>s \<in> set st'. good_segment s" using assms(3) by (auto simp: good_segment_def)
    obtain A where A: "render True (0, st) = A @ 47 # x" and A': "A = (if st' = [] then [] else render True (0, st'))"
      using render_snoc [of st' x] snoc by blast
    have "\<not> IsNormalizedRoot A" using A' IsNormalizedRoot_render [OF st'] by (auto simp: IsNormalizedRoot_def)
    moreover have "A = [] \<longleftrightarrow> st' = []" using A' by simp
    moreover have "\<not> IsNormalizedRoot (A @ 47 # x)" using root A snoc by simp
    ultimately show ?thesis using norm A A' snoc rfind_all [OF x, of A]
      by (auto simp: Basename_def Dirname_def return_def SeparatorUnix_def erase_range_def Let_def)
  qed
  then show "Basename E path = Some (Inr (if st = [] then [] else last st))"
    "Dirname E path = Some (Inr (render True (0, butlast st)))" by blast+
qed



lemma extends_iff:
  "length P < length C \<and> take (length P) C = P \<and> C ! length P = x \<longleftrightarrow> (\<exists>r. C = P @ x # r)"
proof
  assume "length P < length C \<and> take (length P) C = P \<and> C ! length P = x"
  then have "C = P @ x # drop (Suc (length P)) C"
    by (metis append_take_drop_id Cons_nth_drop_Suc)
  then show "\<exists>r. C = P @ x # r" ..
qed auto

lemma render_below:
  assumes p: "\<forall>s \<in> set p. good_segment s" and c: "\<forall>s \<in> set c. good_segment s"
  shows "(length (render True (0, p)) < length (render True (0, c)) \<and>
      take (length (render True (0, p))) (render True (0, c)) = render True (0, p) \<and>
      (render True (0, c) ! length (render True (0, p)) = 47 \<or> IsNormalizedRoot (render True (0, p))))
    \<longleftrightarrow> strict_prefix p c" (is "?L \<longleftrightarrow> _")
proof (cases "p = []")
  case True
  then show ?thesis using c joined_snoc
    by (cases c rule: joined.cases) (auto simp: IsNormalizedRoot_def SeparatorUnix_def good_segment_def)
next
  case False
  let ?P = "render True (0, p)" and ?C = "render True (0, c)"
  have "\<not> IsNormalizedRoot ?P" using IsNormalizedRoot_render [OF p] False by simp
  then have "?L \<longleftrightarrow> (\<exists>r. ?C = ?P @ 47 # r)" unfolding extends_iff [symmetric] by blast
  also have "\<dots> \<longleftrightarrow> strict_prefix p c"
  proof
    assume "\<exists>r. ?C = ?P @ 47 # r"
    then obtain r where r: "?C = ?P @ 47 # r" ..
    have "segments ?C = segments ?P @ segments r" unfolding r by (rule segments_split)
    then have "[] # (if c = [] then [[]] else c) = [] # p @ segments r"
      unfolding segments_render [OF p] segments_render [OF c] using False by simp
    moreover have "c \<noteq> []" using calculation False segments_not_Nil [of r] by (cases p; cases "segments r") auto
    ultimately show "strict_prefix p c" by (simp add: strict_prefix_def)
  next
    assume "strict_prefix p c"
    then obtain y ys where "c = p @ y # ys" by (auto elim: strict_prefixE')
    moreover have "joined (p @ y # ys) = joined p @ 47 # joined (y # ys)" using False
      by (induction p rule: joined.induct) simp_all
    ultimately show "\<exists>r. ?C = ?P @ 47 # r" by simp
  qed
  finally show ?thesis .
qed

text \<open>
  For absolute paths \<^verbatim>\<open>IsRelative\<close> tells whether the child lies strictly below the parent: the resolved
  segments of the parent are a proper prefix of those of the child.
\<close>

theorem is_relative_below:
  assumes "IsAbsolute child" and "IsAbsolute parent"
  shows "IsRelative E child parent =
    Some (Inr (strict_prefix (snd (resolve True parent)) (snd (resolve True child))))"
proof -
  obtain c where c: "resolve True child = (0, c)" "\<forall>s \<in> set c. good_segment s" using resolve_absolute .
  obtain p where p: "resolve True parent = (0, p)" "\<forall>s \<in> set p. good_segment s" using resolve_absolute .
  show ?thesis
    using render_below [OF p(2) c(2)] Normalize_absolute [OF assms(1), of E] Normalize_absolute [OF assms(2), of E]
    unfolding IsRelative_def c p by (auto simp: return_def SeparatorUnix_def simp del: render.simps)
qed

theorem is_relative_below_witness:
  "IsRelative sample_env [47, 97, 47, 98] [47, 97, 47] = Some (Inr True) \<and>
   IsRelative sample_env [47, 97, 98] [47, 97] = Some (Inr False)"
proof -
  have "IsAbsolute [47, 97, 47, 98]" "IsAbsolute [47, 97, 47]" "IsAbsolute [47, 97, 98]" "IsAbsolute [47, 97]"
    by (simp_all add: IsAbsolute_def SeparatorUnix_def)
  then show ?thesis
    using is_relative_below [of "[47, 97, 47, 98]" "[47, 97, 47]" sample_env]
      is_relative_below [of "[47, 97, 98]" "[47, 97]" sample_env]
    by (simp add: resolve_def strict_prefix_def)
qed

section \<open>Relative paths\<close>

lemma joined_dots: "0 < k \<Longrightarrow> \<exists>r. joined (replicate k [46, 46] @ st) = 46 # 46 # r"
  by (cases k; cases "replicate (k - 1) [46, 46] @ st") auto

lemma joined_last:
  assumes "st \<noteq> []" and "\<forall>s \<in> set st. s \<noteq> [] \<and> last s \<noteq> 47"
  shows "joined st \<noteq> [] \<and> last (joined st) \<noteq> 47"
  using assms by (cases st rule: rev_cases) (simp_all add: joined_snoc)

text \<open>
  A relative path that does not start at the working or home directory keeps the \<^verbatim>\<open>..\<close> that climb
  above its start in front of the remaining segments. The result is then one that a second \<^verbatim>\<open>Normalize\<close> resolves
  from the working directory, so \<^verbatim>\<open>Normalize\<close> is not idempotent on it.
\<close>

theorem normalize_relative:
  assumes "path \<noteq> []" and "\<not> special_path path" and "\<not> IsAbsolute path" and "cwd_absolute E"
  shows "\<exists>k st r. resolve False path = (k, st) \<and> r = joined (replicate k [46, 46] @ st) \<and>
     Normalize E path = Some (Inr r) \<and>
     (k > 0 \<longrightarrow> dot_dir r \<and> (\<exists>r'. Normalize E r = Some (Inr r') \<and> IsAbsolute r' \<and> r' \<noteq> r))"
proof -
  obtain k st where ks: "resolve False path = (k, st)" by fastforce
  let ?r = "joined (replicate k [46, 46] @ st)"
  have norm: "Normalize E path = Some (Inr ?r)" using Normalize_plain [OF assms(1,2), of E] assms(3) ks by simp
  have "dot_dir ?r \<and> (\<exists>r'. Normalize E ?r = Some (Inr r') \<and> IsAbsolute r' \<and> r' \<noteq> ?r)" if k: "k > 0"
  proof -
    obtain q where q: "?r = 46 # 46 # q" using joined_dots [OF k, of st] ..
    have "\<forall>s \<in> set (replicate k [46, 46] @ st). s \<noteq> [] \<and> last s \<noteq> 47"
      using resolve_ok [of False path] ks by (auto simp: stack_ok_def dest: good_last)
    with joined_last [of "replicate k [46, 46] @ st"] k have "last ?r \<noteq> 47" by auto
    then have purge: "purge_trailing ?r = ?r" by (rule purge_trailing_idem)
    then have dot: "?r \<noteq> []" "dot_path (purge_trailing ?r)" "length ?r \<noteq> 1" "\<not> IsAbsolute ?r"
      by (simp_all add: q dot_path_def IsAbsolute_def SeparatorUnix_def)
    obtain cwd where cwd: "GetCwdPath E = Some (Inr cwd)" "IsAbsolute cwd" using cwd_absolute_returns [OF assms(4)] .
    have "Normalize E ?r = Join E cwd ?r" using Normalize_dot [OF dot(1,2), of E] purge dot(3) cwd(1) by simp
    also have "\<dots> = Some (Inr (render True (resolve True (join_text cwd ?r))))"
      unfolding Join_def Join_by_def by (intro Normalize_absolute join_text_absolute cwd)
    finally show ?thesis using dot purge IsAbsolute_render unfolding dot_dir_def by metis
  qed
  with ks norm show ?thesis by blast
qed

theorem normalize_relative_witness:
  "Normalize sample_env [97, 47, 46, 46, 47, 46, 46, 47, 98] = Some (Inr [46, 46, 47, 98]) \<and>
   Normalize sample_env [46, 46, 47, 98] \<noteq> Some (Inr [46, 46, 47, 98])"
proof -
  let ?p = "[97, 47, 46, 46, 47, 46, 46, 47, 98]"
  have "\<not> special_path ?p" "\<not> IsAbsolute ?p"
    by (simp_all add: special_path_def dot_path_def purge_trailing.simps SeparatorUnix_def IsAbsolute_def)
  moreover have "resolve False ?p = (1, [[98]])" by (simp add: resolve_def)
  ultimately show ?thesis using normalize_relative [OF _ _ _ sample_env_ok(1), of ?p] by auto
qed

text \<open>
  What the POSIX build computes for inputs of its own test-suite: a backslash is neither replaced nor
  taken for a separator, a doubled leading separator is absolute and is reduced to one, and no separator is
  appended.
\<close>

theorem posix_backslash_and_double_separator:
  "Normcase [92, 102, 111, 79] = [92, 102, 111, 79] \<and>
   IsAbsolute [47, 47, 97, 47, 98] \<and>
   Normalize E [47, 47, 102, 111, 111, 47, 98] = Some (Inr [47, 102, 111, 111, 47, 98]) \<and>
   Normalize E [97, 47, 46, 46, 47, 98, 92, 47, 47, 92, 47, 47] = Some (Inr [98, 92, 47, 92])"
proof -
  have "IsAbsolute [47, 47, 97, 47, 98]" "IsAbsolute [47, 47, 102, 111, 111, 47, 98]"
    by (simp_all add: IsAbsolute_def SeparatorUnix_def)
  moreover have "resolve True [47, 47, 102, 111, 111, 47, 98] = (0, [[102, 111, 111], [98]])" by (simp add: resolve_def)
  moreover have "resolve False [97, 47, 46, 46, 47, 98, 92, 47, 47, 92, 47, 47] = (0, [[98, 92], [92]])"
    by (simp add: resolve_def)
  moreover have "\<not> special_path [97, 47, 46, 46, 47, 98, 92, 47, 47, 92, 47, 47]"
    "\<not> IsAbsolute [97, 47, 46, 46, 47, 98, 92, 47, 47, 92, 47, 47]"
    by (simp_all add: special_path_def dot_path_def purge_trailing.simps SeparatorUnix_def IsAbsolute_def)
  ultimately show ?thesis
    using Normalize_absolute [of "[47, 47, 102, 111, 111, 47, 98]" E]
      Normalize_plain [of "[97, 47, 46, 46, 47, 98, 92, 47, 47, 92, 47, 47]" E]
    by (simp add: Normcase_def)
qed

end
