(* ===== verification/Embedded_Vector.thy ===== *)
theory Embedded_Vector
  imports Fusion_Prelude
begin

text \<open>
  \<^verbatim>\<open>EmbeddedVector\<close> (\<^verbatim>\<open>Vector.h\<close>, \<^verbatim>\<open>Impl/Vector.h\<close>) and \<^verbatim>\<open>Array\<close> (\<^verbatim>\<open>Array.h\<close>, \<^verbatim>\<open>Impl/Array.h\<close>) for element types that are trivially
  copyable and destructible, the ones for which every operation compiles. Storage is a list of cells, \<open>None\<close>
  for a cell that was never written; blocks of the allocator are kept in a heap, so that leaks and double
  frees are visible. Iterators are positions relative to \<^verbatim>\<open>m_data\<close>. A read of a cell without a value and any access outside
  the storage or to a freed block is the fault \<open>Out_Of_Bounds\<close>. Sizes are natural numbers that are reduced
  modulo $2^{32}$ where the code converts to \<^verbatim>\<open>uint32_t\<close>. Allocation succeeds.
\<close>

section \<open>Model\<close>

datatype place = Null | Storage | Block nat

record 'a vec =
  m_data :: place
  m_offset :: nat
  m_capacity :: nat
  m_dynamic :: bool
  m_storage :: "'a option list"

record 'a heap =
  blocks :: "nat \<rightharpoonup> 'a option list"
  next_block :: nat

type_synonym 'a vstate = "'a vec \<times> 'a heap"

definition MaxSize :: nat where "MaxSize = 0x7FFFFFFE"

definition to_u32 :: "nat \<Rightarrow> nat" where "to_u32 n = n mod 2 ^ 32"

definition cells :: "'a vstate \<Rightarrow> 'a option list" where
  "cells vh = (case m_data (fst vh) of
     Null \<Rightarrow> []
   | Storage \<Rightarrow> m_storage (fst vh)
   | Block b \<Rightarrow> (case blocks (snd vh) b of None \<Rightarrow> [] | Some cs \<Rightarrow> cs))"

definition set_cells :: "'a option list \<Rightarrow> 'a vstate \<Rightarrow> 'a vstate" where
  "set_cells cs vh = (case m_data (fst vh) of
     Null \<Rightarrow> vh
   | Storage \<Rightarrow> ((fst vh)\<lparr>m_storage := cs\<rparr>, snd vh)
   | Block b \<Rightarrow> (fst vh, (snd vh)\<lparr>blocks := (blocks (snd vh))(b \<mapsto> cs)\<rparr>))"

definition read_cells :: "nat \<Rightarrow> nat \<Rightarrow> 'a option list \<Rightarrow> 'a option list exec" where
  "read_cells pos n cs = (if pos + n \<le> length cs then Inr (slice pos n cs) else Inl Out_Of_Bounds)"

definition write_cells :: "nat \<Rightarrow> 'a option list \<Rightarrow> 'a vstate \<Rightarrow> 'a vstate exec" where
  "write_cells pos xs vh =
     (let cs = cells vh
      in if pos + length xs \<le> length cs
         then Inr (set_cells (take pos cs @ xs @ drop (pos + length xs) cs) vh)
         else Inl Out_Of_Bounds)"

definition load :: "nat \<Rightarrow> 'a vstate \<Rightarrow> 'a exec" where
  "load i vh =
     (if i < length (cells vh)
      then (case cells vh ! i of None \<Rightarrow> Inl Out_Of_Bounds | Some x \<Rightarrow> Inr x)
      else Inl Out_Of_Bounds)"

text \<open>\<^verbatim>\<open>MemoryUtil\<close> on trivial types: a guarded \<^verbatim>\<open>memcpy\<close> or \<^verbatim>\<open>memmove\<close>.\<close>

definition CopyConstruct :: "nat \<Rightarrow> 'a option list \<Rightarrow> 'a vstate \<Rightarrow> 'a vstate exec" where
  "CopyConstruct pos xs vh = (if xs = [] then Inr vh else write_cells pos xs vh)"

definition ContiguousMoveOverlapping :: "nat \<Rightarrow> nat \<Rightarrow> nat \<Rightarrow> 'a vstate \<Rightarrow> 'a vstate exec" where
  "ContiguousMoveOverlapping dest source count vh =
     (if count = 0 then Inr vh
      else and_then (read_cells source count (cells vh)) (\<lambda>xs. write_cells dest xs vh))"

definition Free :: "'a vstate \<Rightarrow> 'a vstate exec" where
  "Free vh =
     (if m_data (fst vh) \<noteq> Null \<and> m_dynamic (fst vh) then
        (case m_data (fst vh) of
           Block b \<Rightarrow>
             (if blocks (snd vh) b = None then Inl Out_Of_Bounds
              else Inr (fst vh, (snd vh)\<lparr>blocks := (blocks (snd vh))(b := None)\<rparr>))
         | _ \<Rightarrow> Inl Out_Of_Bounds)
      else Inr vh)"

definition Realloc :: "nat \<Rightarrow> 'a vstate \<Rightarrow> 'a vstate exec" where
  "Realloc sz vh =
     (let capacity = min sz MaxSize;
          b = next_block (snd vh);
          offset = m_offset (fst vh)
      in and_then (read_cells 0 offset (cells vh)) (\<lambda>xs.
         if offset \<le> capacity then
           and_then (Free vh) (\<lambda>(v, h).
           Inr (v\<lparr>m_data := Block b, m_capacity := capacity, m_dynamic := True\<rparr>,
                h\<lparr>blocks := (blocks h)(b \<mapsto> xs @ replicate (capacity - offset) None), next_block := Suc b\<rparr>))
         else Inl Out_Of_Bounds))"

text \<open>The sum of the capacity with itself is computed in \<^verbatim>\<open>int\<close>, to which a bit-field of 31 bits is promoted.\<close>

definition Reserve_exact :: "nat \<Rightarrow> bool \<Rightarrow> 'a vstate \<Rightarrow> 'a vstate exec" where
  "Reserve_exact sz exact vh =
     (let capacity = m_capacity (fst vh)
      in if sz > capacity then
           (if exact then Realloc sz vh
            else if capacity + capacity \<ge> 2 ^ 31 then Inl Signed_Overflow
            else Realloc (to_u32 (max sz ((capacity + capacity) div 2))) vh)
         else Inr vh)"

definition Reserve :: "nat \<Rightarrow> 'a vstate \<Rightarrow> 'a vstate exec" where
  "Reserve sz vh = Reserve_exact sz True vh"

definition set_offset :: "nat \<Rightarrow> 'a vstate \<Rightarrow> 'a vstate" where
  "set_offset n vh = ((fst vh)\<lparr>m_offset := n\<rparr>, snd vh)"

definition Resize :: "nat \<Rightarrow> 'a \<Rightarrow> 'a vstate \<Rightarrow> 'a vstate exec" where
  "Resize sz0 x vh =
     (let sz = min sz0 MaxSize;
          offset = m_offset (fst vh)
      in if sz > offset then
           and_then (Reserve_exact sz True vh) (\<lambda>vh.
           and_then (write_cells offset (replicate (sz - offset) (Some x)) vh) (\<lambda>vh.
           Inr (set_offset sz vh)))
         else Inr (set_offset sz vh))"

definition Clear :: "'a \<Rightarrow> 'a vstate \<Rightarrow> 'a vstate exec" where
  "Clear dflt vh = Resize 0 dflt vh"

definition Insert :: "nat \<Rightarrow> 'a list \<Rightarrow> 'a vstate \<Rightarrow> ('a vstate \<times> nat) exec" where
  "Insert at data vh =
     (let offset = m_offset (fst vh);
          count = length data in
      and_then (fusion_assert (at \<le> offset)) (\<lambda>_.
      and_then (if offset + count \<ge> m_capacity (fst vh)
                then Reserve_exact (to_u32 (offset + count)) True vh else Inr vh) (\<lambda>vh.
      and_then (ContiguousMoveOverlapping (at + count) at (offset - at) vh) (\<lambda>vh.
      let vh = set_offset (to_u32 (offset + count)) vh in
      and_then (CopyConstruct at (map Some data) vh) (\<lambda>vh.
      Inr (vh, at))))))"

definition Insert_end :: "'a list \<Rightarrow> 'a vstate \<Rightarrow> ('a vstate \<times> nat) exec" where
  "Insert_end data vh = Insert (m_offset (fst vh)) data vh"

definition PushBack :: "'a \<Rightarrow> 'a vstate \<Rightarrow> ('a vstate \<times> nat) exec" where
  "PushBack x vh =
     (let offset = m_offset (fst vh) in
      and_then (Reserve_exact (to_u32 (offset + 1)) False vh) (\<lambda>vh.
      and_then (write_cells offset [Some x] vh) (\<lambda>vh.
      Inr (set_offset (to_u32 (offset + 1)) vh, offset))))"

definition EmplaceBack :: "'a \<Rightarrow> 'a vstate \<Rightarrow> ('a vstate \<times> nat) exec" where
  "EmplaceBack = PushBack"

definition PushBack_span :: "'a list \<Rightarrow> 'a vstate \<Rightarrow> ('a vstate \<times> nat) exec" where
  "PushBack_span data vh = Insert (m_offset (fst vh)) data vh"

definition PopBack :: "'a vstate \<Rightarrow> ('a vstate \<times> 'a) exec" where
  "PopBack vh =
     (let offset = m_offset (fst vh) in
      and_then (fusion_assert (offset > 0)) (\<lambda>_.
      and_then (load (offset - 1) vh) (\<lambda>x.
      Inr (set_offset (offset - 1) vh, x))))"

fun pop_loop :: "nat \<Rightarrow> 'a vstate \<Rightarrow> 'a vstate" where
  "pop_loop 0 vh = vh"
| "pop_loop (Suc count) vh =
     (if m_offset (fst vh) \<noteq> 0 then pop_loop count (set_offset (m_offset (fst vh) - 1) vh) else vh)"

definition PopBack_count :: "nat \<Rightarrow> 'a vstate \<Rightarrow> 'a vstate exec" where
  "PopBack_count count vh =
     and_then (fusion_assert (m_offset (fst vh) > 0)) (\<lambda>_. Inr (pop_loop count vh))"

definition Erase :: "nat \<Rightarrow> nat \<Rightarrow> 'a vstate \<Rightarrow> ('a vstate \<times> nat) exec" where
  "Erase first stop vh =
     (let offset = m_offset (fst vh) in
      and_then (fusion_assert (first \<le> stop)) (\<lambda>_.
      and_then (fusion_assert (first \<le> offset)) (\<lambda>_.
      and_then (fusion_assert (stop \<le> offset)) (\<lambda>_.
      and_then (read_cells stop (offset - stop) (cells vh)) (\<lambda>xs.
      and_then (write_cells first xs vh) (\<lambda>vh.
      let it = first + (offset - stop) in
      Inr (set_offset it vh, it)))))))"

definition Erase_pos :: "nat \<Rightarrow> 'a vstate \<Rightarrow> ('a vstate \<times> nat) exec" where
  "Erase_pos pos vh = Erase pos (m_offset (fst vh)) vh"

definition At :: "nat \<Rightarrow> 'a vstate \<Rightarrow> 'a exec" where
  "At index vh = and_then (fusion_assert (index < m_offset (fst vh))) (\<lambda>_. load index vh)"

definition Empty :: "'a vstate \<Rightarrow> bool" where
  "Empty vh \<longleftrightarrow> m_offset (fst vh) = 0"

definition Back :: "'a vstate \<Rightarrow> 'a exec" where
  "Back vh = and_then (fusion_assert (\<not> Empty vh)) (\<lambda>_. load (m_offset (fst vh) - 1) vh)"

definition Front :: "'a vstate \<Rightarrow> 'a exec" where
  "Front vh = and_then (fusion_assert (\<not> Empty vh)) (\<lambda>_. load 0 vh)"

definition Capacity :: "'a vstate \<Rightarrow> nat" where
  "Capacity vh = m_capacity (fst vh)"

definition Size :: "'a vstate \<Rightarrow> nat" where
  "Size vh = m_offset (fst vh)"

definition IsEmbedded :: "'a vstate \<Rightarrow> bool" where
  "IsEmbedded vh \<longleftrightarrow> \<not> m_dynamic (fst vh)"

text \<open>\<^verbatim>\<open>IndexOf\<close> of a reference to the element at a position.\<close>

definition IndexOf :: "nat \<Rightarrow> 'a vstate \<Rightarrow> nat exec" where
  "IndexOf ptr vh =
     and_then (fusion_assert (ptr \<le> m_offset (fst vh))) (\<lambda>_.
     and_then (fusion_assert (ptr < m_offset (fst vh))) (\<lambda>_. Inr ptr))"

fun load_all :: "nat \<Rightarrow> nat \<Rightarrow> 'a vstate \<Rightarrow> 'a list exec" where
  "load_all i 0 vh = Inr []"
| "load_all i (Suc n) vh = and_then (load i vh) (\<lambda>x. and_then (load_all (Suc i) n vh) (\<lambda>xs. Inr (x # xs)))"

text \<open>The elements, as a span over \<^verbatim>\<open>Data()\<close> and \<^verbatim>\<open>Size()\<close> reads them.\<close>

definition as_span :: "'a vstate \<Rightarrow> 'a list exec" where
  "as_span vh = load_all 0 (m_offset (fst vh)) vh"

text \<open>Construction, assignment and destruction.\<close>

definition EmbeddedVector_base :: "'a vec" where
  "EmbeddedVector_base = \<lparr>m_data = Null, m_offset = 0, m_capacity = 0, m_dynamic = False, m_storage = []\<rparr>"

definition EmbeddedVector_new :: "nat \<Rightarrow> 'a vec" where
  "EmbeddedVector_new len =
     \<lparr>m_data = Storage, m_offset = 0, m_capacity = len mod 2 ^ 31, m_dynamic = False, m_storage = replicate len None\<rparr>"

definition EmbeddedVector_of :: "nat \<Rightarrow> 'a list \<Rightarrow> 'a heap \<Rightarrow> 'a vstate exec" where
  "EmbeddedVector_of len data h =
     and_then (Reserve (to_u32 (length data)) (EmbeddedVector_new len, h)) (\<lambda>vh.
     and_then (Insert_end data vh) (\<lambda>(vh, _). Inr vh))"

definition EmbeddedVector_fill :: "nat \<Rightarrow> nat \<Rightarrow> 'a \<Rightarrow> 'a heap \<Rightarrow> 'a vstate exec" where
  "EmbeddedVector_fill len count x h = Resize (to_u32 count) x (EmbeddedVector_new len, h)"

definition EmbeddedVector_copy :: "nat \<Rightarrow> 'a vec \<Rightarrow> 'a heap \<Rightarrow> 'a vstate exec" where
  "EmbeddedVector_copy len vec h =
     and_then (Reserve (m_offset vec) (EmbeddedVector_new len, h)) (\<lambda>vh.
     and_then (as_span (vec, snd vh)) (\<lambda>data.
     and_then (Insert_end data vh) (\<lambda>(vh, _). Inr vh)))"

definition Reset_base :: "place \<Rightarrow> nat \<Rightarrow> 'a vec \<Rightarrow> 'a vec" where
  "Reset_base buffer capacity v =
     v\<lparr>m_data := buffer, m_capacity := capacity mod 2 ^ 31, m_offset := 0, m_dynamic := False\<rparr>"

definition Reset :: "nat \<Rightarrow> 'a vec \<Rightarrow> 'a vec" where
  "Reset len v = Reset_base Storage len v"

definition Assign :: "nat \<Rightarrow> place \<Rightarrow> nat \<Rightarrow> 'a \<Rightarrow> 'a vstate \<Rightarrow> 'a vstate exec" where
  "Assign sz buffer capacity dflt vh =
     and_then (if buffer \<noteq> Null then Inr (Reset_base buffer capacity (fst vh), snd vh) else Clear dflt vh) (\<lambda>vh.
     Reserve sz vh)"

text \<open>\<open>Move\<close> into the first vector; the place of the source's buffer is its own storage.\<close>

definition Move_into ::
  "'a vec \<Rightarrow> 'a vec \<Rightarrow> nat \<Rightarrow> place \<Rightarrow> nat \<Rightarrow> 'a heap \<Rightarrow> ('a vec \<times> 'a vec \<times> 'a heap) exec" where
  "Move_into v vec vecSize buffer capacity h =
     (let v = (if buffer \<noteq> Null then Reset_base buffer capacity v else v)
      in if m_dynamic vec then
           Inr (v\<lparr>m_data := m_data vec, m_offset := m_offset vec, m_capacity := m_capacity vec\<rparr>,
                Reset_base Storage vecSize (vec\<lparr>m_data := Null, m_offset := 0\<rparr>), h)
         else
           and_then (Reserve (m_offset vec) (v, h)) (\<lambda>vh.
           and_then (as_span (vec, snd vh)) (\<lambda>data.
           and_then (Insert_end data vh) (\<lambda>((v, h), _).
           Inr (v, Reset_base Storage vecSize vec, h)))))"

definition EmbeddedVector_move ::
  "nat \<Rightarrow> 'a vec \<Rightarrow> nat \<Rightarrow> 'a heap \<Rightarrow> ('a vec \<times> 'a vec \<times> 'a heap) exec" where
  "EmbeddedVector_move len vec n h = Move_into (EmbeddedVector_new len) vec n Null 0 h"

definition vec_equal :: "'a vstate \<Rightarrow> 'a vstate \<Rightarrow> bool exec" where
  "vec_equal a b =
     (if m_offset (fst a) \<noteq> m_offset (fst b) then Inr False
      else and_then (as_span a) (\<lambda>xs. and_then (as_span b) (\<lambda>ys. Inr (xs = ys))))"

definition vec_equal_span :: "'a vstate \<Rightarrow> 'a list \<Rightarrow> bool exec" where
  "vec_equal_span vec span =
     (if m_offset (fst vec) \<noteq> length span then Inr False else and_then (as_span vec) (\<lambda>xs. Inr (xs = span)))"

definition assign_from :: "nat \<Rightarrow> 'a \<Rightarrow> 'a vec \<Rightarrow> 'a vec \<Rightarrow> 'a heap \<Rightarrow> 'a vstate exec" where
  "assign_from len dflt v vec h =
     and_then (Assign (m_offset vec) Storage len dflt (v, h)) (\<lambda>vh.
     and_then (as_span (vec, snd vh)) (\<lambda>data.
     and_then (Insert_end data vh) (\<lambda>(vh, _). Inr vh)))"

definition copy_assign :: "nat \<Rightarrow> 'a \<Rightarrow> 'a vec \<Rightarrow> 'a vec \<Rightarrow> 'a heap \<Rightarrow> 'a vstate exec" where
  "copy_assign len dflt v vec h =
     and_then (vec_equal (v, h) (vec, h)) (\<lambda>same.
     if same then Inr (v, h) else assign_from len dflt v vec h)"

definition move_assign ::
  "nat \<Rightarrow> 'a vec \<Rightarrow> 'a vec \<Rightarrow> 'a heap \<Rightarrow> ('a vec \<times> 'a vec \<times> 'a heap) exec" where
  "move_assign len v vec h =
     and_then (vec_equal (v, h) (vec, h)) (\<lambda>same.
     if same then Inr (v, vec, h) else Move_into v vec len Storage len h)"

definition move_assign_other ::
  "nat \<Rightarrow> nat \<Rightarrow> 'a vec \<Rightarrow> 'a vec \<Rightarrow> 'a heap \<Rightarrow> ('a vec \<times> 'a vec \<times> 'a heap) exec" where
  "move_assign_other len n v vec h = Move_into v vec n Storage len h"

definition assign_const_span :: "nat \<Rightarrow> 'a \<Rightarrow> 'a list \<Rightarrow> 'a vstate \<Rightarrow> 'a vstate exec" where
  "assign_const_span len dflt data vh =
     and_then (Assign (to_u32 (length data)) Storage len dflt vh) (\<lambda>vh.
     and_then (Insert_end data vh) (\<lambda>(vh, _). Inr vh))"

definition assign_span :: "'a list \<Rightarrow> 'a vstate \<Rightarrow> 'a vstate exec" where
  "assign_span data vh =
     and_then (Reserve (to_u32 (length data)) vh) (\<lambda>vh.
     and_then (Insert_end data vh) (\<lambda>(vh, _). Inr vh))"

definition assign_array :: "nat \<Rightarrow> 'a \<Rightarrow> 'a list \<Rightarrow> 'a vstate \<Rightarrow> 'a vstate exec" where
  "assign_array len dflt data vh = Assign (to_u32 (length data)) Storage len dflt vh"

definition EmbeddedVector_destroy :: "'a vstate \<Rightarrow> 'a heap exec" where
  "EmbeddedVector_destroy vh = and_then (Free vh) (\<lambda>(_, h). Inr h)"

text \<open>\<^verbatim>\<open>Array\<close>: \<open>N\<close> cells in place.\<close>

definition Array_new :: "nat \<Rightarrow> 'a \<Rightarrow> 'a option list" where
  "Array_new n dflt = replicate n (Some dflt)"

definition Array_of :: "nat \<Rightarrow> 'a \<Rightarrow> 'a list \<Rightarrow> 'a option list exec" where
  "Array_of n dflt elems =
     and_then (fusion_assert (length elems \<le> n)) (\<lambda>_.
     Inr (map Some elems @ replicate (n - length elems) (Some dflt)))"

text \<open>From an array of another length, which a \<^verbatim>\<open>static_assert\<close> keeps from being longer.\<close>

definition Array_copy :: "nat \<Rightarrow> 'a option list \<Rightarrow> 'a option list" where
  "Array_copy n arr = arr @ replicate (n - length arr) None"

definition Array_assign :: "'a option list \<Rightarrow> 'a option list \<Rightarrow> 'a option list" where
  "Array_assign arr input = input @ drop (length input) arr"

definition Array_read :: "'a option list \<Rightarrow> nat \<Rightarrow> 'a exec" where
  "Array_read arr i =
     (if i < length arr then (case arr ! i of None \<Rightarrow> Inl Out_Of_Bounds | Some x \<Rightarrow> Inr x) else Inl Out_Of_Bounds)"

definition Array_At :: "'a option list \<Rightarrow> nat \<Rightarrow> 'a exec" where
  "Array_At arr index = and_then (fusion_assert (index \<le> length arr)) (\<lambda>_. Array_read arr index)"

definition Array_Back :: "'a option list \<Rightarrow> 'a exec" where
  "Array_Back arr = Array_read arr (length arr - 1)"

definition Array_Front :: "'a option list \<Rightarrow> 'a exec" where
  "Array_Front arr = Array_read arr 0"

definition Array_Clear :: "'a \<Rightarrow> 'a option list \<Rightarrow> 'a option list" where
  "Array_Clear zero arr = replicate (length arr) (Some zero)"

definition Array_Size :: "'a option list \<Rightarrow> nat" where
  "Array_Size arr = length arr"

definition Array_Empty :: "'a option list \<Rightarrow> bool" where
  "Array_Empty arr \<longleftrightarrow> length arr = 0"

section \<open>Representation\<close>

text \<open>
  A vector represents the list of the values in its first cells. It owns its block, and every other block of
  the heap is one of the \<open>others\<close>.
\<close>

definition vec_ok :: "'a vstate \<Rightarrow> bool" where
  "vec_ok vh \<longleftrightarrow>
     m_offset (fst vh) \<le> m_capacity (fst vh) \<and> m_capacity (fst vh) \<le> MaxSize \<and>
     length (cells vh) = m_capacity (fst vh) \<and>
     (\<forall>i < m_offset (fst vh). cells vh ! i \<noteq> None) \<and>
     (case m_data (fst vh) of Block b \<Rightarrow> m_dynamic (fst vh) \<and> blocks (snd vh) b \<noteq> None | _ \<Rightarrow> \<not> m_dynamic (fst vh)) \<and>
     (\<forall>b \<ge> next_block (snd vh). blocks (snd vh) b = None)"

definition view :: "'a vstate \<Rightarrow> 'a list" where
  "view vh = map the (take (m_offset (fst vh)) (cells vh))"

definition others :: "'a vstate \<Rightarrow> nat \<rightharpoonup> 'a option list" where
  "others vh = (case m_data (fst vh) of Block b \<Rightarrow> (blocks (snd vh))(b := None) | _ \<Rightarrow> blocks (snd vh))"

definition becomes :: "'a vstate \<Rightarrow> 'a list \<Rightarrow> 'a vstate \<Rightarrow> bool" where
  "becomes vh xs vh' \<longleftrightarrow> vec_ok vh' \<and> view vh' = xs \<and> others vh' = others vh"

lemma length_view [simp]: "vec_ok vh \<Longrightarrow> length (view vh) = m_offset (fst vh)"
  by (simp add: view_def vec_ok_def)

lemma cells_view:
  assumes "vec_ok vh"
  shows "take (m_offset (fst vh)) (cells vh) = map Some (view vh)"
  using assms by (auto simp: view_def vec_ok_def intro!: nth_equalityI)

lemma cells_set_cells: "vec_ok vh \<Longrightarrow> length cs = length (cells vh) \<Longrightarrow> cells (set_cells cs vh) = cs"
  by (auto simp: cells_def set_cells_def vec_ok_def split: place.splits)

lemma set_cells_fields [simp]:
  "m_data (fst (set_cells cs vh)) = m_data (fst vh)" "m_offset (fst (set_cells cs vh)) = m_offset (fst vh)"
  "m_capacity (fst (set_cells cs vh)) = m_capacity (fst vh)" "m_dynamic (fst (set_cells cs vh)) = m_dynamic (fst vh)"
  "next_block (snd (set_cells cs vh)) = next_block (snd vh)" "others (set_cells cs vh) = others vh"
  by (auto simp: set_cells_def others_def split: place.split)

lemma set_offset_fields [simp]:
  "m_data (fst (set_offset n vh)) = m_data (fst vh)" "m_offset (fst (set_offset n vh)) = n"
  "m_capacity (fst (set_offset n vh)) = m_capacity (fst vh)" "m_dynamic (fst (set_offset n vh)) = m_dynamic (fst vh)"
  "snd (set_offset n vh) = snd vh" "others (set_offset n vh) = others vh" "cells (set_offset n vh) = cells vh"
  by (auto simp: set_offset_def others_def cells_def split: place.split)

lemma set_cells_blocks:
  "vec_ok vh \<Longrightarrow> (case m_data (fst vh) of Block b \<Rightarrow> blocks (snd (set_cells cs vh)) b \<noteq> None | _ \<Rightarrow> True) \<and>
     (\<forall>b \<ge> next_block (snd vh). blocks (snd (set_cells cs vh)) b = None)"
  by (auto simp: set_cells_def vec_ok_def split: place.splits)

text \<open>The result of writing the cells: the first of them are the elements.\<close>

lemma set_cells_becomes:
  assumes ok: "vec_ok vh" and len: "length cs = length (cells vh)" and n: "n \<le> length cs"
    and xs: "take n cs = map Some xs"
  shows "becomes vh xs (set_offset n (set_cells cs vh))"
proof -
  have "cs ! i \<noteq> None" if "i < n" for i
  proof -
    have "cs ! i = take n cs ! i" using that by simp
    also have "\<dots> = map Some xs ! i" by (simp only: xs)
    also have "\<dots> = Some (xs ! i)"
      using that n arg_cong [OF xs, of length] by (intro nth_map) simp
    finally show ?thesis by simp
  qed
  moreover have "length cs = m_capacity (fst vh)" using ok len by (simp add: vec_ok_def)
  ultimately show ?thesis
    using ok set_cells_blocks [OF ok, of cs] n cells_set_cells [OF ok len]
    unfolding becomes_def vec_ok_def view_def
    by (auto simp: xs split: place.splits)
qed

lemma write_cells_Inr:
  "vec_ok vh \<Longrightarrow> pos + length xs \<le> m_capacity (fst vh) \<Longrightarrow>
    write_cells pos xs vh = Inr (set_cells (take pos (cells vh) @ xs @ drop (pos + length xs) (cells vh)) vh)"
  by (simp add: write_cells_def vec_ok_def Let_def)

lemma set_cells_set_cells [simp]: "set_cells cs (set_cells cs' vh) = set_cells cs vh"
  by (auto simp: set_cells_def split: place.split)

lemma set_cells_set_offset [simp]: "set_cells cs (set_offset n vh) = set_offset n (set_cells cs vh)"
  by (auto simp: set_cells_def set_offset_def split: place.split)

lemma set_cells_same: "vec_ok vh \<Longrightarrow> set_cells (cells vh) vh = vh"
  by (cases vh) (auto simp: set_cells_def cells_def vec_ok_def fun_upd_idem split: place.splits)

lemma becomes_trans: "becomes vh xs vh1 \<Longrightarrow> becomes vh1 ys vh2 \<Longrightarrow> becomes vh ys vh2"
  by (simp add: becomes_def)

lemma Free_ok:
  assumes "vec_ok vh"
  shows "Free vh = Inr (fst vh, (snd vh)\<lparr>blocks := others vh\<rparr>)"
  using assms by (auto simp: Free_def vec_ok_def others_def split: place.splits)

lemma Realloc_ok:
  assumes ok: "vec_ok vh" and sz: "m_offset (fst vh) \<le> sz" "sz \<le> MaxSize"
  obtains vh' where "Realloc sz vh = Inr vh'" and "becomes vh (view vh) vh'"
    and "m_capacity (fst vh') = sz" and "m_offset (fst vh') = m_offset (fst vh)"
proof -
  let ?n = "m_offset (fst vh)" and ?b = "next_block (snd vh)"
  let ?v = "(fst vh)\<lparr>m_data := Block ?b, m_capacity := sz, m_dynamic := True\<rparr>"
    and ?h = "(snd vh)\<lparr>blocks := (others vh)(?b \<mapsto> map Some (view vh) @ replicate (sz - ?n) None), next_block := Suc ?b\<rparr>"
  have "read_cells 0 ?n (cells vh) = Inr (map Some (view vh))"
    using ok cells_view [OF ok] by (simp add: read_cells_def slice_def vec_ok_def)
  then have eq: "Realloc sz vh = Inr (?v, ?h)"
    using sz by (simp add: Realloc_def Let_def Free_ok [OF ok] min_absorb1)
  have fresh: "others vh b = None" if "?b \<le> b" for b
    using ok that by (auto simp: vec_ok_def others_def split: place.splits)
  have "others (?v, ?h) = others vh" using fresh [of ?b] by (auto simp: others_def [of "(?v, ?h)"])
  moreover have "vec_ok (?v, ?h)"
    unfolding vec_ok_def using ok sz fresh by (auto simp: cells_def nth_append)
  moreover have "view (?v, ?h) = view vh" using ok by (simp add: view_def [of "(?v, ?h)"] cells_def comp_def)
  ultimately show ?thesis using that [OF eq] by (simp add: becomes_def)
qed

lemma becomes_refl [simp]: "vec_ok vh \<Longrightarrow> becomes vh (view vh) vh"
  by (simp add: becomes_def)

lemma MaxSize_u32 [simp]: "n \<le> MaxSize \<Longrightarrow> to_u32 n = n"
  by (simp add: MaxSize_def to_u32_def)

lemma Reserve_exact_ok:
  assumes ok: "vec_ok vh" and sz: "sz \<le> MaxSize" and room: "exact \<or> m_capacity (fst vh) < 2 ^ 30 \<or> sz \<le> m_capacity (fst vh)"
  obtains vh' where "Reserve_exact sz exact vh = Inr vh'" and "becomes vh (view vh) vh'"
    and "sz \<le> m_capacity (fst vh')" and "m_offset (fst vh') = m_offset (fst vh)"
    and "m_capacity (fst vh') = max sz (m_capacity (fst vh))"
proof (cases "sz > m_capacity (fst vh)")
  case True
  then have "m_offset (fst vh) \<le> sz" using ok by (simp add: vec_ok_def)
  then obtain vh' where "Realloc sz vh = Inr vh'" "becomes vh (view vh) vh'"
    "m_capacity (fst vh') = sz" "m_offset (fst vh') = m_offset (fst vh)" using Realloc_ok [OF ok _ sz] by metis
  moreover have "Reserve_exact sz exact vh = Realloc sz vh"
    using True room sz by (auto simp: Reserve_exact_def Let_def max_absorb1)
  ultimately show ?thesis using that True by (simp add: max_absorb1)
next
  case False
  then show ?thesis using ok that [of vh] by (simp add: Reserve_exact_def max_absorb2)
qed

section \<open>Operations on the list\<close>

lemma PushBack_ok:
  assumes ok: "vec_ok vh" and sz: "m_offset (fst vh) < MaxSize"
    and room: "m_capacity (fst vh) < 2 ^ 30 \<or> m_offset (fst vh) < m_capacity (fst vh)"
  obtains vh' where "PushBack x vh = Inr (vh', m_offset (fst vh))" and "becomes vh (view vh @ [x]) vh'"
    and "m_capacity (fst vh') = max (m_offset (fst vh) + 1) (m_capacity (fst vh))"
proof -
  let ?n = "m_offset (fst vh)"
  have le: "?n + 1 \<le> MaxSize" using sz by simp
  obtain vh1 where res: "Reserve_exact (?n + 1) False vh = Inr vh1" "becomes vh (view vh) vh1"
    "?n + 1 \<le> m_capacity (fst vh1)" "m_offset (fst vh1) = ?n"
    "m_capacity (fst vh1) = max (?n + 1) (m_capacity (fst vh))"
    using Reserve_exact_ok [OF ok le, of False] room by (auto simp: Suc_le_eq)
  have ok1: "vec_ok vh1" and v1: "view vh1 = view vh" using res(2) by (simp_all add: becomes_def)
  let ?cs = "take ?n (cells vh1) @ [Some x] @ drop (?n + 1) (cells vh1)"
  have len: "length (cells vh1) = m_capacity (fst vh1)" using ok1 by (simp add: vec_ok_def)
  have tk: "take (?n + 1) ?cs = map Some (view vh @ [x])" using cells_view [OF ok1] res(4) v1 len res(3) length_view [OF ok] by simp
  have "becomes vh1 (view vh @ [x]) (set_offset (?n + 1) (set_cells ?cs vh1))"
    by (rule set_cells_becomes [OF ok1 _ _ tk]) (use len res(3) in simp_all)
  then have "becomes vh (view vh @ [x]) (set_offset (?n + 1) (set_cells ?cs vh1))"
    using becomes_trans res(2) by blast
  moreover have "PushBack x vh = Inr (set_offset (?n + 1) (set_cells ?cs vh1), ?n)"
    using res(1,3) write_cells_Inr [OF ok1, of ?n "[Some x]"] MaxSize_u32 [OF le]
    by (simp add: PushBack_def Let_def)
  ultimately show ?thesis using that res(5) by simp
qed

lemma PushBack_overflows:
  "vec_ok vh \<Longrightarrow> m_offset (fst vh) = m_capacity (fst vh) \<Longrightarrow> 2 ^ 30 \<le> m_capacity (fst vh) \<Longrightarrow>
    PushBack x vh = Inl Signed_Overflow"
  by (auto simp: PushBack_def Reserve_exact_def Let_def vec_ok_def MaxSize_def to_u32_def)

lemma insert_cells:
  assumes "a \<le> n" "n + length xs \<le> length cs" "take n cs = map Some ys"
  defines "cs1 \<equiv> take (a + length xs) cs @ slice a (n - a) cs @ drop (n + length xs) cs"
  shows "take (n + length xs) (take a cs1 @ map Some xs @ drop (a + length xs) cs1) =
    map Some (take a ys @ xs @ drop a ys)"
proof -
  have "take a cs = map Some (take a ys)" using arg_cong [OF assms(3), of "take a"] assms(1)
    by (simp add: take_map min_absorb1)
  moreover have "slice a (n - a) cs = map Some (drop a ys)"
    using arg_cong [OF assms(3), of "drop a"] by (simp add: slice_def drop_map drop_take)
  ultimately show ?thesis using assms(1,2) arg_cong [OF assms(3), of length]
    by (simp add: cs1_def min_absorb1)
qed

lemma Insert_ok:
  assumes ok: "vec_ok vh" and at: "a \<le> m_offset (fst vh)" and sz: "m_offset (fst vh) + length xs \<le> MaxSize"
  obtains vh' where "Insert a xs vh = Inr (vh', a)"
    and "becomes vh (take a (view vh) @ xs @ drop a (view vh)) vh'"
proof -
  let ?n = "m_offset (fst vh)" and ?m = "length xs"
  obtain vh1 where res: "(if ?n + ?m \<ge> m_capacity (fst vh) then Reserve_exact (to_u32 (?n + ?m)) True vh else Inr vh) = Inr vh1"
    "becomes vh (view vh) vh1" "?n + ?m \<le> m_capacity (fst vh1)" "m_offset (fst vh1) = ?n"
  proof (cases "?n + ?m \<ge> m_capacity (fst vh)")
    case True
    obtain w where "Reserve_exact (?n + ?m) True vh = Inr w" "becomes vh (view vh) w"
      "?n + ?m \<le> m_capacity (fst w)" "m_offset (fst w) = ?n"
      using Reserve_exact_ok [OF ok sz, of True] by blast
    then show ?thesis using that [of w] True MaxSize_u32 [OF sz] by simp
  next
    case False
    from that [of vh] False ok show ?thesis by simp
  qed
  have ok1: "vec_ok vh1" and v1: "view vh1 = view vh" using res(2) by (simp_all add: becomes_def)
  have len: "length (cells vh1) = m_capacity (fst vh1)" using ok1 by (simp add: vec_ok_def)
  let ?cs1 = "take (a + ?m) (cells vh1) @ slice a (?n - a) (cells vh1) @ drop (?n + ?m) (cells vh1)"
  let ?cs2 = "take a ?cs1 @ map Some xs @ drop (a + ?m) ?cs1"
  let ?vh2 = "set_cells ?cs1 vh1"
  have len1: "length ?cs1 = length (cells vh1)" using len res(3) at by simp
  have cells2: "cells ?vh2 = ?cs1" using cells_set_cells [OF ok1 len1] .
  have move: "ContiguousMoveOverlapping (a + ?m) a (?n - a) vh1 = Inr ?vh2"
  proof (cases "a = ?n")
    case True
    then show ?thesis using set_cells_same [OF ok1] by (simp add: ContiguousMoveOverlapping_def)
  next
    case False
    then show ?thesis
      using write_cells_Inr [OF ok1, of "a + ?m" "slice a (?n - a) (cells vh1)"] at res(3) len
      by (simp add: ContiguousMoveOverlapping_def read_cells_def min_absorb1 add.commute)
  qed
  have copy: "CopyConstruct a (map Some xs) (set_offset (?n + ?m) ?vh2) = Inr (set_offset (?n + ?m) (set_cells ?cs2 vh1))"
  proof (cases "xs = []")
    case True
    then have "?cs2 = ?cs1" by (simp only: list.size list.map append_Nil add_0_right append_take_drop_id)
    then show ?thesis using True by (simp only: CopyConstruct_def list.map simp_thms if_True)
  next
    case False
    then show ?thesis using at res(3) len1 len by (simp add: CopyConstruct_def write_cells_def cells2 Let_def)
  qed
  have tk: "take (?n + ?m) ?cs2 = map Some (take a (view vh) @ xs @ drop a (view vh))"
    by (rule insert_cells [OF at]) (use res(3,4) len cells_view [OF ok1] v1 in simp_all)
  have "becomes vh1 (take a (view vh) @ xs @ drop a (view vh)) (set_offset (?n + ?m) (set_cells ?cs2 vh1))"
    by (rule set_cells_becomes [OF ok1 _ _ tk]) (use len1 res(3) len at in simp_all)
  then have "becomes vh (take a (view vh) @ xs @ drop a (view vh)) (set_offset (?n + ?m) (set_cells ?cs2 vh1))"
    using becomes_trans res(2) by blast
  moreover have "Insert a xs vh = Inr (set_offset (?n + ?m) (set_cells ?cs2 vh1), a)"
    unfolding Insert_def Let_def res(1) using at move copy MaxSize_u32 [OF sz] by simp
  ultimately show ?thesis using that by blast
qed

lemma Insert_overruns:
  assumes ok: "vec_ok vh" and at: "a \<le> m_offset (fst vh)" and sz: "m_offset (fst vh) + length xs > MaxSize"
  shows "Insert a xs vh = Inl Out_Of_Bounds"
proof -
  let ?n = "m_offset (fst vh)" and ?m = "length xs"
  have n: "?n \<le> MaxSize" and big: "?n + ?m > m_capacity (fst vh)" using ok sz by (auto simp: vec_ok_def)
  have "\<exists>vh1. Reserve_exact (to_u32 (?n + ?m)) True vh = Inr vh1 \<and> length (cells vh1) \<le> MaxSize"
  proof (cases "to_u32 (?n + ?m) \<le> MaxSize")
    case True
    obtain w where "Reserve_exact (to_u32 (?n + ?m)) True vh = Inr w" "becomes vh (view vh) w"
      using Reserve_exact_ok [OF ok True, of True] by blast
    then show ?thesis by (auto simp: becomes_def vec_ok_def)
  next
    case False
    obtain w where w: "Realloc MaxSize vh = Inr w" "becomes vh (view vh) w" using Realloc_ok [OF ok n] by blast
    have "Reserve_exact (to_u32 (?n + ?m)) True vh = Realloc (to_u32 (?n + ?m)) vh"
      using False ok by (simp add: Reserve_exact_def vec_ok_def)
    also have "\<dots> = Realloc MaxSize vh" using False by (simp add: Realloc_def min_absorb2)
    finally show ?thesis using w by (auto simp: becomes_def vec_ok_def)
  qed
  then obtain vh1 where vh1: "Reserve_exact (to_u32 (?n + ?m)) True vh = Inr vh1" "length (cells vh1) \<le> MaxSize" by blast
  show ?thesis
  proof (cases "a = ?n")
    case True
    then have "xs \<noteq> []" using sz n by auto
    then show ?thesis using True vh1 big sz
      by (auto simp: Insert_def Let_def ContiguousMoveOverlapping_def CopyConstruct_def write_cells_def)
  next
    case False
    then have "ContiguousMoveOverlapping (a + ?m) a (?n - a) vh1 = Inl Out_Of_Bounds"
      using at vh1 sz by (auto simp: ContiguousMoveOverlapping_def write_cells_def read_cells_def Let_def)
    then show ?thesis using at vh1 big by (simp add: Insert_def Let_def)
  qed
qed

lemma set_offset_shrinks:
  assumes "vec_ok vh" and "n \<le> m_offset (fst vh)"
  shows "becomes vh (take n (view vh)) (set_offset n vh)"
proof -
  have "take n (cells vh) = take n (take (m_offset (fst vh)) (cells vh))" using assms(2) by (simp add: min_absorb1)
  also have "\<dots> = map Some (take n (view vh))" unfolding cells_view [OF assms(1)] by (simp add: take_map)
  finally have "take n (cells vh) = map Some (take n (view vh))" .
  with set_cells_becomes [OF assms(1) refl, of n "take n (view vh)"] assms set_cells_same [OF assms(1)]
  show ?thesis by (simp add: vec_ok_def)
qed

lemma load_view: "vec_ok vh \<Longrightarrow> i < m_offset (fst vh) \<Longrightarrow> load i vh = Inr (view vh ! i)"
  by (auto simp: load_def view_def vec_ok_def split: option.split)

lemma PopBack_ok:
  assumes "vec_ok vh" and "view vh \<noteq> []"
  obtains vh' where "PopBack vh = Inr (vh', last (view vh))" and "becomes vh (butlast (view vh)) vh'"
proof -
  have n: "0 < m_offset (fst vh)" using assms length_view [OF assms(1)] by (metis length_greater_0_conv)
  have "PopBack vh = Inr (set_offset (m_offset (fst vh) - 1) vh, last (view vh))"
    using n assms load_view [OF assms(1), of "m_offset (fst vh) - 1"]
    by (simp add: PopBack_def Let_def last_conv_nth)
  moreover have "becomes vh (butlast (view vh)) (set_offset (m_offset (fst vh) - 1) vh)"
    using set_offset_shrinks [OF assms(1), of "m_offset (fst vh) - 1"] assms(1) by (simp add: butlast_conv_take)
  ultimately show ?thesis using that by blast
qed

lemma set_offset_same: "m_offset (fst vh) = n \<Longrightarrow> set_offset n vh = vh"
  by (cases vh) (auto simp: set_offset_def)

lemma set_offset_set_offset [simp]: "set_offset m (set_offset n vh) = set_offset m vh"
  by (simp add: set_offset_def)

lemma pop_loop_eq: "pop_loop count vh = set_offset (m_offset (fst vh) - count) vh"
  by (induction count arbitrary: vh) (auto simp: set_offset_same)

lemma Erase_ok:
  assumes ok: "vec_ok vh" and le: "first \<le> stop" "stop \<le> m_offset (fst vh)"
  obtains vh' where "Erase first stop vh = Inr (vh', first + (m_offset (fst vh) - stop))"
    and "becomes vh (take first (view vh) @ drop stop (view vh)) vh'"
proof -
  let ?n = "m_offset (fst vh)" and ?it = "first + (m_offset (fst vh) - stop)"
  have len: "length (cells vh) = m_capacity (fst vh)" "?n \<le> m_capacity (fst vh)" using ok by (simp_all add: vec_ok_def)
  let ?xs = "slice stop (?n - stop) (cells vh)"
  let ?cs = "take first (cells vh) @ ?xs @ drop ?it (cells vh)"
  have xs: "?xs = map Some (drop stop (view vh))"
    using arg_cong [OF cells_view [OF ok], of "drop stop"] by (simp add: slice_def drop_map drop_take)
  have first: "take first (cells vh) = map Some (take first (view vh))"
    using arg_cong [OF cells_view [OF ok], of "take first"] le by (simp add: take_map min_absorb1)
  have tk: "take ?it ?cs = map Some (take first (view vh) @ drop stop (view vh))"
    using le len length_view [OF ok] by (simp add: xs first min_absorb1)
  have "becomes vh (take first (view vh) @ drop stop (view vh)) (set_offset ?it (set_cells ?cs vh))"
    by (rule set_cells_becomes [OF ok _ _ tk]) (use le len in simp_all)
  moreover have "Erase first stop vh = Inr (set_offset ?it (set_cells ?cs vh), ?it)"
    using le len write_cells_Inr [OF ok, of first ?xs]
    by (simp add: Erase_def Let_def read_cells_def min_absorb1)
  ultimately show ?thesis using that by blast
qed

lemma Resize_ok:
  fixes sz0 :: nat
  assumes ok: "vec_ok vh"
  defines "sz \<equiv> min sz0 MaxSize"
  obtains vh' where "Resize sz0 x vh = Inr vh'"
    and "becomes vh (take sz (view vh) @ replicate (sz - m_offset (fst vh)) x) vh'"
proof (cases "sz > m_offset (fst vh)")
  case True
  let ?n = "m_offset (fst vh)"
  have le: "sz \<le> MaxSize" by (simp add: sz_def)
  obtain vh1 where res: "Reserve_exact sz True vh = Inr vh1" "becomes vh (view vh) vh1"
    "sz \<le> m_capacity (fst vh1)" "m_offset (fst vh1) = ?n" using Reserve_exact_ok [OF ok le, of True] by blast
  have ok1: "vec_ok vh1" and v1: "view vh1 = view vh" using res(2) by (simp_all add: becomes_def)
  have len: "length (cells vh1) = m_capacity (fst vh1)" using ok1 by (simp add: vec_ok_def)
  let ?ys = "replicate (sz - ?n) (Some x)"
  let ?cs = "take ?n (cells vh1) @ ?ys @ drop sz (cells vh1)"
  have tk: "take sz ?cs = map Some (view vh @ replicate (sz - ?n) x)"
    using cells_view [OF ok1] res(4) v1 length_view [OF ok] True by simp
  have "becomes vh1 (view vh @ replicate (sz - ?n) x) (set_offset sz (set_cells ?cs vh1))"
    by (rule set_cells_becomes [OF ok1 _ _ tk]) (use len res(3) True in simp_all)
  then have "becomes vh (view vh @ replicate (sz - ?n) x) (set_offset sz (set_cells ?cs vh1))"
    using becomes_trans res(2) by blast
  moreover have "Resize sz0 x vh = Inr (set_offset sz (set_cells ?cs vh1))"
    using write_cells_Inr [OF ok1, of ?n ?ys] True res(1,3) by (simp add: Resize_def Let_def sz_def [symmetric])
  ultimately show ?thesis using that True length_view [OF ok] by simp
next
  case False
  then show ?thesis
    using that [of "set_offset sz vh"] set_offset_shrinks [OF ok, of sz]
    by (simp add: Resize_def Let_def sz_def [symmetric])
qed

lemma load_all_view:
  "vec_ok vh \<Longrightarrow> i + n \<le> m_offset (fst vh) \<Longrightarrow> load_all i n vh = Inr (slice i n (view vh))"
  by (induction n arbitrary: i) (simp_all add: load_view slice_Suc)

lemma as_span_ok: "vec_ok vh \<Longrightarrow> as_span vh = Inr (view vh)"
  using load_all_view [of vh 0 "m_offset (fst vh)"] length_view [of vh] by (simp add: as_span_def slice_def)

definition heap_ok :: "'a heap \<Rightarrow> bool" where
  "heap_ok h \<longleftrightarrow> (\<forall>b \<ge> next_block h. blocks h b = None)"

lemma EmbeddedVector_new_ok:
  assumes "len \<le> MaxSize" and "heap_ok h"
  shows "vec_ok (EmbeddedVector_new len, h)" "view (EmbeddedVector_new len, h) = []"
    "others (EmbeddedVector_new len, h) = blocks h"
  using assms by (simp_all add: EmbeddedVector_new_def vec_ok_def cells_def MaxSize_def heap_ok_def view_def others_def)

lemma destroy_ok: "vec_ok vh \<Longrightarrow> EmbeddedVector_destroy vh = Inr ((snd vh)\<lparr>blocks := others vh\<rparr>)"
  by (simp add: EmbeddedVector_destroy_def Free_ok)

section \<open>The interface of a sequence\<close>

text \<open>What a client relies on: insertion and removal at a position, up to a limit.\<close>

locale bounded_sequence =
  fixes inv :: "'s \<Rightarrow> bool" and abs :: "'s \<Rightarrow> 'a list" and limit :: nat
    and insert_at :: "nat \<Rightarrow> 'a list \<Rightarrow> 's \<Rightarrow> ('s \<times> nat) exec"
    and erase :: "nat \<Rightarrow> nat \<Rightarrow> 's \<Rightarrow> ('s \<times> nat) exec"
  assumes insert_law: "inv s \<Longrightarrow> a \<le> length (abs s) \<Longrightarrow> length (abs s) + length xs \<le> limit \<Longrightarrow>
      \<exists>s'. insert_at a xs s = Inr (s', a) \<and> inv s' \<and> abs s' = take a (abs s) @ xs @ drop a (abs s)"
    and erase_law: "inv s \<Longrightarrow> a \<le> b \<Longrightarrow> b \<le> length (abs s) \<Longrightarrow>
      \<exists>s' i. erase a b s = Inr (s', i) \<and> inv s' \<and> abs s' = take a (abs s) @ drop b (abs s)"
begin

lemma insert_erase:
  assumes "inv s" and "a \<le> length (abs s)" and "length (abs s) + length xs \<le> limit"
  shows "\<exists>s1 s2 i. insert_at a xs s = Inr (s1, a) \<and> erase a (a + length xs) s1 = Inr (s2, i) \<and> inv s2 \<and> abs s2 = abs s"
proof -
  obtain s1 where s1: "insert_at a xs s = Inr (s1, a)" "inv s1" "abs s1 = take a (abs s) @ xs @ drop a (abs s)"
    using insert_law [OF assms] by blast
  obtain s2 i where "erase a (a + length xs) s1 = Inr (s2, i)" "inv s2"
    "abs s2 = take a (abs s1) @ drop (a + length xs) (abs s1)"
    using erase_law [OF s1(2), of a "a + length xs"] s1(3) assms(2) by auto
  with s1 assms(2) show ?thesis by auto
qed

lemma replace:
  assumes "inv s" and "a \<le> b" and "b \<le> length (abs s)" and "length (abs s) - (b - a) + length xs \<le> limit"
  shows "\<exists>s1 i s2. erase a b s = Inr (s1, i) \<and> insert_at a xs s1 = Inr (s2, a) \<and> inv s2 \<and>
     abs s2 = take a (abs s) @ xs @ drop b (abs s)"
proof -
  obtain s1 i where s1: "erase a b s = Inr (s1, i)" "inv s1" "abs s1 = take a (abs s) @ drop b (abs s)"
    using erase_law [OF assms(1-3)] by blast
  moreover have "a \<le> length (abs s1)" "length (abs s1) + length xs \<le> limit" using s1(3) assms by simp_all
  ultimately show ?thesis using insert_law [OF s1(2), of a xs] assms by auto
qed

end

interpretation vec_seq: bounded_sequence vec_ok view MaxSize Insert Erase
proof
  show "\<exists>s'. Insert a xs s = Inr (s', a) \<and> vec_ok s' \<and> view s' = take a (view s) @ xs @ drop a (view s)"
    if "vec_ok s" "a \<le> length (view s)" "length (view s) + length xs \<le> MaxSize" for s :: "'a vstate" and a xs
    using Insert_ok [of s a xs] that by (metis becomes_def length_view)
  show "\<exists>s' i. Erase a b s = Inr (s', i) \<and> vec_ok s' \<and> view s' = take a (view s) @ drop b (view s)"
    if "vec_ok s" "a \<le> b" "b \<le> length (view s)" for s :: "'a vstate" and a b
    using Erase_ok [of s a b] that by (metis becomes_def length_view)
qed

section \<open>Properties\<close>

text \<open>A sequence of operations on one vector, and on the list it represents; the list fails where the vector may.\<close>

datatype 'a vec_op =
    Op_Push 'a | Op_Insert nat "'a list" | Op_Erase nat nat | Op_Pop | Op_PopCount nat | Op_Resize nat 'a | Op_Reserve nat

fun vec_op_step :: "'a vstate \<Rightarrow> 'a vec_op \<Rightarrow> 'a vstate exec" where
  "vec_op_step vh (Op_Push x) = and_then (PushBack x vh) (\<lambda>(vh, _). Inr vh)"
| "vec_op_step vh (Op_Insert a xs) = and_then (Insert a xs vh) (\<lambda>(vh, _). Inr vh)"
| "vec_op_step vh (Op_Erase a b) = and_then (Erase a b vh) (\<lambda>(vh, _). Inr vh)"
| "vec_op_step vh Op_Pop = and_then (PopBack vh) (\<lambda>(vh, _). Inr vh)"
| "vec_op_step vh (Op_PopCount n) = PopBack_count n vh"
| "vec_op_step vh (Op_Resize n x) = Resize n x vh"
| "vec_op_step vh (Op_Reserve n) = Reserve n vh"

fun list_op_step :: "'a list \<Rightarrow> 'a vec_op \<Rightarrow> 'a list option" where
  "list_op_step xs (Op_Push x) = (if length xs < 2 ^ 30 then Some (xs @ [x]) else None)"
| "list_op_step xs (Op_Insert a ys) =
     (if a \<le> length xs \<and> length xs + length ys \<le> MaxSize then Some (take a xs @ ys @ drop a xs) else None)"
| "list_op_step xs (Op_Erase a b) = (if a \<le> b \<and> b \<le> length xs then Some (take a xs @ drop b xs) else None)"
| "list_op_step xs Op_Pop = (if xs \<noteq> [] then Some (butlast xs) else None)"
| "list_op_step xs (Op_PopCount n) = (if xs \<noteq> [] then Some (take (length xs - n) xs) else None)"
| "list_op_step xs (Op_Resize n x) =
     (let m = min n MaxSize in Some (take m xs @ replicate (m - length xs) x))"
| "list_op_step xs (Op_Reserve n) = (if n \<le> MaxSize then Some xs else None)"

fun vec_ops :: "'a vstate \<Rightarrow> 'a vec_op list \<Rightarrow> 'a vstate exec" where
  "vec_ops vh [] = Inr vh"
| "vec_ops vh (p # ps) = and_then (vec_op_step vh p) (\<lambda>vh. vec_ops vh ps)"

fun list_ops :: "'a list \<Rightarrow> 'a vec_op list \<Rightarrow> 'a list option" where
  "list_ops xs [] = Some xs"
| "list_ops xs (p # ps) = Option.bind (list_op_step xs p) (\<lambda>xs. list_ops xs ps)"

lemma vec_op_step_refines:
  assumes ok: "vec_ok vh" and spec: "list_op_step (view vh) p = Some ys"
  shows "\<exists>vh'. vec_op_step vh p = Inr vh' \<and> becomes vh ys vh'"
proof (cases p)
  case (Op_Push x)
  have "m_offset (fst vh) < MaxSize" "m_capacity (fst vh) < 2 ^ 30 \<or> m_offset (fst vh) < m_capacity (fst vh)"
    using spec ok by (auto simp: Op_Push MaxSize_def vec_ok_def split: if_splits)
  then obtain vh' where "PushBack x vh = Inr (vh', m_offset (fst vh))" "becomes vh (view vh @ [x]) vh'"
    using PushBack_ok [OF ok, of x] by blast
  then show ?thesis using spec by (auto simp: Op_Push split: if_splits)
next
  case (Op_Insert a xs)
  then have "a \<le> m_offset (fst vh)" "m_offset (fst vh) + length xs \<le> MaxSize"
    using spec ok by (auto split: if_splits)
  then obtain vh' where "Insert a xs vh = Inr (vh', a)" "becomes vh (take a (view vh) @ xs @ drop a (view vh)) vh'"
    using Insert_ok [OF ok] by blast
  then show ?thesis using spec by (auto simp: Op_Insert split: if_splits)
next
  case (Op_Erase a b)
  then have "a \<le> b" "b \<le> m_offset (fst vh)" using spec ok by (auto split: if_splits)
  then obtain vh' where "Erase a b vh = Inr (vh', a + (m_offset (fst vh) - b))"
    "becomes vh (take a (view vh) @ drop b (view vh)) vh'" using Erase_ok [OF ok] by blast
  then show ?thesis using spec by (auto simp: Op_Erase split: if_splits)
next
  case Op_Pop
  then have "view vh \<noteq> []" using spec by (auto split: if_splits)
  then obtain vh' where "PopBack vh = Inr (vh', last (view vh))" "becomes vh (butlast (view vh)) vh'"
    using PopBack_ok [OF ok] by blast
  then show ?thesis using spec by (auto simp: Op_Pop split: if_splits)
next
  case (Op_PopCount n)
  then have "0 < m_offset (fst vh)" and ys: "ys = take (m_offset (fst vh) - n) (view vh)"
    using spec length_view [OF ok] by (auto simp: length_greater_0_conv [symmetric] split: if_splits)
  then have "vec_op_step vh p = Inr (set_offset (m_offset (fst vh) - n) vh)"
    by (simp add: Op_PopCount PopBack_count_def pop_loop_eq)
  with ys set_offset_shrinks [OF ok, of "m_offset (fst vh) - n"] show ?thesis by simp
next
  case (Op_Resize n x)
  obtain vh' where "Resize n x vh = Inr vh'"
    "becomes vh (take (min n MaxSize) (view vh) @ replicate (min n MaxSize - m_offset (fst vh)) x) vh'"
    using Resize_ok [OF ok, of n x] by blast
  then show ?thesis using spec ok by (auto simp: Op_Resize Let_def)
next
  case (Op_Reserve n)
  then have "n \<le> MaxSize" using spec by (auto split: if_splits)
  then obtain vh' where "Reserve_exact n True vh = Inr vh'" "becomes vh (view vh) vh'"
    using Reserve_exact_ok [OF ok, of n True] by blast
  then show ?thesis using spec by (auto simp: Op_Reserve Reserve_def split: if_splits)
qed

lemma vec_ops_refines:
  "vec_ok vh \<Longrightarrow> list_ops (view vh) ps = Some ys \<Longrightarrow> \<exists>vh'. vec_ops vh ps = Inr vh' \<and> becomes vh ys vh'"
proof (induction ps arbitrary: vh)
  case (Cons p ps)
  from Cons.prems(2) obtain xs where xs: "list_op_step (view vh) p = Some xs" "list_ops xs ps = Some ys"
    by (auto simp: bind_eq_Some_conv)
  obtain vh1 where vh1: "vec_op_step vh p = Inr vh1" "becomes vh xs vh1"
    using vec_op_step_refines [OF Cons.prems(1) xs(1)] by blast
  with Cons.IH [of vh1] xs(2) obtain vh2 where "vec_ops vh1 ps = Inr vh2" "becomes vh1 ys vh2"
    by (auto simp: becomes_def)
  with vh1 becomes_trans show ?case by fastforce
qed (auto simp: becomes_def)

text \<open>
  Property C9. A vector with embedded storage implements a list: every sequence of \<^verbatim>\<open>PushBack\<close>, \<^verbatim>\<open>Insert\<close>, \<^verbatim>\<open>Erase\<close>, \<^verbatim>\<open>PopBack\<close>,
  \<^verbatim>\<open>Resize\<close> and \<^verbatim>\<open>Reserve\<close> that is defined on the list runs without a fault, across all reallocations, and the elements read
  through a span are those of the list; the destructor then releases the only block the vector allocated.
\<close>

theorem vector_implements_list:
  assumes "len \<le> MaxSize" and "heap_ok h" and "list_ops [] ps = Some ys"
  shows "\<exists>vh h'. vec_ops (EmbeddedVector_new len, h) ps = Inr vh \<and> as_span vh = Inr ys \<and>
     m_offset (fst vh) = length ys \<and> length ys \<le> m_capacity (fst vh) \<and>
     (\<forall>i < length ys. At i vh = Inr (ys ! i)) \<and>
     EmbeddedVector_destroy vh = Inr h' \<and> blocks h' = blocks h"
proof -
  note new = EmbeddedVector_new_ok [OF assms(1,2)]
  obtain vh where vh: "vec_ops (EmbeddedVector_new len, h) ps = Inr vh" "becomes (EmbeddedVector_new len, h) ys vh"
    using vec_ops_refines [OF new(1), of ps ys] new(2) assms(3) by metis
  then have ok: "vec_ok vh" and ys: "view vh = ys" and others: "others vh = blocks h" using new(3) by (simp_all add: becomes_def)
  have n: "m_offset (fst vh) = length ys" using length_view [OF ok] ys by simp
  moreover have "\<forall>i < length ys. At i vh = Inr (ys ! i)" using load_view [OF ok] n ys by (simp add: At_def)
  moreover have "length ys \<le> m_capacity (fst vh)" using ok n by (simp add: vec_ok_def)
  ultimately show ?thesis using vh(1) as_span_ok [OF ok] ys destroy_ok [OF ok] others by simp
qed

definition sample_heap :: "byte heap" where
  "sample_heap = \<lparr>blocks = Map.empty, next_block = 0\<rparr>"

theorem vector_implements_list_witness:
  "\<exists>vh. vec_ops (EmbeddedVector_new 2, sample_heap) [Op_Push 1, Op_Insert 0 [2, 3], Op_Erase 1 2, Op_Pop] = Inr vh \<and>
     as_span vh = Inr [2 :: byte]"
  using vector_implements_list [of 2 sample_heap "[Op_Push 1, Op_Insert 0 [2, 3], Op_Erase 1 2, Op_Pop]" "[2]"]
  by (auto simp: sample_heap_def heap_ok_def MaxSize_def)

text \<open>
  Property C22. The limits: \<^verbatim>\<open>Insert\<close> outside the elements fails its assertion, and one that takes the vector past
  \<^verbatim>\<open>MaxSize\<close> writes outside its storage, because \<^verbatim>\<open>Realloc\<close> silently reduces the size. \<^verbatim>\<open>PushBack\<close> on a full vector
  reallocates to exactly one more element, as the growth (capacity + capacity) / 2 is the capacity, and
  overflows \<^verbatim>\<open>int\<close> from a capacity of $2^{30}$ on.
\<close>

theorem vector_limits:
  assumes ok: "vec_ok vh"
  shows "(a > length (view vh) \<longrightarrow> Insert a xs vh = Inl Assert_Failed) \<and>
     (a \<le> length (view vh) \<and> length (view vh) + length xs > MaxSize \<longrightarrow> Insert a xs vh = Inl Out_Of_Bounds) \<and>
     (length (view vh) = m_capacity (fst vh) \<and> length (view vh) < 2 ^ 30 \<longrightarrow>
       (\<exists>vh'. PushBack x vh = Inr (vh', length (view vh)) \<and> becomes vh (view vh @ [x]) vh' \<and>
         m_capacity (fst vh') = m_capacity (fst vh) + 1)) \<and>
     (length (view vh) = m_capacity (fst vh) \<and> length (view vh) \<ge> 2 ^ 30 \<longrightarrow> PushBack x vh = Inl Signed_Overflow)"
proof (intro conjI impI)
  assume "a > length (view vh)"
  then show "Insert a xs vh = Inl Assert_Failed" using ok by (simp add: Insert_def Let_def)
next
  assume "a \<le> length (view vh) \<and> length (view vh) + length xs > MaxSize"
  then show "Insert a xs vh = Inl Out_Of_Bounds" using Insert_overruns [OF ok] ok by simp
next
  assume full: "length (view vh) = m_capacity (fst vh) \<and> length (view vh) < 2 ^ 30"
  then have "m_offset (fst vh) < MaxSize" "m_capacity (fst vh) < 2 ^ 30 \<or> m_offset (fst vh) < m_capacity (fst vh)"
    using ok by (auto simp: MaxSize_def)
  then obtain vh' where "PushBack x vh = Inr (vh', m_offset (fst vh))" "becomes vh (view vh @ [x]) vh'"
    "m_capacity (fst vh') = max (m_offset (fst vh) + 1) (m_capacity (fst vh))" using PushBack_ok [OF ok, of x] by blast
  then show "\<exists>vh'. PushBack x vh = Inr (vh', length (view vh)) \<and> becomes vh (view vh @ [x]) vh' \<and>
      m_capacity (fst vh') = m_capacity (fst vh) + 1" using full ok by auto
next
  assume "length (view vh) = m_capacity (fst vh) \<and> length (view vh) \<ge> 2 ^ 30"
  then show "PushBack x vh = Inl Signed_Overflow" using PushBack_overflows [OF ok] ok by simp
qed

theorem vector_limits_witness:
  "vec_ok (EmbeddedVector_new 0, sample_heap) \<and>
   Insert 1 [7] (EmbeddedVector_new 0, sample_heap) = Inl Assert_Failed \<and>
   (\<exists>vh'. PushBack 7 (EmbeddedVector_new 0, sample_heap) = Inr (vh', 0) \<and> m_capacity (fst vh') = 1)"
proof -
  have h: "heap_ok sample_heap" by (simp add: heap_ok_def sample_heap_def)
  note new = EmbeddedVector_new_ok [of 0, OF _ h]
  have cap: "m_capacity (EmbeddedVector_new 0 :: byte vec) = 0" by (simp add: EmbeddedVector_new_def)
  show ?thesis
    using vector_limits [of "(EmbeddedVector_new 0, sample_heap)" 1 "[7]" 7] new cap by auto
qed

text \<open>Copying and moving.\<close>

lemma Insert_end_ok:
  assumes "vec_ok vh" and "m_offset (fst vh) + length xs \<le> MaxSize"
  obtains vh' where "Insert_end xs vh = Inr (vh', m_offset (fst vh))" and "becomes vh (view vh @ xs) vh'"
  using Insert_ok [OF assms(1) le_refl assms(2)] length_view [OF assms(1)]
  unfolding Insert_end_def by (metis append_Nil2 drop_all le_refl take_all)

lemma EmbeddedVector_of_ok:
  assumes "len \<le> MaxSize" and "heap_ok h" and "length xs \<le> MaxSize"
  obtains vh where "EmbeddedVector_of len xs h = Inr vh" and "vec_ok vh" and "view vh = xs" and "others vh = blocks h"
proof -
  note new = EmbeddedVector_new_ok [OF assms(1,2)]
  obtain vh1 where vh1: "Reserve_exact (length xs) True (EmbeddedVector_new len, h) = Inr vh1"
    "becomes (EmbeddedVector_new len, h) [] vh1" "m_offset (fst vh1) = m_offset (EmbeddedVector_new len :: 'a vec)"
    using Reserve_exact_ok [OF new(1) assms(3), of True] new(2) by (metis fst_conv)
  have ok1: "vec_ok vh1" and off: "m_offset (fst vh1) = 0" using vh1 by (simp_all add: becomes_def EmbeddedVector_new_def)
  obtain vh where vh: "Insert_end xs vh1 = Inr (vh, 0)" "becomes vh1 (view vh1 @ xs) vh"
    using Insert_end_ok [OF ok1, of xs] off assms(3) by auto
  then have "EmbeddedVector_of len xs h = Inr vh"
    using vh1(1) MaxSize_u32 [OF assms(3)] by (simp add: EmbeddedVector_of_def Reserve_def)
  with that vh vh1(2) new(3) show ?thesis by (simp add: becomes_def)
qed

lemma load_all_cong: "cells vh = cells vh' \<Longrightarrow> load_all i n vh = load_all i n vh'"
  by (induction n arbitrary: i) (simp_all add: load_def)

lemma others_live: "others vh b = Some cs \<Longrightarrow> blocks (snd vh) b = Some cs"
  by (auto simp: others_def split: place.splits if_splits)

text \<open>A vector that is not touched reads the same after another one has changed its own block.\<close>

lemma as_span_other:
  assumes "vec_ok (vec, h)" and "others vh' = blocks h"
  shows "as_span (vec, snd vh') = Inr (view (vec, h))"
proof -
  have "cells (vec, snd vh') = cells (vec, h)"
    using assms others_live [of vh'] by (auto simp: cells_def vec_ok_def split: place.splits option.splits)
  then have "as_span (vec, snd vh') = as_span (vec, h)"
    unfolding as_span_def using load_all_cong by (metis fst_conv)
  then show ?thesis using as_span_ok [OF assms(1)] by simp
qed

lemma Reset_ok:
  assumes "length (m_storage v) = len" and "len \<le> MaxSize" and "heap_ok h"
  shows "vec_ok (Reset_base Storage len v, h)" "view (Reset_base Storage len v, h) = []"
    "others (Reset_base Storage len v, h) = blocks h"
  using assms by (simp_all add: Reset_base_def vec_ok_def cells_def MaxSize_def heap_ok_def view_def others_def)

lemma Reserve_Insert_ok:
  assumes ok: "vec_ok vh" and empty: "view vh = []" and sz: "length xs \<le> MaxSize"
  obtains vh1 vh2 i where "Reserve (length xs) vh = Inr vh1" and "others vh1 = others vh"
    and "Insert_end xs vh1 = Inr (vh2, i)" and "becomes vh xs vh2"
proof -
  obtain vh1 where vh1: "Reserve_exact (length xs) True vh = Inr vh1" "becomes vh [] vh1"
    using Reserve_exact_ok [OF ok sz, of True] empty by metis
  have ok1: "vec_ok vh1" and off: "m_offset (fst vh1) = 0" using vh1 length_view [of vh1] by (auto simp: becomes_def)
  obtain vh2 where "Insert_end xs vh1 = Inr (vh2, 0)" "becomes vh1 (view vh1 @ xs) vh2"
    using Insert_end_ok [OF ok1, of xs] off sz by auto
  with that vh1 show ?thesis by (simp add: Reserve_def becomes_def)
qed

lemma assign_from_ok:
  assumes "length (m_storage v) = len" and "len \<le> MaxSize" and h: "heap_ok h" and vec: "vec_ok (vec, h)"
  obtains vh' where "assign_from len dflt v vec h = Inr vh'" and "vec_ok vh'" and "view vh' = view (vec, h)"
    and "others vh' = blocks h"
proof -
  let ?r = "(Reset_base Storage len v, h)" and ?xs = "view (vec, h)"
  note reset = Reset_ok [OF assms(1,2) h]
  have n: "length ?xs = m_offset vec" using length_view [OF vec] by simp
  then have sz: "length ?xs \<le> MaxSize" using vec by (simp add: vec_ok_def)
  obtain vh1 vh2 i where r: "Reserve (length ?xs) ?r = Inr vh1" "others vh1 = others ?r"
    "Insert_end ?xs vh1 = Inr (vh2, i)" "becomes ?r ?xs vh2"
    using Reserve_Insert_ok [OF reset(1,2) sz] by blast
  have "as_span (vec, snd vh1) = Inr ?xs" using as_span_other [OF vec] r(2) reset(3) by simp
  then have "assign_from len dflt v vec h = Inr vh2"
    using r(1,3) n by (simp add: assign_from_def Assign_def)
  with that r(4) reset(3) show ?thesis by (simp add: becomes_def)
qed

text \<open>
  Assignments lose blocks: after moving out of a vector with an allocated block, the new owner
  reports embedded storage and neither destructor releases the block; copying over a vector with an
  allocated block gives the right elements and leaves the old block allocated with no owner.
\<close>

theorem vector_assignment_leaks:
  assumes "vec_ok (vec, h)" and "m_data vec = Block b" and "heap_ok h" and "len \<le> MaxSize"
    and "vec_ok (src, h)" and "length (m_storage vec) = len"
  shows "(\<exists>v vec'. EmbeddedVector_move len vec n h = Inr (v, vec', h) \<and>
       as_span (v, h) = Inr (view (vec, h)) \<and> IsEmbedded (v, h) \<and> m_data v = Block b \<and>
       EmbeddedVector_destroy (v, h) = Inr h \<and> EmbeddedVector_destroy (vec', h) = Inr h \<and> blocks h b \<noteq> None) \<and>
     (\<exists>v h' h''. assign_from len dflt vec src h = Inr (v, h') \<and> as_span (v, h') = Inr (view (src, h)) \<and>
       EmbeddedVector_destroy (v, h') = Inr h'' \<and> blocks h'' b = blocks h b \<and> blocks h b \<noteq> None)"
proof -
  have dyn: "m_dynamic vec" and live: "blocks h b \<noteq> None" using assms(1,2) by (auto simp: vec_ok_def)
  let ?v = "(EmbeddedVector_new len)\<lparr>m_data := m_data vec, m_offset := m_offset vec, m_capacity := m_capacity vec\<rparr>"
  have "cells (?v, h) = cells (vec, h)" by (simp add: cells_def assms(2))
  then have "as_span (?v, h) = Inr (view (vec, h))"
    using as_span_ok [OF assms(1)] load_all_cong [of "(?v, h)" "(vec, h)"] by (simp add: as_span_def)
  moreover have "EmbeddedVector_move len vec n h =
      Inr (?v, Reset_base Storage n (vec\<lparr>m_data := Null, m_offset := 0\<rparr>), h)"
    using dyn by (simp add: EmbeddedVector_move_def Move_into_def)
  ultimately have moved: "\<exists>v vec'. EmbeddedVector_move len vec n h = Inr (v, vec', h) \<and>
       as_span (v, h) = Inr (view (vec, h)) \<and> IsEmbedded (v, h) \<and> m_data v = Block b \<and>
       EmbeddedVector_destroy (v, h) = Inr h \<and> EmbeddedVector_destroy (vec', h) = Inr h \<and> blocks h b \<noteq> None"
    using live assms(2)
    by (simp add: IsEmbedded_def EmbeddedVector_destroy_def Free_def EmbeddedVector_new_def Reset_base_def)
  obtain v h' where vh: "assign_from len dflt vec src h = Inr (v, h')" "vec_ok (v, h')"
    "view (v, h') = view (src, h)" "others (v, h') = blocks h"
    using assign_from_ok [OF assms(6,4,3,5)] by (metis prod.collapse)
  then have "\<exists>v h' h''. assign_from len dflt vec src h = Inr (v, h') \<and> as_span (v, h') = Inr (view (src, h)) \<and>
       EmbeddedVector_destroy (v, h') = Inr h'' \<and> blocks h'' b = blocks h b \<and> blocks h b \<noteq> None"
    using as_span_ok [OF vh(2)] destroy_ok [OF vh(2)] live by auto
  with moved show ?thesis by blast
qed

theorem vector_assignment_leaks_witness:
  "\<exists>vec h v vec'. EmbeddedVector_of 0 [7 :: byte] sample_heap = Inr (vec, h) \<and>
     EmbeddedVector_move 0 vec 0 h = Inr (v, vec', h) \<and>
     EmbeddedVector_destroy (v, h) = Inr h \<and> EmbeddedVector_destroy (vec', h) = Inr h \<and> blocks h 0 \<noteq> None"
proof -
  define vec where "vec = \<lparr>m_data = Block 0, m_offset = 1, m_capacity = 1, m_dynamic = True, m_storage = ([] :: byte option list)\<rparr>"
  define h where "h = \<lparr>blocks = [0 \<mapsto> [Some (7 :: byte)]], next_block = 1\<rparr>"
  have made: "EmbeddedVector_of 0 [7] sample_heap = Inr (vec, h)"
    by (simp add: EmbeddedVector_of_def Reserve_def Reserve_exact_def Realloc_def Insert_end_def Insert_def Let_def
        EmbeddedVector_new_def to_u32_def MaxSize_def read_cells_def Free_def cells_def CopyConstruct_def write_cells_def
        set_cells_def set_offset_def ContiguousMoveOverlapping_def sample_heap_def vec_def h_def slice_def)
  have "vec_ok (vec, h)" by (simp add: vec_ok_def vec_def h_def cells_def MaxSize_def)
  moreover have "m_data vec = Block 0" "length (m_storage vec) = 0" by (simp_all add: vec_def)
  moreover have "heap_ok h" by (simp add: heap_ok_def h_def)
  ultimately have "\<exists>v vec'. EmbeddedVector_move 0 vec 0 h = Inr (v, vec', h) \<and>
      EmbeddedVector_destroy (v, h) = Inr h \<and> EmbeddedVector_destroy (vec', h) = Inr h \<and> blocks h 0 \<noteq> None"
    using vector_assignment_leaks [of vec h 0 0 vec 0 0] MaxSize_def by auto
  with made show ?thesis by blast
qed

text \<open>
  Three operations whose name promises something else: \<^verbatim>\<open>Erase\<close> of one position removes all elements from it
  on, assignment from a span of mutable elements appends them, and assignment from an array leaves the
  vector empty.
\<close>

theorem vector_erase_and_assign:
  assumes ok: "vec_ok vh" and "pos \<le> length (view vh)" and "length (view vh) + length xs \<le> MaxSize"
    and "length (m_storage (fst vh)) = len" and "len \<le> MaxSize"
  shows "(\<exists>vh'. Erase_pos pos vh = Inr (vh', pos) \<and> becomes vh (take pos (view vh)) vh') \<and>
     (\<exists>vh'. assign_span xs vh = Inr vh' \<and> becomes vh (view vh @ xs) vh') \<and>
     (\<exists>vh'. assign_array len dflt xs vh = Inr vh' \<and> vec_ok vh' \<and> view vh' = [])"
proof (intro conjI)
  have n: "length (view vh) = m_offset (fst vh)" using ok by simp
  obtain vh1 where "Erase pos (m_offset (fst vh)) vh = Inr (vh1, pos + (m_offset (fst vh) - m_offset (fst vh)))"
    "becomes vh (take pos (view vh) @ drop (m_offset (fst vh)) (view vh)) vh1"
    using Erase_ok [OF ok, of pos "m_offset (fst vh)"] assms(2) n by auto
  then show "\<exists>vh'. Erase_pos pos vh = Inr (vh', pos) \<and> becomes vh (take pos (view vh)) vh'"
    using n by (auto simp: Erase_pos_def)
  have sz: "length xs \<le> MaxSize" using assms(3) by simp
  obtain vh1 where vh1: "Reserve_exact (length xs) True vh = Inr vh1" "becomes vh (view vh) vh1"
    "m_offset (fst vh1) = m_offset (fst vh)" using Reserve_exact_ok [OF ok sz, of True] by blast
  then have ok1: "vec_ok vh1" by (simp add: becomes_def)
  obtain vh2 where vh2: "Insert_end xs vh1 = Inr (vh2, m_offset (fst vh1))" "becomes vh1 (view vh1 @ xs) vh2"
    using Insert_end_ok [OF ok1, of xs] vh1(3) n assms(3) by auto
  have "becomes vh (view vh @ xs) vh2" using vh1(2) vh2(2) by (simp add: becomes_def)
  moreover have "assign_span xs vh = Inr vh2" using vh1(1) vh2(1) sz by (simp add: assign_span_def Reserve_def)
  ultimately show "\<exists>vh'. assign_span xs vh = Inr vh' \<and> becomes vh (view vh @ xs) vh'" by blast
  have h: "heap_ok (snd vh)" using ok by (simp add: vec_ok_def heap_ok_def)
  note reset = Reset_ok [OF assms(4,5) h]
  obtain vh3 where "Reserve_exact (length xs) True (Reset_base Storage len (fst vh), snd vh) = Inr vh3"
    "becomes (Reset_base Storage len (fst vh), snd vh) [] vh3"
    using Reserve_exact_ok [OF reset(1) sz, of True] reset(2) by metis
  then show "\<exists>vh'. assign_array len dflt xs vh = Inr vh' \<and> vec_ok vh' \<and> view vh' = []"
    using sz by (auto simp: assign_array_def Assign_def Reserve_def becomes_def)
qed

theorem vector_erase_and_assign_witness:
  "\<exists>vh vh'. EmbeddedVector_of 3 [1, 2, 3 :: byte] sample_heap = Inr vh \<and> Erase_pos 1 vh = Inr (vh', 1) \<and> view vh' = [1]"
proof -
  have h: "heap_ok sample_heap" by (simp add: heap_ok_def sample_heap_def)
  define v where "v = \<lparr>m_data = Storage, m_offset = 3, m_capacity = 3, m_dynamic = False,
    m_storage = [Some 1, Some 2, Some (3 :: byte)]\<rparr>"
  have made: "EmbeddedVector_of 3 [1, 2, 3] sample_heap = Inr (v, sample_heap)"
    by (simp add: EmbeddedVector_of_def Reserve_def Reserve_exact_def Insert_end_def Insert_def Let_def v_def
        EmbeddedVector_new_def to_u32_def cells_def CopyConstruct_def write_cells_def
        set_cells_def set_offset_def ContiguousMoveOverlapping_def sample_heap_def)
  have "vec_ok (v, sample_heap)" "view (v, sample_heap) = [1, 2, 3]"
    by (auto simp: vec_ok_def v_def cells_def MaxSize_def sample_heap_def view_def nth_Cons')
  moreover have "length (m_storage v) = 3" by (simp add: v_def)
  ultimately have "\<exists>vh'. Erase_pos 1 (v, sample_heap) = Inr (vh', 1) \<and> becomes (v, sample_heap) [1] vh'"
    using vector_erase_and_assign [of "(v, sample_heap)" 1 "[]" 3 0] by (simp add: MaxSize_def)
  with made show ?thesis by (auto simp: becomes_def)
qed

text \<open>
  Erasing what was inserted gives back the elements, and erasing a range before inserting at its start
  replaces it, whether or not the vector has to move to a block of its own.
\<close>

theorem vector_insert_erase:
  assumes "vec_ok vh" and "a \<le> b" and "b \<le> length (view vh)" and "length (view vh) + length xs \<le> MaxSize"
  shows "(\<exists>vh1 vh2 i. Insert a xs vh = Inr (vh1, a) \<and> Erase a (a + length xs) vh1 = Inr (vh2, i) \<and>
       vec_ok vh2 \<and> view vh2 = view vh) \<and>
     (\<exists>vh1 i vh2. Erase a b vh = Inr (vh1, i) \<and> Insert a xs vh1 = Inr (vh2, a) \<and>
       vec_ok vh2 \<and> view vh2 = take a (view vh) @ xs @ drop b (view vh))"
  using vec_seq.insert_erase [OF assms(1), of a xs] vec_seq.replace [OF assms(1-3), of xs] assms by auto

theorem vector_insert_erase_witness:
  "\<exists>vh1 vh2 i. Insert 0 [1, 2] (EmbeddedVector_new 1, sample_heap) = Inr (vh1, 0) \<and>
     Erase 0 2 vh1 = Inr (vh2, i) \<and> view vh2 = []"
proof -
  have h: "heap_ok sample_heap" by (simp add: heap_ok_def sample_heap_def)
  have len: "1 \<le> MaxSize" by (simp add: MaxSize_def)
  note new = EmbeddedVector_new_ok [OF len h]
  have "\<exists>vh1 vh2 i. Insert 0 [1, 2] (EmbeddedVector_new 1, sample_heap) = Inr (vh1, 0) \<and>
     Erase 0 (0 + length [1, 2 :: byte]) vh1 = Inr (vh2, i) \<and> vec_ok vh2 \<and> view vh2 = view (EmbeddedVector_new 1, sample_heap)"
    using vector_insert_erase [OF new(1), of 0 0 "[1, 2]"] new(2) by (auto simp: MaxSize_def)
  with new(2) show ?thesis by (simp add: numeral_2_eq_2) blast
qed

text \<open>
  An index of an \<^verbatim>\<open>Array\<close> below its length reads the element; the index \<open>N\<close> itself passes the assertion
  and reads behind the storage; a shorter source leaves the cells behind it without a value.
\<close>

theorem array_index:
  assumes "length elems \<le> n"
  shows "\<exists>arr. Array_of n dflt elems = Inr arr \<and> length arr = n \<and>
     (\<forall>i < n. Array_At arr i = Inr (if i < length elems then elems ! i else dflt)) \<and>
     Array_At arr n = Inl Out_Of_Bounds \<and>
     (\<forall>i > n. Array_At arr i = Inl Assert_Failed) \<and>
     (n < m \<longrightarrow> Array_At (Array_copy m arr) n = Inl Out_Of_Bounds)"
  using assms by (auto simp: Array_of_def Array_At_def Array_read_def Array_copy_def nth_append)

theorem array_index_witness:
  "\<exists>arr. Array_of 2 0 [5 :: byte] = Inr arr \<and> Array_At arr 0 = Inr 5 \<and> Array_At arr 2 = Inl Out_Of_Bounds"
  using array_index [of "[5]" 2 0 3] by auto

end
