(* ===== verification/Argument_Convert.thy ===== *)
theory Argument_Convert
  imports String_Util
begin

text \<open>
  The conversion of command line arguments to values (\<^verbatim>\<open>ConvertArgument\<close> and \<^verbatim>\<open>ConvertArgumentOption\<close> of
  \<^verbatim>\<open>Impl/Argparse.h\<close>). The C++ type of an argument is a value of \<open>arg_type\<close> and what it can hold one of
  \<open>arg_value\<close>; floating point types are left out. A conversion writes into its target as it
  proceeds, so it returns the target with the outcome, also when it fails.
\<close>

datatype arg_type =
    T_Bool | T_Unsigned nat | T_Signed nat | T_String
  | T_List arg_type | T_Map arg_type arg_type | T_Tuple "arg_type list" | T_Optional arg_type

datatype arg_value =
    V_Bool bool | V_Int int | V_String "byte list"
  | V_List "arg_value list" | V_Map "(arg_value \<times> arg_value) list" | V_Tuple "arg_value list"
  | V_Optional "arg_value option"

datatype arg_error =
    Bad_Number number_error | Bad_Boolean "byte list" | Bad_Pair "byte list" | Bad_Tuple nat
  | Bad_Choice arg_value | No_Arguments | No_Remaining | Empty_List | Invalid_Offset
  | Duplicate "byte list" | Missing "byte list" | Unrecognized "byte list" | Help_Exit | Action_Error

type_synonym arg_result = "arg_error + unit"

text \<open>The value-initialized \<^verbatim>\<open>T\<close>.\<close>

fun value_of_type :: "arg_type \<Rightarrow> arg_value" where
  "value_of_type T_Bool = V_Bool False"
| "value_of_type (T_Unsigned w) = V_Int 0"
| "value_of_type (T_Signed w) = V_Int 0"
| "value_of_type T_String = V_String []"
| "value_of_type (T_List t) = V_List []"
| "value_of_type (T_Map k v) = V_Map []"
| "value_of_type (T_Tuple ts) = V_Tuple (map value_of_type ts)"
| "value_of_type (T_Optional t) = V_Optional None"

fun IsSequence_type :: "arg_type \<Rightarrow> bool" where
  "IsSequence_type (T_List t) = True"
| "IsSequence_type (T_Map k v) = True"
| "IsSequence_type (T_Optional t) = IsSequence_type t"
| "IsSequence_type _ = False"

definition all_parts :: nat where "all_parts = 2 ^ 64 - 1"

text \<open>
  Integers: the view is trimmed and then parsed. The byte behind the view can be read, it is the
  terminator of the argument, a delimiter or trimmed space, and its value does not matter.
\<close>

definition Convert_int :: "(byte list \<Rightarrow> nat \<Rightarrow> (number_error + int) exec) \<Rightarrow> arg_value \<Rightarrow> byte list \<Rightarrow>
    (arg_value \<times> arg_result) exec" where
  "Convert_int parse out inp =
     and_then (Trim_view inp WHITESPACE_TOKENS) (\<lambda>inp.
     and_then (parse (inp @ [0]) (length inp)) (\<lambda>r.
     Inr (case r of Inr v \<Rightarrow> (V_Int v, Inr ()) | Inl e \<Rightarrow> (out, Inl (Bad_Number e)))))"

definition parse_unsigned :: "nat \<Rightarrow> byte list \<Rightarrow> nat \<Rightarrow> (number_error + int) exec" where
  "parse_unsigned w mem len =
     and_then (ParseNumber_unsigned w mem len) (\<lambda>r. Inr (case r of Inl e \<Rightarrow> Inl e | Inr n \<Rightarrow> Inr (int n)))"

definition Convert_bool :: "arg_value \<Rightarrow> byte list \<Rightarrow> (arg_value \<times> arg_result) exec" where
  "Convert_bool storage inp =
     (let tmp = ToLowerCopy inp in
      and_then (IsTrueString tmp) (\<lambda>t.
      if t then Inr (V_Bool True, Inr ())
      else and_then (IsFalseString tmp) (\<lambda>f.
        if f then Inr (V_Bool False, Inr ()) else Inr (storage, Inl (Bad_Boolean inp)))))"

definition Convert_string :: "arg_value \<Rightarrow> byte list \<Rightarrow> (arg_value \<times> arg_result) exec" where
  "Convert_string storage inp =
     and_then (Trim_view inp WHITESPACE_TOKENS) (\<lambda>inp. Inr (V_String inp, Inr ()))"

fun list_items :: "arg_value \<Rightarrow> arg_value list" where
  "list_items (V_List xs) = xs" | "list_items (V_Tuple xs) = xs" | "list_items _ = []"

fun map_items :: "arg_value \<Rightarrow> (arg_value \<times> arg_value) list" where
  "map_items (V_Map kvs) = kvs" | "map_items _ = []"

text \<open>\<^verbatim>\<open>emplace\<close> keeps the value of a key that is present.\<close>

definition emplace :: "arg_value \<Rightarrow> arg_value \<Rightarrow> (arg_value \<times> arg_value) list \<Rightarrow> (arg_value \<times> arg_value) list" where
  "emplace k v kvs = (if k \<in> fst ` set kvs then kvs else kvs @ [(k, v)])"

function (sequential) Convert :: "arg_type \<Rightarrow> arg_value \<Rightarrow> byte list \<Rightarrow> (arg_value \<times> arg_result) exec"
  and convert_sequence :: "arg_type \<Rightarrow> arg_value list \<Rightarrow> byte list list \<Rightarrow> (arg_value list \<times> arg_result) exec"
  and convert_pairs :: "arg_type \<Rightarrow> arg_type \<Rightarrow> (arg_value \<times> arg_value) list \<Rightarrow> byte list list \<Rightarrow>
    ((arg_value \<times> arg_value) list \<times> arg_result) exec"
  and convert_tuple :: "arg_type list \<Rightarrow> arg_value list \<Rightarrow> byte list list \<Rightarrow> (arg_value list \<times> arg_result) exec"
where
  "Convert T_Bool storage inp = Convert_bool storage inp"
| "Convert (T_Unsigned w) out inp = Convert_int (parse_unsigned w) out inp"
| "Convert (T_Signed w) out inp = Convert_int (ParseNumber_signed w) out inp"
| "Convert T_String storage inp = Convert_string storage inp"
| "Convert (T_List t) container inp =
     and_then (convert_sequence t (list_items container) (SplitViews inp (lit '','') all_parts))
       (\<lambda>(xs, r). Inr (V_List xs, r))"
| "Convert (T_Map tk tv) c inp =
     and_then (convert_pairs tk tv (map_items c) (SplitViews inp (lit '','') all_parts))
       (\<lambda>(kvs, r). Inr (V_Map kvs, r))"
| "Convert (T_Tuple ts) tup inp =
     (let elements = SplitViews inp (lit '':'') all_parts
      in if length elements \<noteq> length ts then Inr (tup, Inl (Bad_Tuple (length ts)))
         else and_then (convert_tuple ts (list_items tup) elements) (\<lambda>(xs, r). Inr (V_Tuple xs, r)))"
| "Convert (T_Optional t) storage inp =
     and_then (Convert t (value_of_type t) inp) (\<lambda>(v, r).
     Inr (case r of Inl e \<Rightarrow> (storage, Inl e) | Inr _ \<Rightarrow> (V_Optional (Some v), Inr ())))"
| "convert_sequence t xs [] = Inr (xs, Inr ())"
| "convert_sequence t xs (part # parts) =
     and_then (Convert t (value_of_type t) part) (\<lambda>(v, r).
     case r of Inl e \<Rightarrow> Inr (xs, Inl e) | Inr _ \<Rightarrow> convert_sequence t (xs @ [v]) parts)"
| "convert_pairs tk tv kvs [] = Inr (kvs, Inr ())"
| "convert_pairs tk tv kvs (pair # parts) =
     (case find_sub pair (lit ''='') of
        None \<Rightarrow> Inr (kvs, Inl (Bad_Pair pair))
      | Some eq \<Rightarrow>
          and_then (Convert tk (value_of_type tk) (take eq pair)) (\<lambda>(k, r).
          case r of Inl e \<Rightarrow> Inr (kvs, Inl e)
          | Inr _ \<Rightarrow>
              and_then (Convert tv (value_of_type tv) (drop (eq + 1) pair)) (\<lambda>(v, r).
              case r of Inl e \<Rightarrow> Inr (kvs, Inl e)
              | Inr _ \<Rightarrow> convert_pairs tk tv (emplace k v kvs) parts)))"
| "convert_tuple (t # ts) (x # xs) (part # parts) =
     and_then (Convert t x part) (\<lambda>(v, r).
     case r of Inl e \<Rightarrow> Inr (v # xs, Inl e)
     | Inr _ \<Rightarrow> and_then (convert_tuple ts xs parts) (\<lambda>(vs, r). Inr (v # vs, r)))"
| "convert_tuple _ xs _ = Inr (xs, Inr ())"
  by pat_completeness auto
termination
  by (relation "measures [\<lambda>x. case x of
        Inl (Inl (t, _)) \<Rightarrow> 2 * size t
      | Inl (Inr (t, _, _)) \<Rightarrow> 2 * size t + 1
      | Inr (Inl (k, v, _)) \<Rightarrow> 2 * size k + 2 * size v + 1
      | Inr (Inr (ts, _)) \<Rightarrow> 2 * size_list size ts + 1,
      \<lambda>x. case x of Inl (Inl _) \<Rightarrow> 0 | Inl (Inr (_, _, ps)) \<Rightarrow> length ps
      | Inr (Inl (_, _, _, ps)) \<Rightarrow> length ps | Inr (Inr _) \<Rightarrow> 0]") auto

definition ConvertOption :: "arg_type \<Rightarrow> arg_value \<Rightarrow> (arg_value \<times> arg_result) exec" where
  "ConvertOption t out =
     (case (t, out) of
        (T_Unsigned w, V_Int n) \<Rightarrow> Inr (V_Int ((n + 1) mod 2 ^ w), Inr ())
      | (T_Signed w, V_Int n) \<Rightarrow>
          if n + 1 < 2 ^ (w - 1) then Inr (V_Int (n + 1), Inr ())
          else if w < 32 then Inr (V_Int (- (2 ^ (w - 1))), Inr ()) else Inl Signed_Overflow
      | _ \<Rightarrow> Inr (V_Bool True, Inr ()))"

definition IsSequence_option :: "arg_type \<Rightarrow> bool" where
  "IsSequence_option t = (case t of T_Unsigned w \<Rightarrow> True | T_Signed w \<Rightarrow> True | _ \<Rightarrow> False)"

section \<open>Conversion respects the type\<close>

fun has_type :: "arg_type \<Rightarrow> arg_value \<Rightarrow> bool" where
  "has_type T_Bool (V_Bool b) = True"
| "has_type (T_Unsigned w) (V_Int n) = (0 \<le> n \<and> n < 2 ^ w)"
| "has_type (T_Signed w) (V_Int n) = (- (2 ^ (w - 1)) \<le> n \<and> n < 2 ^ (w - 1))"
| "has_type T_String (V_String s) = True"
| "has_type (T_List t) (V_List xs) = (\<forall>x \<in> set xs. has_type t x)"
| "has_type (T_Map k v) (V_Map kvs) = (distinct (map fst kvs) \<and> (\<forall>kv \<in> set kvs. has_type k (fst kv) \<and> has_type v (snd kv)))"
| "has_type (T_Tuple ts) (V_Tuple xs) = list_all2 has_type ts xs"
| "has_type (T_Optional t) (V_Optional x) = (case x of None \<Rightarrow> True | Some y \<Rightarrow> has_type t y)"
| "has_type _ _ = False"

lemma has_type_initial: "has_type t (value_of_type t)"
  by (induction t) (auto simp: list_all2_conv_all_nth)

lemma Convert_int_type:
  assumes "Convert_int parse out inp = Inr (v, r)" and "\<And>mem len n. parse mem len = Inr (Inr n) \<Longrightarrow> P (V_Int n)" and "P out"
  shows "P v"
proof -
  obtain s q where "parse (s @ [0]) (length s) = Inr q"
    and "(v, r) = (case q of Inr n \<Rightarrow> (V_Int n, Inr ()) | Inl e \<Rightarrow> (out, Inl (Bad_Number e)))"
    using assms(1) by (auto simp: Convert_int_def exec_iff)
  then show ?thesis using assms(2,3) by (cases q) auto
qed

lemma parse_unsigned_range: "parse_unsigned w mem len = Inr (Inr n) \<Longrightarrow> has_type (T_Unsigned w) (V_Int n)"
  by (auto simp: parse_unsigned_def ParseNumber_unsigned_def exec_iff split_sum_ex)

lemma parse_signed_range: "ParseNumber_signed w mem len = Inr (Inr n) \<Longrightarrow> has_type (T_Signed w) (V_Int n)"
  by (auto simp: ParseNumber_signed_def ToSignedNumber_def exec_iff Let_def split: if_splits list.splits)

lemma emplace_type:
  "has_type (T_Map tk tv) (V_Map kvs) \<Longrightarrow> has_type tk k \<Longrightarrow> has_type tv v \<Longrightarrow> has_type (T_Map tk tv) (V_Map (emplace k v kvs))"
  by (auto simp: emplace_def)

lemma convert_types:
  "Convert t old inp = Inr (v, r) \<Longrightarrow> has_type t old \<Longrightarrow> has_type t v"
  "convert_sequence t1 xs parts1 = Inr (ys, r1) \<Longrightarrow> has_type (T_List t1) (V_List xs) \<Longrightarrow> has_type (T_List t1) (V_List ys)"
  "convert_pairs tk tv kvs parts2 = Inr (kvs', r2) \<Longrightarrow> has_type (T_Map tk tv) (V_Map kvs) \<Longrightarrow> has_type (T_Map tk tv) (V_Map kvs')"
  "convert_tuple ts us parts3 = Inr (us', r3) \<Longrightarrow> list_all2 has_type ts us \<Longrightarrow> list_all2 has_type ts us'"
proof (induction t old inp and t1 xs parts1 and tk tv kvs parts2 and ts us parts3
    arbitrary: v r and ys r1 and kvs' r2 and us' r3
    rule: Convert_convert_sequence_convert_pairs_convert_tuple.induct)
  case (1 storage inp)
  then show ?case by (auto simp: Convert_bool_def Let_def exec_iff split: if_splits)
next
  case (2 w out inp)
  then show ?case using Convert_int_type [of _ out inp v r "has_type (T_Unsigned w)"] parse_unsigned_range by auto
next
  case (3 w out inp)
  then show ?case using Convert_int_type [of _ out inp v r "has_type (T_Signed w)"] parse_signed_range by auto
next
  case (4 storage inp)
  then show ?case by (auto simp: Convert_string_def exec_iff)
next
  case (5 t container inp)
  then show ?case by (cases container) (auto simp: exec_iff)
next
  case (6 tk tv c inp)
  then show ?case by (cases c) (auto simp: exec_iff)
next
  case (7 ts tup inp)
  then show ?case by (cases tup) (auto simp: exec_iff Let_def split: if_splits)
next
  case (8 t storage inp)
  then show ?case using has_type_initial [of t] by (auto simp: exec_iff split_sum_ex)
next
  case (10 t xs part parts)
  obtain w q where w: "Convert t (value_of_type t) part = Inr (w, q)"
    and eq: "(case q of Inl e \<Rightarrow> Inr (xs, Inl e) | Inr _ \<Rightarrow> convert_sequence t (xs @ [w]) parts) = Inr (ys, r1)"
    using "10.prems"(1) by (auto simp: exec_iff)
  have "has_type (T_List t) (V_List (xs @ [w]))" using "10.IH"(1) [OF w has_type_initial] "10.prems"(2) by simp
  with eq "10.prems"(2) show ?case by (cases q) (auto intro: "10.IH"(2) simp del: has_type.simps)
next
  case (12 tk tv kvs pair parts)
  show ?case
  proof (cases "find_sub pair (lit ''='')")
    case None
    with "12.prems" show ?thesis by auto
  next
    case (Some eq)
    obtain k q where k: "Convert tk (value_of_type tk) (take eq pair) = Inr (k, q)"
      and e1: "(case q of Inl e \<Rightarrow> Inr (kvs, Inl e) | Inr _ \<Rightarrow>
        and_then (Convert tv (value_of_type tv) (drop (Suc eq) pair)) (\<lambda>(v, r).
        case r of Inl e \<Rightarrow> Inr (kvs, Inl e) | Inr _ \<Rightarrow> convert_pairs tk tv (emplace k v kvs) parts)) = Inr (kvs', r2)"
      using "12.prems"(1) Some by (auto simp: exec_iff)
    have tk: "has_type tk k" using "12.IH"(1) [OF Some k has_type_initial] .
    show ?thesis
    proof (cases q)
      case (Inl e)
      with e1 "12.prems"(2) show ?thesis by simp
    next
      case (Inr u)
      obtain v q2 where v: "Convert tv (value_of_type tv) (drop (Suc eq) pair) = Inr (v, q2)"
        and e2: "(case q2 of Inl e \<Rightarrow> Inr (kvs, Inl e) | Inr _ \<Rightarrow> convert_pairs tk tv (emplace k v kvs) parts) = Inr (kvs', r2)"
        using e1 Inr by (auto simp: exec_iff)
      have "has_type tv v" using "12.IH"(2) [OF Some _ has_type_initial] v by simp
      with emplace_type "12.prems"(2) tk have "has_type (T_Map tk tv) (V_Map (emplace k v kvs))" by blast
      with e2 "12.prems"(2) Inr show ?thesis
        by (cases q2) (auto intro: "12.IH"(3) [OF Some] simp del: has_type.simps)
    qed
  qed
next
  case (13 t ts x xs part parts)
  obtain w q where w: "Convert t x part = Inr (w, q)"
    and eq: "(case q of Inl e \<Rightarrow> Inr (w # xs, Inl e)
      | Inr _ \<Rightarrow> and_then (convert_tuple ts xs parts) (\<lambda>(vs, r). Inr (w # vs, r))) = Inr (us', r3)"
    using "13.prems"(1) by (auto simp: exec_iff)
  have "has_type t w" using "13.IH"(1) [OF w] "13.prems"(2) by simp
  with eq "13.prems"(2) show ?case by (cases q) (auto simp: exec_iff intro: "13.IH"(2))
qed auto

end
