(* ===== verification/Argparse.thy ===== *)
theory Argparse
  imports Argument_Convert
begin

text \<open>
  \<^verbatim>\<open>ArgumentParser\<close> and its arguments (\<^verbatim>\<open>Argparse.cpp\<close>, \<^verbatim>\<open>Argparse.h\<close>, \<^verbatim>\<open>Impl/Argparse.h\<close>). Arguments are shared between a parser
  and the parsers of its commands, so the model keeps the argument objects, the parsers and the variables
  they write to in one store and refers to them by number. A span of arguments is a list; parsing returns
  how many of its elements were consumed. User actions are functions of the value alone. \<^verbatim>\<open>std::sort\<close>, which does not
  fix the order of arguments of one type, is a parameter of the operations that sort.
\<close>

section \<open>State\<close>

datatype kind = Argument | Command | Option | Positional

text \<open>The order of the enumerators of \<^verbatim>\<open>ArgumentBase::Type\<close>.\<close>

primrec kind_number :: "kind \<Rightarrow> nat" where
  "kind_number Argument = 0" | "kind_number Command = 1" | "kind_number Option = 2" | "kind_number Positional = 3"

datatype action = No_Action | User_Action "arg_value \<Rightarrow> arg_result" | Print_Help nat

record argument =
  a_parser :: nat
  a_type :: kind
  a_alias :: "byte list"
  a_help :: "byte list"
  a_metavar :: "byte list"
  a_name :: "byte list"
  a_required :: bool
  a_flag :: byte
  a_nargs :: nat
  a_value_type :: arg_type
  a_value :: "nat option"
  a_choices :: "arg_value list"
  a_default :: arg_value
  a_action :: action
  a_command_action :: "arg_result option"
  a_command_parser :: nat

record arg_parser =
  p_parent :: "nat option"
  p_program :: "byte list"
  p_noAutoHelp :: bool
  p_args :: "nat list"
  p_cmds :: "nat list"
  p_foundArgs :: "byte list set"
  p_command :: "byte list"

record argparse =
  arguments :: "argument list"
  parsers :: "arg_parser list"
  variables :: "arg_value list"
  cerr :: "byte list"

abbreviation arg_of :: "argparse \<Rightarrow> nat \<Rightarrow> argument" where
  "arg_of w a \<equiv> arguments w ! a"

abbreviation parser_of :: "argparse \<Rightarrow> nat \<Rightarrow> arg_parser" where
  "parser_of w p \<equiv> parsers w ! p"

definition set_arg :: "nat \<Rightarrow> argument \<Rightarrow> argparse \<Rightarrow> argparse" where
  "set_arg a x w = w\<lparr>arguments := (arguments w)[a := x]\<rparr>"

definition set_parser :: "nat \<Rightarrow> arg_parser \<Rightarrow> argparse \<Rightarrow> argparse" where
  "set_parser p x w = w\<lparr>parsers := (parsers w)[p := x]\<rparr>"

section \<open>Arguments\<close>

definition GetParameterStr :: "argument \<Rightarrow> bool \<Rightarrow> byte list" where
  "GetParameterStr a showMetaVar =
     (if a_type a = Argument \<or> a_type a = Option then lit ''--'' else []) @ a_name a @
     (if a_flag a \<noteq> 0 then lit ''/-'' @ [a_flag a] else []) @
     (if showMetaVar \<and> a_metavar a \<noteq> [] then lit '' '' @ a_metavar a else [])"

text \<open>
  The parser of a command has a parent, which has none of its own, because a command takes no further
  commands.
\<close>

definition root_of :: "argparse \<Rightarrow> nat \<Rightarrow> nat" where
  "root_of w p = (case p_parent (parser_of w p) of None \<Rightarrow> p | Some q \<Rightarrow> q)"

definition IsArgumentFound :: "argparse \<Rightarrow> nat \<Rightarrow> byte list \<Rightarrow> bool" where
  "IsArgumentFound w p name \<longleftrightarrow> name \<in> p_foundArgs (parser_of w (root_of w p))"

definition MarkArgumentFound :: "nat \<Rightarrow> byte list \<Rightarrow> argparse \<Rightarrow> argparse" where
  "MarkArgumentFound p name w =
     (let q = root_of w p; x = parser_of w q
      in set_parser q (x\<lparr>p_foundArgs := insert name (p_foundArgs x)\<rparr>) w)"

definition IsFound :: "argparse \<Rightarrow> nat \<Rightarrow> bool" where
  "IsFound w a \<longleftrightarrow> IsArgumentFound w (a_parser (arg_of w a)) (a_name (arg_of w a))"

definition Matcher :: "byte list \<Rightarrow> byte list \<Rightarrow> bool exec" where
  "Matcher inp param =
     (if param = [] then Inr False
      else if length inp \<le> 1 then Inl Out_Of_Bounds
      else if inp ! 1 \<noteq> 45 then Inr False
      else let inp = drop 2 inp in
        if param = inp then Inr True
        else case find_sub inp (lit ''='') of
          None \<Rightarrow> Inr False
        | Some equal \<Rightarrow> Inr (param = take equal inp))"

definition ArgumentBase_Match :: "argument \<Rightarrow> byte list \<Rightarrow> bool exec" where
  "ArgumentBase_Match a arg =
     (if arg = [] \<or> hd arg \<noteq> 45 then Inr False
      else if a_flag a \<noteq> 0 \<and> length arg = 2 \<and> arg ! 1 = a_flag a then Inr True
      else and_then (Matcher arg (a_name a)) (\<lambda>m. if m then Inr True else Matcher arg (a_alias a)))"

definition IsSequence :: "argument \<Rightarrow> bool" where
  "IsSequence a = (case a_type a of
     Argument \<Rightarrow> IsSequence_type (a_value_type a)
   | Option \<Rightarrow> IsSequence_option (a_value_type a)
   | Positional \<Rightarrow> IsSequence_type (a_value_type a)
   | Command \<Rightarrow> False)"

definition Match :: "argparse \<Rightarrow> nat \<Rightarrow> byte list \<Rightarrow> bool exec" where
  "Match w a arg = (case a_type (arg_of w a) of
     Command \<Rightarrow> Inr (a_name (arg_of w a) = arg)
   | Positional \<Rightarrow> Inr (IsSequence (arg_of w a) \<or> \<not> IsFound w a)
   | _ \<Rightarrow> ArgumentBase_Match (arg_of w a) arg)"

text \<open>The builder methods.\<close>

definition Alias :: "nat \<Rightarrow> byte list \<Rightarrow> argparse \<Rightarrow> argparse" where
  "Alias a alias w = set_arg a ((arg_of w a)\<lparr>a_alias := alias\<rparr>) w"

definition Help :: "nat \<Rightarrow> byte list \<Rightarrow> argparse \<Rightarrow> argparse" where
  "Help a str w = set_arg a ((arg_of w a)\<lparr>a_help := str\<rparr>) w"

definition Metavar :: "nat \<Rightarrow> byte list \<Rightarrow> argparse \<Rightarrow> argparse" where
  "Metavar a metavar w = set_arg a ((arg_of w a)\<lparr>a_metavar := metavar\<rparr>) w"

definition Nargs :: "nat \<Rightarrow> nat \<Rightarrow> argparse \<Rightarrow> argparse" where
  "Nargs a count w = set_arg a ((arg_of w a)\<lparr>a_nargs := count\<rparr>) w"

definition Required :: "nat \<Rightarrow> argparse \<Rightarrow> argparse" where
  "Required a w = set_arg a ((arg_of w a)\<lparr>a_required := True\<rparr>) w"

definition Action :: "nat \<Rightarrow> action \<Rightarrow> argparse \<Rightarrow> argparse" where
  "Action a act w = set_arg a ((arg_of w a)\<lparr>a_action := act\<rparr>) w"

definition Choices :: "nat \<Rightarrow> arg_value list \<Rightarrow> argparse \<Rightarrow> argparse" where
  "Choices a choices w = set_arg a ((arg_of w a)\<lparr>a_choices := choices\<rparr>) w"

definition Command_Action :: "nat \<Rightarrow> arg_result \<Rightarrow> argparse \<Rightarrow> argparse" where
  "Command_Action a act w = set_arg a ((arg_of w a)\<lparr>a_command_action := Some act\<rparr>) w"

definition write_var :: "nat option \<Rightarrow> arg_value \<Rightarrow> argparse \<Rightarrow> argparse" where
  "write_var v x w = (case v of None \<Rightarrow> w | Some i \<Rightarrow> w\<lparr>variables := (variables w)[i := x]\<rparr>)"

definition Default :: "nat \<Rightarrow> arg_value \<Rightarrow> argparse \<Rightarrow> argparse" where
  "Default a x w = write_var (a_value (arg_of w a)) x (set_arg a ((arg_of w a)\<lparr>a_default := x\<rparr>) w)"

section \<open>Help\<close>

definition spaces :: "nat \<Rightarrow> byte list" where
  "spaces n = replicate n 32"

definition PrintUsage :: "nat \<Rightarrow> bool \<Rightarrow> argparse \<Rightarrow> argparse" where
  "PrintUsage p showMetaVar w =
     (let parser = parser_of w p;
          as = map (arg_of w) (p_args parser);
          program = (case p_parent parser of None \<Rightarrow> p_program parser | Some q \<Rightarrow> p_program (parser_of w q));
          args = map (\<lambda>a. GetParameterStr a showMetaVar) (filter (\<lambda>a. a_type a = Argument \<or> a_type a = Option) as);
          cmds = map (\<lambda>a. GetParameterStr a False) (filter (\<lambda>a. a_type a = Command) as);
          pos = map (\<lambda>a. GetParameterStr a False) (filter (\<lambda>a. a_type a = Positional) as);
          out = lit ''Usage: '' @ program @ lit '' '' @
            (if p_parent parser \<noteq> None \<and> p_program parser \<noteq> [] then p_program parser @ lit '' '' else []) @
            concat (map (\<lambda>s. lit ''['' @ s @ lit ''] '') args) @
            concat (map (\<lambda>s. s @ lit '' '') pos) @
            (if cmds \<noteq> [] then lit ''{'' @ Join cmds (lit '', '') @ lit ''} ...'' else [])
      in w\<lparr>cerr := cerr w @ out @ [10]\<rparr>)"

text \<open>A line of the menu, with the help text at the column \<open>width\<close>.\<close>

definition menu_line :: "nat \<Rightarrow> byte list \<Rightarrow> byte list \<Rightarrow> byte list" where
  "menu_line width label hlp =
     lit ''    '' @ label @ (if hlp \<noteq> [] then spaces (width - length label) @ hlp else []) @ [10]"

definition longest :: "byte list list \<Rightarrow> nat" where
  "longest labels = foldl max 0 (map length labels)"

definition PrintMenu :: "nat \<Rightarrow> argparse \<Rightarrow> argparse" where
  "PrintMenu p w0 =
     (let w = PrintUsage p True w0;
          as = map (arg_of w) (p_args (parser_of w p));
          named = filter (\<lambda>a. a_type a = Argument \<or> a_type a = Option) as;
          argsRequired = filter a_required named;
          argsOptional = filter (\<lambda>a. \<not> a_required a) named;
          cmds = filter (\<lambda>a. a_type a = Command) as;
          pos = filter (\<lambda>a. a_type a = Positional) as;
          argMaxLength = max (longest (map (\<lambda>a. GetParameterStr a True) named) + 1) 16;
          cmdMaxLength = max (longest (map a_name cmds) + 1) 16;
          posMaxLength = max (longest (map a_name pos) + 1) 16;
          by_name = (\<lambda>width a. menu_line width (a_name a) (a_help a));
          by_param = (\<lambda>a. menu_line argMaxLength (GetParameterStr a True) (a_help a));
          out = [10] @
            (if cmds \<noteq> [] then lit ''Available Commands:'' @ [10] @ concat (map (by_name cmdMaxLength) cmds) else []) @
            (if pos \<noteq> [] then lit ''Positional Arguments:'' @ [10] @ concat (map (by_name posMaxLength) pos) @ [10] else []) @
            (if argsRequired \<noteq> [] then
               (if cmds \<noteq> [] \<or> pos \<noteq> [] then [10] else []) @ lit ''Required Arguments:'' @ [10] @
               concat (map by_param argsRequired) else []) @
            (if argsOptional \<noteq> [] then
               (if cmds \<noteq> [] \<or> pos \<noteq> [] \<or> argsRequired \<noteq> [] then [10] else []) @ lit ''Optional Arguments:'' @ [10] @
               concat (map by_param argsOptional) else [])
      in w\<lparr>cerr := cerr w @ out @ [10]\<rparr>)"

definition PrintHelp :: "nat \<Rightarrow> argparse \<Rightarrow> argparse" where
  "PrintHelp p w = PrintMenu p w"

section \<open>Construction\<close>

definition CheckArgName :: "argparse \<Rightarrow> nat \<Rightarrow> byte list \<Rightarrow> bool \<Rightarrow> bool" where
  "CheckArgName w p name isCommand \<longleftrightarrow>
     name \<noteq> [] \<and>
     (\<forall>c \<in> set name. IsAlphaNum c \<or> c = 95 \<or> c = 45) \<and>
     (\<forall>a \<in> set (p_args (parser_of w p)).
        a_name (arg_of w a) = name \<or> a_alias (arg_of w a) = name \<longrightarrow> isCommand \<and> a_type (arg_of w a) \<noteq> Command)"

definition CheckArgFlag :: "argparse \<Rightarrow> nat \<Rightarrow> byte \<Rightarrow> bool" where
  "CheckArgFlag w p flag \<longleftrightarrow>
     flag = 0 \<or> IsAlphaNum flag \<and> (\<forall>a \<in> set (p_args (parser_of w p)). a_flag (arg_of w a) \<noteq> flag)"

type_synonym sorter = "(nat \<Rightarrow> nat) \<Rightarrow> nat list \<Rightarrow> nat list"

definition Sort :: "sorter \<Rightarrow> nat \<Rightarrow> argparse \<Rightarrow> argparse" where
  "Sort sorter p w =
     (let x = parser_of w p
      in set_parser p (x\<lparr>p_args := sorter (\<lambda>a. kind_number (a_type (arg_of w a))) (p_args x)\<rparr>) w)"

definition push_arg :: "nat \<Rightarrow> nat \<Rightarrow> argparse \<Rightarrow> argparse" where
  "push_arg p a w = (let x = parser_of w p in set_parser p (x\<lparr>p_args := p_args x @ [a]\<rparr>) w)"

text \<open>\<^verbatim>\<open>AddArgument\<close> of a shared argument.\<close>

definition AddArgument_ptr :: "sorter \<Rightarrow> nat \<Rightarrow> nat \<Rightarrow> argparse \<Rightarrow> argparse" where
  "AddArgument_ptr sorter p a w =
     (let arg = arg_of w a;
          shared = ((a_type arg = Argument \<or> a_type arg = Option) \<and> a_name arg \<noteq> lit ''help'');
          w = (if shared
               then foldl (\<lambda>w cmd. let q = a_command_parser (arg_of w cmd) in Sort sorter q (push_arg q a w))
                      w (p_cmds (parser_of w p))
               else w);
          w = push_arg p a w
      in if length (p_args (parser_of w p)) > 1 then Sort sorter p w else w)"

definition new_argument :: "kind \<Rightarrow> nat \<Rightarrow> byte list \<Rightarrow> byte \<Rightarrow> arg_type \<Rightarrow> nat option \<Rightarrow> argument" where
  "new_argument k p name flag t var =
     \<lparr>a_parser = p, a_type = k, a_alias = [], a_help = [], a_metavar = [], a_name = name,
      a_required = (k = Positional), a_flag = flag, a_nargs = 1, a_value_type = t, a_value = var,
      a_choices = [], a_default = value_of_type t, a_action = No_Action, a_command_action = None,
      a_command_parser = 0\<rparr>"

definition make_argument :: "argument \<Rightarrow> argparse \<Rightarrow> argparse \<times> nat" where
  "make_argument x w = (w\<lparr>arguments := arguments w @ [x]\<rparr>, length (arguments w))"

definition add_argument :: "kind \<Rightarrow> sorter \<Rightarrow> nat \<Rightarrow> arg_type \<Rightarrow> nat option \<Rightarrow> byte list \<Rightarrow> byte \<Rightarrow> argparse \<Rightarrow>
    (argparse \<times> nat) exec" where
  "add_argument k sorter p t var name flag w =
     and_then (fusion_assert (CheckArgName w p name False)) (\<lambda>_.
     and_then (fusion_assert (CheckArgFlag w p flag)) (\<lambda>_.
     let (w, a) = make_argument (new_argument k p name flag t var) w
     in Inr (AddArgument_ptr sorter p a w, a)))"

definition AddArgument where "AddArgument = add_argument Argument"
definition AddOption where "AddOption = add_argument Option"

definition AddPositional :: "sorter \<Rightarrow> nat \<Rightarrow> arg_type \<Rightarrow> nat option \<Rightarrow> byte list \<Rightarrow> argparse \<Rightarrow> (argparse \<times> nat) exec" where
  "AddPositional sorter p t var name w = add_argument Positional sorter p t var name 0 w"

definition SetupHelp :: "sorter \<Rightarrow> nat \<Rightarrow> argparse \<Rightarrow> argparse exec" where
  "SetupHelp sorter p w =
     (if p_noAutoHelp (parser_of w p) then Inr w
      else and_then (AddOption sorter p T_Bool None (lit ''help'') 104 w) (\<lambda>(w, a).
        Inr (Help a (lit ''Print this helpful menu and exit.'') (Action a (Print_Help p) w))))"

definition ArgumentParser_new :: "sorter \<Rightarrow> byte list \<Rightarrow> bool \<Rightarrow> argparse \<Rightarrow> (argparse \<times> nat) exec" where
  "ArgumentParser_new sorter program noAutoHelp w =
     (let p = length (parsers w);
          x = \<lparr>p_parent = None, p_program = program, p_noAutoHelp = noAutoHelp, p_args = [], p_cmds = [],
               p_foundArgs = {}, p_command = []\<rparr>
      in and_then (SetupHelp sorter p (w\<lparr>parsers := parsers w @ [x]\<rparr>)) (\<lambda>w. Inr (w, p)))"

definition ArgumentCommand_new :: "sorter \<Rightarrow> nat \<Rightarrow> byte list \<Rightarrow> bool \<Rightarrow> argparse \<Rightarrow> (argparse \<times> nat) exec" where
  "ArgumentCommand_new sorter p name helpMenu w =
     and_then (ArgumentParser_new sorter name (\<not> helpMenu) w) (\<lambda>(w, q).
     let w = set_parser q ((parser_of w q)\<lparr>p_parent := Some p\<rparr>) w
     in Inr (make_argument ((new_argument Command p name 0 T_Bool None)\<lparr>a_command_parser := q\<rparr>) w))"

fun share_arguments :: "nat \<Rightarrow> nat list \<Rightarrow> argparse \<Rightarrow> argparse exec" where
  "share_arguments q [] w = Inr w"
| "share_arguments q (a # as) w =
     (if a_type (arg_of w a) = Argument \<or> a_type (arg_of w a) = Option then
        (if a_name (arg_of w a) = lit ''help'' then
           and_then (fusion_assert (a_type (arg_of w a) = Option)) (\<lambda>_. share_arguments q as w)
         else share_arguments q as (push_arg q a w))
      else share_arguments q as w)"

definition AddCommand :: "sorter \<Rightarrow> nat \<Rightarrow> byte list \<Rightarrow> bool \<Rightarrow> argparse \<Rightarrow> (argparse \<times> nat) exec" where
  "AddCommand sorter p name helpMenu w =
     and_then (fusion_assert (CheckArgName w p name True)) (\<lambda>_.
     and_then (ArgumentCommand_new sorter p name helpMenu w) (\<lambda>(w, c).
     let q = a_command_parser (arg_of w c) in
     and_then (share_arguments q (p_args (parser_of w p)) w) (\<lambda>w.
     let x = parser_of w p;
         w = Sort sorter q (set_parser p (x\<lparr>p_cmds := p_cmds x @ [c]\<rparr>) w)
     in Inr (AddArgument_ptr sorter p c w, c))))"

section \<open>Parsing\<close>

text \<open>What \<^verbatim>\<open>Parse\<close> and \<^verbatim>\<open>Process\<close> leave behind: the store, and a failure or the number of arguments consumed.\<close>

type_synonym parsed = "argparse \<times> (arg_error + nat)"

definition run_action :: "action \<Rightarrow> arg_value \<Rightarrow> argparse \<Rightarrow> argparse \<times> arg_result" where
  "run_action act x w = (case act of
     No_Action \<Rightarrow> (w, Inr ())
   | User_Action f \<Rightarrow> (w, f x)
   | Print_Help p \<Rightarrow> (PrintMenu p w, Inl Help_Exit))"

definition read_var :: "argument \<Rightarrow> argparse \<Rightarrow> arg_value" where
  "read_var a w = (case a_value a of None \<Rightarrow> value_of_type (a_value_type a) | Some i \<Rightarrow> variables w ! i)"

text \<open>
  The handlers of the three kinds: convert into the variable, or into a fresh value for an ignored
  argument, check the choices and call the action.
\<close>

definition handle :: "nat \<Rightarrow> (arg_value \<Rightarrow> (arg_value \<times> arg_result) exec) \<Rightarrow> arg_value list \<Rightarrow> argparse \<Rightarrow>
    (argparse \<times> arg_result) exec" where
  "handle a convert choices w =
     (let arg = arg_of w a in
      and_then (convert (read_var arg w)) (\<lambda>(x, r).
      let w = write_var (a_value arg) x w in
      case r of Inl e \<Rightarrow> Inr (w, Inl e)
      | Inr _ \<Rightarrow>
          if choices \<noteq> [] \<and> x \<notin> set choices then Inr (w, Inl (Bad_Choice x))
          else Inr (run_action (a_action arg) x w)))"

definition consume :: "nat \<Rightarrow> argparse \<times> arg_result \<Rightarrow> parsed" where
  "consume n wr = (fst wr, case snd wr of Inl e \<Rightarrow> Inl e | Inr _ \<Rightarrow> Inr n)"

definition ArgumentImpl_Parse :: "argparse \<Rightarrow> nat \<Rightarrow> byte list list \<Rightarrow> parsed exec" where
  "ArgumentImpl_Parse w a args =
     (if args = [] then Inr (w, Inl No_Arguments)
      else let arg = hd args in
        and_then (if length arg \<le> 1 then Inl Out_Of_Bounds
                  else if arg ! 1 = 45 then
                    (case find_sub arg (lit ''='') of
                       Some equal \<Rightarrow> Inr (Some (drop (equal + 1) arg, 1))
                     | None \<Rightarrow> if length args = 1 then Inr None else Inr (Some (args ! 1, 2)))
                  else if length arg \<noteq> 2 then Inr (Some (drop 2 arg, 1))
                  else if length args = 1 then Inr None
                  else Inr (Some (args ! 1, 2))) (\<lambda>found.
        case found of None \<Rightarrow> Inr (w, Inl No_Remaining)
        | Some (arg, nargs) \<Rightarrow>
            and_then (handle a (\<lambda>x. Convert (a_value_type (arg_of w a)) x arg) (a_choices (arg_of w a)) w) (\<lambda>wr.
            Inr (consume nargs wr))))"

definition ArgumentOption_Parse :: "argparse \<Rightarrow> nat \<Rightarrow> byte list list \<Rightarrow> parsed exec" where
  "ArgumentOption_Parse w a args =
     (if args = [] then Inr (w, Inl No_Arguments)
      else and_then (handle a (ConvertOption (a_value_type (arg_of w a))) [] w) (\<lambda>wr. Inr (consume 1 wr)))"

definition ArgumentPositional_Parse :: "argparse \<Rightarrow> nat \<Rightarrow> byte list list \<Rightarrow> parsed exec" where
  "ArgumentPositional_Parse w a args =
     (if args = [] then Inr (w, Inl No_Arguments)
      else and_then (handle a (\<lambda>x. Convert (a_value_type (arg_of w a)) x (hd args)) [] w) (\<lambda>wr. Inr (consume 1 wr)))"

text \<open>\<^verbatim>\<open>ArgumentCommand::Parse\<close>, over the \<^verbatim>\<open>Process\<close> of the command's parser.\<close>

definition ArgumentCommand_Parse ::
  "(argparse \<Rightarrow> nat \<Rightarrow> byte list list \<Rightarrow> parsed exec) \<Rightarrow> argparse \<Rightarrow> nat \<Rightarrow> byte list list \<Rightarrow> parsed exec" where
  "ArgumentCommand_Parse process w a args =
     (if args = [] then Inr (w, Inl No_Arguments)
      else let q = a_command_parser (arg_of w a) in
        case p_parent (parser_of w q) of
          None \<Rightarrow> Inl Assert_Failed
        | Some p \<Rightarrow>
            and_then (process (set_parser p ((parser_of w p)\<lparr>p_command := a_name (arg_of w a)\<rparr>) w) q (tl args)) (\<lambda>(w, r).
            Inr (w, case r of Inl e \<Rightarrow> Inl e | Inr n \<Rightarrow> Inr (Suc n))))"

definition Execute :: "nat \<Rightarrow> argparse \<Rightarrow> arg_result" where
  "Execute a w = (case a_command_action (arg_of w a) of None \<Rightarrow> Inr () | Some r \<Rightarrow> r)"

definition arg_Parse ::
  "(argparse \<Rightarrow> nat \<Rightarrow> byte list list \<Rightarrow> parsed exec) \<Rightarrow> argparse \<Rightarrow> nat \<Rightarrow> byte list list \<Rightarrow> parsed exec" where
  "arg_Parse process w a args = (case a_type (arg_of w a) of
     Argument \<Rightarrow> ArgumentImpl_Parse w a args
   | Option \<Rightarrow> ArgumentOption_Parse w a args
   | Positional \<Rightarrow> ArgumentPositional_Parse w a args
   | Command \<Rightarrow> ArgumentCommand_Parse process w a args)"

fun find_match :: "argparse \<Rightarrow> nat list \<Rightarrow> byte list \<Rightarrow> nat option exec" where
  "find_match w [] arg = Inr None"
| "find_match w (a # as) arg = and_then (Match w a arg) (\<lambda>m. if m then Inr (Some a) else find_match w as arg)"

text \<open>One turn of the loop of \<^verbatim>\<open>Process\<close>: the number of arguments consumed, \<open>None\<close> when no argument matches.\<close>

definition process_one ::
  "(argparse \<Rightarrow> nat \<Rightarrow> byte list list \<Rightarrow> parsed exec) \<Rightarrow> argparse \<Rightarrow> nat \<Rightarrow> byte list list \<Rightarrow>
    (argparse \<times> (arg_error + nat option)) exec" where
  "process_one process w p args =
     and_then (find_match w (p_args (parser_of w p)) (hd args)) (\<lambda>m. case m of
        None \<Rightarrow> Inr (w, Inr None)
      | Some a \<Rightarrow>
          (let name = a_name (arg_of w a) in
           if IsArgumentFound w p name \<and> \<not> IsSequence (arg_of w a) then Inr (w, Inl (Duplicate name))
           else and_then (arg_Parse process w a args) (\<lambda>(w, r). case r of
              Inl e \<Rightarrow> Inr (w, Inl e)
            | Inr n \<Rightarrow>
                (case (if a_type (arg_of w a) = Command then Execute a w else Inr ()) of
                   Inl e \<Rightarrow> Inr (w, Inl e)
                 | Inr _ \<Rightarrow> Inr (MarkArgumentFound p name w, Inr (Some n))))))"

lemma consume_positive: "consume n wr = (w', Inr m) \<Longrightarrow> m = n"
  by (auto simp: consume_def split: sum.splits)

lemma arg_Parse_consumes:
  assumes "arg_Parse process w a args = Inr (w', Inr n)"
  shows "0 < n"
proof (cases "a_type (arg_of w a)")
  case Argument
  then show ?thesis using assms
    by (auto simp: arg_Parse_def ArgumentImpl_Parse_def Let_def exec_iff split: if_splits option.splits
        dest: consume_positive)
next
  case Command
  then show ?thesis using assms
    by (auto simp: arg_Parse_def ArgumentCommand_Parse_def Let_def exec_iff split_sum_ex split: if_splits option.splits)
next
  case Option
  then show ?thesis using assms
    by (auto simp: arg_Parse_def ArgumentOption_Parse_def exec_iff split: if_splits dest: consume_positive)
next
  case Positional
  then show ?thesis using assms
    by (auto simp: arg_Parse_def ArgumentPositional_Parse_def exec_iff split: if_splits dest: consume_positive)
qed

text \<open>A turn that matches an argument, taken apart.\<close>

lemma process_one_cases:
  assumes "process_one process w p args = Inr (w', Inr (Some n))"
  obtains a w1 where "find_match w (p_args (parser_of w p)) (hd args) = Inr (Some a)"
    and "IsArgumentFound w p (a_name (arg_of w a)) \<longrightarrow> IsSequence (arg_of w a)"
    and "arg_Parse process w a args = Inr (w1, Inr n)"
    and "a_type (arg_of w1 a) = Command \<longrightarrow> Execute a w1 = Inr ()"
    and "w' = MarkArgumentFound p (a_name (arg_of w a)) w1"
proof -
  obtain m where m: "find_match w (p_args (parser_of w p)) (hd args) = Inr m"
    using assms by (auto simp: process_one_def exec_iff)
  then obtain a where a: "m = Some a" using assms by (cases m) (auto simp: process_one_def)
  then obtain w1 r where r: "IsArgumentFound w p (a_name (arg_of w a)) \<longrightarrow> IsSequence (arg_of w a)"
    "arg_Parse process w a args = Inr (w1, r)"
    using assms m by (auto simp: process_one_def Let_def exec_iff split: if_splits)
  show ?thesis
  proof (cases r)
    case (Inl e)
    then show ?thesis using assms m a r by (auto simp: process_one_def Let_def split: if_splits)
  next
    case (Inr k)
    then show ?thesis using assms m a r that [of a w1]
      by (cases "if a_type (arg_of w1 a) = Command then Execute a w1 else Inr ()")
        (auto simp: process_one_def Let_def split: if_splits)
  qed
qed

lemma process_one_consumes: "process_one process w p args = Inr (w', Inr (Some n)) \<Longrightarrow> 0 < n"
  by (erule process_one_cases) (rule arg_Parse_consumes)

function process_loop ::
  "(argparse \<Rightarrow> nat \<Rightarrow> byte list list \<Rightarrow> parsed exec) \<Rightarrow> argparse \<Rightarrow> nat \<Rightarrow> byte list list \<Rightarrow> bool \<Rightarrow>
    (argparse \<times> (arg_error + byte list list \<times> bool)) exec" where
  "process_loop process w p args printHelp =
     (if args = [] then Inr (w, Inr (args, printHelp))
      else case process_one process w p args of
        Inl f \<Rightarrow> Inl f
      | Inr (w, Inl e) \<Rightarrow> Inr (w, Inl e)
      | Inr (w, Inr None) \<Rightarrow> Inr (w, Inr (args, printHelp))
      | Inr (w, Inr (Some n)) \<Rightarrow> process_loop process w p (drop n args) False)"
  by pat_completeness auto
termination
  by (relation "measure (\<lambda>(_, _, _, args, _). length args)") (auto dest: process_one_consumes)

declare process_loop.simps [simp del]

definition missing_argument :: "argparse \<Rightarrow> nat \<Rightarrow> nat option" where
  "missing_argument w p =
     List.find (\<lambda>a. a_required (arg_of w a) \<and> \<not> IsArgumentFound w p (a_name (arg_of w a))) (p_args (parser_of w p))"

definition process_by ::
  "(argparse \<Rightarrow> nat \<Rightarrow> byte list list \<Rightarrow> parsed exec) \<Rightarrow> argparse \<Rightarrow> nat \<Rightarrow> byte list list \<Rightarrow> parsed exec" where
  "process_by process w p args =
     (let printHelp = (args \<noteq> [] \<and> list_ex (\<lambda>a. a_required (arg_of w a)) (p_args (parser_of w p))) in
      and_then (process_loop process w p args printHelp) (\<lambda>(w, r). case r of
        Inl e \<Rightarrow> Inr (w, Inl e)
      | Inr (rest, printHelp) \<Rightarrow>
          (case missing_argument w p of
             Some a \<Rightarrow> Inr (w, Inl (Missing (GetParameterStr (arg_of w a) False)))
           | None \<Rightarrow>
               if rest \<noteq> [] then Inr (PrintUsage p True w, Inl (Unrecognized (hd rest)))
               else Inr (if printHelp then PrintUsage p True w else w, Inr (length args)))))"

text \<open>The parsers of commands hold no commands; the parser itself is one level above them.\<close>

definition Process_command :: "argparse \<Rightarrow> nat \<Rightarrow> byte list list \<Rightarrow> parsed exec" where
  "Process_command = process_by (\<lambda>_ _ _. Inl Assert_Failed)"

definition Process :: "argparse \<Rightarrow> nat \<Rightarrow> byte list list \<Rightarrow> parsed exec" where
  "Process = process_by Process_command"

definition clear_parser :: "nat \<Rightarrow> argparse \<Rightarrow> argparse" where
  "clear_parser p w = set_parser p ((parser_of w p)\<lparr>p_foundArgs := {}, p_command := []\<rparr>) w"

text \<open>Only a command does something when it is reset; the parser of a command holds none.\<close>

definition Reset :: "nat \<Rightarrow> argparse \<Rightarrow> argparse" where
  "Reset p w =
     clear_parser p (foldl (\<lambda>w a. if a_type (arg_of w a) = Command then clear_parser (a_command_parser (arg_of w a)) w else w)
       w (p_args (parser_of w p)))"

definition finish_parse :: "nat \<Rightarrow> parsed exec \<Rightarrow> (argparse \<times> arg_result) exec" where
  "finish_parse p m = and_then m (\<lambda>(w, r). Inr (case r of Inl e \<Rightarrow> (Reset p w, Inl e) | Inr _ \<Rightarrow> (w, Inr ())))"

definition Parse_span :: "argparse \<Rightarrow> nat \<Rightarrow> byte list list \<Rightarrow> nat \<Rightarrow> (argparse \<times> arg_result) exec" where
  "Parse_span w p args offset =
     (if offset > length args then Inr (w, Inl Invalid_Offset)
      else finish_parse p (Process w p (drop offset args)))"

definition Parse_vector :: "argparse \<Rightarrow> nat \<Rightarrow> byte list list \<Rightarrow> nat \<Rightarrow> (argparse \<times> arg_result) exec" where
  "Parse_vector w p args offset =
     (if args = [] then Inr (w, Inl Empty_List)
      else finish_parse p (Process w p (drop offset args)))"

definition Parse_argv :: "argparse \<Rightarrow> nat \<Rightarrow> byte list list \<Rightarrow> nat \<Rightarrow> (argparse \<times> arg_result) exec" where
  "Parse_argv w p args offset =
     (if offset > length args then Inr (w, Inl Invalid_Offset)
      else Parse_vector w p (map (\<lambda>s. Trim s WHITESPACE_TOKENS) (drop offset args)) offset)"

end
