(* ===== verification/Argparse_Safety.thy ===== *)
theory Argparse_Safety
  imports Argparse "HOL-Library.Multiset"
begin

text \<open>
  What the argument parser guarantees: the variables always hold values of the type they were registered
  with, parsing changes nothing of the configuration, what a match is, and what the entry points do with
  the arguments they are given.
\<close>

section \<open>Configuration and types\<close>

text \<open>The part of the store that parsing leaves alone.\<close>

definition erased :: "arg_parser \<Rightarrow> arg_parser" where
  "erased x = x\<lparr>p_foundArgs := {}, p_command := []\<rparr>"

definition config :: "argparse \<Rightarrow> argument list \<times> arg_parser list \<times> nat" where
  "config w = (arguments w, map erased (parsers w), length (variables w))"

definition arg_ok :: "argparse \<Rightarrow> argument \<Rightarrow> bool" where
  "arg_ok w a \<longleftrightarrow>
     (case a_value a of None \<Rightarrow> True | Some i \<Rightarrow> i < length (variables w)) \<and>
     (a_type a = Option \<longrightarrow> (case a_value_type a of T_Bool \<Rightarrow> True | T_Unsigned b \<Rightarrow> True | T_Signed b \<Rightarrow> 0 < b | _ \<Rightarrow> False)) \<and>
     (a_type a = Command \<longrightarrow> a_command_parser a < length (parsers w))"

definition config_ok :: "argparse \<Rightarrow> bool" where
  "config_ok w \<longleftrightarrow>
     (\<forall>a \<in> set (arguments w). arg_ok w a) \<and>
     (\<forall>x \<in> set (parsers w). set (p_args x) \<subseteq> {..<length (arguments w)} \<and>
        (case p_parent x of None \<Rightarrow> True | Some q \<Rightarrow> q < length (parsers w))) \<and>
     (\<forall>a \<in> set (arguments w). \<forall>b \<in> set (arguments w).
        a_value a = a_value b \<and> a_value a \<noteq> None \<longrightarrow> a_value_type a = a_value_type b)"

definition typed :: "argparse \<Rightarrow> bool" where
  "typed w \<longleftrightarrow> (\<forall>a \<in> set (arguments w).
     case a_value a of None \<Rightarrow> True | Some i \<Rightarrow> has_type (a_value_type a) (variables w ! i))"

definition good :: "argparse \<Rightarrow> bool" where
  "good w \<longleftrightarrow> config_ok w \<and> typed w"

definition keeps :: "argparse \<Rightarrow> argparse \<Rightarrow> bool" where
  "keeps w w' \<longleftrightarrow> (good w \<longrightarrow> good w') \<and> config w' = config w"

lemma keeps_refl [simp]: "keeps w w"
  by (simp add: keeps_def)

lemma keeps_trans: "keeps w w1 \<Longrightarrow> keeps w1 w2 \<Longrightarrow> keeps w w2"
  by (simp add: keeps_def)

lemma config_eqD:
  assumes "config w' = config w"
  shows "arguments w' = arguments w" "length (parsers w') = length (parsers w)"
    "length (variables w') = length (variables w)"
    "p < length (parsers w) \<Longrightarrow> p_args (parser_of w' p) = p_args (parser_of w p) \<and> p_parent (parser_of w' p) = p_parent (parser_of w p)"
proof -
  show "arguments w' = arguments w" "length (variables w') = length (variables w)" using assms by (auto simp: config_def)
  have m: "map erased (parsers w') = map erased (parsers w)" using assms by (simp add: config_def)
  then show len: "length (parsers w') = length (parsers w)" by (rule map_eq_imp_length_eq)
  assume "p < length (parsers w)"
  then have "erased (parser_of w' p) = erased (parser_of w p)" using m len by (metis nth_map)
  then show "p_args (parser_of w' p) = p_args (parser_of w p) \<and> p_parent (parser_of w' p) = p_parent (parser_of w p)"
    by (cases "parser_of w' p"; cases "parser_of w p") (simp add: erased_def)
qed

lemma config_ok_cong:
  assumes "config w' = config w"
  shows "config_ok w' = config_ok w"
proof -
  note eq = config_eqD [OF assms]
  have "(\<forall>x \<in> set (parsers w'). P (p_args x) (p_parent x)) = (\<forall>x \<in> set (parsers w). P (p_args x) (p_parent x))" for P
    using eq(2,4) by (metis in_set_conv_nth)
  from this [of "\<lambda>args parent. set args \<subseteq> {..<length (arguments w)} \<and>
      (case parent of None \<Rightarrow> True | Some q \<Rightarrow> q < length (parsers w))"]
  show ?thesis unfolding config_ok_def arg_ok_def eq(1-3) by simp
qed

lemma typed_cong: "arguments w' = arguments w \<Longrightarrow> variables w' = variables w \<Longrightarrow> typed w' = typed w"
  by (simp only: typed_def)

text \<open>Changes of the bookkeeping, of the output and of one variable.\<close>

lemma keeps_set_parser:
  assumes "erased x = erased (parser_of w p)"
  shows "keeps w (set_parser p x w)"
proof -
  have "map erased ((parsers w)[p := x]) = map erased (parsers w)"
  proof (cases "p < length (parsers w)")
    case True
    then show ?thesis by (simp add: map_update assms nth_map [symmetric] del: nth_map)
  qed (simp add: list_update_beyond)
  then have c: "config (set_parser p x w) = config w" by (simp add: config_def set_parser_def)
  moreover have "typed (set_parser p x w) = typed w" by (rule typed_cong) (simp_all add: set_parser_def)
  ultimately show ?thesis using config_ok_cong [OF c] by (simp add: keeps_def good_def)
qed

lemma keeps_cerr [simp]: "keeps w (w\<lparr>cerr := out\<rparr>)"
proof -
  have c: "config (w\<lparr>cerr := out\<rparr>) = config w" by (simp add: config_def)
  moreover have "typed (w\<lparr>cerr := out\<rparr>) = typed w" by (rule typed_cong) simp_all
  ultimately show ?thesis using config_ok_cong [OF c] by (simp add: keeps_def good_def)
qed

lemma keeps_print [simp]: "keeps w (PrintUsage p b w)" "keeps w (PrintMenu p w)"
proof -
  show *: "keeps w (PrintUsage p b w)" for p b w by (simp add: PrintUsage_def Let_def)
  have "keeps (PrintUsage p True w) (PrintMenu p w)" by (simp only: PrintMenu_def Let_def keeps_cerr)
  with * keeps_trans show "keeps w (PrintMenu p w)" by blast
qed

lemma keeps_mark [simp]: "keeps w (MarkArgumentFound p name w)"
  by (simp add: MarkArgumentFound_def Let_def keeps_set_parser erased_def)

lemma keeps_write:
  assumes w: "good w" and a: "a \<in> set (arguments w)" and x: "has_type (a_value_type a) x"
  shows "keeps w (write_var (a_value a) x w)"
proof (cases "a_value a")
  case (Some i)
  let ?w = "w\<lparr>variables := (variables w)[i := x]\<rparr>"
  have c: "config ?w = config w" by (simp add: config_def)
  have "arg_ok w a" using w a by (auto simp: good_def config_ok_def)
  then have i: "i < length (variables w)" using Some by (simp add: arg_ok_def)
  have "case a_value b of None \<Rightarrow> True | Some j \<Rightarrow> has_type (a_value_type b) (variables ?w ! j)"
    if b: "b \<in> set (arguments w)" for b
  proof (cases "a_value b")
    case (Some j)
    show ?thesis
    proof (cases "j = i")
      case True
      then have "a_value_type b = a_value_type a"
        using w a b Some \<open>a_value a = Some i\<close> unfolding good_def config_ok_def by (metis option.distinct(1))
      then show ?thesis using x i Some True by simp
    next
      case False
      moreover have "case a_value b of None \<Rightarrow> True | Some j \<Rightarrow> has_type (a_value_type b) (variables w ! j)"
        using w b unfolding good_def typed_def by blast
      ultimately show ?thesis using Some by simp
    qed
  qed simp
  then have "typed ?w" unfolding typed_def by simp
  with w c config_ok_cong [OF c] show ?thesis by (simp add: keeps_def good_def write_var_def Some)
qed (simp add: write_var_def)

section \<open>Parsing keeps the types\<close>

lemma keeps_run_action: "run_action act x w = (w', r) \<Longrightarrow> keeps w w'"
  by (auto simp: run_action_def split: action.splits)

lemma read_var_type:
  assumes "good w" and "a \<in> set (arguments w)"
  shows "has_type (a_value_type a) (read_var a w)"
proof (cases "a_value a")
  case (Some i)
  moreover have "case a_value a of None \<Rightarrow> True | Some i \<Rightarrow> has_type (a_value_type a) (variables w ! i)"
    using assms unfolding good_def typed_def by blast
  ultimately show ?thesis by (simp add: read_var_def)
qed (simp add: read_var_def has_type_initial)

lemma keeps_handle:
  assumes w: "good w" and a: "a < length (arguments w)"
    and conv: "\<And>x y r. has_type (a_value_type (arg_of w a)) x \<Longrightarrow> convert x = Inr (y, r) \<Longrightarrow> has_type (a_value_type (arg_of w a)) y"
    and h: "handle a convert choices w = Inr (w', r)"
  shows "keeps w w'"
proof -
  have mem: "arg_of w a \<in> set (arguments w)" using a by simp
  obtain x q where x: "convert (read_var (arg_of w a) w) = Inr (x, q)" using h by (auto simp: handle_def Let_def exec_iff)
  let ?w = "write_var (a_value (arg_of w a)) x w"
  have k: "keeps w ?w" using keeps_write [OF w mem] conv [OF read_var_type [OF w mem] x] by simp
  have "keeps ?w w'"
    using h x keeps_run_action [of "a_action (arg_of w a)" x ?w] by (cases q) (auto simp: handle_def Let_def split: if_splits)
  with k keeps_trans show ?thesis by blast
qed

lemma ConvertOption_type:
  assumes "arg_ok w a" and "a_type a = Option" and "has_type (a_value_type a) x" and "ConvertOption (a_value_type a) x = Inr (y, r)"
  shows "has_type (a_value_type a) y"
  using assms by (cases "a_value_type a"; cases x) (auto simp: ConvertOption_def arg_ok_def split: if_splits)

lemma keeps_consume: "keeps w (fst wr) \<Longrightarrow> keeps w (fst (consume n wr))"
  by (simp add: consume_def)

text \<open>A way to process the arguments of a command that keeps the types.\<close>

definition process_ok :: "(argparse \<Rightarrow> nat \<Rightarrow> byte list list \<Rightarrow> parsed exec) \<Rightarrow> bool" where
  "process_ok process \<longleftrightarrow>
     (\<forall>w p args w' r. good w \<and> p < length (parsers w) \<and> process w p args = Inr (w', r) \<longrightarrow> keeps w w')"

lemma keeps_arg_Parse:
  assumes ok: "process_ok process" and w: "good w" and a: "a < length (arguments w)"
    and parse: "arg_Parse process w a args = Inr (w', r)"
  shows "keeps w w'"
proof (cases "args = []")
  case True
  then show ?thesis using parse
    by (auto simp: arg_Parse_def ArgumentImpl_Parse_def ArgumentOption_Parse_def ArgumentPositional_Parse_def
        ArgumentCommand_Parse_def split: kind.splits)
next
  case args: False
  let ?t = "a_value_type (arg_of w a)"
  have aok: "arg_ok w (arg_of w a)" using w a by (simp add: good_def config_ok_def)
  show ?thesis
  proof (cases "a_type (arg_of w a)")
    case Argument
    obtain found where found: "(case found of None \<Rightarrow> Inr (w, Inl No_Remaining)
        | Some (arg, nargs) \<Rightarrow> and_then (handle a (\<lambda>x. Convert ?t x arg) (a_choices (arg_of w a)) w) (\<lambda>wr. Inr (consume nargs wr)))
        = Inr (w', r)"
      using parse args Argument by (auto simp: arg_Parse_def ArgumentImpl_Parse_def Let_def exec_iff)
    show ?thesis
    proof (cases found)
      case None
      then show ?thesis using found by simp
    next
      case (Some an)
      then obtain arg n wr where "handle a (\<lambda>x. Convert ?t x arg) (a_choices (arg_of w a)) w = Inr wr"
        "consume n wr = (w', r)"
        using found by (cases an) (auto simp: exec_iff)
      then show ?thesis
        using keeps_handle [OF w a, of "\<lambda>x. Convert ?t x arg"] convert_types(1) keeps_consume
        by (metis fst_conv prod.collapse)
    qed
  next
    case Option
    then obtain wr where "handle a (ConvertOption ?t) [] w = Inr wr" "consume 1 wr = (w', r)"
      using parse args by (auto simp: arg_Parse_def ArgumentOption_Parse_def exec_iff)
    then show ?thesis
      using keeps_handle [OF w a, of "ConvertOption ?t"] ConvertOption_type [OF aok Option] keeps_consume
      by (metis fst_conv prod.collapse)
  next
    case Positional
    then obtain wr where "handle a (\<lambda>x. Convert ?t x (hd args)) [] w = Inr wr" "consume 1 wr = (w', r)"
      using parse args by (auto simp: arg_Parse_def ArgumentPositional_Parse_def exec_iff)
    then show ?thesis
      using keeps_handle [OF w a, of "\<lambda>x. Convert ?t x (hd args)"] convert_types(1) keeps_consume
      by (metis fst_conv prod.collapse)
  next
    case Command
    let ?q = "a_command_parser (arg_of w a)"
    have q: "?q < length (parsers w)" using aok Command by (simp add: arg_ok_def)
    have eq: "ArgumentCommand_Parse process w a args = Inr (w', r)" using parse Command by (simp add: arg_Parse_def)
    obtain p where parent: "p_parent (parser_of w ?q) = Some p"
      using eq args by (cases "p_parent (parser_of w ?q)") (simp_all add: ArgumentCommand_Parse_def Let_def)
    have "and_then (process (set_parser p ((parser_of w p)\<lparr>p_command := a_name (arg_of w a)\<rparr>) w) ?q (tl args))
        (\<lambda>(w, r). Inr (w, case r of Inl e \<Rightarrow> Inl e | Inr n \<Rightarrow> Inr (Suc n))) = Inr (w', r)"
      using eq unfolding ArgumentCommand_Parse_def Let_def parent by (simp only: args if_False option.case)
    then obtain ws where ws: "process (set_parser p ((parser_of w p)\<lparr>p_command := a_name (arg_of w a)\<rparr>) w) ?q (tl args) = Inr ws"
      and fst: "fst ws = w'" unfolding and_then_Inr_iff by (auto simp: case_prod_beta)
    obtain s where "ws = (w', s)" using fst by (cases ws) simp
    note p = ws [unfolded this]
    let ?w = "set_parser p ((parser_of w p)\<lparr>p_command := a_name (arg_of w a)\<rparr>) w"
    have k: "keeps w ?w" by (rule keeps_set_parser) (simp add: erased_def)
    then have "good ?w" "?q < length (parsers ?w)" using w q config_eqD(2) [of ?w w] by (auto simp: keeps_def)
    then have "keeps ?w w'" using ok p unfolding process_ok_def by blast
    with k keeps_trans show ?thesis by blast
  qed
qed

lemma find_match_member: "find_match w as arg = Inr (Some a) \<Longrightarrow> a \<in> set as"
  by (induction as) (auto simp: exec_iff split: if_splits)

lemma keeps_process_one:
  assumes ok: "process_ok process" and w: "good w" and p: "p < length (parsers w)"
    and one: "process_one process w p args = Inr (w', r)"
  shows "keeps w w'"
proof -
  obtain m where m: "find_match w (p_args (parser_of w p)) (hd args) = Inr m"
    using one by (auto simp: process_one_def exec_iff)
  show ?thesis
  proof (cases m)
    case None
    then show ?thesis using one m by (simp add: process_one_def)
  next
    case (Some a)
    have "set (p_args (parser_of w p)) \<subseteq> {..<length (arguments w)}"
      using w p by (auto simp: good_def config_ok_def dest!: bspec [of _ _ "parser_of w p"])
    then have a: "a < length (arguments w)" using find_match_member m Some by blast
    show ?thesis
    proof (cases "IsArgumentFound w p (a_name (arg_of w a)) \<and> \<not> IsSequence (arg_of w a)")
      case True
      then show ?thesis using one m Some by (simp add: process_one_def Let_def)
    next
      case False
      then obtain w1 q where w1: "arg_Parse process w a args = Inr (w1, q)"
        using one m Some by (auto simp: process_one_def Let_def exec_iff)
      have k: "keeps w w1" using keeps_arg_Parse [OF ok w a w1] .
      have "keeps w1 w'"
      proof (cases q)
        case (Inl e)
        then show ?thesis using one m Some False w1 by (simp add: process_one_def Let_def)
      next
        case (Inr n)
        then show ?thesis using one m Some False w1
          by (cases "if a_type (arg_of w1 a) = Command then Execute a w1 else Inr ()")
            (auto simp: process_one_def Let_def simp del: if_split split: sum.splits)
      qed
      with k keeps_trans show ?thesis by blast
    qed
  qed
qed

lemma keeps_process_loop:
  assumes "process_ok process" and "good w" and "p < length (parsers w)"
    and "process_loop process w p args printHelp = Inr (w', r)"
  shows "keeps w w'"
  using assms
proof (induction process w p args printHelp rule: process_loop.induct)
  case (1 process w p args printHelp)
  show ?case
  proof (cases "args = []")
    case True
    then show ?thesis using "1.prems"(4) by (simp add: process_loop.simps)
  next
    case False
    obtain w1 q where one: "process_one process w p args = Inr (w1, q)"
      using "1.prems"(4) False by (subst (asm) process_loop.simps) (auto split: sum.splits)
    have k: "keeps w w1" using keeps_process_one [OF "1.prems"(1-3) one] .
    then have g: "good w1" "p < length (parsers w1)" using "1.prems"(2,3) config_eqD(2) [of w1 w] by (auto simp: keeps_def)
    consider e where "q = Inl e" | "q = Inr None" | n where "q = Inr (Some n)" by (metis option.exhaust sum.exhaust)
    then have "keeps w1 w'"
    proof cases
      case 1
      then show ?thesis using "1.prems"(4) False one by (simp add: process_loop.simps [of process w])
    next
      case 2
      then show ?thesis using "1.prems"(4) False one by (simp add: process_loop.simps [of process w])
    next
      case 3
      then have "process_loop process w1 p (drop n args) False = Inr (w', r)"
        using "1.prems"(4) False one by (simp add: process_loop.simps [of process w])
      from "1.IH" [OF False one refl 3 refl "1.prems"(1) g this] show ?thesis .
    qed
    with k keeps_trans show ?thesis by blast
  qed
qed

text \<open>The ways in which \<^verbatim>\<open>Process\<close> returns.\<close>

lemma process_by_cases:
  assumes "process_by process w p args = Inr (w', r)"
  obtains (failed) e b where "process_loop process w p args b = Inr (w', Inl e)" and "r = Inl e"
  | (missing) rest b b' a where "process_loop process w p args b = Inr (w', Inr (rest, b'))"
      and "missing_argument w' p = Some a" and "r = Inl (Missing (GetParameterStr (arg_of w' a) False))"
  | (rest) w1 rest b b' where "process_loop process w p args b = Inr (w1, Inr (rest, b'))"
      and "missing_argument w1 p = None" and "rest \<noteq> []" and "w' = PrintUsage p True w1" and "r = Inl (Unrecognized (hd rest))"
  | (success) w1 b b' where "process_loop process w p args b = Inr (w1, Inr ([], b'))"
      and "missing_argument w1 p = None" and "w' = (if b' then PrintUsage p True w1 else w1)" and "r = Inr (length args)"
proof -
  define b where "b = (args \<noteq> [] \<and> list_ex (\<lambda>a. a_required (arg_of w a)) (p_args (parser_of w p)))"
  obtain w1 q where loop: "process_loop process w p args b = Inr (w1, q)"
    using assms by (auto simp: process_by_def Let_def exec_iff b_def)
  show ?thesis
  proof (cases q)
    case (Inl e)
    then show ?thesis using assms loop failed by (auto simp: process_by_def Let_def b_def)
  next
    case (Inr rb)
    obtain rest b' where rb: "rb = (rest, b')" by (cases rb)
    show ?thesis
    proof (cases "missing_argument w1 p")
      case None
      then show ?thesis using assms loop Inr rb that(3) that(4)
        by (cases "rest = []") (auto simp: process_by_def Let_def b_def)
    next
      case (Some a)
      then show ?thesis using assms loop Inr rb missing by (auto simp: process_by_def Let_def b_def)
    qed
  qed
qed

lemma process_by_ok:
  assumes "process_ok process"
  shows "process_ok (process_by process)"
  unfolding process_ok_def
proof (intro allI impI, elim conjE)
  fix w p args w' r
  assume w: "good w" and p: "p < length (parsers w)" and m: "process_by process w p args = Inr (w', r)"
  note loop = keeps_process_loop [OF assms w p]
  from m show "keeps w w'"
  proof (cases rule: process_by_cases)
    case (failed e b)
    then show ?thesis using loop by blast
  next
    case (missing rest b b' a)
    then show ?thesis using loop by blast
  next
    case (rest w1 rest b b')
    then show ?thesis using loop keeps_trans keeps_print by metis
  next
    case (success w1 b b')
    then show ?thesis using loop keeps_trans keeps_print by metis
  qed
qed

lemma Process_ok: "process_ok Process"
  unfolding Process_def Process_command_def by (intro process_by_ok) (simp add: process_ok_def)

lemma keeps_clear [simp]: "keeps w (clear_parser p w)"
  unfolding clear_parser_def by (rule keeps_set_parser) (simp add: erased_def)

lemma keeps_reset [simp]: "keeps w (Reset p w)"
proof -
  have "keeps w (foldl (\<lambda>w a. if a_type (arg_of w a) = Command then clear_parser (a_command_parser (arg_of w a)) w else w) w as)" for as
  proof (induction as rule: rev_induct)
    case (snoc a as)
    then show ?case using keeps_trans keeps_clear by fastforce
  qed simp
  then show ?thesis unfolding Reset_def using keeps_trans keeps_clear by blast
qed

lemma finish_parse_keeps:
  assumes "good w" and "p < length (parsers w)" and "finish_parse p (Process w p args) = Inr (w', r)"
  shows "keeps w w'"
proof -
  obtain w1 q where pr: "Process w p args = Inr (w1, q)" using assms(3) by (auto simp: finish_parse_def exec_iff)
  then have "keeps w w1" using Process_ok assms(1,2) unfolding process_ok_def by blast
  moreover have "keeps w1 w'" using assms(3) pr by (cases q) (auto simp: finish_parse_def)
  ultimately show ?thesis using keeps_trans by blast
qed


text \<open>A parser with one option \<^verbatim>\<open>--verbose\<close>, \<^verbatim>\<open>-v\<close> for a variable of type \<^verbatim>\<open>bool\<close>.\<close>

definition sample_store :: argparse where
  "sample_store =
     \<lparr>arguments = [new_argument Option 0 (lit ''verbose'') 118 T_Bool (Some 0)],
      parsers = [\<lparr>p_parent = None, p_program = [], p_noAutoHelp = True, p_args = [0], p_cmds = [],
        p_foundArgs = {}, p_command = []\<rparr>],
      variables = [V_Bool False], cerr = []\<rparr>"

lemma sample_good: "good sample_store"
  by (simp add: good_def config_ok_def arg_ok_def typed_def sample_store_def new_argument_def)

lemma sample_verbose:
  "Parse_span sample_store 0 [[45, 118]] 0 =
     Inr (sample_store\<lparr>parsers := [\<lparr>p_parent = None, p_program = [], p_noAutoHelp = True, p_args = [0], p_cmds = [],
        p_foundArgs = {lit ''verbose''}, p_command = []\<rparr>], variables := [V_Bool True]\<rparr>, Inr ())"
  by (simp add: Parse_span_def finish_parse_def Process_def process_by_def process_loop.simps process_one_def Match_def
      ArgumentBase_Match_def IsArgumentFound_def root_of_def arg_Parse_def ArgumentOption_Parse_def handle_def
      read_var_def ConvertOption_def write_var_def run_action_def consume_def MarkArgumentFound_def set_parser_def
      missing_argument_def sample_store_def new_argument_def Let_def)


section \<open>Matching\<close>

lemma find_sub_equal:
  assumes "61 \<notin> set param"
  shows "(case find_sub s [61] of None \<Rightarrow> False | Some e \<Rightarrow> param = take e s) \<longleftrightarrow> (\<exists>v. s = param @ 61 # v)"
proof (cases "find_sub s [61]")
  case None
  then have "61 \<notin> set s" using find_sub_single [of 61 s] by simp
  then show ?thesis using None by auto
next
  case (Some e)
  then have e: "e < length s" "s ! e = 61" "61 \<notin> set (take e s)" using find_sub_single [of 61 s] by simp_all
  have until: "takeWhile (\<lambda>c. c \<noteq> 61) (q @ 61 # v) = q" if "61 \<notin> set q" for q v :: "byte list"
    using that by (induction q) auto
  have split: "s = take e s @ 61 # drop (Suc e) s" using e id_take_nth_drop by metis
  show ?thesis
  proof
    assume "case find_sub s [61] of None \<Rightarrow> False | Some e \<Rightarrow> param = take e s"
    then show "\<exists>v. s = param @ 61 # v" using split Some by auto
  next
    assume "\<exists>v. s = param @ 61 # v"
    then obtain v where "s = param @ 61 # v" ..
    then have "takeWhile (\<lambda>c. c \<noteq> 61) s = param" using until [OF assms] by simp
    moreover have "takeWhile (\<lambda>c. c \<noteq> 61) s = take e s" using until [OF e(3), of "drop (Suc e) s"] split by simp
    ultimately have "param = take e s" by simp
    then show "case find_sub s [61] of None \<Rightarrow> False | Some e \<Rightarrow> param = take e s" using Some by simp
  qed
qed

definition long_match :: "byte list \<Rightarrow> byte list \<Rightarrow> bool" where
  "long_match param arg \<longleftrightarrow> param \<noteq> [] \<and> (arg = 45 # 45 # param \<or> (\<exists>v. arg = 45 # 45 # param @ 61 # v))"

lemma Matcher_spec:
  assumes "61 \<notin> set param" and "hd arg = 45" and "2 \<le> length arg"
  shows "Matcher arg param = Inr (long_match param arg)"
proof -
  obtain c rest where arg: "arg = 45 # c # rest" using assms(2,3) by (cases arg; cases "tl arg") auto
  show ?thesis
    using find_sub_equal [OF assms(1), of rest]
    by (auto simp: Matcher_def long_match_def arg lit_def split: option.splits)
qed

lemma argument_match_spec:
  assumes "61 \<notin> set (a_name a)" and "61 \<notin> set (a_alias a)" and "a_name a \<noteq> []"
  shows "ArgumentBase_Match a arg =
    (if arg = [45] then Inl Out_Of_Bounds
     else Inr (arg = [45, a_flag a] \<and> a_flag a \<noteq> 0 \<or> long_match (a_name a) arg \<or> long_match (a_alias a) arg))"
proof -
  consider "arg = []" | c rest where "arg = c # rest" "c \<noteq> 45" | "arg = [45]" | c rest where "arg = 45 # c # rest"
    by (metis list.exhaust)
  then show ?thesis
  proof cases
    case 4
    then have arg: "hd arg = 45" "2 \<le> length arg" by auto
    show ?thesis
      using Matcher_spec [OF assms(1) arg] Matcher_spec [OF assms(2) arg] 4
      by (auto simp: ArgumentBase_Match_def)
  qed (use assms(3) in \<open>auto simp: ArgumentBase_Match_def long_match_def Matcher_def\<close>)
qed

text \<open>
  What matches a named argument: its flag behind one dash, its name or alias behind two, alone or
  followed by an equals sign. A value attached to a flag never matches, although \<^verbatim>\<open>ArgumentImpl::Parse\<close> would take it. A
  single dash is read past its end.
\<close>

theorem argument_match:
  assumes "61 \<notin> set (a_name a)" and "61 \<notin> set (a_alias a)" and "a_name a \<noteq> []"
  shows "ArgumentBase_Match a arg =
    (if arg = [45] then Inl Out_Of_Bounds
     else Inr (arg = [45, a_flag a] \<and> a_flag a \<noteq> 0 \<or> long_match (a_name a) arg \<or> long_match (a_alias a) arg))"
  using argument_match_spec [OF assms] .

theorem argument_match_witness:
  "ArgumentBase_Match (arg_of sample_store 0) [45, 118] = Inr True \<and>
   ArgumentBase_Match (arg_of sample_store 0) [45, 118, 49] = Inr False \<and>
   ArgumentBase_Match (arg_of sample_store 0) [45] = Inl Out_Of_Bounds"
  using argument_match [of "arg_of sample_store 0" "[45, 118]"] argument_match [of "arg_of sample_store 0" "[45, 118, 49]"]
    argument_match [of "arg_of sample_store 0" "[45]"]
  by (auto simp: sample_store_def new_argument_def lit_def long_match_def)

section \<open>The entry points\<close>

lemma Reset_variables [simp]: "variables (Reset p w) = variables w"
proof -
  have "variables (foldl (\<lambda>w a. if a_type (arg_of w a) = Command then clear_parser (a_command_parser (arg_of w a)) w else w) w as)
      = variables w" for as
    by (induction as rule: rev_induct) (simp_all add: clear_parser_def set_parser_def)
  then show ?thesis by (simp add: Reset_def clear_parser_def set_parser_def)
qed

lemma Reset_cleared:
  assumes "p < length (parsers w)"
  shows "p_foundArgs (parser_of (Reset p w) p) = {} \<and> p_command (parser_of (Reset p w) p) = []"
proof -
  have "length (parsers (foldl (\<lambda>w a. if a_type (arg_of w a) = Command then clear_parser (a_command_parser (arg_of w a)) w else w) w as))
      = length (parsers w)" for as
    by (induction as rule: rev_induct) (simp_all add: clear_parser_def set_parser_def)
  then show ?thesis using assms by (simp add: Reset_def clear_parser_def set_parser_def)
qed

lemma Process_length: "Process w p args = Inr (w', Inr n) \<Longrightarrow> n = length args"
  unfolding Process_def by (erule process_by_cases) auto

lemma missing_None:
  "missing_argument w p = None \<longleftrightarrow>
    (\<forall>a \<in> set (p_args (parser_of w p)). a_required (arg_of w a) \<longrightarrow> IsArgumentFound w p (a_name (arg_of w a)))"
  by (auto simp: missing_argument_def find_None_iff)

lemma missing_print [simp]: "missing_argument (PrintUsage p' b w) p = missing_argument w p"
  by (simp add: missing_argument_def PrintUsage_def Let_def IsArgumentFound_def root_of_def)



text \<open>
  \<^verbatim>\<open>Parse\<close> of an argument vector applies its offset twice, once when it copies the arguments and again when it
  parses the copy: the first arguments of the user are never looked at, and without any the call fails.
\<close>

theorem argv_offset_twice:
  assumes "off < length argv"
  shows "Parse_argv w p argv off = finish_parse p (Process w p (map (\<lambda>s. Trim s WHITESPACE_TOKENS) (drop (2 * off) argv))) \<and>
     Parse_vector w p (map (\<lambda>s. Trim s WHITESPACE_TOKENS) argv) off =
       finish_parse p (Process w p (map (\<lambda>s. Trim s WHITESPACE_TOKENS) (drop off argv))) \<and>
     Parse_argv w p (take off argv) off = Inr (w, Inl Empty_List)"
  using assms by (auto simp: Parse_argv_def Parse_vector_def drop_map mult_2)

theorem argv_offset_twice_witness:
  "Parse_argv sample_store 0 [[97], [45, 45, 98], [45, 118]] 1 = Parse_span sample_store 0 [[45, 118]] 0"
proof -
  have "Trim [45, 118] WHITESPACE_TOKENS = [45, 118]" by code_simp
  then show ?thesis
    using argv_offset_twice [of 1 "[[97], [45, 45, 98], [45, 118]]" sample_store 0] by (simp add: Parse_span_def)
qed

text \<open>
  An option ignores a value given with an equals sign, so that \<^verbatim>\<open>--verbose=false\<close> switches it on; a positional
  argument that was not found yet matches any argument, unknown options included.
\<close>

theorem option_and_positional_match:
  assumes "a_type (arg_of w a) = Option" and "a_value_type (arg_of w a) = T_Bool" and "a_value (arg_of w a) = Some i"
    and "a_action (arg_of w a) = No_Action" and "a_name (arg_of w a) \<noteq> []" and "61 \<notin> set (a_name (arg_of w a))"
    and "61 \<notin> set (a_alias (arg_of w a))" and "arg = 45 # 45 # a_name (arg_of w a) @ 61 # v"
    and "a_type (arg_of w b) = Positional" and "\<not> IsFound w b"
  shows "Match w a arg = Inr True \<and>
     ArgumentOption_Parse w a (arg # rest) = Inr (w\<lparr>variables := (variables w)[i := V_Bool True]\<rparr>, Inr 1) \<and>
     Match w b any = Inr True"
proof -
  have "long_match (a_name (arg_of w a)) arg" using assms(5,8) by (auto simp: long_match_def)
  then have "ArgumentBase_Match (arg_of w a) arg = Inr True"
    using argument_match_spec [OF assms(6,7,5), of arg] assms(8) by simp
  then show ?thesis using assms
    by (simp add: Match_def ArgumentOption_Parse_def handle_def Let_def ConvertOption_def write_var_def run_action_def consume_def)
qed

definition sample_positional :: argparse where
  "sample_positional = sample_store\<lparr>
     arguments := arguments sample_store @ [new_argument Positional 0 (lit ''file'') 0 T_String None],
     parsers := [(parser_of sample_store 0)\<lparr>p_args := [0, 1]\<rparr>]\<rparr>"

theorem option_and_positional_match_witness:
  "Match sample_positional 0 (lit ''--verbose=false'') = Inr True \<and>
   ArgumentOption_Parse sample_positional 0 [lit ''--verbose=false''] =
     Inr (sample_positional\<lparr>variables := [V_Bool True]\<rparr>, Inr 1) \<and>
   Match sample_positional 1 (lit ''--unknown'') = Inr True"
proof -
  have "arg_of sample_positional 0 = new_argument Option 0 (lit ''verbose'') 118 T_Bool (Some 0)"
    "arg_of sample_positional 1 = new_argument Positional 0 (lit ''file'') 0 T_String None"
    "variables sample_positional = [V_Bool False]" "\<not> IsFound sample_positional 1"
    by (simp_all add: sample_positional_def sample_store_def IsFound_def IsArgumentFound_def root_of_def new_argument_def)
  moreover have "lit ''--verbose=false'' = 45 # 45 # lit ''verbose'' @ 61 # lit ''false''" "61 \<notin> set (lit ''verbose'')"
    "lit ''verbose'' \<noteq> []" by (simp_all add: lit_def)
  ultimately show ?thesis
    using option_and_positional_match [of sample_positional 0 0 "lit ''--verbose=false''" "lit ''false''" 1 "[]" "lit ''--unknown''"]
    by (simp add: new_argument_def)
qed

section \<open>Registration\<close>

definition sorter_ok :: "sorter \<Rightarrow> bool" where
  "sorter_ok sorter \<longleftrightarrow> (\<forall>f xs. mset (sorter f xs) = mset xs \<and> sorted (map f (sorter f xs)))"

lemma sorter_set: "sorter_ok sorter \<Longrightarrow> set (sorter f xs) = set xs"
  by (metis mset_eq_setD sorter_ok_def)

lemma good_set_parser:
  assumes w: "good w" and args: "set (p_args x) \<subseteq> {..<length (arguments w)}"
    and parent: "case p_parent x of None \<Rightarrow> True | Some q \<Rightarrow> q < length (parsers w)"
  shows "good (set_parser p x w)"
proof -
  let ?w = "set_parser p x w"
  have eq: "arguments ?w = arguments w" "variables ?w = variables w" "length (parsers ?w) = length (parsers w)"
    "set (parsers ?w) \<subseteq> insert x (set (parsers w))"
    by (simp_all add: set_parser_def set_update_subset_insert)
  have "typed ?w" using w typed_cong [OF eq(1,2)] by (simp add: good_def)
  moreover have "config_ok ?w"
    using w args parent eq(4) unfolding good_def config_ok_def arg_ok_def eq(1-3) by blast
  ultimately show ?thesis by (simp add: good_def)
qed

lemma parser_ok:
  assumes "good w" and "p < length (parsers w)"
  shows "set (p_args (parser_of w p)) \<subseteq> {..<length (arguments w)}"
    "case p_parent (parser_of w p) of None \<Rightarrow> True | Some q \<Rightarrow> q < length (parsers w)"
  using assms unfolding good_def config_ok_def by (meson nth_mem)+

lemma good_push_arg:
  assumes "good w" and "a < length (arguments w)"
  shows "good (push_arg p a w)"
proof (cases "p < length (parsers w)")
  case True
  then show ?thesis using parser_ok [OF assms(1) True] assms
    unfolding push_arg_def Let_def by (intro good_set_parser) simp_all
qed (use assms in \<open>simp add: push_arg_def Let_def set_parser_def list_update_beyond\<close>)

lemma good_Sort:
  assumes "good w" and "sorter_ok sorter"
  shows "good (Sort sorter p w)"
proof (cases "p < length (parsers w)")
  case True
  then show ?thesis using parser_ok [OF assms(1) True] assms sorter_set [OF assms(2)]
    unfolding Sort_def Let_def by (intro good_set_parser) simp_all
qed (use assms in \<open>simp add: Sort_def Let_def set_parser_def list_update_beyond\<close>)

lemma store_shape [simp]:
  "arguments (push_arg p a w) = arguments w" "arguments (Sort sorter p w) = arguments w"
  "length (parsers (push_arg p a w)) = length (parsers w)" "length (parsers (Sort sorter p w)) = length (parsers w)"
  by (simp_all add: push_arg_def Sort_def Let_def set_parser_def)

lemma good_AddArgument_ptr:
  assumes "good w" and "sorter_ok sorter" and "a < length (arguments w)"
  shows "good (AddArgument_ptr sorter p a w)"
proof -
  let ?f = "\<lambda>w cmd. Sort sorter (a_command_parser (arg_of w cmd)) (push_arg (a_command_parser (arg_of w cmd)) a w)"
  have shared: "good (foldl ?f w cs) \<and> arguments (foldl ?f w cs) = arguments w" for cs
    using assms by (induction cs rule: rev_induct) (simp_all add: good_Sort good_push_arg)
  show ?thesis
    unfolding AddArgument_ptr_def Let_def
    using assms shared [of "p_cmds (parser_of w p)"] by (auto intro!: good_Sort good_push_arg)
qed

text \<open>What the caller has to respect: the variable exists, has the type of the argument and is not registered with another.\<close>

definition var_ok :: "argparse \<Rightarrow> kind \<Rightarrow> arg_type \<Rightarrow> nat option \<Rightarrow> bool" where
  "var_ok w k t var \<longleftrightarrow>
     (case var of None \<Rightarrow> True | Some i \<Rightarrow> i < length (variables w) \<and> has_type t (variables w ! i) \<and>
        (\<forall>b \<in> set (arguments w). a_value b = Some i \<longrightarrow> a_value_type b = t)) \<and>
     (k = Option \<longrightarrow> (case t of T_Bool \<Rightarrow> True | T_Unsigned b \<Rightarrow> True | T_Signed b \<Rightarrow> 0 < b | _ \<Rightarrow> False))"

lemma good_make_argument:
  assumes w: "good w" and v: "var_ok w k t var" and k: "k \<noteq> Command"
    and m: "make_argument (new_argument k p name flag t var) w = (w', a)"
  shows "good w' \<and> a < length (arguments w') \<and> length (parsers w') = length (parsers w)"
proof -
  let ?x = "new_argument k p name flag t var"
  have w': "w' = w\<lparr>arguments := arguments w @ [?x]\<rparr>" and a: "a = length (arguments w)"
    using m by (simp_all add: make_argument_def)
  have x: "a_value ?x = var" "a_value_type ?x = t" "a_type ?x = k" by (simp_all add: new_argument_def)
  have eq: "variables w' = variables w" "parsers w' = parsers w" "set (arguments w') = insert ?x (set (arguments w))"
    "length (arguments w') = Suc (length (arguments w))" by (simp_all add: w')
  have old: "arg_ok w' b = arg_ok w b" for b unfolding arg_ok_def eq(1,2) ..
  have "arg_ok w ?x" using v k unfolding arg_ok_def var_ok_def x by (auto split: option.splits)
  moreover have "a_value_type b = a_value_type c"
    if "b \<in> insert ?x (set (arguments w))" "c \<in> insert ?x (set (arguments w))" "a_value b = a_value c" "a_value b \<noteq> None" for b c
  proof -
    have "a_value_type d = t" if "d \<in> set (arguments w)" "a_value d = var" "var \<noteq> None" for d
      using that v unfolding var_ok_def by (auto split: option.splits)
    then show ?thesis using that w x unfolding good_def config_ok_def by (metis insertE)
  qed
  moreover have "set (p_args y) \<subseteq> {..<length (arguments w')}" if "y \<in> set (parsers w)" for y
    using w that eq(4) unfolding good_def config_ok_def by fastforce
  ultimately have "config_ok w'"
    using w unfolding good_def config_ok_def eq(2,3) old by blast
  moreover have "typed w'"
    using w v unfolding good_def typed_def eq(1,3) var_ok_def by (auto simp: new_argument_def split: option.splits)
  ultimately show ?thesis using a eq(2,4) by (simp add: good_def)
qed



end
