(* ===== verification/Thread_Pool.thy ===== *)
theory Thread_Pool
  imports Fusion_Prelude "HOL-Library.Multiset"
begin

text \<open>
  \<^verbatim>\<open>ThreadPool\<close> of \<^verbatim>\<open>Thread.h\<close>, \<^verbatim>\<open>Impl/Thread.h\<close> and \<^verbatim>\<open>Thread.cpp\<close>: the queue of tasks ordered by priority, the
  worker threads, the futures a client waits on and the destructor that cancels what is left. The function
  of a task is code of the client; it runs between two steps of its worker, and any other step can happen
  meanwhile. A completion handler is the promise it captures, an index into \<open>promises\<close>. The
  critical sections of the queue's mutex are one step each; calls of \<^verbatim>\<open>notify_one\<close> and \<^verbatim>\<open>notify_all\<close> happen outside
  and are steps of their own.
\<close>

section \<open>Model\<close>

subsection \<open>Tasks and the queue\<close>

datatype Priority = Low | Normal | High

fun priority_rank :: "Priority \<Rightarrow> nat" where
  "priority_rank Low = 0"
| "priority_rank Normal = 1"
| "priority_rank High = 2"

instantiation Priority :: linorder
begin

definition less_eq_Priority :: "Priority \<Rightarrow> Priority \<Rightarrow> bool" where
  "less_eq_Priority p q \<longleftrightarrow> priority_rank p \<le> priority_rank q"

definition less_Priority :: "Priority \<Rightarrow> Priority \<Rightarrow> bool" where
  "less_Priority p q \<longleftrightarrow> priority_rank p < priority_rank q"

instance
proof
  fix p q :: Priority
  assume "p \<le> q" "q \<le> p"
  then show "p = q" by (cases p; cases q) (simp_all add: less_eq_Priority_def)
qed (auto simp: less_eq_Priority_def less_Priority_def)

end

record task =
  task_id :: u64
  task_void :: bool
  completer :: nat

text \<open>
  A node of \<^verbatim>\<open>TaskMap\<close>. The iterators that \<^verbatim>\<open>TaskIdMap\<close> keeps are stable, so a node has an identity of its own.
\<close>

record node =
  node_at :: nat
  node_key :: Priority
  mapped :: task

record queue =
  nextTaskId :: u64
  tasks :: "node list"
  idMap :: "u64 \<rightharpoonup> nat"
  nodes_made :: nat
  running :: bool

definition Queue_new :: queue where
  "Queue_new = \<lparr>nextTaskId = 1, tasks = [], idMap = Map.empty, nodes_made = 0, running = True\<rparr>"

text \<open>\<^verbatim>\<open>std::multimap<Priority, Task, std::greater<>>::emplace\<close>: behind the nodes with an equal key.\<close>

fun multimap_emplace :: "node \<Rightarrow> node list \<Rightarrow> node list" where
  "multimap_emplace x [] = [x]"
| "multimap_emplace x (y # ys) =
     (if node_key y < node_key x then x # y # ys else y # multimap_emplace x ys)"

definition PopFront :: "queue \<Rightarrow> (task \<times> queue) exec" where
  "PopFront q = and_then (fusion_assert (tasks q \<noteq> [])) (\<lambda>_.
     let n = hd (tasks q) in
     Inr (mapped n, q\<lparr>tasks := tl (tasks q), idMap := (idMap q)(task_id (mapped n) := None)\<rparr>))"

text \<open>\<^verbatim>\<open>SubmitTask\<close> up to the release of the lock; \<^verbatim>\<open>unordered_map::emplace\<close> keeps an entry that is there.\<close>

definition SubmitTask :: "bool \<Rightarrow> nat \<Rightarrow> Priority \<Rightarrow> queue \<Rightarrow> u64 \<times> queue" where
  "SubmitTask void promise priority q =
     (let i = nextTaskId q;
          n = \<lparr>node_at = nodes_made q, node_key = priority,
               mapped = \<lparr>task_id = i, task_void = void, completer = promise\<rparr>\<rparr>
      in (i, q\<lparr>nextTaskId := i + 1,
               tasks := multimap_emplace n (tasks q),
               idMap := (case idMap q i of None \<Rightarrow> (idMap q)(i \<mapsto> node_at n) | Some _ \<Rightarrow> idMap q),
               nodes_made := nodes_made q + 1\<rparr>))"

text \<open>
  \<^verbatim>\<open>DequeueTask\<close>: \<open>Wait\<close> when the predicate of the condition variable does not hold and the thread sleeps.
\<close>

datatype 'a waiting = Wait | Returns 'a

definition DequeueTask :: "queue \<Rightarrow> (task option \<times> queue) waiting exec" where
  "DequeueTask q =
     (if \<not> (tasks q \<noteq> [] \<or> \<not> running q) then Inr Wait
      else if \<not> running q then Inr (Returns (None, q))
      else and_then (PopFront q) (\<lambda>(t, q). Inr (Returns (Some t, q))))"

subsection \<open>Threads of the pool\<close>

record pool_options =
  threads :: u32
  maxThreads :: byte

definition default_options :: pool_options where
  "default_options = \<lparr>threads = 0, maxThreads = 255\<rparr>"

definition clamp :: "nat \<Rightarrow> nat \<Rightarrow> nat \<Rightarrow> nat exec" where
  "clamp v lo hi =
     (if hi < lo then Inl Std_Precondition else Inr (if v < lo then lo else if hi < v then hi else v))"

text \<open>The conditional of the constructor, with \<^verbatim>\<open>std::thread::hardware_concurrency()\<close> as \<open>cores\<close>.\<close>

definition threadCount :: "nat \<Rightarrow> pool_options \<Rightarrow> nat exec" where
  "threadCount cores options =
     (if threads options \<noteq> 0 then clamp cores 1 (unat (maxThreads options))
      else Inr (unat (threads options)))"

datatype worker = Ready | Asleep | Running task | Exited

text \<open>The destructor, with the tasks it has taken from the queue and still has to cancel.\<close>

datatype destructor = Alive | Notifying "task list" | Cancelling "task list" | Failing "task list" | Destroyed

record 'r pool =
  m_queue :: queue
  workers :: "worker list"
  promises :: "'r result option list"
  notifies :: nat
  stage :: destructor

definition ThreadPool_new :: "nat \<Rightarrow> pool_options \<Rightarrow> 'r pool exec" where
  "ThreadPool_new cores options = and_then (threadCount cores options) (\<lambda>n.
     Inr \<lparr>m_queue = Queue_new, workers = replicate n Ready, promises = [], notifies = 0, stage = Alive\<rparr>)"

text \<open>
  The completion handler that \<^verbatim>\<open>Await\<close> builds. \<^verbatim>\<open>std::promise::set_value\<close> throws when the promise has a value.
\<close>

definition set_value :: "nat \<Rightarrow> 'r result \<Rightarrow> 'r pool \<Rightarrow> 'r pool exec" where
  "set_value p r st =
     (case promises st ! p of
        None \<Rightarrow> Inr (st\<lparr>promises := (promises st)[p := Some r]\<rparr>)
      | Some _ \<Rightarrow> Inl Std_Future_Error)"

definition complete :: "task \<Rightarrow> 'r option \<Rightarrow> error_code option \<Rightarrow> 'r pool \<Rightarrow> 'r pool exec" where
  "complete t result error st =
     (case error of
        Some e \<Rightarrow> set_value (completer t) (Inl e) st
      | None \<Rightarrow>
          if task_void t then set_value (completer t) (Inl E_SUCCESS) st
          else case result of None \<Rightarrow> Inl Null_Dereference | Some r \<Rightarrow> set_value (completer t) (Inr r) st)"

text \<open>The function that \<^verbatim>\<open>Await\<close> submits, from the return of the client's function with value \<open>r\<close>.\<close>

definition task_returns :: "task \<Rightarrow> 'r \<Rightarrow> 'r pool \<Rightarrow> 'r pool exec" where
  "task_returns t r st =
     (if task_void t then complete t None (Some E_SUCCESS) st else complete t (Some r) None st)"

definition Await :: "bool \<Rightarrow> Priority \<Rightarrow> 'r pool \<Rightarrow> (u64 \<times> nat) \<times> 'r pool" where
  "Await void priority st =
     (let promise = length (promises st);
          (i, q) = SubmitTask void promise priority (m_queue st)
      in ((i, promise), st\<lparr>m_queue := q, promises := promises st @ [None], notifies := notifies st + 1\<rparr>))"

definition Cancel :: "u64 \<Rightarrow> 'r pool \<Rightarrow> 'r pool exec" where
  "Cancel i st =
     (let q = m_queue st in
      case idMap q i of
        None \<Rightarrow> Inr st
      | Some at \<Rightarrow>
          (case find (\<lambda>n. node_at n = at) (tasks q) of
             None \<Rightarrow> Inl Std_Precondition
           | Some n \<Rightarrow>
               and_then (complete (mapped n) None (Some E_CANCELLED)
                   (st\<lparr>m_queue := q\<lparr>idMap := (idMap q)(i := None)\<rparr>\<rparr>)) (\<lambda>st.
               Inr (st\<lparr>m_queue := (m_queue st)\<lparr>tasks := filter (\<lambda>n. node_at n \<noteq> at) (tasks (m_queue st))\<rparr>\<rparr>))))"

subsection \<open>Steps\<close>

datatype 'r action =
    Do_Await bool Priority
  | Do_Cancel u64
  | Do_Notify nat
  | Do_Notify_None
  | Do_Spurious nat
  | Do_Dequeue nat
  | Do_Return nat 'r
  | Do_Shutdown
  | Do_Notify_All
  | Do_Cancel_Next
  | Do_Join
  | Do_Fail_Next

definition wake :: "worker \<Rightarrow> worker" where
  "wake w = (if w = Asleep then Ready else w)"

definition set_worker :: "nat \<Rightarrow> worker \<Rightarrow> 'r pool \<Rightarrow> 'r pool" where
  "set_worker i w st = st\<lparr>workers := (workers st)[i := w]\<rparr>"

definition worker_dequeues :: "nat \<Rightarrow> 'r pool \<Rightarrow> 'r pool exec" where
  "worker_dequeues i st = and_then (DequeueTask (m_queue st)) (\<lambda>d. case d of
      Wait \<Rightarrow> Inr (set_worker i Asleep st)
    | Returns (None, q) \<Rightarrow> Inr (set_worker i Exited (st\<lparr>m_queue := q\<rparr>))
    | Returns (Some t, q) \<Rightarrow> Inr (set_worker i (Running t) (st\<lparr>m_queue := q\<rparr>)))"

definition shutdown :: "'r pool \<Rightarrow> 'r pool" where
  "shutdown st = st\<lparr>m_queue := (m_queue st)\<lparr>running := False, tasks := [], idMap := Map.empty\<rparr>,
     stage := Notifying (map mapped (tasks (m_queue st)))\<rparr>"

text \<open>
  Calls come from the client until it destroys the pool, and from running tasks until their threads are
  joined.
\<close>

definition is_running :: "worker \<Rightarrow> bool" where
  "is_running w = (case w of Running _ \<Rightarrow> True | _ \<Rightarrow> False)"

definition calls_allowed :: "'r pool \<Rightarrow> bool" where
  "calls_allowed st \<longleftrightarrow> stage st = Alive \<or> (\<exists>w \<in> set (workers st). is_running w)"

fun pool_exec :: "'r action \<Rightarrow> 'r pool \<Rightarrow> 'r pool exec option" where
  "pool_exec (Do_Await void priority) st =
     (if calls_allowed st then Some (Inr (snd (Await void priority st))) else None)"
| "pool_exec (Do_Cancel i) st = (if calls_allowed st then Some (Cancel i st) else None)"
| "pool_exec (Do_Notify i) st =
     (if 0 < notifies st \<and> i < length (workers st) \<and> workers st ! i = Asleep
      then Some (Inr (set_worker i Ready (st\<lparr>notifies := notifies st - 1\<rparr>))) else None)"
| "pool_exec Do_Notify_None st =
     (if 0 < notifies st \<and> Asleep \<notin> set (workers st)
      then Some (Inr (st\<lparr>notifies := notifies st - 1\<rparr>)) else None)"
| "pool_exec (Do_Spurious i) st =
     (if i < length (workers st) \<and> workers st ! i = Asleep then Some (Inr (set_worker i Ready st)) else None)"
| "pool_exec (Do_Dequeue i) st =
     (if i < length (workers st) \<and> workers st ! i = Ready then Some (worker_dequeues i st) else None)"
| "pool_exec (Do_Return i r) st =
     (if i < length (workers st) then
        case workers st ! i of
          Running t \<Rightarrow> Some (and_then (task_returns t r st) (\<lambda>st. Inr (set_worker i Ready st)))
        | _ \<Rightarrow> None
      else None)"
| "pool_exec Do_Shutdown st = (if stage st = Alive then Some (Inr (shutdown st)) else None)"
| "pool_exec Do_Notify_All st =
     (case stage st of
        Notifying ts \<Rightarrow> Some (Inr (st\<lparr>workers := map wake (workers st), stage := Cancelling ts\<rparr>))
      | _ \<Rightarrow> None)"
| "pool_exec Do_Cancel_Next st =
     (case stage st of
        Cancelling (t # ts) \<Rightarrow> Some (complete t None (Some E_CANCELLED) (st\<lparr>stage := Cancelling ts\<rparr>))
      | _ \<Rightarrow> None)"
| "pool_exec Do_Join st =
     (if stage st = Cancelling [] \<and> set (workers st) \<subseteq> {Exited}
      then Some (Inr (st\<lparr>stage := Failing (map mapped (tasks (m_queue st)))\<rparr>))
      else None)"
| "pool_exec Do_Fail_Next st =
     (case stage st of
        Failing (t # ts) \<Rightarrow> Some (complete t None (Some E_CANCELLED) (st\<lparr>stage := Failing ts\<rparr>))
      | Failing [] \<Rightarrow> Some (Inr (st\<lparr>stage := Destroyed\<rparr>))
      | _ \<Rightarrow> None)"

inductive pool_reaches :: "'r pool \<Rightarrow> 'r pool \<Rightarrow> bool" for st where
  start: "pool_reaches st st"
| step: "pool_reaches st st1 \<Longrightarrow> pool_exec a st1 = Some (Inr st2) \<Longrightarrow> pool_reaches st st2"

text \<open>The steps that the threads of the pool and the destructor take on their own, and runs of them.\<close>

fun internal :: "'r action \<Rightarrow> bool" where
  "internal (Do_Await void priority) = False"
| "internal (Do_Cancel i) = False"
| "internal (Do_Spurious i) = False"
| "internal Do_Shutdown = False"
| "internal _ = True"

inductive pool_runs :: "'r pool \<Rightarrow> 'r pool \<Rightarrow> nat \<Rightarrow> bool" for st where
  start: "pool_runs st st 0"
| step: "pool_runs st st1 n \<Longrightarrow> internal a \<Longrightarrow> pool_exec a st1 = Some (Inr st2) \<Longrightarrow> pool_runs st st2 (Suc n)"

definition settled :: "'r pool \<Rightarrow> bool" where
  "settled st \<longleftrightarrow> (\<forall>a. internal a \<longrightarrow> pool_exec a st = None)"

subsection \<open>Futures\<close>

text \<open>
  \<^verbatim>\<open>ThreadPool::Future\<close>: \<^verbatim>\<open>m_future\<close> is the promise it belongs to while it is valid. The destructor returns the promise
  whose value it then waits for.
\<close>

record future =
  m_id :: u64
  m_future :: "nat option"

definition Future_new :: "u64 \<times> nat \<Rightarrow> future" where
  "Future_new r = \<lparr>m_id = fst r, m_future = Some (snd r)\<rparr>"

definition Future_Cancel :: "future \<Rightarrow> 'r pool \<Rightarrow> 'r pool exec" where
  "Future_Cancel f st = (case m_future f of None \<Rightarrow> Inr st | Some _ \<Rightarrow> Cancel (m_id f) st)"

definition Future_Release :: "future \<Rightarrow> nat option \<times> future" where
  "Future_Release f = (m_future f, f\<lparr>m_future := None\<rparr>)"

definition Future_destroy :: "future \<Rightarrow> 'r pool \<Rightarrow> ('r pool \<times> nat option) exec" where
  "Future_destroy f st =
     (case m_future f of
        None \<Rightarrow> Inr (st, None)
      | Some p \<Rightarrow> and_then (Future_Cancel f st) (\<lambda>st. Inr (st, Some p)))"

subsection \<open>Strands\<close>

text \<open>\<^verbatim>\<open>Strand::Run\<close>: the tasks it has executed and the queue it leaves.\<close>

function Strand_Run :: "queue \<Rightarrow> (task list \<times> queue) exec" where
  "Strand_Run q =
     (if \<not> running q then Inl Assert_Failed
      else if tasks q \<noteq> [] then
        case PopFront q of
          Inl f \<Rightarrow> Inl f
        | Inr (t, q') \<Rightarrow>
            if task_id t \<noteq> - 1 then and_then (Strand_Run q') (\<lambda>(ts, q''). Inr (t # ts, q''))
            else Inr ([], q')
      else Inr ([], q\<lparr>running := False\<rparr>))"
  by pat_completeness auto
termination
  by (relation "measure (\<lambda>q. length (tasks q))") (auto simp: PopFront_def Let_def)

declare Strand_Run.simps [simp del]

text \<open>Requests that are submitted to a new queue one after the other.\<close>

definition submit_all :: "(bool \<times> nat \<times> Priority) list \<Rightarrow> queue" where
  "submit_all rs = foldl (\<lambda>q (void, p, pr). snd (SubmitTask void p pr q)) Queue_new rs"

section \<open>Lemmas\<close>

subsection \<open>The queue\<close>

lemma mset_multimap_emplace [simp]: "mset (multimap_emplace x ys) = add_mset x (mset ys)"
  by (induction ys) auto

lemma set_multimap_emplace [simp]: "set (multimap_emplace x ys) = insert x (set ys)"
  by (induction ys) auto

lemma distinct_emplace:
  "distinct (map f (multimap_emplace x ys)) \<longleftrightarrow> f x \<notin> f ` set ys \<and> distinct (map f ys)"
  by (induction ys) auto

text \<open>A node is ahead of those with a lower priority and of the later ones with the same priority.\<close>

definition ahead :: "node \<Rightarrow> node \<Rightarrow> bool" where
  "ahead a b \<longleftrightarrow> node_key b < node_key a \<or> node_key a = node_key b \<and> node_at a < node_at b"

definition node_id :: "node \<Rightarrow> u64" where
  "node_id n = task_id (mapped n)"

definition queue_ok :: "queue \<Rightarrow> bool" where
  "queue_ok q \<longleftrightarrow>
     sorted_wrt ahead (tasks q) \<and> distinct (map node_at (tasks q)) \<and> distinct (map node_id (tasks q)) \<and>
     (\<forall>n \<in> set (tasks q). node_at n < nodes_made q) \<and>
     idMap q = map_of (map (\<lambda>n. (node_id n, node_at n)) (tasks q))"

lemma sorted_emplace:
  assumes "sorted_wrt ahead ys" and "\<forall>y \<in> set ys. node_at y < node_at x"
  shows "sorted_wrt ahead (multimap_emplace x ys)"
  using assms
proof (induction ys)
  case (Cons y ys)
  show ?case
  proof (cases "node_key y < node_key x")
    case True
    then have "ahead x z" if "z \<in> set (y # ys)" for z
      using that Cons.prems by (auto simp: ahead_def)
    with True Cons.prems show ?thesis by simp
  next
    case False
    then have "ahead y x" using Cons.prems by (auto simp: ahead_def)
    with False Cons show ?thesis by simp
  qed
qed simp

lemma map_of_same_set:
  "distinct (map fst xs) \<Longrightarrow> distinct (map fst ys) \<Longrightarrow> set xs = set ys \<Longrightarrow> map_of xs = map_of ys"
  by (simp add: map_of_inject_set)

lemma queue_ok_new [simp]: "queue_ok Queue_new"
  by (simp add: queue_ok_def Queue_new_def)

lemma queue_ok_SubmitTask:
  assumes ok: "queue_ok q" and fresh: "nextTaskId q \<notin> node_id ` set (tasks q)"
  shows "queue_ok (snd (SubmitTask void p pr q))"
proof -
  define n where "n = \<lparr>node_at = nodes_made q, node_key = pr,
    mapped = \<lparr>task_id = nextTaskId q, task_void = void, completer = p\<rparr>\<rparr>"
  have n: "node_id n = nextTaskId q" "node_at n = nodes_made q" by (simp_all add: n_def node_id_def)
  let ?f = "\<lambda>n. (node_id n, node_at n)"
  have "idMap q (nextTaskId q) = None"
    using ok fresh by (auto simp: queue_ok_def map_of_eq_None_iff image_image)
  then have q: "snd (SubmitTask void p pr q) = q\<lparr>nextTaskId := nextTaskId q + 1,
      tasks := multimap_emplace n (tasks q), idMap := (idMap q)(node_id n \<mapsto> node_at n),
      nodes_made := nodes_made q + 1\<rparr>"
    by (simp add: SubmitTask_def Let_def n_def node_id_def)
  have ids: "distinct (map node_id (multimap_emplace n (tasks q)))"
    using ok fresh by (simp add: queue_ok_def distinct_emplace n)
  have "map_of (map ?f (multimap_emplace n (tasks q))) = map_of (map ?f (n # tasks q))"
    using ids ok fresh by (intro map_of_same_set) (auto simp: queue_ok_def comp_def n)
  moreover have "distinct (map node_at (multimap_emplace n (tasks q)))"
    using ok by (auto simp: queue_ok_def distinct_emplace n)
  moreover have "sorted_wrt ahead (multimap_emplace n (tasks q))"
    using ok by (intro sorted_emplace) (auto simp: queue_ok_def n)
  ultimately show ?thesis using ok ids by (auto simp: q queue_ok_def n less_Suc_eq)
qed

lemma PopFront_ok:
  assumes "queue_ok q" and "tasks q = n # ns"
  shows "PopFront q = Inr (mapped n, q\<lparr>tasks := ns, idMap := (idMap q)(node_id n := None)\<rparr>)"
    and "queue_ok (q\<lparr>tasks := ns, idMap := (idMap q)(node_id n := None)\<rparr>)"
proof -
  show "PopFront q = Inr (mapped n, q\<lparr>tasks := ns, idMap := (idMap q)(node_id n := None)\<rparr>)"
    by (simp add: PopFront_def assms(2) node_id_def)
  have "map_of (map (\<lambda>n. (node_id n, node_at n)) ns) (node_id n) = None"
    using assms by (auto simp: queue_ok_def map_of_eq_None_iff image_image)
  then show "queue_ok (q\<lparr>tasks := ns, idMap := (idMap q)(node_id n := None)\<rparr>)"
    using assms by (auto simp: queue_ok_def fun_upd_idem)
qed

lemma queue_ok_erase:
  assumes ok: "queue_ok q" and n: "n \<in> set (tasks q)"
  shows "queue_ok (q\<lparr>tasks := filter (\<lambda>m. node_at m \<noteq> node_at n) (tasks q), idMap := (idMap q)(node_id n := None)\<rparr>)"
proof -
  let ?f = "\<lambda>n. (node_id n, node_at n)"
  let ?ns = "filter (\<lambda>m. node_at m \<noteq> node_at n) (tasks q)"
  have inj: "inj_on node_at (set (tasks q))" "inj_on node_id (set (tasks q))"
    using ok by (auto simp: queue_ok_def distinct_map)
  then have "node_id m \<noteq> node_id n \<longleftrightarrow> node_at m \<noteq> node_at n" if "m \<in> set (tasks q)" for m
    using that n by (metis inj_onD)
  then have "?ns = filter (\<lambda>m. node_id m \<noteq> node_id n) (tasks q)" by (intro filter_cong) auto
  moreover have "((map_of (map ?f ms))(k := None)) j = map_of (map ?f (filter (\<lambda>m. node_id m \<noteq> k) ms)) j" for ms k j
    by (induction ms) auto
  ultimately have "(map_of (map ?f (tasks q)))(node_id n := None) = map_of (map ?f ?ns)"
    by (intro ext) (simp only:)
  moreover have "map_of (map ?f (tasks q)) = idMap q" using ok by (simp add: queue_ok_def)
  ultimately show ?thesis
    using ok by (auto simp: queue_ok_def sorted_wrt_filter distinct_map_filter)
qed

lemma find_node:
  assumes "queue_ok q" and "idMap q i = Some at"
  obtains n where "find (\<lambda>n. node_at n = at) (tasks q) = Some n" and "n \<in> set (tasks q)"
    and "node_at n = at" and "node_id n = i"
proof -
  from assms obtain n where n: "n \<in> set (tasks q)" "node_at n = at" "node_id n = i"
    by (auto simp: queue_ok_def dest!: map_of_SomeD)
  then obtain m where "find (\<lambda>n. node_at n = at) (tasks q) = Some m"
    by (cases "find (\<lambda>n. node_at n = at) (tasks q)") (auto simp: find_None_iff)
  moreover from this have "m \<in> set (tasks q)" "node_at m = at"
    by (auto simp: find_Some_iff)
  moreover from this n have "m = n"
    using assms(1) by (auto simp: queue_ok_def distinct_map dest: inj_onD)
  ultimately show ?thesis using n that by blast
qed

subsection \<open>Promises and the tasks that will keep them\<close>

text \<open>The promises without a value; a task of the list \<open>L\<close> will give each of them one.\<close>

definition open_promises :: "'r result option list \<Rightarrow> nat list" where
  "open_promises ps = filter (\<lambda>p. ps ! p = None) [0..<length ps]"

definition kept_by :: "task multiset \<Rightarrow> 'r result option list \<Rightarrow> bool" where
  "kept_by L ps \<longleftrightarrow> image_mset completer L = mset (open_promises ps) \<and>
     (\<forall>t \<in># L. task_id t = of_nat (completer t + 1))"

lemma set_open_promises: "p \<in> set (open_promises ps) \<longleftrightarrow> p < length ps \<and> ps ! p = None"
  by (auto simp: open_promises_def)

lemma open_promises_snoc [simp]: "open_promises (ps @ [None]) = open_promises ps @ [length ps]"
  by (auto simp: open_promises_def nth_append intro: filter_cong)

lemma open_promises_set:
  assumes "p < length ps" and "ps ! p = None"
  shows "mset (open_promises ps) = add_mset p (mset (open_promises (ps[p := Some r])))"
proof -
  have "open_promises (ps[p := Some r]) = filter (\<lambda>x. x \<noteq> p) (open_promises ps)"
    using assms by (auto simp: open_promises_def nth_list_update intro!: filter_cong)
  moreover have "distinct (open_promises ps)" "p \<in> set (open_promises ps)"
    using assms by (auto simp: open_promises_def)
  ultimately have "open_promises (ps[p := Some r]) = remove1 p (open_promises ps)"
    by (simp add: distinct_remove1_removeAll removeAll_filter_not_eq eq_commute)
  then show ?thesis using \<open>p \<in> set (open_promises ps)\<close> by simp
qed

lemma kept_by_empty [simp]: "kept_by {#} []"
  by (simp add: kept_by_def open_promises_def)

lemma kept_by_complete:
  assumes "kept_by (add_mset t L) ps"
  shows "completer t < length ps" and "ps ! completer t = None"
    and "kept_by L (ps[completer t := Some r])"
proof -
  have "completer t \<in> set (open_promises ps)"
    using assms by (metis kept_by_def image_mset_add_mset set_mset_mset union_single_eq_member)
  then show p: "completer t < length ps" "ps ! completer t = None" by (auto simp: set_open_promises)
  show "kept_by L (ps[completer t := Some r])"
    using assms open_promises_set [OF p, of r] by (simp add: kept_by_def)
qed

lemma kept_by_await:
  assumes "kept_by L ps" and "task_id t = of_nat (length ps + 1)" and "completer t = length ps"
  shows "kept_by (add_mset t L) (ps @ [None])"
  using assms by (simp add: kept_by_def)

lemma kept_by_ids:
  assumes L: "kept_by (mset ts) ps" and bound: "length ps \<le> 2 ^ 64"
  shows "distinct (map task_id ts)" and "length ps < 2 ^ 64 \<Longrightarrow> of_nat (length ps + 1) \<notin> task_id ` set ts"
proof -
  have "mset (map completer ts) = mset (open_promises ps)" using L by (simp add: kept_by_def)
  then have d: "distinct (map completer ts)" and s: "completer ` set ts = set (open_promises ps)"
    by (metis mset_eq_imp_distinct_iff distinct_filter distinct_upt open_promises_def)
      (metis \<open>mset (map completer ts) = mset (open_promises ps)\<close> mset_eq_setD set_map)
  have i: "task_id t = of_nat (completer t + 1)" "completer t < length ps" if "t \<in> set ts" for t
    using that L s by (auto simp: kept_by_def set_open_promises)
  have wrap: "(of_nat (a + 1) :: u64) = of_nat (b + 1) \<longleftrightarrow> a = b" if "a < 2 ^ 64" "b < 2 ^ 64" for a b
  proof -
    have "(of_nat (a + 1) :: u64) = of_nat (b + 1) \<longleftrightarrow> (of_nat a :: u64) = of_nat b" by simp
    also have "\<dots> \<longleftrightarrow> a = b" using that by (simp add: word_of_nat_eq_iff take_bit_nat_eq_self)
    finally show ?thesis .
  qed
  have "inj_on task_id (set ts)"
  proof (rule inj_onI)
    fix t u assume t: "t \<in> set ts" "u \<in> set ts" "task_id t = task_id u"
    moreover from t i [of t] i [of u] bound have "completer t < 2 ^ 64" "completer u < 2 ^ 64" by simp_all
    ultimately have "completer t = completer u" using i(1) [of t] i(1) [of u] wrap [of "completer t" "completer u"] by simp
    then show "t = u" using t d by (auto simp: distinct_map dest: inj_onD)
  qed
  then show "distinct (map task_id ts)" using d by (simp add: distinct_map)
  show "of_nat (length ps + 1) \<notin> task_id ` set ts" if "length ps < 2 ^ 64"
  proof
    assume "of_nat (length ps + 1) \<in> task_id ` set ts"
    then obtain t where "t \<in> set ts" "of_nat (length ps + 1) = task_id t" by blast
    with i [of t] that wrap [of "length ps" "completer t"] show False by simp
  qed
qed

subsection \<open>The invariant of the pool\<close>

definition worker_tasks :: "worker \<Rightarrow> task multiset" where
  "worker_tasks w = (case w of Running t \<Rightarrow> {#t#} | _ \<Rightarrow> {#})"

definition running_tasks :: "worker list \<Rightarrow> task multiset" where
  "running_tasks ws = sum_list (map worker_tasks ws)"

fun stage_tasks :: "destructor \<Rightarrow> task list" where
  "stage_tasks (Notifying ts) = ts"
| "stage_tasks (Cancelling ts) = ts"
| "stage_tasks (Failing ts) = ts"
| "stage_tasks _ = []"

text \<open>Once the threads are joined, the last loop of the destructor owns the tasks that are in the queue.\<close>

fun joined :: "destructor \<Rightarrow> bool" where
  "joined (Failing ts) = True"
| "joined Destroyed = True"
| "joined _ = False"

definition queued :: "'r pool \<Rightarrow> node list" where
  "queued st = (if joined (stage st) then [] else tasks (m_queue st))"

definition live :: "'r pool \<Rightarrow> task multiset" where
  "live st = mset (map mapped (queued st)) + running_tasks (workers st) + mset (stage_tasks (stage st))"

definition pool_ok :: "'r pool \<Rightarrow> bool" where
  "pool_ok st \<longleftrightarrow> kept_by (live st) (promises st) \<and> queue_ok (m_queue st) \<and>
     (joined (stage st) \<longrightarrow> set (workers st) \<subseteq> {Exited}) \<and>
     nextTaskId (m_queue st) = of_nat (length (promises st) + 1)"

lemma worker_tasks_simps [simp]:
  "worker_tasks Ready = {#}" "worker_tasks Asleep = {#}" "worker_tasks Exited = {#}" "worker_tasks (Running t) = {#t#}"
  by (simp_all add: worker_tasks_def)

lemma running_tasks_update:
  "i < length ws \<Longrightarrow> running_tasks (ws[i := w]) + worker_tasks (ws ! i) = running_tasks ws + worker_tasks w"
  unfolding running_tasks_def
  by (induction ws arbitrary: i) (auto simp: nth_Cons union_ac split: nat.splits)

lemma running_tasks_wake [simp]: "running_tasks (map wake ws) = running_tasks ws"
  unfolding running_tasks_def by (induction ws) (auto simp: wake_def)

lemma running_tasks_idle [simp]:
  "i < length ws \<Longrightarrow> worker_tasks (ws ! i) = {#} \<Longrightarrow> running_tasks (ws[i := w]) = running_tasks ws + worker_tasks w"
  using running_tasks_update [of i ws w] by simp

lemma running_tasks_done:
  "i < length ws \<Longrightarrow> ws ! i = Running t \<Longrightarrow> running_tasks ws = add_mset t (running_tasks (ws[i := Ready]))"
  using running_tasks_update [of i ws Ready] by simp

lemma complete_step:
  assumes "kept_by (add_mset t L) (promises st)"
  shows "complete t x (Some e) st = Inr (st\<lparr>promises := (promises st)[completer t := Some (Inl e)]\<rparr>)"
    and "task_returns t r st = Inr (st\<lparr>promises := (promises st)[completer t :=
           Some (if task_void t then Inl E_SUCCESS else Inr r)]\<rparr>)"
  using kept_by_complete(2) [OF assms] by (simp_all add: complete_def task_returns_def set_value_def)

lemma kept_by_part:
  assumes "kept_by (mset ts + M) ps" and "length ps < 2 ^ 64"
  shows "distinct (map task_id ts)" and "of_nat (length ps + 1) \<notin> task_id ` set ts"
proof -
  obtain ms where "mset ms = M" using ex_mset by blast
  with assms have "kept_by (mset (ts @ ms)) ps" by simp
  from kept_by_ids [OF this] assms(2) show "distinct (map task_id ts)" "of_nat (length ps + 1) \<notin> task_id ` set ts"
    by (auto simp: image_Un)
qed

lemma calls_allowed_not_joined: "pool_ok st \<Longrightarrow> calls_allowed st \<Longrightarrow> \<not> joined (stage st)"
  by (auto simp: pool_ok_def calls_allowed_def is_running_def)

lemma worker_not_joined: "pool_ok st \<Longrightarrow> i < length (workers st) \<Longrightarrow> workers st ! i \<noteq> Exited \<Longrightarrow> \<not> joined (stage st)"
  using nth_mem by (fastforce simp: pool_ok_def)

lemma pool_ok_await:
  assumes ok: "pool_ok st" and bound: "length (promises st) < 2 ^ 64" and alive: "\<not> joined (stage st)"
  shows "pool_ok (snd (Await void pr st))"
proof -
  let ?q = "m_queue st" and ?p = "length (promises st)"
  let ?t = "\<lparr>task_id = nextTaskId ?q, task_void = void, completer = ?p\<rparr>"
  from ok have "kept_by (mset (map mapped (tasks ?q)) + (running_tasks (workers st) + mset (stage_tasks (stage st)))) (promises st)"
    using alive by (simp add: pool_ok_def live_def queued_def union_assoc)
  from kept_by_part(2) [OF this bound] ok have "nextTaskId ?q \<notin> node_id ` set (tasks ?q)"
    by (simp add: pool_ok_def image_image node_id_def)
  then have "queue_ok (snd (SubmitTask void ?p pr ?q))"
    using ok queue_ok_SubmitTask by (auto simp: pool_ok_def)
  moreover have "mset (map mapped (tasks (snd (SubmitTask void ?p pr ?q)))) = add_mset ?t (mset (map mapped (tasks ?q)))"
    by (simp add: SubmitTask_def Let_def)
  moreover have "nextTaskId (snd (SubmitTask void ?p pr ?q)) = nextTaskId ?q + 1"
    by (simp add: SubmitTask_def Let_def)
  moreover have "kept_by (add_mset ?t (live st)) (promises st @ [None])"
    using ok by (intro kept_by_await) (simp_all add: pool_ok_def)
  ultimately show ?thesis
    using ok alive by (simp add: pool_ok_def Await_def Let_def case_prod_beta live_def queued_def)
qed

lemma Cancel_step:
  assumes ok: "pool_ok st" and alive: "\<not> joined (stage st)"
  shows "(idMap (m_queue st) i = None \<and> Cancel i st = Inr st) \<or>
    (\<exists>n \<in> set (tasks (m_queue st)). node_id n = i \<and> promises st ! completer (mapped n) = None \<and>
       Cancel i st = Inr (st\<lparr>m_queue := (m_queue st)\<lparr>tasks := filter (\<lambda>m. node_at m \<noteq> node_at n) (tasks (m_queue st)),
             idMap := (idMap (m_queue st))(i := None)\<rparr>,
           promises := (promises st)[completer (mapped n) := Some (Inl E_CANCELLED)]\<rparr>))"
proof (cases "idMap (m_queue st) i")
  case None
  then show ?thesis by (simp add: Cancel_def Let_def)
next
  case (Some at)
  from ok have q: "queue_ok (m_queue st)" by (simp add: pool_ok_def)
  obtain n where n: "find (\<lambda>n. node_at n = at) (tasks (m_queue st)) = Some n" "n \<in> set (tasks (m_queue st))"
    "node_at n = at" "node_id n = i" using find_node [OF q Some] by blast
  then have "mapped n \<in># live st" using alive by (simp add: live_def queued_def)
  then obtain L where "live st = add_mset (mapped n) L" by (metis multi_member_split)
  with ok have k: "kept_by (add_mset (mapped n) L) (promises st)" by (simp add: pool_ok_def)
  from complete_step(1) [of "mapped n" L "st\<lparr>m_queue := (m_queue st)\<lparr>idMap := (idMap (m_queue st))(i := None)\<rparr>\<rparr>"] k
  have "complete (mapped n) None (Some E_CANCELLED) (st\<lparr>m_queue := (m_queue st)\<lparr>idMap := (idMap (m_queue st))(i := None)\<rparr>\<rparr>)
    = Inr (st\<lparr>m_queue := (m_queue st)\<lparr>idMap := (idMap (m_queue st))(i := None)\<rparr>,
        promises := (promises st)[completer (mapped n) := Some (Inl E_CANCELLED)]\<rparr>)" by simp
  then have "Cancel i st = Inr (st\<lparr>m_queue := (m_queue st)\<lparr>tasks := filter (\<lambda>m. node_at m \<noteq> node_at n) (tasks (m_queue st)),
             idMap := (idMap (m_queue st))(i := None)\<rparr>,
           promises := (promises st)[completer (mapped n) := Some (Inl E_CANCELLED)]\<rparr>)"
    using Some n by (simp add: Cancel_def Let_def)
  with n kept_by_complete(2) [OF k] show ?thesis by blast
qed

lemma mset_without_node:
  "distinct (map node_at ts) \<Longrightarrow> n \<in> set ts \<Longrightarrow>
   mset ts = add_mset n (mset (filter (\<lambda>m. node_at m \<noteq> node_at n) ts))"
proof (induction ts)
  case (Cons t ts)
  show ?case
  proof (cases "t = n")
    case True
    with Cons.prems have "filter (\<lambda>m. node_at m \<noteq> node_at n) ts = ts"
      by (intro filter_True) (metis distinct.simps(2) image_eqI list.set_map list.simps(9))
    with True show ?thesis by simp
  next
    case False
    with Cons have "node_at t \<noteq> node_at n" by auto
    with False Cons show ?thesis by simp
  qed
qed simp

lemma pool_ok_cancel:
  assumes ok: "pool_ok st" and alive: "\<not> joined (stage st)"
  obtains st' where "Cancel i st = Inr st'" and "pool_ok st'"
proof -
  from Cancel_step [OF ok alive, of i] consider "Cancel i st = Inr st"
    | n where "n \<in> set (tasks (m_queue st))" "node_id n = i"
      "Cancel i st = Inr (st\<lparr>m_queue := (m_queue st)\<lparr>tasks := filter (\<lambda>m. node_at m \<noteq> node_at n) (tasks (m_queue st)),
             idMap := (idMap (m_queue st))(i := None)\<rparr>,
           promises := (promises st)[completer (mapped n) := Some (Inl E_CANCELLED)]\<rparr>)"
    by blast
  then show ?thesis
  proof cases
    case 1
    with ok that show ?thesis by blast
  next
    case 2
    let ?ts = "filter (\<lambda>m. node_at m \<noteq> node_at n) (tasks (m_queue st))"
    have q: "queue_ok (m_queue st)" using ok by (simp add: pool_ok_def)
    then have "mset (tasks (m_queue st)) = add_mset n (mset ?ts)"
      using 2 by (intro mset_without_node) (auto simp: queue_ok_def)
    then have "mset (map mapped (tasks (m_queue st))) = add_mset (mapped n) (mset (map mapped ?ts))"
      by (metis image_mset_add_mset mset_map)
    then have "live st = add_mset (mapped n) (mset (map mapped ?ts) + running_tasks (workers st) + mset (stage_tasks (stage st)))"
      using alive by (simp only: live_def queued_def if_False union_mset_add_mset_left)
    with ok have "kept_by (add_mset (mapped n) (mset (map mapped ?ts) + running_tasks (workers st) + mset (stage_tasks (stage st)))) (promises st)"
      by (simp add: pool_ok_def)
    from kept_by_complete(3) [OF this] queue_ok_erase [OF q 2(1)] 2 ok
    have "pool_ok (st\<lparr>m_queue := (m_queue st)\<lparr>tasks := ?ts, idMap := (idMap (m_queue st))(i := None)\<rparr>,
           promises := (promises st)[completer (mapped n) := Some (Inl E_CANCELLED)]\<rparr>)"
      using alive by (simp add: pool_ok_def live_def queued_def)
    with 2 that show ?thesis by blast
  qed
qed

lemma pool_ok_dequeue:
  assumes ok: "pool_ok st" and i: "i < length (workers st)" "workers st ! i = Ready"
  obtains st' where "worker_dequeues i st = Inr st'" and "pool_ok st'"
proof (cases "running (m_queue st)")
  case False
  have alive: "\<not> joined (stage st)" using worker_not_joined [OF ok i(1)] i(2) by simp
  from False have "worker_dequeues i st = Inr (set_worker i Exited st)"
    by (simp add: worker_dequeues_def DequeueTask_def)
  with that ok i alive show ?thesis by (simp add: pool_ok_def live_def queued_def set_worker_def)
next
  case True
  have alive: "\<not> joined (stage st)" using worker_not_joined [OF ok i(1)] i(2) by simp
  have q: "queue_ok (m_queue st)" using ok by (simp add: pool_ok_def)
  show ?thesis
  proof (cases "tasks (m_queue st)")
    case Nil
    with True have "worker_dequeues i st = Inr (set_worker i Asleep st)"
      by (simp add: worker_dequeues_def DequeueTask_def)
    with that ok i alive show ?thesis by (simp add: pool_ok_def live_def queued_def set_worker_def)
  next
    case (Cons n ns)
    note pop = PopFront_ok [OF q Cons]
    with True Cons have "worker_dequeues i st = Inr (set_worker i (Running (mapped n))
        (st\<lparr>m_queue := (m_queue st)\<lparr>tasks := ns, idMap := (idMap (m_queue st))(node_id n := None)\<rparr>\<rparr>))"
      by (simp add: worker_dequeues_def DequeueTask_def)
    moreover have "pool_ok (set_worker i (Running (mapped n))
        (st\<lparr>m_queue := (m_queue st)\<lparr>tasks := ns, idMap := (idMap (m_queue st))(node_id n := None)\<rparr>\<rparr>))"
      using ok i pop Cons alive by (simp add: pool_ok_def live_def queued_def set_worker_def)
    ultimately show ?thesis by (rule that)
  qed
qed

lemma pool_ok_return:
  assumes ok: "pool_ok st" and i: "i < length (workers st)" "workers st ! i = Running t"
  obtains st' where "and_then (task_returns t r st) (\<lambda>st. Inr (set_worker i Ready st)) = Inr st'" and "pool_ok st'"
proof -
  have "live st = add_mset t (live (set_worker i Ready st))"
    using running_tasks_done [OF i] by (simp add: live_def queued_def set_worker_def)
  with ok have k: "kept_by (add_mset t (live (set_worker i Ready st))) (promises st)" by (simp add: pool_ok_def)
  have "pool_ok (set_worker i Ready (st\<lparr>promises := (promises st)[completer t :=
      Some (if task_void t then Inl E_SUCCESS else Inr r)]\<rparr>))"
    using kept_by_complete(3) [OF k] ok worker_not_joined [OF ok i(1)] i(2)
    by (simp add: pool_ok_def live_def queued_def set_worker_def)
  with that complete_step(2) [OF k] show ?thesis by simp
qed

lemma pool_ok_cancel_one:
  assumes ok: "pool_ok st" and d: "stage_tasks (stage st) = t # stage_tasks d" "joined d = joined (stage st)"
  obtains st' where "complete t None (Some e) (st\<lparr>stage := d\<rparr>) = Inr st'" and "pool_ok st'"
proof -
  have "live st = add_mset t (live (st\<lparr>stage := d\<rparr>))" using d by (simp add: live_def queued_def)
  with ok have k: "kept_by (add_mset t (live (st\<lparr>stage := d\<rparr>))) (promises st)" by (simp add: pool_ok_def)
  have "pool_ok (st\<lparr>stage := d, promises := (promises st)[completer t := Some (Inl e)]\<rparr>)"
    using kept_by_complete(3) [OF k, of "Inl e"] ok d by (simp add: pool_ok_def live_def queued_def split: if_splits)
  with that complete_step(1) [of t _ "st\<lparr>stage := d\<rparr>"] k show ?thesis by simp
qed

lemma pool_ok_step:
  assumes ok: "pool_ok st" and bound: "length (promises st) < 2 ^ 64" and step: "pool_exec a st = Some r"
  shows "\<exists>st'. r = Inr st' \<and> pool_ok st'"
proof (cases a)
  case (Do_Await void pr)
  with step pool_ok_await [OF ok bound calls_allowed_not_joined [OF ok]] show ?thesis by (auto split: if_splits)
next
  case (Do_Cancel i)
  with step show ?thesis
    using pool_ok_cancel [OF ok calls_allowed_not_joined [OF ok], of i] by (auto split: if_splits)
next
  case (Do_Dequeue i)
  with step show ?thesis using pool_ok_dequeue [OF ok, of i] by (auto split: if_splits)
next
  case (Do_Return i v)
  with step obtain t where i: "i < length (workers st)" "workers st ! i = Running t"
    and r: "r = and_then (task_returns t v st) (\<lambda>st. Inr (set_worker i Ready st))"
    by (auto split: if_splits worker.splits)
  show ?thesis using pool_ok_return [OF ok i, of v] r by blast
next
  case Do_Cancel_Next
  with step obtain t ts where d: "stage st = Cancelling (t # ts)"
    and r: "r = complete t None (Some E_CANCELLED) (st\<lparr>stage := Cancelling ts\<rparr>)"
    by (auto split: destructor.splits list.splits)
  show ?thesis using pool_ok_cancel_one [OF ok, of t "Cancelling ts" E_CANCELLED] d r by auto
next
  case Do_Fail_Next
  with step consider t ts where "stage st = Failing (t # ts)"
      "r = complete t None (Some E_CANCELLED) (st\<lparr>stage := Failing ts\<rparr>)"
    | "stage st = Failing []" "r = Inr (st\<lparr>stage := Destroyed\<rparr>)"
    by (auto split: destructor.splits list.splits)
  then show ?thesis
  proof cases
    case 1
    then show ?thesis using pool_ok_cancel_one [OF ok, of t "Failing ts" E_CANCELLED] by auto
  next
    case 2
    then show ?thesis using ok by (simp add: pool_ok_def live_def queued_def)
  qed
next
  case Do_Shutdown
  with step ok show ?thesis
    by (auto simp: shutdown_def pool_ok_def live_def queued_def queue_ok_def union_ac split: if_splits)
next
  case Do_Join
  with step have "stage st = Cancelling []" "set (workers st) \<subseteq> {Exited}"
    "r = Inr (st\<lparr>stage := Failing (map mapped (tasks (m_queue st)))\<rparr>)" by (auto split: if_splits)
  with ok show ?thesis by (simp add: pool_ok_def live_def queued_def union_ac)
next
  case (Do_Notify i)
  with step have i: "i < length (workers st)" "workers st ! i = Asleep"
    and r: "r = Inr (set_worker i Ready (st\<lparr>notifies := notifies st - 1\<rparr>))" by (auto split: if_splits)
  from worker_not_joined [OF ok i(1)] i(2) have "\<not> joined (stage st)" by simp
  with ok i r show ?thesis by (simp add: pool_ok_def live_def queued_def set_worker_def)
next
  case (Do_Spurious i)
  with step have i: "i < length (workers st)" "workers st ! i = Asleep"
    and r: "r = Inr (set_worker i Ready st)" by (auto split: if_splits)
  from worker_not_joined [OF ok i(1)] i(2) have "\<not> joined (stage st)" by simp
  with ok i r show ?thesis by (simp add: pool_ok_def live_def queued_def set_worker_def)
next
  case Do_Notify_None
  with step have "r = Inr (st\<lparr>notifies := notifies st - 1\<rparr>)" by (auto split: if_splits)
  with ok show ?thesis by (simp add: pool_ok_def live_def queued_def split: if_splits)
next
  case Do_Notify_All
  with step obtain ts where "stage st = Notifying ts"
    "r = Inr (st\<lparr>workers := map wake (workers st), stage := Cancelling ts\<rparr>)" by (auto split: destructor.splits)
  with ok show ?thesis by (simp add: pool_ok_def live_def queued_def)
qed

subsection \<open>No lost wakeup\<close>

definition awake :: "worker \<Rightarrow> bool" where
  "awake w \<longleftrightarrow> w = Ready \<or> is_running w"

definition wake_ok :: "'r pool \<Rightarrow> bool" where
  "wake_ok st \<longleftrightarrow>
     running (m_queue st) = (stage st = Alive) \<and>
     (stage st = Alive \<longrightarrow> Exited \<notin> set (workers st)) \<and>
     (stage st = Alive \<longrightarrow> tasks (m_queue st) \<noteq> [] \<longrightarrow> workers st \<noteq> [] \<longrightarrow>
        (\<exists>w \<in> set (workers st). awake w) \<or> 0 < notifies st) \<and>
     (stage st = Alive \<or> (\<exists>ts. stage st = Notifying ts) \<or> Asleep \<notin> set (workers st))"

lemma not_awake: "\<not> awake w \<longleftrightarrow> w = Asleep \<or> w = Exited"
  by (cases w) (auto simp: awake_def is_running_def)

lemma awake_simps [simp]: "awake Ready" "awake (Running t)" "\<not> awake Asleep" "\<not> awake Exited"
  by (simp_all add: awake_def is_running_def)

lemma set_worker_simps [simp]:
  "m_queue (set_worker i w st) = m_queue st" "promises (set_worker i w st) = promises st"
  "notifies (set_worker i w st) = notifies st" "stage (set_worker i w st) = stage st"
  "workers (set_worker i w st) = (workers st)[i := w]"
  by (simp_all add: set_worker_def)

lemma set_value_frame:
  "set_value p r st = Inr st' \<Longrightarrow> st' = st\<lparr>promises := (promises st)[p := Some r]\<rparr>"
  by (auto simp: set_value_def split: option.splits)

lemma complete_frame:
  "complete t x e st = Inr st' \<Longrightarrow> \<exists>r. st' = st\<lparr>promises := (promises st)[completer t := Some r]\<rparr>"
  by (auto simp: complete_def split: option.splits if_splits dest!: set_value_frame)

lemma complete_error:
  "complete t x (Some e) st = Inr st' \<Longrightarrow> st' = st\<lparr>promises := (promises st)[completer t := Some (Inl e)]\<rparr>"
  by (auto simp: complete_def dest: set_value_frame)

lemma task_returns_frame:
  "task_returns t r st = Inr st' \<Longrightarrow> \<exists>v. st' = st\<lparr>promises := (promises st)[completer t := Some v]\<rparr>"
  by (auto simp: task_returns_def split: if_splits dest: complete_frame)

lemma Cancel_frame:
  assumes "Cancel i st = Inr st'"
  shows "st' = st \<or> (\<exists>p m ns. st' = st\<lparr>promises := (promises st)[p := Some (Inl E_CANCELLED)],
      m_queue := (m_queue st)\<lparr>idMap := m, tasks := filter ns (tasks (m_queue st))\<rparr>\<rparr>)"
proof (cases "idMap (m_queue st) i")
  case None
  with assms show ?thesis by (simp add: Cancel_def Let_def)
next
  case (Some at)
  let ?st = "st\<lparr>m_queue := (m_queue st)\<lparr>idMap := (idMap (m_queue st))(i := None)\<rparr>\<rparr>"
  obtain n where n: "find (\<lambda>n. node_at n = at) (tasks (m_queue st)) = Some n"
    using assms Some by (cases "find (\<lambda>n. node_at n = at) (tasks (m_queue st))") (simp_all add: Cancel_def Let_def)
  obtain st1 where c: "complete (mapped n) None (Some E_CANCELLED) ?st = Inr st1"
    and st': "st' = st1\<lparr>m_queue := (m_queue st1)\<lparr>tasks := filter (\<lambda>n. node_at n \<noteq> at) (tasks (m_queue st1))\<rparr>\<rparr>"
    using assms Some n by (cases "complete (mapped n) None (Some E_CANCELLED) ?st") (simp_all add: Cancel_def Let_def)
  from complete_error [OF c] st' show ?thesis by fastforce
qed

text \<open>What a worker's call of \<^verbatim>\<open>DequeueTask\<close> does.\<close>

lemma worker_dequeues_cases:
  assumes "worker_dequeues i st = Inr st'"
  obtains "\<not> running (m_queue st)" "st' = set_worker i Exited st"
  | "running (m_queue st)" "tasks (m_queue st) = []" "st' = set_worker i Asleep st"
  | n ns m where "running (m_queue st)" "tasks (m_queue st) = n # ns"
      "st' = set_worker i (Running (mapped n)) (st\<lparr>m_queue := (m_queue st)\<lparr>tasks := ns, idMap := m\<rparr>\<rparr>)"
  using assms
  by (cases "tasks (m_queue st)")
    (auto simp: worker_dequeues_def DequeueTask_def PopFront_def Let_def split: if_splits)

lemma update_awake: "i < length ws \<Longrightarrow> awake w \<Longrightarrow> \<exists>v \<in> set (ws[i := w]). awake v"
  by (metis length_list_update nth_list_update_eq nth_mem)

lemma update_keeps_out: "x \<notin> set ws \<Longrightarrow> w \<noteq> x \<Longrightarrow> x \<notin> set (ws[i := w])"
  using set_update_subset_insert [of ws i w] by blast

lemma wake_ok_dequeue:
  assumes ok: "wake_ok st" and i: "i < length (workers st)" "workers st ! i = Ready"
    and step: "worker_dequeues i st = Inr st'"
  shows "wake_ok st'"
  using step
proof (cases rule: worker_dequeues_cases)
  case 1
  with ok show ?thesis by (auto simp: wake_ok_def update_keeps_out)
next
  case 2
  with ok show ?thesis by (auto simp: wake_ok_def update_keeps_out)
next
  case (3 n ns m)
  with ok i update_awake [OF i(1), of "Running (mapped n)"] show ?thesis
    by (auto simp: wake_ok_def update_keeps_out)
qed

lemma wake_ok_step:
  assumes ok: "wake_ok st" and step: "pool_exec a st = Some (Inr st')"
  shows "wake_ok st'"
proof (cases a)
  case (Do_Await void pr)
  with step ok show ?thesis
    by (auto simp: wake_ok_def Await_def SubmitTask_def Let_def split: if_splits)
next
  case (Do_Cancel i)
  with step have "Cancel i st = Inr st'" by (auto split: if_splits)
  from Cancel_frame [OF this] ok show ?thesis by (auto simp: wake_ok_def)
next
  case (Do_Notify i)
  with step have i: "i < length (workers st)" and st': "st' = set_worker i Ready (st\<lparr>notifies := notifies st - 1\<rparr>)"
    by (auto split: if_splits)
  with ok update_awake [OF i, of Ready] show ?thesis by (auto simp: wake_ok_def update_keeps_out)
next
  case (Do_Spurious i)
  with step have i: "i < length (workers st)" and st': "st' = set_worker i Ready st"
    by (auto split: if_splits)
  with ok update_awake [OF i, of Ready] show ?thesis by (auto simp: wake_ok_def update_keeps_out)
next
  case Do_Notify_None
  with step have no: "Asleep \<notin> set (workers st)" and st': "st' = st\<lparr>notifies := notifies st - 1\<rparr>"
    by (auto split: if_splits)
  have "\<exists>w \<in> set (workers st). awake w" if "stage st = Alive" "workers st \<noteq> []"
    using that no ok by (metis not_awake wake_ok_def list.set_sel(1))
  with ok no show ?thesis by (auto simp: wake_ok_def st')
next
  case (Do_Dequeue i)
  with step wake_ok_dequeue [OF ok] show ?thesis by (auto split: if_splits)
next
  case (Do_Return i v)
  with step obtain t st1 where i: "i < length (workers st)"
    and r: "task_returns t v st = Inr st1" "st' = set_worker i Ready st1"
    by (auto split: if_splits worker.splits simp: exec_iff)
  with task_returns_frame [OF r(1)] update_awake [OF i, of Ready] ok show ?thesis
    by (auto simp: wake_ok_def update_keeps_out)
next
  case Do_Cancel_Next
  with step ok show ?thesis by (auto simp: wake_ok_def split: destructor.splits list.splits dest!: complete_frame)
next
  case Do_Fail_Next
  with step ok show ?thesis by (auto simp: wake_ok_def split: destructor.splits list.splits dest!: complete_frame)
next
  case Do_Notify_All
  with step ok show ?thesis by (auto simp: wake_ok_def wake_def split: destructor.splits if_splits)
qed (use step ok in \<open>auto simp: wake_ok_def shutdown_def split: if_splits\<close>)

subsection \<open>Reachable states\<close>

lemma promises_grow:
  assumes "pool_exec a st = Some (Inr st')"
  shows "length (promises st) \<le> length (promises st')"
proof (cases a)
  case (Do_Cancel i)
  with assms have "Cancel i st = Inr st'" by (auto split: if_splits)
  from Cancel_frame [OF this] show ?thesis by auto
next
  case (Do_Dequeue i)
  with assms have "worker_dequeues i st = Inr st'" by (auto split: if_splits)
  then show ?thesis by (cases rule: worker_dequeues_cases) auto
next
  case (Do_Return i v)
  with assms show ?thesis
    by (auto split: if_splits worker.splits simp: and_then_Inr_iff dest!: task_returns_frame)
next
  case Do_Cancel_Next
  with assms show ?thesis by (auto split: destructor.splits list.splits dest!: complete_frame)
next
  case Do_Fail_Next
  with assms show ?thesis by (auto split: destructor.splits list.splits dest!: complete_frame)
next
  case Do_Notify_All
  with assms show ?thesis by (auto split: destructor.splits)
qed (use assms in \<open>auto simp: Await_def Let_def shutdown_def case_prod_beta split: if_splits\<close>)

lemma reachable_ok:
  assumes new: "ThreadPool_new cores options = Inr st0" and reach: "pool_reaches st0 st"
    and bound: "length (promises st) < 2 ^ 64"
  shows "pool_ok st \<and> wake_ok st"
  using reach bound
proof induction
  case start
  from new obtain n where "st0 = \<lparr>m_queue = Queue_new, workers = replicate n Ready, promises = [], notifies = 0, stage = Alive\<rparr>"
    by (auto simp: ThreadPool_new_def and_then_Inr_iff)
  moreover have "running_tasks (replicate n Ready) = {#}" by (induction n) (simp_all add: running_tasks_def)
  ultimately show ?case
    by (simp add: pool_ok_def wake_ok_def live_def queued_def) (simp add: Queue_new_def)
next
  case (step st1 a st2)
  then have "length (promises st1) < 2 ^ 64" using promises_grow by (meson order_le_less_trans)
  with step pool_ok_step [of st1 a "Inr st2"] wake_ok_step [of st1 a st2] show ?case by auto
qed

subsection \<open>Progress\<close>

lemma not_kept_live: "kept_by {#} ps \<Longrightarrow> p < length ps \<Longrightarrow> ps ! p \<noteq> None"
  using set_open_promises [of p ps] by (auto simp: kept_by_def)

lemma settled_workers:
  assumes "settled st" and "w \<in> set (workers st)"
  shows "\<not> awake w"
proof -
  obtain i where i: "i < length (workers st)" "workers st ! i = w" using assms(2) by (auto simp: in_set_conv_nth)
  have "pool_exec (Do_Dequeue i) st = None" "pool_exec (Do_Return i undefined) st = None"
    using assms(1) by (simp_all add: settled_def del: pool_exec.simps)
  with i show ?thesis by (cases w) (auto split: if_splits)
qed

lemma running_tasks_none: "\<forall>w \<in> set ws. \<not> awake w \<Longrightarrow> running_tasks ws = {#}"
  unfolding running_tasks_def by (induction ws) (auto simp: not_awake)

lemma settled_alive:
  assumes s: "settled st" and ok: "wake_ok st" and alive: "stage st = Alive" and ws: "workers st \<noteq> []"
  shows "tasks (m_queue st) = []"
proof (rule ccontr)
  assume "tasks (m_queue st) \<noteq> []"
  then have n: "0 < notifies st"
    using ok alive ws settled_workers [OF s] by (auto simp: wake_ok_def)
  have len: "0 < length (workers st)" using ws by simp
  from nth_mem [OF len] have "workers st ! 0 \<noteq> Exited" using ok alive by (metis wake_ok_def)
  with settled_workers [OF s nth_mem [OF len]] have "workers st ! 0 = Asleep" by (simp add: not_awake)
  with len have "pool_exec (Do_Notify 0) st \<noteq> None" using n by simp
  moreover have "pool_exec (Do_Notify 0) st = None" using s unfolding settled_def by (metis internal.simps)
  ultimately show False by simp
qed

lemma settled_destroyed:
  assumes s: "settled st" and ok: "wake_ok st" and dead: "stage st \<noteq> Alive"
  shows "stage st = Destroyed"
proof -
  have none: "pool_exec Do_Notify_All st = None" "pool_exec Do_Cancel_Next st = None"
    "pool_exec Do_Join st = None" "pool_exec Do_Fail_Next st = None"
    using s by (simp_all add: settled_def del: pool_exec.simps)
  have "stage st \<noteq> Cancelling []"
  proof
    assume c: "stage st = Cancelling []"
    then have "Asleep \<notin> set (workers st)" using ok by (simp add: wake_ok_def)
    then have "set (workers st) \<subseteq> {Exited}" using settled_workers [OF s] by (auto simp: not_awake)
    with none(3) c show False by simp
  qed
  with none dead show ?thesis by (cases "stage st") (auto split: list.splits)
qed

text \<open>An upper bound of the internal steps that are left.\<close>

fun worker_work :: "worker \<Rightarrow> nat" where
  "worker_work Ready = 1"
| "worker_work (Running t) = 2"
| "worker_work _ = 0"

fun stage_work :: "nat \<Rightarrow> destructor \<Rightarrow> nat" where
  "stage_work n Alive = 0"
| "stage_work n (Notifying ts) = n + length ts + 3"
| "stage_work n (Cancelling ts) = length ts + 2"
| "stage_work n (Failing ts) = length ts + 1"
| "stage_work n Destroyed = 0"

definition work :: "'r pool \<Rightarrow> nat" where
  "work st = 2 * length (queued st) + sum_list (map worker_work (workers st)) + 2 * notifies st
     + stage_work (length (workers st)) (stage st)"

lemma worker_work_update:
  "i < length ws \<Longrightarrow> sum_list (map worker_work (ws[i := w])) + worker_work (ws ! i)
     = sum_list (map worker_work ws) + worker_work w"
  by (induction ws arbitrary: i) (auto simp: nth_Cons split: nat.splits)

lemma worker_work_wake:
  "sum_list (map worker_work (map wake ws)) \<le> sum_list (map worker_work ws) + length ws"
proof (induction ws)
  case (Cons w ws)
  have "worker_work (wake w) \<le> worker_work w + 1" by (cases w) (auto simp: wake_def)
  with Cons show ?case by simp
qed simp

lemma work_set_worker:
  "i < length (workers st) \<Longrightarrow>
   work (set_worker i w st) + worker_work (workers st ! i) = work st + worker_work w"
  using worker_work_update [of i "workers st" w] by (simp add: work_def queued_def)

lemma work_promises [simp]: "work (st\<lparr>promises := ps\<rparr>) = work st"
  by (simp add: work_def queued_def)

lemma work_dequeue:
  assumes i: "i < length (workers st)" "workers st ! i = Ready" and alive: "\<not> joined (stage st)"
    and step: "worker_dequeues i st = Inr st'"
  shows "work st' < work st"
  using step
proof (cases rule: worker_dequeues_cases)
  case 1
  then show ?thesis using work_set_worker [OF i(1), of Exited] i(2) by simp
next
  case 2
  then show ?thesis using work_set_worker [OF i(1), of Asleep] i(2) by simp
next
  case (3 n ns m)
  let ?st = "st\<lparr>m_queue := (m_queue st)\<lparr>tasks := ns, idMap := m\<rparr>\<rparr>"
  have "work ?st + 2 = work st" using 3 alive by (simp add: work_def queued_def)
  then show ?thesis using 3 work_set_worker [of i ?st "Running (mapped n)"] i by simp
qed

lemma work_decreases:
  assumes ok: "pool_ok st" and step: "pool_exec a st = Some (Inr st')" and "internal a"
  shows "work st' < work st"
proof (cases a)
  case (Do_Notify i)
  with step have i: "i < length (workers st)" "workers st ! i = Asleep" "0 < notifies st"
    and st': "st' = set_worker i Ready (st\<lparr>notifies := notifies st - 1\<rparr>)" by (auto split: if_splits)
  have "work (st\<lparr>notifies := notifies st - 1\<rparr>) + 2 = work st" using i by (simp add: work_def queued_def)
  with work_set_worker [of i "st\<lparr>notifies := notifies st - 1\<rparr>" Ready] i show ?thesis by (simp add: st')
next
  case (Do_Dequeue i)
  with step have "i < length (workers st)" "workers st ! i = Ready" "worker_dequeues i st = Inr st'"
    by (auto split: if_splits)
  with work_dequeue worker_not_joined [OF ok, of i] show ?thesis by auto
next
  case (Do_Return i v)
  with step obtain t st1 where i: "i < length (workers st)" "workers st ! i = Running t"
    and r: "task_returns t v st = Inr st1" "st' = set_worker i Ready st1"
    by (auto split: if_splits worker.splits simp: and_then_Inr_iff)
  from task_returns_frame [OF r(1)] obtain v' where "st1 = st\<lparr>promises := (promises st)[completer t := Some v']\<rparr>" by blast
  with work_set_worker [of i st1 Ready] i r show ?thesis by simp
next
  case Do_Notify_All
  with step worker_work_wake [of "workers st"] show ?thesis
    by (auto simp: work_def queued_def split: destructor.splits)
next
  case Do_Cancel_Next
  with step obtain t ts where d: "stage st = Cancelling (t # ts)"
    and c: "complete t None (Some E_CANCELLED) (st\<lparr>stage := Cancelling ts\<rparr>) = Inr st'"
    by (auto split: destructor.splits list.splits)
  from complete_frame [OF c] d show ?thesis by (auto simp: work_def queued_def)
next
  case Do_Fail_Next
  with step consider t ts where "stage st = Failing (t # ts)"
      "complete t None (Some E_CANCELLED) (st\<lparr>stage := Failing ts\<rparr>) = Inr st'"
    | "stage st = Failing []" "st' = st\<lparr>stage := Destroyed\<rparr>"
    by (auto split: destructor.splits list.splits)
  then show ?thesis by cases (auto simp: work_def queued_def dest: complete_frame)
qed (use step \<open>internal a\<close> in \<open>auto simp: work_def queued_def split: if_splits\<close>)

section \<open>Order of execution\<close>

text \<open>
  A service that takes requests in the order of a key, the earlier ones first among equals: each new request
  is placed behind those whose key is not greater. Then what it holds is the stable sort of what was submitted.
\<close>

locale keyed_service =
  fixes key :: "'x \<Rightarrow> nat" and submit :: "'x \<Rightarrow> 'x list \<Rightarrow> 'x list"
  assumes submit_splits: "sorted (map key xs) \<Longrightarrow>
    \<exists>a b. xs = a @ b \<and> submit x xs = a @ x # b \<and> (\<forall>y \<in> set a. key y \<le> key x) \<and> (\<forall>y \<in> set b. key x < key y)"
begin

lemma submit_sort:
  "submit x (sort_key key xs) = sort_key key (xs @ [x])"
proof -
  obtain a b where ab: "sort_key key xs = a @ b" "submit x (sort_key key xs) = a @ x # b"
    "\<forall>y \<in> set a. key y \<le> key x" "\<forall>y \<in> set b. key x < key y"
    using submit_splits [of "sort_key key xs" x] by auto
  have perm: "mset (a @ x # b) = mset (xs @ [x])"
    using arg_cong [OF ab(1), of mset] by simp
  have sorted: "sorted (map key (a @ b))" using sorted_sort_key [of key xs] by (simp only: ab(1))
  have "sort_key key (xs @ [x]) = a @ x # b"
  proof (rule properties_for_sort_key)
    show "mset (a @ x # b) = mset (xs @ [x])" by (rule perm)
    show "sorted (map key (a @ x # b))" using sorted ab(3,4) by (fastforce simp: sorted_append)
    fix k assume "k \<in> set (a @ x # b)"
    have "filter (\<lambda>y. key k = key y) (a @ b) = filter (\<lambda>y. key k = key y) xs"
      using sort_key_stable [of key "key k" xs] by (simp add: ab(1) eq_commute)
    moreover have "key k = key x \<Longrightarrow> filter (\<lambda>y. key k = key y) b = []"
      using ab(4) by (auto simp: filter_empty_conv)
    ultimately show "filter (\<lambda>y. key k = key y) (a @ x # b) = filter (\<lambda>y. key k = key y) (xs @ [x])"
      by auto
  qed
  with ab(2) show ?thesis by simp
qed

lemma submits_sort: "foldl (\<lambda>q x. submit x q) [] xs = sort_key key xs"
  by (induction xs rule: rev_induct) (simp_all add: submit_sort)

end

definition urgency :: "Priority \<Rightarrow> nat" where
  "urgency p = 2 - priority_rank p"

lemma urgency_less: "urgency p < urgency q \<longleftrightarrow> q < p"
  by (cases p; cases q) (simp_all add: urgency_def less_Priority_def)

lemma urgency_le: "urgency p \<le> urgency q \<longleftrightarrow> q \<le> p"
  by (cases p; cases q) (simp_all add: urgency_def less_eq_Priority_def)

lemma multimap_emplace_splits:
  "sorted (map (\<lambda>n. urgency (node_key n)) xs) \<Longrightarrow>
   \<exists>a b. xs = a @ b \<and> multimap_emplace x xs = a @ x # b \<and>
     (\<forall>y \<in> set a. urgency (node_key y) \<le> urgency (node_key x)) \<and>
     (\<forall>y \<in> set b. urgency (node_key x) < urgency (node_key y))"
proof (induction xs)
  case (Cons y ys)
  show ?case
  proof (cases "node_key y < node_key x")
    case True
    with Cons.prems show ?thesis
      by (intro exI [of _ "[]"] exI [of _ "y # ys"])
        (auto simp: urgency_less urgency_le intro: le_less_trans)
  next
    case False
    with Cons obtain a b where "ys = a @ b" "multimap_emplace x ys = a @ x # b"
      "\<forall>y \<in> set a. urgency (node_key y) \<le> urgency (node_key x)"
      "\<forall>y \<in> set b. urgency (node_key x) < urgency (node_key y)" by auto
    with False show ?thesis
      by (intro exI [of _ "y # a"] exI [of _ b]) (auto simp: urgency_le)
  qed
qed simp

interpretation task_map: keyed_service "\<lambda>n. urgency (node_key n)" multimap_emplace
  by unfold_locales (rule multimap_emplace_splits)

lemma submit_all_snoc:
  "submit_all (rs @ [(void, p, pr)]) = snd (SubmitTask void p pr (submit_all rs))"
  by (simp add: submit_all_def)

definition submitted_node :: "nat \<Rightarrow> bool \<times> nat \<times> Priority \<Rightarrow> node" where
  "submitted_node i r = (case r of (void, p, pr) \<Rightarrow> \<lparr>node_at = i, node_key = pr,
     mapped = \<lparr>task_id = of_nat (i + 1), task_void = void, completer = p\<rparr>\<rparr>)"

lemma submit_all_eq:
  "nextTaskId (submit_all rs) = of_nat (length rs + 1) \<and> nodes_made (submit_all rs) = length rs \<and>
   running (submit_all rs) \<and>
   tasks (submit_all rs) = sort_key (\<lambda>n. urgency (node_key n)) (map (\<lambda>i. submitted_node i (rs ! i)) [0..<length rs])"
proof (induction rs rule: rev_induct)
  case Nil
  then show ?case by (simp add: submit_all_def Queue_new_def)
next
  case (snoc r rs)
  obtain void p pr where r: "r = (void, p, pr)" by (cases r)
  have "tasks (submit_all (rs @ [r])) = multimap_emplace (submitted_node (length rs) r) (tasks (submit_all rs))"
    using snoc by (simp add: r submit_all_snoc SubmitTask_def Let_def submitted_node_def)
  moreover have "map (\<lambda>i. submitted_node i ((rs @ [r]) ! i)) [0..<length (rs @ [r])]
      = map (\<lambda>i. submitted_node i (rs ! i)) [0..<length rs] @ [submitted_node (length rs) r]"
    by (auto simp: nth_append)
  ultimately have "tasks (submit_all (rs @ [r]))
      = sort_key (\<lambda>n. urgency (node_key n)) (map (\<lambda>i. submitted_node i ((rs @ [r]) ! i)) [0..<length (rs @ [r])])"
    using snoc by (simp only: task_map.submit_sort)
  then show ?case
    using snoc by (simp add: r submit_all_snoc SubmitTask_def Let_def)
qed

lemma Strand_Run_all:
  assumes "tasks q = ns" and "running q" and "\<forall>n \<in> set ns. node_id n \<noteq> - 1"
  shows "\<exists>q'. Strand_Run q = Inr (map mapped ns, q') \<and> \<not> running q' \<and> tasks q' = []"
  using assms
proof (induction ns arbitrary: q)
  case Nil
  then show ?case by (simp add: Strand_Run.simps)
next
  case (Cons n ns)
  let ?q = "q\<lparr>tasks := ns, idMap := (idMap q)(task_id (mapped n) := None)\<rparr>"
  have "PopFront q = Inr (mapped n, ?q)" using Cons.prems by (simp add: PopFront_def)
  moreover obtain q' where "Strand_Run ?q = Inr (map mapped ns, q')" "\<not> running q'" "tasks q' = []"
    using Cons.IH [of ?q] Cons.prems by auto
  ultimately show ?case using Cons.prems by (subst Strand_Run.simps) (auto simp: node_id_def)
qed

section \<open>Properties\<close>

text \<open>
  Submitted to a strand's queue, tasks run in the order of their priority and, within a priority, in the
  order of submission: the stable sort of the requests. \<^verbatim>\<open>Run\<close> then ends with an empty queue that no longer runs, and a
  second call of \<^verbatim>\<open>Run\<close> fails its assertion.
\<close>

theorem strand_runs_by_priority:
  assumes "length rs < 2 ^ 64 - 1"
  shows "\<exists>q. Strand_Run (submit_all rs) = Inr (map mapped (sort_key (\<lambda>n. urgency (node_key n))
      (map (\<lambda>i. submitted_node i (rs ! i)) [0..<length rs])), q) \<and> tasks q = [] \<and> Strand_Run q = Inl Assert_Failed"
proof -
  have id: "(of_nat (i + 1) :: u64) \<noteq> - 1" if "i < length rs" for i
  proof
    assume "(of_nat (i + 1) :: u64) = - 1"
    then have "unat (of_nat (i + 1) :: u64) = unat (- 1 :: u64)" by (rule arg_cong)
    moreover have "unat (of_nat (i + 1) :: u64) = i + 1" using that assms by (intro of_nat_inverse [OF refl]) simp
    moreover have "unat (- 1 :: u64) = 2 ^ 64 - 1" by (simp add: unsigned_minus_1_eq_mask mask_eq_exp_minus_1)
    ultimately show False using that assms by simp
  qed
  have "\<forall>n \<in> set (tasks (submit_all rs)). node_id n \<noteq> - 1"
    using id by (auto simp: submit_all_eq submitted_node_def node_id_def case_prod_beta)
  then obtain q where q: "Strand_Run (submit_all rs) = Inr (map mapped (tasks (submit_all rs)), q)"
    "\<not> running q" "tasks q = []"
    using Strand_Run_all [of "submit_all rs"] submit_all_eq [of rs] by blast
  moreover have "Strand_Run q = Inl Assert_Failed" using q by (subst Strand_Run.simps) simp
  ultimately show ?thesis using submit_all_eq [of rs] by auto
qed

theorem strand_runs_by_priority_witness:
  "\<exists>q. Strand_Run (submit_all [(True, 10, Low), (False, 20, High), (True, 30, Normal), (True, 40, High)])
     = Inr ([\<lparr>task_id = 2, task_void = False, completer = 20\<rparr>, \<lparr>task_id = 4, task_void = True, completer = 40\<rparr>,
         \<lparr>task_id = 3, task_void = True, completer = 30\<rparr>, \<lparr>task_id = 1, task_void = True, completer = 10\<rparr>], q)
     \<and> Strand_Run q = Inl Assert_Failed"
  using strand_runs_by_priority [of "[(True, 10, Low), (False, 20, High), (True, 30, Normal), (True, 40, High)]"]
  by (auto simp: submitted_node_def urgency_def upt_rec)

lemma count_open: "count (mset (open_promises ps)) p = (if p < length ps \<and> ps ! p = None then 1 else 0)"
proof -
  have "distinct (open_promises ps)" by (simp add: open_promises_def)
  then show ?thesis by (simp add: count_mset_0_iff distinct_count_atmost_1 set_open_promises)
qed

lemma destroyed_kept:
  assumes "pool_ok st" and "stage st = Destroyed" and "p < length (promises st)"
  shows "promises st ! p \<noteq> None"
proof -
  have "\<forall>w \<in> set (workers st). \<not> awake w" using assms by (auto simp: pool_ok_def not_awake)
  then have "live st = {#}" using assms by (simp add: live_def queued_def running_tasks_none)
  with assms show ?thesis using not_kept_live by (auto simp: pool_ok_def)
qed

text \<open>
  Property C4. Every task is completed exactly once. In any state that a pool can reach before it has numbered \<open>2 ^ 64\<close>
  tasks, no step of a thread, a client or the destructor fails (so no promise is satisfied twice and no assertion or
  iterator is broken); a promise without a value belongs to exactly one task that is queued, running or about to be
  cancelled, a promise with a value to none; and when the destructor has returned every promise has a value.
\<close>

theorem pool_exactly_once:
  assumes "ThreadPool_new cores options = Inr st0" and "pool_reaches st0 st" and "length (promises st) < 2 ^ 64"
  shows "(\<forall>a f. pool_exec a st \<noteq> Some (Inl f)) \<and>
    (\<forall>p < length (promises st). count (image_mset completer (live st)) p = (if promises st ! p = None then 1 else 0)) \<and>
    (stage st = Destroyed \<longrightarrow> (\<forall>p < length (promises st). promises st ! p \<noteq> None))"
proof -
  have ok: "pool_ok st" using reachable_ok [OF assms] by blast
  have "pool_exec a st \<noteq> Some (Inl f)" for a f
    using pool_ok_step [OF ok assms(3), of a "Inl f"] by auto
  moreover have "image_mset completer (live st) = mset (open_promises (promises st))"
    using ok by (simp add: pool_ok_def kept_by_def)
  ultimately show ?thesis using destroyed_kept [OF ok] by (simp add: count_open)
qed

text \<open>A pool with one thread that runs the first of two tasks.\<close>

definition one_thread :: pool_options where
  "one_thread = \<lparr>threads = 1, maxThreads = 255\<rparr>"

definition sim_new :: "nat pool" where
  "sim_new = \<lparr>m_queue = Queue_new, workers = [Ready], promises = [], notifies = 0, stage = Alive\<rparr>"

definition sim_busy :: "nat pool" where
  "sim_busy = \<lparr>m_queue = \<lparr>nextTaskId = 3, tasks = [\<lparr>node_at = 1, node_key = Normal,
       mapped = \<lparr>task_id = 2, task_void = True, completer = 1\<rparr>\<rparr>], idMap = [2 \<mapsto> 1], nodes_made = 2, running = True\<rparr>,
     workers = [Running \<lparr>task_id = 1, task_void = False, completer = 0\<rparr>], promises = [None, None], notifies = 2,
     stage = Alive\<rparr>"

lemma sim_new_eq: "ThreadPool_new 1 one_thread = Inr sim_new"
  by (simp add: ThreadPool_new_def threadCount_def clamp_def one_thread_def sim_new_def)

lemma sim_busy_reached: "pool_reaches sim_new sim_busy"
proof -
  let ?s1 = "snd (Await False Normal sim_new)"
  let ?s2 = "snd (Await True Normal ?s1)"
  have "pool_exec (Do_Await False Normal) sim_new = Some (Inr ?s1)"
    by (simp add: calls_allowed_def sim_new_def)
  moreover have "pool_exec (Do_Await True Normal) ?s1 = Some (Inr ?s2)"
    by (simp add: calls_allowed_def sim_new_def Await_def SubmitTask_def Let_def)
  moreover have "pool_exec (Do_Dequeue 0) ?s2 = Some (Inr sim_busy)"
    by (auto simp: sim_new_def sim_busy_def Await_def SubmitTask_def Let_def worker_dequeues_def DequeueTask_def
        PopFront_def Queue_new_def set_worker_def fun_eq_iff)
  ultimately show ?thesis by (metis pool_reaches.intros)
qed

theorem pool_exactly_once_witness:
  "pool_exec (Do_Return 0 7) sim_busy \<noteq> Some (Inl Std_Future_Error) \<and>
   count (image_mset completer (live sim_busy)) 1 = 1"
  using pool_exactly_once [OF sim_new_eq sim_busy_reached]
  by (auto simp: sim_busy_def simp del: pool_exec.simps)

lemma workers_length:
  assumes "pool_exec a st = Some (Inr st')"
  shows "length (workers st') = length (workers st) \<and> (stage st \<noteq> Alive \<longrightarrow> stage st' \<noteq> Alive)"
proof (cases a)
  case (Do_Cancel i)
  with assms have "Cancel i st = Inr st'" by (auto split: if_splits)
  from Cancel_frame [OF this] show ?thesis by auto
next
  case (Do_Dequeue i)
  with assms have "worker_dequeues i st = Inr st'" by (auto split: if_splits)
  then show ?thesis by (cases rule: worker_dequeues_cases) auto
next
  case (Do_Return i v)
  with assms show ?thesis
    by (auto split: if_splits worker.splits simp: and_then_Inr_iff dest!: task_returns_frame)
next
  case Do_Cancel_Next
  with assms show ?thesis by (auto split: destructor.splits list.splits dest!: complete_frame)
next
  case Do_Fail_Next
  with assms show ?thesis by (auto split: destructor.splits list.splits dest!: complete_frame)
next
  case Do_Notify_All
  with assms show ?thesis by (auto split: destructor.splits)
qed (use assms in \<open>auto simp: Await_def Let_def shutdown_def case_prod_beta split: if_splits\<close>)

lemma internal_keeps_promises:
  assumes "pool_exec a st = Some (Inr st')" and "internal a"
  shows "length (promises st') = length (promises st)"
proof (cases a)
  case (Do_Dequeue i)
  with assms have "worker_dequeues i st = Inr st'" by (auto split: if_splits)
  then show ?thesis by (cases rule: worker_dequeues_cases) auto
next
  case (Do_Return i v)
  with assms show ?thesis
    by (auto split: if_splits worker.splits simp: and_then_Inr_iff dest!: task_returns_frame)
next
  case Do_Cancel_Next
  with assms show ?thesis by (auto split: destructor.splits list.splits dest!: complete_frame)
next
  case Do_Fail_Next
  with assms show ?thesis by (auto split: destructor.splits list.splits dest!: complete_frame)
next
  case Do_Notify_All
  with assms show ?thesis by (auto split: destructor.splits)
qed (use assms in \<open>auto split: if_splits\<close>)

lemma pool_runs_ok:
  assumes "pool_runs st st' n" and "pool_ok st" and "wake_ok st" and "length (promises st) < 2 ^ 64"
  shows "pool_ok st' \<and> wake_ok st' \<and> length (promises st') = length (promises st) \<and> work st' + n \<le> work st \<and>
    length (workers st') = length (workers st) \<and> (stage st \<noteq> Alive \<longrightarrow> stage st' \<noteq> Alive)"
  using assms
proof induction
  case start
  then show ?case by simp
next
  case (step st1 n a st2)
  then have 1: "pool_ok st1" "wake_ok st1" "length (promises st1) = length (promises st)" by auto
  with step pool_ok_step [of st1 a "Inr st2"] wake_ok_step [of st1 a st2] internal_keeps_promises [of a st1 st2]
    work_decreases [of st1 a st2] workers_length [of a st1 st2]
  show ?case by auto
qed

lemma settled_kept:
  assumes s: "settled st" and ok: "pool_ok st" "wake_ok st" and "workers st \<noteq> [] \<or> stage st \<noteq> Alive"
    and p: "p < length (promises st)"
  shows "promises st ! p \<noteq> None"
proof (cases "stage st = Alive")
  case True
  then have "live st = {#}"
    using settled_alive [OF s ok(2)] assms(4) running_tasks_none settled_workers [OF s]
    by (auto simp: live_def queued_def)
  with ok p show ?thesis using not_kept_live by (auto simp: pool_ok_def)
next
  case False
  from destroyed_kept [OF ok(1) settled_destroyed [OF s ok(2) this] p] show ?thesis .
qed

text \<open>
  Property C5. A pool with at least one thread, or one that is being destroyed, finishes its work under every schedule,
  provided that the functions of the tasks return: a run of the threads and the destructor has at most \<open>work st\<close> steps,
  some run cannot be continued, and in the state where a run cannot be continued every task has been completed
  and a destructor that had been called has returned. In particular no task is left behind by a lost notification.
\<close>

theorem pool_settles:
  assumes "ThreadPool_new cores options = Inr st0" and "pool_reaches st0 st" and "length (promises st) < 2 ^ 64"
    and "workers st \<noteq> [] \<or> stage st \<noteq> Alive"
  shows "(\<exists>st' n. pool_runs st st' n \<and> settled st') \<and>
    (\<forall>st' n. pool_runs st st' n \<longrightarrow> n \<le> work st \<and>
      (settled st' \<longrightarrow> (\<forall>p < length (promises st). promises st' ! p \<noteq> None) \<and>
        (stage st \<noteq> Alive \<longrightarrow> stage st' = Destroyed)))"
proof -
  have ok: "pool_ok st" "wake_ok st" using reachable_ok [OF assms(1-3)] by auto
  have "\<exists>st' n. pool_runs st st' n \<and> settled st'" if "pool_runs st st1 m" for st1 m
    using that
  proof (induction "work st1" arbitrary: st1 m rule: less_induct)
    case less
    have ok1: "pool_ok st1" "length (promises st1) < 2 ^ 64"
      using pool_runs_ok [OF less.prems ok assms(3)] assms(3) by auto
    show ?case
    proof (cases "settled st1")
      case True
      with less.prems show ?thesis by blast
    next
      case False
      then obtain a r where a: "internal a" "pool_exec a st1 = Some r"
        by (auto simp: settled_def simp del: pool_exec.simps)
      with pool_ok_step [OF ok1 a(2)] obtain st2 where st2: "pool_exec a st1 = Some (Inr st2)" by auto
      from less.hyps [OF work_decreases [OF ok1(1) st2 a(1)] pool_runs.step [OF less.prems a(1) st2]]
      show ?thesis .
    qed
  qed
  from this [OF pool_runs.start] have "\<exists>st' n. pool_runs st st' n \<and> settled st'" .
  moreover have "n \<le> work st \<and> (settled st' \<longrightarrow> (\<forall>p < length (promises st). promises st' ! p \<noteq> None) \<and>
        (stage st \<noteq> Alive \<longrightarrow> stage st' = Destroyed))" if run: "pool_runs st st' n" for st' n
  proof -
    note r = pool_runs_ok [OF run ok assms(3)]
    then have "workers st' \<noteq> [] \<or> stage st' \<noteq> Alive" using assms(4) by (metis length_0_conv)
    with r show ?thesis using settled_kept [of st'] settled_destroyed [of st'] by auto
  qed
  ultimately show ?thesis by blast
qed

theorem pool_settles_witness:
  "\<exists>st' n. pool_runs sim_busy st' n \<and> settled st' \<and> promises st' ! 0 \<noteq> None \<and> promises st' ! 1 \<noteq> None"
proof -
  have p: "length (promises sim_busy) < 2 ^ 64" "workers sim_busy \<noteq> [] \<or> stage sim_busy \<noteq> Alive"
    "0 < length (promises sim_busy)" "1 < length (promises sim_busy)" by (simp_all add: sim_busy_def)
  from pool_settles [OF sim_new_eq sim_busy_reached p(1,2)] p(3,4) show ?thesis by blast
qed

definition cancelled_only :: "'r pool \<Rightarrow> bool" where
  "cancelled_only st \<longleftrightarrow> workers st = [] \<and> set (promises st) \<subseteq> {None, Some (Inl E_CANCELLED)}"

lemma cancelled_update: "set ps \<subseteq> {None, c} \<Longrightarrow> x \<in> set (ps[p := c]) \<Longrightarrow> x = None \<or> x = c"
  using set_update_subset_insert [of ps p c] by blast

lemma cancelled_only_step:
  assumes "pool_exec a st = Some (Inr st')" and "cancelled_only st"
  shows "cancelled_only st'"
proof (cases a)
  case (Do_Cancel i)
  with assms have "Cancel i st = Inr st'" by (auto split: if_splits)
  from Cancel_frame [OF this] assms(2) show ?thesis by (auto simp: cancelled_only_def dest: cancelled_update)
next
  case Do_Cancel_Next
  with assms show ?thesis
    by (auto simp: cancelled_only_def split: destructor.splits list.splits dest!: complete_error dest: cancelled_update)
next
  case Do_Fail_Next
  with assms show ?thesis
    by (auto simp: cancelled_only_def split: destructor.splits list.splits dest!: complete_error dest: cancelled_update)
qed (use assms in \<open>auto simp: cancelled_only_def Await_def Let_def shutdown_def case_prod_beta
  split: if_splits destructor.splits\<close>)

text \<open>
  The conditional of the constructor is the wrong way round. The number of threads that was asked for is
  never used: with \<^verbatim>\<open>threads\<close> zero, the default, the pool has no thread at all, and nothing it is given ever
  runs; every promise stays open until it is cancelled. With any other number the pool has as many threads as
  the machine has cores, at least one and at most \<^verbatim>\<open>maxThreads\<close>, whose value zero violates the precondition of \<^verbatim>\<open>std::clamp\<close>.
\<close>

theorem pool_thread_count:
  "(threads options = 0 \<longrightarrow> (\<exists>st0. ThreadPool_new cores options = Inr st0 \<and> workers st0 = [] \<and>
      (\<forall>st :: 'r pool. pool_reaches st0 st \<longrightarrow>
        workers st = [] \<and> set (promises st) \<subseteq> {None, Some (Inl E_CANCELLED)}))) \<and>
   (threads options \<noteq> 0 \<longrightarrow> maxThreads options = 0 \<longrightarrow>
      (ThreadPool_new cores options :: 'r pool exec) = Inl Std_Precondition) \<and>
   (threads options \<noteq> 0 \<longrightarrow> maxThreads options \<noteq> 0 \<longrightarrow>
      (\<exists>st0 :: 'r pool. ThreadPool_new cores options = Inr st0 \<and>
         length (workers st0) = max 1 (min cores (unat (maxThreads options)))))"
proof (intro conjI impI)
  assume "threads options = 0"
  then obtain st0 :: "'r pool" where st0: "ThreadPool_new cores options = Inr st0" "cancelled_only st0"
    by (simp add: ThreadPool_new_def threadCount_def cancelled_only_def)
  have "cancelled_only st" if "pool_reaches st0 st" for st
    using that by induction (use st0(2) cancelled_only_step in auto)
  with st0 show "\<exists>st0. ThreadPool_new cores options = Inr st0 \<and> workers st0 = [] \<and>
      (\<forall>st :: 'r pool. pool_reaches st0 st \<longrightarrow>
        workers st = [] \<and> set (promises st) \<subseteq> {None, Some (Inl E_CANCELLED)})"
    by (auto simp: cancelled_only_def)
next
  assume "threads options \<noteq> 0" "maxThreads options = 0"
  then show "(ThreadPool_new cores options :: 'r pool exec) = Inl Std_Precondition"
    by (simp add: ThreadPool_new_def threadCount_def clamp_def)
next
  assume "threads options \<noteq> 0" "maxThreads options \<noteq> 0"
  moreover from this have "0 < unat (maxThreads options)" by (simp add: unat_gt_0)
  ultimately show "\<exists>st0 :: 'r pool. ThreadPool_new cores options = Inr st0 \<and>
         length (workers st0) = max 1 (min cores (unat (maxThreads options)))"
    by (auto simp: ThreadPool_new_def threadCount_def clamp_def less_Suc_eq_0_disj min_def max_def not_less
        Suc_le_eq)
qed

theorem pool_thread_count_witness:
  "\<exists>st0 :: nat pool. ThreadPool_new 8 default_options = Inr st0 \<and> workers st0 = []"
  using pool_thread_count [where options = default_options and cores = 8 and 'r = nat]
  by (auto simp: default_options_def)

text \<open>
  What a future gets. When the function of a running task returns \<open>r\<close>, the future of a task with a
  value holds \<open>r\<close>; the future of a task without one holds a failure with the code \<^verbatim>\<open>E_SUCCESS\<close>, never a success.
  A future that is destroyed while its task is queued cancels the task and finds its value at once; otherwise it
  waits only for a task that a thread runs or that the destructor of the pool will cancel.
\<close>

theorem pool_futures:
  assumes "ThreadPool_new cores options = Inr st0" and "pool_reaches st0 st" and "length (promises st) < 2 ^ 64"
  shows "(\<forall>i t. i < length (workers st) \<and> workers st ! i = Running t \<longrightarrow>
      (\<exists>st'. pool_exec (Do_Return i r) st = Some (Inr st') \<and>
         promises st' ! completer t = Some (if task_void t then Inl E_SUCCESS else Inr r))) \<and>
    (\<forall>p. calls_allowed st \<and> p < length (promises st) \<longrightarrow>
      (\<exists>st'. Future_destroy (Future_new (of_nat (p + 1), p)) st = Inr (st', Some p) \<and>
         (promises st' ! p \<noteq> None \<or>
          p \<in># image_mset completer (running_tasks (workers st) + mset (stage_tasks (stage st))))))"
proof (intro conjI allI impI)
  have ok: "pool_ok st" using reachable_ok [OF assms] by blast
  {
    fix i t assume i: "i < length (workers st) \<and> workers st ! i = Running t"
    have "live st = add_mset t (live (set_worker i Ready st))"
      using running_tasks_done i by (simp add: live_def queued_def set_worker_def)
    with ok have k: "kept_by (add_mset t (live (set_worker i Ready st))) (promises st)" by (simp add: pool_ok_def)
    with complete_step(2) [OF k, of r] kept_by_complete(1) [OF k] i
    show "\<exists>st'. pool_exec (Do_Return i r) st = Some (Inr st') \<and>
         promises st' ! completer t = Some (if task_void t then Inl E_SUCCESS else Inr r)"
      by simp
  next
    fix p assume p: "calls_allowed st \<and> p < length (promises st)"
    let ?i = "of_nat (p + 1) :: u64"
    have alive: "\<not> joined (stage st)" using calls_allowed_not_joined [OF ok] p by blast
    obtain st' where c: "Cancel ?i st = Inr st'" using pool_ok_cancel [OF ok alive, of ?i] by blast
    have "promises st' ! p \<noteq> None" if none: "promises st ! p = None"
      and out: "p \<notin># image_mset completer (running_tasks (workers st) + mset (stage_tasks (stage st)))"
    proof -
      have "p \<in># image_mset completer (live st)"
        using ok none p by (simp add: pool_ok_def kept_by_def set_open_promises)
      then obtain n where n: "n \<in> set (tasks (m_queue st))" "completer (mapped n) = p"
        using out alive by (auto simp: live_def queued_def)
      then have "mapped n \<in># live st" using alive by (simp add: live_def queued_def)
      then have "node_id n = ?i" using ok n by (simp add: pool_ok_def kept_by_def node_id_def)
      then have "?i \<in> node_id ` set (tasks (m_queue st))" using n(1) by (metis imageI)
      then have "idMap (m_queue st) ?i \<noteq> None"
        using ok by (simp add: pool_ok_def queue_ok_def map_of_eq_None_iff image_image)
      then obtain m where m: "m \<in> set (tasks (m_queue st))" "node_id m = ?i"
        "promises st' = (promises st)[completer (mapped m) := Some (Inl E_CANCELLED)]"
        using Cancel_step [OF ok alive, of ?i] c by auto
      moreover have "inj_on node_id (set (tasks (m_queue st)))"
        using ok by (simp add: pool_ok_def queue_ok_def distinct_map)
      ultimately have "m = n" using n(1) \<open>node_id n = ?i\<close> by (metis inj_onD)
      with m n p show ?thesis by simp
    qed
    moreover have "((promises st)[q := Some v]) ! p \<noteq> None" if "promises st ! p \<noteq> None" for q v
      using that p by (cases "q = p") auto
    then have "promises st' ! p \<noteq> None" if "promises st ! p \<noteq> None" using Cancel_frame [OF c] that by auto
    ultimately show "\<exists>st'. Future_destroy (Future_new (?i, p)) st = Inr (st', Some p) \<and>
         (promises st' ! p \<noteq> None \<or>
          p \<in># image_mset completer (running_tasks (workers st) + mset (stage_tasks (stage st))))"
      using c by (simp add: Future_destroy_def Future_Cancel_def Future_new_def) blast
  }
qed

theorem pool_futures_witness:
  "(\<exists>st'. pool_exec (Do_Return 0 7) sim_busy = Some (Inr st') \<and> promises st' ! 0 = Some (Inr 7)) \<and>
   (\<exists>st'. Future_destroy (Future_new (2, 1)) sim_busy = Inr (st', Some 1) \<and> promises st' ! 1 \<noteq> None)"
proof -
  have p: "length (promises sim_busy) < 2 ^ 64" by (simp add: sim_busy_def)
  have b: "0 < length (workers sim_busy)" "workers sim_busy ! 0 = Running \<lparr>task_id = 1, task_void = False, completer = 0\<rparr>"
    "calls_allowed sim_busy" "1 < length (promises sim_busy)"
    "1 \<notin># image_mset completer (running_tasks (workers sim_busy) + mset (stage_tasks (stage sim_busy)))"
    by (simp_all add: sim_busy_def calls_allowed_def running_tasks_def)
  note f = pool_futures [OF sim_new_eq sim_busy_reached p, of 7]
  have "\<exists>st'. pool_exec (Do_Return 0 7) sim_busy = Some (Inr st') \<and> promises st' ! 0 = Some (Inr 7)"
    using conjunct1 [OF f, rule_format, of 0 "\<lparr>task_id = 1, task_void = False, completer = 0\<rparr>"] b
    by (simp del: pool_exec.simps)
  moreover have "\<exists>st'. Future_destroy (Future_new (2, 1)) sim_busy = Inr (st', Some 1) \<and> promises st' ! 1 \<noteq> None"
    using conjunct2 [OF f, rule_format, of 1] b by auto
  ultimately show ?thesis by blast
qed

end
