(* ===== verification/Thread_Local.thy ===== *)
theory Thread_Local
  imports Fusion_Prelude
begin

text \<open>
  What \<^verbatim>\<open>Thread.h\<close>, \<^verbatim>\<open>Impl/Thread.h\<close>, \<^verbatim>\<open>Thread.cpp\<close> and \<^verbatim>\<open>platforms/posix/Thread.cpp\<close> keep per thread: its name and the
  call stacks of \<^verbatim>\<open>Callstack\<close>, one for each pair of a key and a value type. The \<^verbatim>\<open>next\<close> pointer of an entry is set by its
  constructor and never changes, so a pointer to an entry is the chain of entries that starts there;
  \<open>alive\<close> holds the entries whose destructor has not run, and following a pointer to another one is a fault.
\<close>

section \<open>Model\<close>

subsection \<open>Names\<close>

record thread_state =
  tlsThreadBuffer :: "byte list"
  tlsThreadName :: nat
  kernel_name :: "byte list"

definition thread_start :: thread_state where
  "thread_start = \<lparr>tlsThreadBuffer = replicate 64 0, tlsThreadName = 0, kernel_name = []\<rparr>"

text \<open>\<^verbatim>\<open>name.copy(buffer, count)\<close>, which returns the number of bytes, and the write of one element.\<close>

definition copy_to :: "byte list \<Rightarrow> byte list \<Rightarrow> nat \<Rightarrow> byte list" where
  "copy_to name buffer count = blit buffer 0 (take count name)"

definition store_at :: "byte list \<Rightarrow> nat \<Rightarrow> byte \<Rightarrow> byte list exec" where
  "store_at buffer i c = (if i < length buffer then Inr (buffer[i := c]) else Inl Out_Of_Bounds)"

definition GetName :: "thread_state \<Rightarrow> byte list" where
  "GetName th = take (tlsThreadName th) (tlsThreadBuffer th)"

text \<open>\<^verbatim>\<open>Internal::SetThreadName\<close>; the kernel takes the name up to its first 0.\<close>

definition SetThreadName :: "byte list \<Rightarrow> thread_state \<Rightarrow> thread_state exec" where
  "SetThreadName name th =
     (let buffer = copy_to name (replicate 16 0) 16; len = min (length name) 16 in
      and_then (store_at buffer len 0) (\<lambda>buffer.
      Inr (th\<lparr>kernel_name := takeWhile (\<lambda>c. c \<noteq> 0) buffer\<rparr>)))"

definition SetName :: "byte list \<Rightarrow> thread_state \<Rightarrow> thread_state exec" where
  "SetName name th =
     and_then (store_at (copy_to name (tlsThreadBuffer th) 64) (length name) 0) (\<lambda>buffer.
     SetThreadName name (th\<lparr>tlsThreadBuffer := buffer, tlsThreadName := length name\<rparr>))"

subsection \<open>Call stacks\<close>

record 'v entry =
  entry_at :: nat
  entry_key :: nat
  entry_value :: 'v

record 'v callstack =
  head :: "'v entry list"
  size_of :: nat
  alive :: "nat set"
  entries_made :: nat

definition Callstack_empty :: "'v callstack" where
  "Callstack_empty = \<lparr>head = [], size_of = 0, alive = {}, entries_made = 0\<rparr>"

text \<open>The constructor returns the entry: the chain that begins with it.\<close>

definition Entry_new :: "nat \<Rightarrow> 'v \<Rightarrow> 'v callstack \<Rightarrow> 'v entry list \<times> 'v callstack" where
  "Entry_new k v cs =
     (let e = \<lparr>entry_at = entries_made cs, entry_key = k, entry_value = v\<rparr> # head cs in
      (e, cs\<lparr>head := e, size_of := size_of cs + 1, alive := insert (entries_made cs) (alive cs),
             entries_made := entries_made cs + 1\<rparr>))"

definition Entry_destroy :: "'v entry list \<Rightarrow> 'v callstack \<Rightarrow> 'v callstack" where
  "Entry_destroy e cs =
     cs\<lparr>head := tl e, size_of := size_of cs - 1, alive := alive cs - {entry_at (hd e)}\<rparr>"

fun get_from :: "nat set \<Rightarrow> nat \<Rightarrow> 'v entry list \<Rightarrow> 'v option exec" where
  "get_from live k [] = Inr None"
| "get_from live k (e # es) =
     (if entry_at e \<notin> live then Inl Out_Of_Bounds
      else if entry_key e = k then Inr (Some (entry_value e)) else get_from live k es)"

definition Callstack_Get :: "nat \<Rightarrow> 'v callstack \<Rightarrow> 'v option exec" where
  "Callstack_Get k cs = get_from (alive cs) k (head cs)"

definition Callstack_Contains :: "nat \<Rightarrow> 'v callstack \<Rightarrow> bool exec" where
  "Callstack_Contains k cs = and_then (Callstack_Get k cs) (\<lambda>v. Inr (v \<noteq> None))"

definition Callstack_Size :: "'v callstack \<Rightarrow> nat" where
  "Callstack_Size cs = size_of cs"

text \<open>Blocks of code whose entries are local variables: they are destroyed in the reverse order.\<close>

inductive scoped :: "'v callstack \<Rightarrow> 'v callstack \<Rightarrow> bool" where
  nothing: "scoped cs cs"
| block: "scoped cs cs1 \<Longrightarrow> Entry_new k v cs1 = (e, cs2) \<Longrightarrow> scoped cs2 cs3 \<Longrightarrow> scoped cs (Entry_destroy e cs3)"

text \<open>
  The stacks that \<^verbatim>\<open>ThreadPool\<close> and \<^verbatim>\<open>Strand\<close> use: the macro \<^verbatim>\<open>FUSION_CALLSTACK_ENTRY\<close> takes the type of its
  argument, a pointer, as the value type, while \<^verbatim>\<open>IsRunningInThisThread\<close> uses the default, \<^verbatim>\<open>uint8_t\<close>. The
  single-argument constructor stores the entry's own address as the value.
\<close>

record thread_stacks =
  pool_by_pointer :: "nat callstack"
  pool_by_byte :: "nat callstack"
  strand_by_pointer :: "nat callstack"
  strand_by_byte :: "nat callstack"

definition stacks_start :: thread_stacks where
  "stacks_start = \<lparr>pool_by_pointer = Callstack_empty, pool_by_byte = Callstack_empty,
     strand_by_pointer = Callstack_empty, strand_by_byte = Callstack_empty\<rparr>"

definition Entry_of_key :: "nat \<Rightarrow> nat callstack \<Rightarrow> nat entry list \<times> nat callstack" where
  "Entry_of_key k cs = Entry_new k (entries_made cs) cs"

definition RunThread_enter :: "nat \<Rightarrow> thread_stacks \<Rightarrow> nat entry list \<times> thread_stacks" where
  "RunThread_enter pool ts =
     (let (e, cs) = Entry_of_key pool (pool_by_pointer ts) in (e, ts\<lparr>pool_by_pointer := cs\<rparr>))"

definition Strand_Run_enter :: "nat \<Rightarrow> thread_stacks \<Rightarrow> nat entry list \<times> thread_stacks" where
  "Strand_Run_enter strand ts =
     (let (e, cs) = Entry_of_key strand (strand_by_pointer ts) in (e, ts\<lparr>strand_by_pointer := cs\<rparr>))"

definition ThreadPool_IsRunningInThisThread :: "nat \<Rightarrow> thread_stacks \<Rightarrow> bool exec" where
  "ThreadPool_IsRunningInThisThread pool ts = Callstack_Contains pool (pool_by_byte ts)"

definition Strand_IsRunningInThisThread :: "nat \<Rightarrow> thread_stacks \<Rightarrow> bool exec" where
  "Strand_IsRunningInThisThread strand ts = Callstack_Contains strand (strand_by_byte ts)"

text \<open>Any code that enters and leaves threads of pools and strands.\<close>

inductive thread_reaches :: "thread_stacks \<Rightarrow> bool" where
  start: "thread_reaches stacks_start"
| run_thread: "thread_reaches ts \<Longrightarrow> RunThread_enter pool ts = (e, ts') \<Longrightarrow> thread_reaches ts'"
| run_strand: "thread_reaches ts \<Longrightarrow> Strand_Run_enter strand ts = (e, ts') \<Longrightarrow> thread_reaches ts'"
| leave_thread: "thread_reaches ts \<Longrightarrow> thread_reaches (ts\<lparr>pool_by_pointer := Entry_destroy e (pool_by_pointer ts)\<rparr>)"
| leave_strand: "thread_reaches ts \<Longrightarrow> thread_reaches (ts\<lparr>strand_by_pointer := Entry_destroy e (strand_by_pointer ts)\<rparr>)"

section \<open>Properties\<close>

lemma length_copy_to [simp]: "min (length name) n \<le> length buffer \<Longrightarrow> length (copy_to name buffer n) = length buffer"
  by (simp add: copy_to_def)

lemma kernel_name_copied:
  assumes "length name < 16"
  shows "takeWhile (\<lambda>c. c \<noteq> 0) ((copy_to name (replicate 16 0) 16)[length name := 0]) = takeWhile (\<lambda>c. c \<noteq> 0) name"
proof -
  have "copy_to name (replicate 16 0) 16 = name @ replicate (16 - length name) 0"
    using assms by (simp add: copy_to_def blit_def)
  also have "\<dots> = name @ 0 # replicate (15 - length name) 0"
    using assms by (simp add: replicate_Suc [symmetric] Suc_diff_le del: replicate_Suc)
  finally show ?thesis by (auto simp: takeWhile_append takeWhile_eq_all_conv [THEN iffD2])
qed

text \<open>
  \<^verbatim>\<open>Thread::SetName\<close> works for names of at most 15 bytes: the thread then has the name, and so
  has the kernel, up to the first 0. A name of 16 to 63 bytes is written past the 16 bytes meant for the kernel,
  a longer one past the 64 bytes of the thread as well.
\<close>

theorem thread_set_name:
  assumes "length (tlsThreadBuffer th) = 64"
  shows "if length name < 16
    then \<exists>th'. SetName name th = Inr th' \<and> GetName th' = name \<and>
      kernel_name th' = takeWhile (\<lambda>c. c \<noteq> 0) name \<and> length (tlsThreadBuffer th') = 64
    else SetName name th = Inl Out_Of_Bounds"
proof (cases "length name < 16")
  case True
  have "SetName name th = Inr (th\<lparr>tlsThreadBuffer := (copy_to name (tlsThreadBuffer th) 64)[length name := 0],
      tlsThreadName := length name, kernel_name := takeWhile (\<lambda>c. c \<noteq> 0) name\<rparr>)"
    using True assms kernel_name_copied [OF True]
    by (simp add: SetName_def SetThreadName_def store_at_def Let_def)
  moreover have "take (length name) ((copy_to name (tlsThreadBuffer th) 64)[length name := 0]) = name"
    using True assms by (simp add: copy_to_def blit_def)
  ultimately show ?thesis using assms True by (simp add: GetName_def)
next
  case False
  then show ?thesis using assms
    by (simp add: SetName_def SetThreadName_def store_at_def Let_def copy_to_def)
qed

theorem thread_set_name_witness:
  "(\<exists>th. SetName (lit ''worker'') thread_start = Inr th \<and> GetName th = lit ''worker'') \<and>
   SetName (lit ''a-rather-long-name'') thread_start = Inl Out_Of_Bounds"
  using thread_set_name [of thread_start "lit ''worker''"] thread_set_name [of thread_start "lit ''a-rather-long-name''"]
  by (auto simp: thread_start_def)

text \<open>The entries from the head on are alive and older ones come later.\<close>

definition callstack_ok :: "'v callstack \<Rightarrow> bool" where
  "callstack_ok cs \<longleftrightarrow> entry_at ` set (head cs) \<subseteq> alive cs \<and> distinct (map entry_at (head cs)) \<and>
     (\<forall>i \<in> alive cs. i < entries_made cs) \<and> size_of cs = length (head cs)"

lemma get_from_map_of:
  "entry_at ` set es \<subseteq> live \<Longrightarrow> get_from live k es = Inr (map_of (map (\<lambda>e. (entry_key e, entry_value e)) es) k)"
  by (induction es) auto

lemma Entry_new_ok: "callstack_ok cs \<Longrightarrow> callstack_ok (snd (Entry_new k v cs))"
  by (fastforce simp: callstack_ok_def Entry_new_def Let_def)

lemma scoped_restores:
  assumes "scoped cs cs'" and "callstack_ok cs"
  shows "head cs' = head cs \<and> callstack_ok cs'"
  using assms
proof (induction rule: scoped.induct)
  case (nothing cs)
  then show ?case by simp
next
  case (block cs cs1 k v e cs2 cs3)
  from block have ok1: "head cs1 = head cs" "callstack_ok cs1" by auto
  have e: "e = head cs2" "tl e = head cs1" "callstack_ok cs2"
    using block.hyps(2) Entry_new_ok [OF ok1(2), of k v] by (auto simp: Entry_new_def Let_def)
  with block have ok3: "head cs3 = e" "callstack_ok cs3" by auto
  obtain x where x: "e = x # head cs1" using block.hyps(2) by (auto simp: Entry_new_def Let_def)
  have c: "entry_at x \<notin> entry_at ` set (head cs1)" "entry_at ` set (head cs1) \<subseteq> alive cs3"
    "distinct (map entry_at (head cs1))" "size_of cs3 = Suc (length (head cs1))"
    using ok3 x by (simp_all add: callstack_ok_def)
  then have "\<forall>y \<in> set (head cs1). entry_at y \<noteq> entry_at x" by (metis imageI)
  with c ok1 x ok3 show ?case by (auto simp: callstack_ok_def Entry_destroy_def)
qed

text \<open>
  As long as entries are local variables, a call stack behaves like the nesting of its blocks: a block
  leaves the head, the size and every lookup as it found them, and inside it the innermost entry of a key is the one
  that \<^verbatim>\<open>Get\<close> finds.
\<close>

theorem callstack_scopes:
  assumes "callstack_ok cs" and "scoped cs cs'"
  shows "head cs' = head cs \<and> Callstack_Size cs' = Callstack_Size cs \<and> Callstack_Get k cs' = Callstack_Get k cs \<and>
    (\<forall>v cs''. scoped (snd (Entry_new k v cs)) cs'' \<longrightarrow>
       Callstack_Get k cs'' = Inr (Some v) \<and> Callstack_Contains k cs'' = Inr True \<and>
       Callstack_Size cs'' = Callstack_Size cs + 1)"
proof -
  have "Callstack_Get k c = Inr (map_of (map (\<lambda>e. (entry_key e, entry_value e)) (head c)) k) \<and>
      Callstack_Size c = length (head c)" if "callstack_ok c" for c k
    using that by (simp add: callstack_ok_def Callstack_Get_def Callstack_Size_def get_from_map_of)
  note get = this
  note r = scoped_restores [OF assms(2,1)]
  have inner: "callstack_ok cs'' \<and> head cs'' = \<lparr>entry_at = entries_made cs, entry_key = k, entry_value = v\<rparr> # head cs"
    if "scoped (snd (Entry_new k v cs)) cs''" for v cs''
    using scoped_restores [OF that Entry_new_ok [OF assms(1)]] by (simp add: Entry_new_def Let_def)
  have "Callstack_Get k cs'' = Inr (Some v) \<and> Callstack_Size cs'' = Callstack_Size cs + 1"
    if "scoped (snd (Entry_new k v cs)) cs''" for v cs''
    using get [of cs'' k] get [OF assms(1), of k] inner [OF that] by simp
  with r get [OF assms(1), of k] get [of cs' k] show ?thesis by (simp add: Callstack_Contains_def)
qed

theorem callstack_scopes_witness:
  "Callstack_Get 5 (snd (Entry_new 5 True (snd (Entry_new 5 False (Callstack_empty :: bool callstack))))) = Inr (Some True)"
proof -
  let ?cs = "snd (Entry_new 5 False (Callstack_empty :: bool callstack))"
  have "callstack_ok ?cs" by (rule Entry_new_ok) (simp add: callstack_ok_def Callstack_empty_def)
  from callstack_scopes [OF this scoped.nothing, of 5] show ?thesis using scoped.nothing by blast
qed

text \<open>
  \<^verbatim>\<open>IsRunningInThisThread\<close> is false for every pool and every strand in every thread, also in those that run
  the tasks of the pool: entries are made in the stack of one pair of types and looked up in the stack of another.
\<close>

theorem is_running_never:
  assumes "thread_reaches ts"
  shows "ThreadPool_IsRunningInThisThread pool ts = Inr False \<and> Strand_IsRunningInThisThread strand ts = Inr False"
proof -
  have "pool_by_byte ts = Callstack_empty \<and> strand_by_byte ts = Callstack_empty"
    using assms
    by induction (auto simp: stacks_start_def RunThread_enter_def Strand_Run_enter_def Entry_of_key_def Let_def
        split: prod.splits)
  then show ?thesis
    by (simp add: ThreadPool_IsRunningInThisThread_def Strand_IsRunningInThisThread_def Callstack_Contains_def
        Callstack_Get_def Callstack_empty_def)
qed

theorem is_running_never_witness:
  "ThreadPool_IsRunningInThisThread 1 (snd (RunThread_enter 1 stacks_start)) = Inr False"
  using is_running_never [OF thread_reaches.run_thread [OF thread_reaches.start, of 1], of "fst (RunThread_enter 1 stacks_start)"]
  by simp

end
