(* ===== verification/Logging.thy ===== *)
theory Logging
  imports Fusion_Prelude
begin

text \<open>
  The logging system of \<^verbatim>\<open>Logging.cpp\<close>, \<^verbatim>\<open>Logging.h\<close>, \<^verbatim>\<open>Impl/Logging.h\<close> and \<^verbatim>\<open>Internal/Logging.h\<close>: levels, locations and records, the two
  formatters, loggers that share a root, and the sinks for a queue and for syslog.

  A sink of the client is a \<^verbatim>\<open>std::function\<close>: \<open>None\<close> when it is empty, otherwise something that \<open>call\<close> runs on a state
  \<open>'w\<close> of the world and that can throw. Roots are shared objects, referred to by their number. The time zone
  (\<open>localtime\<close>), the writer of the JSON library (\<open>pretty\<close>) and the result of the formatting library are parameters.
\<close>

section \<open>Records\<close>

datatype LogLevel = Ignored | Trace | Debug | Info | Warning | Error | Fatal

fun level_value :: "LogLevel \<Rightarrow> nat" where
  "level_value Ignored = 0"
| "level_value Trace = 1"
| "level_value Debug = 2"
| "level_value Info = 3"
| "level_value Warning = 4"
| "level_value Error = 5"
| "level_value Fatal = 6"

instantiation LogLevel :: linorder
begin

definition less_eq_LogLevel :: "LogLevel \<Rightarrow> LogLevel \<Rightarrow> bool" where
  "less_eq_LogLevel a b \<longleftrightarrow> level_value a \<le> level_value b"

definition less_LogLevel :: "LogLevel \<Rightarrow> LogLevel \<Rightarrow> bool" where
  "less_LogLevel a b \<longleftrightarrow> level_value a < level_value b"

instance
proof
  fix a b :: LogLevel
  assume "a \<le> b" "b \<le> a"
  then show "a = b" by (cases a; cases b) (simp_all add: less_eq_LogLevel_def)
qed (auto simp: less_eq_LogLevel_def less_LogLevel_def)

end

fun LogLevel_ToString :: "LogLevel \<Rightarrow> byte list" where
  "LogLevel_ToString Ignored = lit ''Ignored''"
| "LogLevel_ToString Trace = lit ''Trace''"
| "LogLevel_ToString Debug = lit ''Debug''"
| "LogLevel_ToString Info = lit ''Info''"
| "LogLevel_ToString Warning = lit ''Warning''"
| "LogLevel_ToString Error = lit ''Error''"
| "LogLevel_ToString Fatal = lit ''Fatal''"

text \<open>Into a buffer of \<open>len\<close> bytes at least: what the memory holds afterwards, and the view that is returned.\<close>

definition LogLevel_ToString_buffer :: "LogLevel \<Rightarrow> byte list \<Rightarrow> nat \<Rightarrow> (byte list \<times> byte list) exec" where
  "LogLevel_ToString_buffer level buffer len =
     (let str = take len (LogLevel_ToString level) in
      and_then (memcpy buffer 0 str) (\<lambda>buffer.
      if length str < length buffer
      then let buffer = buffer[length str := 0] in Inr (buffer, takeWhile (\<lambda>c. c \<noteq> 0) buffer)
      else Inl Out_Of_Bounds))"

text \<open>\<^verbatim>\<open>LogLocation::Basename\<close>: a pointer into the C string is the rest of the string from there.\<close>

fun basename_loop :: "byte list \<Rightarrow> byte list \<Rightarrow> byte list" where
  "basename_loop filename [] = filename"
| "basename_loop filename (c # path) = basename_loop (if c = 47 then path else filename) path"

definition Basename :: "byte list \<Rightarrow> byte list" where
  "Basename path = basename_loop path path"

record LogLocation =
  filename :: "byte list"
  shortFilename :: "byte list"
  function_name :: "byte list"
  lineno :: u32

definition LogLocation_none :: LogLocation where
  "LogLocation_none = \<lparr>filename = [], shortFilename = [], function_name = [], lineno = 0\<rparr>"

definition LogLocation_new :: "byte list \<Rightarrow> byte list \<Rightarrow> u32 \<Rightarrow> LogLocation" where
  "LogLocation_new file fn line =
     \<lparr>filename = file, shortFilename = Basename file, function_name = fn, lineno = line\<rparr>"

definition LogLocation_Empty :: "LogLocation \<Rightarrow> bool" where
  "LogLocation_Empty l \<longleftrightarrow> filename l = []"

record LogRecord =
  record_time :: int
  logger :: "byte list"
  threadId :: u64
  level :: LogLevel
  location :: LogLocation
  message :: "byte list"

section \<open>Formatters\<close>

subsection \<open>Numbers and times\<close>

text \<open>\<^verbatim>\<open>std::to_string\<close> of an unsigned number.\<close>

fun to_string :: "nat \<Rightarrow> byte list" where
  "to_string n = (if n < 10 then [] else to_string (n div 10)) @ [of_nat (48 + n mod 10)]"

declare to_string.simps [simp del]

definition to_string_int :: "int \<Rightarrow> byte list" where
  "to_string_int i = (if i < 0 then 45 # to_string (nat (- i)) else to_string (nat i))"

record tm =
  tm_year :: int
  tm_mon :: nat
  tm_mday :: nat
  tm_hour :: nat
  tm_min :: nat
  tm_sec :: nat

definition tm_zero :: tm where
  "tm_zero = \<lparr>tm_year = 0, tm_mon = 0, tm_mday = 0, tm_hour = 0, tm_min = 0, tm_sec = 0\<rparr>"

definition two_digits :: "nat \<Rightarrow> byte list" where
  "two_digits n = (if n < 10 then 48 # to_string n else to_string n)"

text \<open>\<^verbatim>\<open>strftime\<close> for the format \<^verbatim>\<open>%Y-%m-%dT%H:%M:%S\<close>: nothing when the text and its terminator exceed \<open>maxsize\<close>.\<close>

definition date_time :: "tm \<Rightarrow> byte list" where
  "date_time t = to_string_int (tm_year t + 1900) @ lit ''-'' @ two_digits (tm_mon t + 1) @ lit ''-''
     @ two_digits (tm_mday t) @ lit ''T'' @ two_digits (tm_hour t) @ lit '':''
     @ two_digits (tm_min t) @ lit '':'' @ two_digits (tm_sec t)"

definition strftime :: "nat \<Rightarrow> tm \<Rightarrow> byte list" where
  "strftime maxsize t = (if length (date_time t) < maxsize then date_time t else [])"

text \<open>\<open>localtime t = None\<close>: the call fails and leaves the zeroed structure.\<close>

definition timestamp :: "(int \<Rightarrow> tm option) \<Rightarrow> int \<Rightarrow> byte list exec" where
  "timestamp localtime t =
     (let text = strftime 31 (case localtime t of None \<Rightarrow> tm_zero | Some now \<Rightarrow> now) in
      and_then (fusion_assert (length text \<noteq> 0)) (\<lambda>_. Inr text))"

subsection \<open>Text and JSON\<close>

record formatter_params =
  json :: bool
  colors :: bool
  show_location :: bool
  timestamps :: bool

definition default_params :: formatter_params where
  "default_params = \<lparr>json = False, colors = False, show_location = True, timestamps = True\<rparr>"

definition bracket :: "byte list \<Rightarrow> byte list" where
  "bracket s = lit ''['' @ s @ lit '']''"

definition location_text :: "LogLocation \<Rightarrow> byte list" where
  "location_text l = bracket (shortFilename l @ lit '':'' @ to_string (unat (lineno l)))"

definition Standard_FormatTo ::
  "(int \<Rightarrow> tm option) \<Rightarrow> formatter_params \<Rightarrow> byte list \<Rightarrow> LogRecord \<Rightarrow> byte list exec" where
  "Standard_FormatTo localtime params msg r =
     and_then (if timestamps params
       then and_then (timestamp localtime (record_time r)) (\<lambda>time. Inr (msg @ bracket time)) else Inr msg) (\<lambda>msg.
     let msg = (if logger r \<noteq> [] then msg @ bracket (logger r) else msg);
         msg = msg @ bracket (LogLevel_ToString (level r));
         msg = (if \<not> LogLocation_Empty (location r) \<and> show_location params then msg @ location_text (location r) else msg)
     in Inr (msg @ lit '' '' @ message r @ [10]))"

text \<open>The document that the JSON formatter builds.\<close>

datatype json_value = JObject "(byte list \<times> json_value) list" | JString "byte list" | JUint nat

definition json_document :: "formatter_params \<Rightarrow> byte list \<Rightarrow> LogRecord \<Rightarrow> json_value" where
  "json_document params time r = JObject
     ((if \<not> LogLocation_Empty (location r) \<and> show_location params
       then [(lit ''location'', JObject
               [(lit ''filename'', JString (shortFilename (location r))),
                (lit ''lineno'', JUint (unat (lineno (location r))))])] else [])
      @ [(lit ''logger'', JString (logger r)),
         (lit ''level'', JObject
            [(lit ''desc'', JString (LogLevel_ToString (level r))),
             (lit ''level'', JUint (level_value (level r)))]),
         (lit ''threadId'', JUint (unat (threadId r)))]
      @ (if time \<noteq> [] then [(lit ''timestamp'', JString time)] else [])
      @ [(lit ''message'', JString (message r))])"

definition Json_FormatTo ::
  "(int \<Rightarrow> tm option) \<Rightarrow> (json_value \<Rightarrow> byte list) \<Rightarrow> formatter_params \<Rightarrow> byte list \<Rightarrow> LogRecord \<Rightarrow> byte list exec" where
  "Json_FormatTo localtime pretty params msg r =
     and_then (timestamp localtime (record_time r)) (\<lambda>time.
     Inr (msg @ pretty (json_document params time r) @ [10]))"

datatype formatter = JsonLogFormatter formatter_params | StandardLogFormatter formatter_params

definition LogFormatter_Create :: "formatter_params \<Rightarrow> formatter" where
  "LogFormatter_Create params = (if json params then JsonLogFormatter params else StandardLogFormatter params)"

fun FormatTo ::
  "(int \<Rightarrow> tm option) \<Rightarrow> (json_value \<Rightarrow> byte list) \<Rightarrow> formatter \<Rightarrow> byte list \<Rightarrow> LogRecord \<Rightarrow> byte list exec" where
  "FormatTo localtime pretty (JsonLogFormatter params) msg r = Json_FormatTo localtime pretty params msg r"
| "FormatTo localtime pretty (StandardLogFormatter params) msg r = Standard_FormatTo localtime params msg r"

definition Format ::
  "(int \<Rightarrow> tm option) \<Rightarrow> (json_value \<Rightarrow> byte list) \<Rightarrow> formatter \<Rightarrow> LogRecord \<Rightarrow> byte list exec" where
  "Format localtime pretty f r = FormatTo localtime pretty f [] r"

section \<open>Loggers\<close>

datatype thrown = Std_Exception | Other_Exception

type_synonym ('s, 'w) sink_call = "'s \<Rightarrow> LogRecord \<Rightarrow> 'w \<Rightarrow> 'w \<times> thrown option"

text \<open>Calling an empty \<^verbatim>\<open>std::function\<close> throws \<^verbatim>\<open>std::bad_function_call\<close>.\<close>

definition call_sink :: "('s, 'w) sink_call \<Rightarrow> 's option \<Rightarrow> LogRecord \<Rightarrow> 'w \<Rightarrow> 'w \<times> thrown option" where
  "call_sink call sink r w = (case sink of None \<Rightarrow> (w, Some Std_Exception) | Some s \<Rightarrow> call s r w)"

fun call_all :: "('s, 'w) sink_call \<Rightarrow> 's option list \<Rightarrow> LogRecord \<Rightarrow> 'w \<Rightarrow> 'w \<times> thrown option" where
  "call_all call [] r w = (w, None)"
| "call_all call (s # sinks) r w =
     (case call_sink call s r w of
        (w, Some e) \<Rightarrow> (w, Some e)
      | (w, None) \<Rightarrow> call_all call sinks r w)"

record 's root =
  root_level :: LogLevel
  root_sinks :: "'s option list"

record 's logging =
  roots :: "'s root list"
  s_started :: bool
  s_instance :: "nat option"

definition Root_new :: "'s root" where
  "Root_new = \<lparr>root_level = Error, root_sinks = []\<rparr>"

definition logging_start :: "'s logging" where
  "logging_start = \<lparr>roots = [], s_started = False, s_instance = None\<rparr>"

definition Root_Log :: "('s, 'w) sink_call \<Rightarrow> 's root \<Rightarrow> LogRecord \<Rightarrow> 'w \<Rightarrow> 'w \<times> thrown option" where
  "Root_Log call root r w = (if root_level root \<le> level r then call_all call (root_sinks root) r w else (w, None))"

text \<open>A logger; \<^verbatim>\<open>m_sink\<close> is the closure over the root, empty once the logger has been moved from.\<close>

record 's Logger =
  m_name :: "byte list"
  m_logLevel :: LogLevel
  m_propagate :: bool
  m_sink :: "nat option"
  m_sinks :: "'s option list"

definition Logger_new :: "byte list \<Rightarrow> nat option \<Rightarrow> 's Logger exec" where
  "Logger_new name sink = and_then (fusion_assert (name \<noteq> [])) (\<lambda>_.
     Inr \<lparr>m_name = name, m_logLevel = Error, m_propagate = True, m_sink = sink, m_sinks = []\<rparr>)"

text \<open>A move returns the new logger and what is left of the other.\<close>

definition moved_from :: "'s Logger \<Rightarrow> 's Logger" where
  "moved_from other = other\<lparr>m_name := [], m_sink := None, m_sinks := []\<rparr>"

definition Logger_move :: "'s Logger \<Rightarrow> 's Logger \<times> 's Logger" where
  "Logger_move other = (other, moved_from other)"

definition Logger_assign :: "'s Logger \<Rightarrow> 's Logger \<Rightarrow> 's Logger \<times> 's Logger" where
  "Logger_assign this other =
     (if m_name this \<noteq> m_name other then (other, moved_from other) else (this, other))"

definition Logger_AddSink :: "'s option \<Rightarrow> 's Logger \<Rightarrow> 's Logger" where
  "Logger_AddSink sink lg = lg\<lparr>m_sinks := m_sinks lg @ [sink], m_propagate := False\<rparr>"

definition Logger_Duplicate :: "byte list \<Rightarrow> 's Logger \<Rightarrow> 's Logger exec" where
  "Logger_Duplicate name lg = and_then (Logger_new name (m_sink lg)) (\<lambda>dup.
     Inr (dup\<lparr>m_logLevel := m_logLevel lg, m_propagate := m_propagate lg, m_sinks := m_sinks lg\<rparr>))"

definition Logger_SetLogLevel :: "LogLevel \<Rightarrow> 's Logger \<Rightarrow> 's Logger" where
  "Logger_SetLogLevel l lg = lg\<lparr>m_logLevel := l\<rparr>"

definition Logger_SetPropagate :: "bool \<Rightarrow> 's Logger \<Rightarrow> 's Logger" where
  "Logger_SetPropagate b lg = lg\<lparr>m_propagate := b\<rparr>"

definition call_root ::
  "('s, 'w) sink_call \<Rightarrow> 's logging \<Rightarrow> nat option \<Rightarrow> LogRecord \<Rightarrow> 'w \<Rightarrow> 'w \<times> thrown option" where
  "call_root call st sink r w =
     (case sink of None \<Rightarrow> (w, Some Std_Exception) | Some i \<Rightarrow> Root_Log call (roots st ! i) r w)"

fun own_sinks_loop ::
  "('s, 'w) sink_call \<Rightarrow> LogLevel \<Rightarrow> 's option list \<Rightarrow> LogRecord \<Rightarrow> 'w \<Rightarrow> 'w \<times> thrown option" where
  "own_sinks_loop call l [] r w = (w, None)"
| "own_sinks_loop call l (s # sinks) r w =
     (if l \<le> level r then
        case call_sink call s r w of
          (w, Some e) \<Rightarrow> (w, Some e)
        | (w, None) \<Rightarrow> own_sinks_loop call l sinks r w
      else own_sinks_loop call l sinks r w)"

definition Logger_Log ::
  "('s, 'w) sink_call \<Rightarrow> 's logging \<Rightarrow> 's Logger \<Rightarrow> LogRecord \<Rightarrow> 'w \<Rightarrow> 'w \<times> thrown option" where
  "Logger_Log call st lg r w =
     (let l = m_logLevel lg in
      case (if m_propagate lg \<and> l \<le> level r then call_root call st (m_sink lg) r w else (w, None)) of
        (w, Some e) \<Rightarrow> (w, Some e)
      | (w, None) \<Rightarrow> own_sinks_loop call l (m_sinks lg) r w)"

definition record_of :: "'s Logger \<Rightarrow> int \<Rightarrow> u64 \<Rightarrow> LogLevel \<Rightarrow> LogLocation \<Rightarrow> byte list \<Rightarrow> LogRecord" where
  "record_of lg now thread l loc msg =
     \<lparr>record_time = now, logger = m_name lg, threadId = thread, level = l, location = loc, message = msg\<rparr>"

definition Logger_Log_message ::
  "('s, 'w) sink_call \<Rightarrow> 's logging \<Rightarrow> 's Logger \<Rightarrow> int \<Rightarrow> u64 \<Rightarrow> LogLevel \<Rightarrow> LogLocation \<Rightarrow> byte list \<Rightarrow> 'w
     \<Rightarrow> 'w \<times> thrown option" where
  "Logger_Log_message call st lg now thread l loc msg w =
     Logger_Log call st lg (record_of lg now thread l loc msg) w"

text \<open>
  The template with a format string: \<open>formatted\<close> is what \<^verbatim>\<open>fmt::format\<close> returns or throws. The function is \<^verbatim>\<open>noexcept\<close>, so what
  leaves it or its handler ends the program.
\<close>

datatype 'w log_outcome = Returned 'w | Terminated 'w

definition blame :: "byte list \<Rightarrow> byte list" where
  "blame format = lit ''Failed to format log message: '' @ [39] @ format @ [39]"

definition Logger_Log_format ::
  "('s, 'w) sink_call \<Rightarrow> 's logging \<Rightarrow> 's Logger \<Rightarrow> int \<Rightarrow> u64 \<Rightarrow> LogLevel \<Rightarrow> LogLocation \<Rightarrow> byte list
     \<Rightarrow> thrown + byte list \<Rightarrow> 'w \<Rightarrow> 'w log_outcome" where
  "Logger_Log_format call st lg now thread l loc format formatted w =
     (let r = record_of lg now thread l loc [];
          (w, ex) = (case formatted of
             Inl e \<Rightarrow> (w, Some e)
           | Inr msg \<Rightarrow> Logger_Log call st lg (r\<lparr>message := msg\<rparr>) w)
      in case ex of
           None \<Rightarrow> Returned w
         | Some Other_Exception \<Rightarrow> Terminated w
         | Some Std_Exception \<Rightarrow>
             let (w, ex) = Logger_Log call st lg (r\<lparr>message := blame format\<rparr>) w
             in case ex of None \<Rightarrow> Returned w | Some _ \<Rightarrow> Terminated w)"

section \<open>The root\<close>

definition Instance :: "'s logging \<Rightarrow> nat option" where
  "Instance st = (if s_started st then s_instance st else None)"

definition Logging_Start :: "'s logging \<Rightarrow> 's logging" where
  "Logging_Start st =
     (if \<not> s_started st
      then st\<lparr>roots := roots st @ [Root_new], s_instance := Some (length (roots st)), s_started := True\<rparr> else st)"

definition Logging_Stop :: "'s logging \<Rightarrow> 's logging" where
  "Logging_Stop st = (if s_started st then st\<lparr>s_instance := None, s_started := False\<rparr> else st)"

definition with_root :: "'s logging \<Rightarrow> (nat \<Rightarrow> 'a exec) \<Rightarrow> 'a exec" where
  "with_root st f = (case Instance st of None \<Rightarrow> Inl Assert_Failed | Some i \<Rightarrow> f i)"

definition Logging_AddSink :: "'s option \<Rightarrow> 's logging \<Rightarrow> 's logging exec" where
  "Logging_AddSink sink st = with_root st (\<lambda>i.
     Inr (st\<lparr>roots := (roots st)[i := (roots st ! i)\<lparr>root_sinks := root_sinks (roots st ! i) @ [sink]\<rparr>]\<rparr>))"

definition Logging_GetLogLevel :: "'s logging \<Rightarrow> LogLevel exec" where
  "Logging_GetLogLevel st = with_root st (\<lambda>i. Inr (root_level (roots st ! i)))"

definition Logging_SetLogLevel :: "LogLevel \<Rightarrow> 's logging \<Rightarrow> 's logging exec" where
  "Logging_SetLogLevel l st = with_root st (\<lambda>i.
     Inr (st\<lparr>roots := (roots st)[i := (roots st ! i)\<lparr>root_level := l\<rparr>]\<rparr>))"

definition Logging_Get :: "byte list \<Rightarrow> 's logging \<Rightarrow> 's Logger exec" where
  "Logging_Get name st = with_root st (\<lambda>i.
     and_then (Logger_new name (Some i)) (\<lambda>lg.
     and_then (Logging_GetLogLevel st) (\<lambda>l. Inr (Logger_SetLogLevel l lg))))"

definition Logging_Get_sinks :: "byte list \<Rightarrow> 's option list \<Rightarrow> 's logging \<Rightarrow> 's Logger exec" where
  "Logging_Get_sinks name sinks st = with_root st (\<lambda>i.
     and_then (Logger_new name (Some i)) (\<lambda>lg.
     let lg = foldl (\<lambda>lg s. Logger_AddSink s lg) lg sinks in
     and_then (Logging_GetLogLevel st) (\<lambda>l. Inr (Logger_SetLogLevel l lg))))"

section \<open>Delivery\<close>

text \<open>The sinks that a record of a logger goes to, in order.\<close>

definition targets :: "'s logging \<Rightarrow> 's Logger \<Rightarrow> LogRecord \<Rightarrow> 's option list" where
  "targets st lg r =
     (if m_logLevel lg \<le> level r then
        (if m_propagate lg then
           case m_sink lg of
             None \<Rightarrow> [None]
           | Some i \<Rightarrow> if root_level (roots st ! i) \<le> level r then root_sinks (roots st ! i) else []
         else []) @ m_sinks lg
      else [])"

lemma call_all_append:
  "call_all call (xs @ ys) r w =
     (case call_all call xs r w of (w, Some e) \<Rightarrow> (w, Some e) | (w, None) \<Rightarrow> call_all call ys r w)"
  by (induction xs arbitrary: w) (auto split: prod.splits option.splits)

lemma own_sinks_loop_eq:
  "own_sinks_loop call l sinks r w = (if l \<le> level r then call_all call sinks r w else (w, None))"
  by (induction sinks arbitrary: w) (auto split: prod.splits option.splits)

lemma Logger_Log_eq: "Logger_Log call st lg r w = call_all call (targets st lg r) r w"
  by (auto simp: Logger_Log_def targets_def own_sinks_loop_eq call_root_def Root_Log_def call_all_append call_sink_def
      split: prod.splits option.splits)

text \<open>A root that is the instance exists.\<close>

definition logging_ok :: "'s logging \<Rightarrow> bool" where
  "logging_ok st \<longleftrightarrow> (s_started st \<longleftrightarrow> s_instance st \<noteq> None) \<and> (\<forall>i. s_instance st = Some i \<longrightarrow> i < length (roots st))"

lemma with_root_Inr: "with_root st f = Inr y \<longleftrightarrow> (\<exists>i. Instance st = Some i \<and> f i = Inr y)"
  by (auto simp: with_root_def split: option.splits)

lemma Instance_ok: "logging_ok st \<Longrightarrow> Instance st = Some i \<Longrightarrow> i < length (roots st)"
  by (auto simp: logging_ok_def Instance_def split: if_splits)

lemma logging_ok_steps:
  "logging_ok logging_start"
  "logging_ok st \<Longrightarrow> logging_ok (Logging_Start st)"
  "logging_ok st \<Longrightarrow> logging_ok (Logging_Stop st)"
  "logging_ok st \<Longrightarrow> Logging_AddSink s st = Inr st' \<Longrightarrow> logging_ok st'"
  "logging_ok st \<Longrightarrow> Logging_SetLogLevel l st = Inr st' \<Longrightarrow> logging_ok st'"
  by (auto simp: logging_ok_def logging_start_def Logging_Start_def Logging_Stop_def Logging_AddSink_def
      Logging_SetLogLevel_def with_root_Inr split: if_splits)

lemma Logging_Get_eq:
  "Logging_Get name st = Inr lg \<longleftrightarrow> name \<noteq> [] \<and>
     (\<exists>i. Instance st = Some i \<and> lg = \<lparr>m_name = name, m_logLevel = root_level (roots st ! i), m_propagate = True,
        m_sink = Some i, m_sinks = []\<rparr>)"
  by (auto simp: Logging_Get_def Logger_new_def Logging_GetLogLevel_def with_root_def Logger_SetLogLevel_def
      exec_iff split: option.splits)

lemma foldl_AddSink:
  "foldl (\<lambda>lg s. Logger_AddSink s lg) lg sinks =
     lg\<lparr>m_sinks := m_sinks lg @ sinks, m_propagate := (m_propagate lg \<and> sinks = [])\<rparr>"
  by (induction sinks arbitrary: lg) (auto simp: Logger_AddSink_def)

lemma Logging_Get_sinks_eq:
  "Logging_Get_sinks name sinks st = Inr lg \<longleftrightarrow> name \<noteq> [] \<and>
     (\<exists>i. Instance st = Some i \<and> lg = \<lparr>m_name = name, m_logLevel = root_level (roots st ! i), m_propagate = (sinks = []),
        m_sink = Some i, m_sinks = sinks\<rparr>)"
  by (auto simp: Logging_Get_sinks_def Logger_new_def Logging_GetLogLevel_def with_root_def Logger_SetLogLevel_def
      foldl_AddSink Let_def exec_iff split: option.splits)

text \<open>
  Property C18. A logger delivers a record to its targets, one after the other until one throws: nothing below its level;
  otherwise the sinks of its root, if it propagates and the root's own level admits the record, and then its own sinks. A
  logger from \<^verbatim>\<open>Get\<close> has the root's sinks as targets, one that is given sinks has only these, and
  once a sink is added the root no longer sees its records. The root is the one that was running when the logger
  was made: stopping and starting the system, and whatever is then set or added, does not reach the old logger.
\<close>

theorem logger_delivers:
  fixes st :: "'s logging" and call :: "('s, 'w) sink_call"
  assumes "logging_ok st"
  shows "Logger_Log call st lg r w = call_all call (targets st lg r) r w \<and>
    (Logging_Get name st = Inr lg \<longrightarrow>
      (\<exists>i. Instance st = Some i \<and>
        targets st lg r = (if root_level (roots st ! i) \<le> level r then root_sinks (roots st ! i) else []) \<and>
        targets st (Logger_AddSink s lg) r = (if root_level (roots st ! i) \<le> level r then [s] else []) \<and>
        (\<forall>sinks lg'. sinks \<noteq> [] \<longrightarrow> Logging_Get_sinks name sinks st = Inr lg' \<longrightarrow>
          targets st lg' r = (if root_level (roots st ! i) \<le> level r then sinks else []))) \<and>
      (\<forall>l st2 st3. Logging_SetLogLevel l (Logging_Start (Logging_Stop st)) = Inr st2 \<longrightarrow>
        Logging_AddSink s st2 = Inr st3 \<longrightarrow> targets st3 lg r = targets st lg r))"
proof (intro conjI impI allI)
  show "Logger_Log call st lg r w = call_all call (targets st lg r) r w" by (rule Logger_Log_eq)
next
  assume "Logging_Get name st = Inr lg"
  then show "\<exists>i. Instance st = Some i \<and>
        targets st lg r = (if root_level (roots st ! i) \<le> level r then root_sinks (roots st ! i) else []) \<and>
        targets st (Logger_AddSink s lg) r = (if root_level (roots st ! i) \<le> level r then [s] else []) \<and>
        (\<forall>sinks lg'. sinks \<noteq> [] \<longrightarrow> Logging_Get_sinks name sinks st = Inr lg' \<longrightarrow>
          targets st lg' r = (if root_level (roots st ! i) \<le> level r then sinks else []))"
    by (auto simp: Logging_Get_eq Logging_Get_sinks_eq targets_def Logger_AddSink_def)
next
  fix l st2 st3
  assume get: "Logging_Get name st = Inr lg"
    and set: "Logging_SetLogLevel l (Logging_Start (Logging_Stop st)) = Inr st2"
    and add: "Logging_AddSink s st2 = Inr st3"
  from get obtain i where i: "i < length (roots st)" "m_sink lg = Some i" "s_started st"
    using Instance_ok [OF assms] by (auto simp: Logging_Get_eq Instance_def split: if_splits)
  have "roots st3 ! i = roots st ! i"
    using set add i
    by (auto simp: Logging_SetLogLevel_def Logging_AddSink_def with_root_Inr Logging_Start_def Logging_Stop_def
        Instance_def nth_append)
  then show "targets st3 lg r = targets st lg r" by (simp add: targets_def i(2))
qed

theorem logger_delivers_witness:
  "\<exists>st2 st3. Logging_SetLogLevel Fatal (Logging_Start (Logging_Stop (Logging_Start (logging_start :: nat logging)))) = Inr st2 \<and>
     Logging_AddSink (Some 5) st2 = Inr st3 \<and>
     targets st3 \<lparr>m_name = lit ''a'', m_logLevel = Error, m_propagate = True, m_sink = Some 0, m_sinks = []\<rparr>
       \<lparr>record_time = 0, logger = [], threadId = 0, level = Fatal, location = LogLocation_none, message = []\<rparr> = []"
proof -
  let ?st = "Logging_Start (logging_start :: nat logging)"
  let ?lg = "\<lparr>m_name = lit ''a'', m_logLevel = Error, m_propagate = True, m_sink = Some 0, m_sinks = []\<rparr> :: nat Logger"
  let ?r = "\<lparr>record_time = 0, logger = [], threadId = 0, level = Fatal, location = LogLocation_none, message = []\<rparr>"
  have ok: "logging_ok ?st" by (intro logging_ok_steps)
  have get: "Logging_Get (lit ''a'') ?st = Inr ?lg"
    by (simp add: Logging_Get_eq Instance_def Logging_Start_def logging_start_def Root_new_def lit_def)
  obtain st2 where st2: "Logging_SetLogLevel Fatal (Logging_Start (Logging_Stop ?st)) = Inr st2"
    by (simp add: Logging_SetLogLevel_def with_root_def Instance_def Logging_Start_def Logging_Stop_def logging_start_def)
  then obtain st3 where st3: "Logging_AddSink (Some 5) st2 = Inr st3"
    by (auto simp: Logging_SetLogLevel_def Logging_AddSink_def with_root_def Instance_def Logging_Start_def
        Logging_Stop_def logging_start_def)
  note d = logger_delivers [OF ok, where lg = ?lg and name = "lit ''a''" and r = ?r and s = "Some 5"
    and call = "\<lambda>s r w. (w, None)" and w = "()"]
  have "targets st3 ?lg ?r = targets ?st ?lg ?r"
    by (rule conjunct2 [OF mp [OF conjunct2 [OF d] get], rule_format, OF st2 st3])
  also have "\<dots> = []" by (simp add: targets_def Logging_Start_def logging_start_def Root_new_def)
  finally show ?thesis using st2 st3 by blast
qed

lemma call_all_quiet:
  assumes "None \<notin> set ss" and "\<forall>s r w. snd (call s r w) = None"
  shows "call_all call ss r w = (foldl (\<lambda>w s. fst (call (the s) r w)) w ss, None)"
  using assms
proof (induction ss arbitrary: w)
  case (Cons s ss)
  then obtain s' where "s = Some s'" by (cases s) auto
  moreover have "call s' r w = (fst (call s' r w), None)" using Cons.prems(2) by (metis prod.collapse)
  ultimately show ?case using Cons by (auto simp: call_sink_def split: prod.splits)
qed simp

text \<open>
  Logging with a format string never throws, and ends the program only through its sinks. Without a
  throwing sink it returns, and the targets have seen one record: the message, or a text that quotes the format
  when formatting failed. When the sinks throw a standard exception the targets see a second record, which blames the
  format; if they throw again, or throw anything else, the program ends. So does any use of a logger that was moved from
  and still propagates, at a level it admits.
\<close>

theorem log_format_outcome:
  fixes call :: "('s, 'w) sink_call"
  shows "(None \<notin> set (targets st lg (record_of lg now thread l loc [])) \<and> (\<forall>s r w. snd (call s r w) = None) \<and> formatted \<noteq> Inl Other_Exception \<longrightarrow>
      Logger_Log_format call st lg now thread l loc format formatted w =
        Returned (foldl (\<lambda>w s. fst (call (the s) (record_of lg now thread l loc (case formatted of Inl _ \<Rightarrow> blame format | Inr msg \<Rightarrow> msg)) w)) w
          (targets st lg (record_of lg now thread l loc [])))) \<and>
    (\<forall>msg w1 e. formatted = Inr msg \<and> call_all call (targets st lg (record_of lg now thread l loc [])) (record_of lg now thread l loc msg) w = (w1, Some e) \<longrightarrow>
      Logger_Log_format call st lg now thread l loc format formatted w =
        (if e = Other_Exception then Terminated w1
         else case call_all call (targets st lg (record_of lg now thread l loc [])) (record_of lg now thread l loc (blame format)) w1 of
           (w2, None) \<Rightarrow> Returned w2 | (w2, Some _) \<Rightarrow> Terminated w2)) \<and>
    (m_propagate lg \<and> m_logLevel lg \<le> l \<longrightarrow>
      Logger_Log_format call st (moved_from lg) now thread l loc format (Inr msg) w = Terminated w)"
proof -
  let ?rec = "record_of lg now thread l loc" and ?blame = "blame format"
  have t: "targets st lg (?rec msg) = targets st lg (?rec [])" for msg
    by (simp add: targets_def record_of_def split: option.splits)
  have log: "Logger_Log call st lg (?rec msg) w = call_all call (targets st lg (?rec [])) (?rec msg) w" for msg w
    by (simp only: Logger_Log_eq t [of msg])
  have eq: "Logger_Log_format call st lg now thread l loc format formatted w =
     (let (w, ex) = (case formatted of Inl e \<Rightarrow> (w, Some e) | Inr msg \<Rightarrow> call_all call (targets st lg (?rec [])) (?rec msg) w)
      in case ex of None \<Rightarrow> Returned w | Some Other_Exception \<Rightarrow> Terminated w
         | Some Std_Exception \<Rightarrow> let (w, ex) = call_all call (targets st lg (?rec [])) (?rec ?blame) w
             in case ex of None \<Rightarrow> Returned w | Some _ \<Rightarrow> Terminated w)" for formatted w
    unfolding Logger_Log_format_def Let_def log [symmetric] by (simp add: record_of_def cong: sum.case_cong)
  have "Logger_Log_format call st lg now thread l loc format formatted w =
        Returned (foldl (\<lambda>w s. fst (call (the s) (?rec (case formatted of Inl _ \<Rightarrow> ?blame | Inr msg \<Rightarrow> msg)) w)) w
          (targets st lg (?rec [])))"
    if "None \<notin> set (targets st lg (?rec [])) \<and> (\<forall>s r w. snd (call s r w) = None) \<and> formatted \<noteq> Inl Other_Exception"
    using that call_all_quiet [of "targets st lg (?rec [])" call] by (auto simp: eq split: sum.splits thrown.splits)
  moreover have "Logger_Log_format call st lg now thread l loc format formatted w =
        (if e = Other_Exception then Terminated w1
         else case call_all call (targets st lg (?rec [])) (?rec ?blame) w1 of
           (w2, None) \<Rightarrow> Returned w2 | (w2, Some _) \<Rightarrow> Terminated w2)"
    if "formatted = Inr msg \<and> call_all call (targets st lg (?rec [])) (?rec msg) w = (w1, Some e)" for msg w1 e
    using that by (cases e) (simp_all add: eq split: prod.splits option.splits)
  moreover have "Logger_Log_format call st (moved_from lg) now thread l loc format (Inr msg) w = Terminated w"
    if "m_propagate lg \<and> m_logLevel lg \<le> l"
    using that by (simp add: Logger_Log_format_def Logger_Log_eq targets_def moved_from_def call_sink_def record_of_def)
  ultimately show ?thesis by blast
qed

theorem log_format_outcome_witness:
  "Logger_Log_format (\<lambda>(s :: nat) r w. (w @ [(s, message r)], None)) logging_start
     \<lparr>m_name = lit ''a'', m_logLevel = Info, m_propagate = False, m_sink = Some 0, m_sinks = [Some 1, Some 2]\<rparr> 0 0 Error
     LogLocation_none (lit ''{}'') (Inr (lit ''x'')) [] = Returned [(1, lit ''x''), (2, lit ''x'')] \<and>
   Logger_Log_format (\<lambda>(s :: nat) r w. (w @ [(s, message r)], None)) logging_start
     (moved_from \<lparr>m_name = lit ''a'', m_logLevel = Info, m_propagate = True, m_sink = Some 0, m_sinks = []\<rparr>) 0 0 Error
     LogLocation_none (lit ''{}'') (Inr (lit ''x'')) [] = Terminated []"
proof -
  let ?call = "\<lambda>(s :: nat) r w. (w @ [(s, message r)], None)"
  note o = log_format_outcome [where call = ?call and st = logging_start and now = 0 and thread = 0 and l = Error
      and loc = LogLocation_none and format = "lit ''{}''" and w = "[]"]
  show ?thesis
    using conjunct1 [OF o [where formatted = "Inr (lit ''x'')" and msg = "[]" and
        lg = "\<lparr>m_name = lit ''a'', m_logLevel = Info, m_propagate = False, m_sink = Some 0, m_sinks = [Some 1, Some 2]\<rparr>"]]
      conjunct2 [OF conjunct2 [OF o [where formatted = "Inr []" and msg = "lit ''x''" and
        lg = "\<lparr>m_name = lit ''a'', m_logLevel = Info, m_propagate = True, m_sink = Some 0, m_sinks = []\<rparr>"]]]
    by (simp add: targets_def record_of_def less_eq_LogLevel_def)
qed

section \<open>What the text formatter prints\<close>

lemma to_string_digits: "set (to_string n) \<subseteq> {48..57}"
proof (induction n rule: to_string.induct)
  case (1 n)
  have "(of_nat (48 + n mod 10) :: byte) \<in> {48..57}"
  proof -
    have u: "unat (of_nat (48 + n mod 10) :: byte) = 48 + n mod 10"
      by (rule of_nat_inverse [OF refl]) simp
    then show ?thesis by (simp add: byte_arith del: of_nat_add)
  qed
  with 1 show ?case by (subst to_string.simps) auto
qed

lemma length_to_string: "n < 10 ^ k \<Longrightarrow> 0 < k \<Longrightarrow> length (to_string n) \<le> k"
proof (induction n arbitrary: k rule: to_string.induct)
  case (1 n)
  show ?case
  proof (cases "n < 10")
    case True
    with 1 show ?thesis by (subst to_string.simps) simp
  next
    case False
    with 1 obtain j where k: "k = Suc j" by (cases k) auto
    have "0 < j" using False 1 k by (cases j) auto
    moreover have "n div 10 < 10 ^ j" using 1 k by (simp add: div_less_iff_less_mult mult.commute)
    ultimately have "length (to_string (n div 10)) \<le> j" using 1 False by blast
    with False k show ?thesis by (subst to_string.simps) simp
  qed
qed

lemma length_two_digits: "n < 100 \<Longrightarrow> length (two_digits n) \<le> 2"
  using length_to_string [of n 1] length_to_string [of n 2] by (auto simp: two_digits_def)

text \<open>What the C library promises of a broken-down time: the year is an \<^verbatim>\<open>int\<close>, the others have two digits.\<close>

definition tm_ok :: "tm \<Rightarrow> bool" where
  "tm_ok t \<longleftrightarrow> - (2 ^ 31) \<le> tm_year t \<and> tm_year t < 2 ^ 31 \<and> tm_mon t < 12 \<and> tm_mday t < 100 \<and> tm_hour t < 100 \<and>
     tm_min t < 100 \<and> tm_sec t < 100"

lemma tm_ok_zero: "tm_ok tm_zero"
  by (simp add: tm_ok_def tm_zero_def)

lemma strftime_fits:
  assumes "tm_ok t"
  shows "strftime 31 t = date_time t"
proof -
  have "length (to_string_int (tm_year t + 1900)) \<le> 11"
    using assms length_to_string [of "nat (- (tm_year t + 1900))" 10] length_to_string [of "nat (tm_year t + 1900)" 10]
    by (auto simp: to_string_int_def tm_ok_def nat_less_iff)
  then have "length (date_time t) < 31"
    using assms length_two_digits [of "tm_mon t + 1"] length_two_digits [of "tm_mday t"] length_two_digits [of "tm_hour t"]
      length_two_digits [of "tm_min t"] length_two_digits [of "tm_sec t"]
    by (simp add: date_time_def tm_ok_def)
  then show ?thesis by (simp add: strftime_def)
qed

definition local_tm :: "(int \<Rightarrow> tm option) \<Rightarrow> int \<Rightarrow> tm" where
  "local_tm localtime t = (case localtime t of None \<Rightarrow> tm_zero | Some now \<Rightarrow> now)"

lemma date_time_nonempty [simp]: "date_time t \<noteq> []"
  by (simp add: date_time_def lit_def)

lemma timestamp_ok:
  assumes "\<And>now. localtime t = Some now \<Longrightarrow> tm_ok now"
  shows "timestamp localtime t = Inr (date_time (local_tm localtime t))"
proof -
  have "tm_ok (local_tm localtime t)" using assms by (auto simp: local_tm_def tm_ok_zero split: option.splits)
  from strftime_fits [OF this] show ?thesis by (simp add: timestamp_def Let_def local_tm_def)
qed

text \<open>A line is a sequence of bracketed groups, a space and the message.\<close>

definition line_groups :: "(int \<Rightarrow> tm option) \<Rightarrow> formatter_params \<Rightarrow> LogRecord \<Rightarrow> byte list list" where
  "line_groups localtime params r =
     (if timestamps params then [date_time (local_tm localtime (record_time r))] else [])
     @ (if logger r \<noteq> [] then [logger r] else []) @ [LogLevel_ToString (level r)]
     @ (if \<not> LogLocation_Empty (location r) \<and> show_location params
        then [shortFilename (location r) @ lit '':'' @ to_string (unat (lineno (location r)))] else [])"

lemma Standard_FormatTo_eq:
  assumes "\<And>now. localtime (record_time r) = Some now \<Longrightarrow> tm_ok now"
  shows "Standard_FormatTo localtime params msg r =
    Inr (msg @ concat (map bracket (line_groups localtime params r)) @ 32 # message r @ [10])"
proof -
  have "lit '' '' = [32]" by (simp add: lit_def)
  then show ?thesis
    using timestamp_ok [OF assms]
    by (simp add: Standard_FormatTo_def line_groups_def location_text_def Let_def)
qed

lemma bracket_eq: "bracket s = 91 # s @ [93]"
  by (simp add: bracket_def lit_def)

lemma split_at_first:
  "x \<notin> set g \<Longrightarrow> x \<notin> set g' \<Longrightarrow> g @ x # r = g' @ x # r' \<Longrightarrow> g = g' \<and> r = r'"
proof (induction g arbitrary: g')
  case Nil
  then show ?case by (cases g') auto
next
  case (Cons c g)
  then show ?case by (cases g') auto
qed

lemma brackets_inj:
  assumes "concat (map bracket gs) @ 32 # m = concat (map bracket gs') @ 32 # m'"
    and "\<forall>g \<in> set gs. 93 \<notin> set g" and "\<forall>g \<in> set gs'. 93 \<notin> set g"
  shows "gs = gs' \<and> m = m'"
  using assms
proof (induction gs arbitrary: gs')
  case Nil
  then show ?case by (cases gs') (auto simp: bracket_def lit_def)
next
  case (Cons g gs)
  then obtain g' hs where gs': "gs' = g' # hs" by (cases gs') (auto simp: bracket_def lit_def)
  let ?r = "concat (map bracket gs) @ 32 # m" and ?r' = "concat (map bracket hs) @ 32 # m'"
  have "g @ 93 # ?r = g' @ 93 # ?r'" using Cons.prems(1) by (simp add: gs' bracket_eq [of g] bracket_eq [of g'])
  moreover have "93 \<notin> set g" "93 \<notin> set g'" using Cons.prems gs' by auto
  ultimately have "g = g' \<and> ?r = ?r'" using split_at_first [of 93 g g' ?r ?r'] by blast
  with Cons gs' show ?case by auto
qed

lemma to_string_no: "c \<notin> {48..57} \<Longrightarrow> c \<notin> set (to_string n)"
  using to_string_digits by blast

lemma date_time_no_bracket: "93 \<notin> set (date_time t)"
  using to_string_no [of 93]
  by (auto simp: date_time_def to_string_int_def two_digits_def lit_def)

lemma level_name_plain: "93 \<notin> set (LogLevel_ToString l)" "58 \<notin> set (LogLevel_ToString l)"
  by (cases l; simp add: lit_def)+

lemma level_name_inj: "LogLevel_ToString l = LogLevel_ToString l' \<longleftrightarrow> l = l'"
  by (cases l; cases l') (simp_all add: lit_def)

definition location_shown :: "formatter_params \<Rightarrow> LogRecord \<Rightarrow> bool" where
  "location_shown params r \<longleftrightarrow> \<not> LogLocation_Empty (location r) \<and> show_location params"

lemma line_groups_eq:
  assumes "line_groups localtime params r = line_groups localtime params r'"
  shows "logger r = logger r' \<and> level r = level r' \<and> location_shown params r = location_shown params r' \<and>
    (location_shown params r \<longrightarrow> location_text (location r) = location_text (location r'))"
proof -
  let ?loc = "\<lambda>r. shortFilename (location r) @ lit '':'' @ to_string (unat (lineno (location r)))"
  have "58 \<in> set (?loc r)" "58 \<in> set (?loc r')" by (simp_all add: lit_def)
  then have "LogLevel_ToString l \<noteq> ?loc r" "LogLevel_ToString l \<noteq> ?loc r'" for l
    using level_name_plain(2) by metis+
  then show ?thesis
    using assms
    by (auto simp: line_groups_def location_shown_def location_text_def level_name_inj split: if_splits)
qed



lemma basename_loop_eq:
  "basename_loop f path = (if 47 \<in> set path then rev (takeWhile (\<lambda>c. c \<noteq> 47) (rev path)) else f)"
proof (induction path arbitrary: f)
  case (Cons c path)
  show ?case
    using Cons [of f] Cons [of path]
    by (auto simp: takeWhile_append takeWhile_eq_all_conv [THEN iffD2])
qed simp

text \<open>
  The short name of a location is the part of the file name behind its last slash, all of it when there is none. The
  buffer variant of the level's name writes its terminator behind the buffer unless the name is shorter.
\<close>

theorem location_and_level_text:
  "shortFilename (LogLocation_new file fn line) = rev (takeWhile (\<lambda>c. c \<noteq> 47) (rev file)) \<and>
   (length buffer = len \<longrightarrow>
     LogLevel_ToString_buffer l buffer len =
       (if length (LogLevel_ToString l) < len
        then Inr ((blit buffer 0 (LogLevel_ToString l))[length (LogLevel_ToString l) := 0], LogLevel_ToString l)
        else Inl Out_Of_Bounds))"
proof (intro conjI impI)
  show "shortFilename (LogLocation_new file fn line) = rev (takeWhile (\<lambda>c. c \<noteq> 47) (rev file))"
    unfolding LogLocation_new_def Basename_def basename_loop_eq
    by (auto simp: rev_swap [symmetric] intro!: takeWhile_eq_all_conv [THEN iffD2, symmetric])
next
  assume len: "length buffer = len"
  let ?s = "LogLevel_ToString l"
  have z: "0 \<notin> set ?s" by (cases l) (simp_all add: lit_def)
  have "takeWhile (\<lambda>c. c \<noteq> 0) ((blit buffer 0 ?s)[length ?s := 0]) = ?s" if "length ?s < len"
  proof -
    have "(blit buffer 0 ?s)[length ?s := 0] = ?s @ 0 # drop (Suc (length ?s)) buffer"
      using that len by (simp add: blit_def list_update_append Cons_nth_drop_Suc [symmetric])
    with z show ?thesis by (auto simp: takeWhile_append takeWhile_eq_all_conv)
  qed
  then show "LogLevel_ToString_buffer l buffer len =
       (if length ?s < len then Inr ((blit buffer 0 ?s)[length ?s := 0], ?s) else Inl Out_Of_Bounds)"
    using len by (auto simp: LogLevel_ToString_buffer_def Let_def memcpy_def)
qed

end
