(* ===== verification/Log_Sinks.thy ===== *)
theory Log_Sinks
  imports Logging
begin

text \<open>
  The sinks of \<^verbatim>\<open>Logging.cpp\<close>: \<^verbatim>\<open>QueuedLogSink\<close>, which keeps the latest messages for a client to flush, and \<^verbatim>\<open>SyslogSink\<close>; and the
  threads that start, stop and look up the logging system at the same time. The mutex of a queue makes each of its operations one
  step; \<^verbatim>\<open>Flush\<close> runs its callback after releasing the mutex, so the callback can log to the same queue. The calls of the
  syslog library are recorded as events; its constants are a parameter.
\<close>

section \<open>Queue\<close>

record queued_sink =
  q_messages :: "byte list list"
  q_count :: nat
  q_formatter :: "formatter option"

definition QueuedLogSink_default :: queued_sink where
  "QueuedLogSink_default = \<lparr>q_messages = [], q_count = 2 ^ 64 - 1, q_formatter = None\<rparr>"

definition QueuedLogSink_count :: "u64 \<Rightarrow> queued_sink exec" where
  "QueuedLogSink_count count = and_then (fusion_assert (unat count > 0)) (\<lambda>_.
     Inr \<lparr>q_messages = [], q_count = unat count, q_formatter = None\<rparr>)"

definition QueuedLogSink_formatter :: "formatter option \<Rightarrow> u64 \<Rightarrow> queued_sink exec" where
  "QueuedLogSink_formatter f count = and_then (QueuedLogSink_count count) (\<lambda>q.
     Inr (q\<lparr>q_formatter := Some (case f of
        None \<Rightarrow> LogFormatter_Create (default_params\<lparr>json := False, colors := False, timestamps := True\<rparr>)
      | Some f \<Rightarrow> f)\<rparr>))"

definition Queued_Capacity :: "queued_sink \<Rightarrow> nat" where
  "Queued_Capacity q = q_count q"

definition Queued_Empty :: "queued_sink \<Rightarrow> bool" where
  "Queued_Empty q \<longleftrightarrow> q_messages q = []"

definition Queued_Size :: "queued_sink \<Rightarrow> nat" where
  "Queued_Size q = length (q_messages q)"

definition Queued_push :: "byte list \<Rightarrow> queued_sink \<Rightarrow> queued_sink" where
  "Queued_push msg q =
     (let ms = q_messages q @ [msg] in
      q\<lparr>q_messages := (if length ms > q_count q then tl ms else ms)\<rparr>)"

definition Queued_Log ::
  "(int \<Rightarrow> tm option) \<Rightarrow> (json_value \<Rightarrow> byte list) \<Rightarrow> LogRecord \<Rightarrow> queued_sink \<Rightarrow> queued_sink exec" where
  "Queued_Log localtime pretty r q =
     and_then (case q_formatter q of
         Some f \<Rightarrow> FormatTo localtime pretty f [] r
       | None \<Rightarrow> Inr (message r)) (\<lambda>msg.
     Inr (Queued_push msg q))"

text \<open>\<^verbatim>\<open>Flush\<close>, with a callback that works on the queue and on a state of its own; \<open>None\<close> is an empty function.\<close>

definition Queued_Flush ::
  "(byte list \<Rightarrow> queued_sink \<times> 'w \<Rightarrow> queued_sink \<times> 'w) option \<Rightarrow> queued_sink \<times> 'w \<Rightarrow> queued_sink \<times> 'w" where
  "Queued_Flush fn st =
     (let (q, w) = st in
      if q_messages q = [] then (q, w)
      else let messages = q_messages q; q = q\<lparr>q_messages := []\<rparr> in
        case fn of None \<Rightarrow> (q, w) | Some fn \<Rightarrow> foldl (\<lambda>st msg. fn msg st) (q, w) messages)"

section \<open>Syslog\<close>

datatype Facility = User | System | Local

record syslog_header =
  LOG_USER :: int
  LOG_DAEMON :: int
  LOG_LOCAL :: "nat \<Rightarrow> int"
  LOG_PID :: u32
  LOG_CONS :: u32
  LOG_NDELAY :: u32
  LOG_ODELAY :: u32
  LOG_NOWAIT :: u32
  LOG_CRIT :: int
  LOG_ERR :: int
  LOG_WARNING :: int
  LOG_INFO :: int
  LOG_DEBUG :: int

datatype syslog_event = Openlog "byte list" u32 int | Syslog int "byte list" | Closelog

definition Option_Pid :: byte where "Option_Pid = 2"

definition Option_Console :: byte where "Option_Console = 4"

definition Option_NoDelay :: byte where "Option_NoDelay = 8"

definition Option_Lazy :: byte where "Option_Lazy = 16"

definition Option_NoWait :: byte where "Option_NoWait = 32"

definition Option_Default :: byte where "Option_Default = Option_Pid OR Option_Lazy OR Option_NoWait"

record syslog_params =
  identity :: "byte list"
  options :: byte
  facility :: Facility
  local_facility :: int

definition syslog_params_new :: "byte list \<Rightarrow> syslog_params" where
  "syslog_params_new ident = \<lparr>identity = ident, options = Option_Default, facility = User, local_facility = 0\<rparr>"

record syslog_sink =
  sl_params :: syslog_params
  sl_formatter :: "formatter option"

definition syslog_options :: "syslog_header \<Rightarrow> byte \<Rightarrow> u32" where
  "syslog_options h opts =
     (if opts AND Option_Pid \<noteq> 0 then LOG_PID h else 0) OR
     (if opts AND Option_Console \<noteq> 0 then LOG_CONS h else 0) OR
     (if opts AND Option_NoDelay \<noteq> 0 then LOG_NDELAY h else 0) OR
     (if opts AND Option_Lazy \<noteq> 0 then LOG_ODELAY h else 0) OR
     (if opts AND Option_NoWait \<noteq> 0 then LOG_NOWAIT h else 0)"

definition syslog_facility :: "syslog_header \<Rightarrow> syslog_params \<Rightarrow> int exec" where
  "syslog_facility h p =
     (case facility p of
        User \<Rightarrow> Inr (LOG_USER h)
      | System \<Rightarrow> Inr (LOG_DAEMON h)
      | Local \<Rightarrow> and_then (fusion_assert (local_facility p \<ge> 0)) (\<lambda>_.
          and_then (fusion_assert (local_facility p \<le> 7)) (\<lambda>_. Inr (LOG_LOCAL h (nat (local_facility p))))))"

definition SyslogSink_new ::
  "syslog_header \<Rightarrow> formatter option \<Rightarrow> syslog_params \<Rightarrow> syslog_event list \<Rightarrow> (syslog_sink \<times> syslog_event list) exec" where
  "SyslogSink_new h f p ev = and_then (syslog_facility h p) (\<lambda>fac.
     and_then (fusion_assert (identity p \<noteq> [])) (\<lambda>_.
     Inr (\<lparr>sl_params = p, sl_formatter = f\<rparr>, ev @ [Openlog (identity p) (syslog_options h (options p)) fac])))"

definition SyslogSink_destroy :: "syslog_event list \<Rightarrow> syslog_event list" where
  "SyslogSink_destroy ev = ev @ [Closelog]"

fun syslog_priority :: "syslog_header \<Rightarrow> LogLevel \<Rightarrow> int" where
  "syslog_priority h Fatal = LOG_CRIT h"
| "syslog_priority h Error = LOG_ERR h"
| "syslog_priority h Warning = LOG_WARNING h"
| "syslog_priority h Info = LOG_INFO h"
| "syslog_priority h Debug = LOG_DEBUG h"
| "syslog_priority h l = LOG_DEBUG h"

text \<open>
  The conversion \<^verbatim>\<open>%.*s\<close>: at most so many bytes, up to the first 0; a negative precision counts as none. The size of
  the message is converted to 32 bits before the minimum is taken.
\<close>

definition precision_text :: "int \<Rightarrow> byte list \<Rightarrow> byte list" where
  "precision_text prec s = takeWhile (\<lambda>c. c \<noteq> 0) (if prec < 0 then s else take (nat prec) s)"

definition syslog_precision :: "nat \<Rightarrow> int" where
  "syslog_precision n = min (sint (of_nat n :: u32)) (2 ^ 31 - 1)"

definition syslog_text ::
  "(int \<Rightarrow> tm option) \<Rightarrow> (json_value \<Rightarrow> byte list) \<Rightarrow> syslog_sink \<Rightarrow> LogRecord \<Rightarrow> byte list exec" where
  "syslog_text localtime pretty sink r =
     (case sl_formatter sink of
        Some f \<Rightarrow> FormatTo localtime pretty f [] r
      | None \<Rightarrow>
          let head = bracket (LogLevel_ToString (level r)) @ bracket (to_string (unat (threadId r))) in
          if \<not> LogLocation_Empty (location r)
          then Inr (head @ bracket (shortFilename (location r) @ lit '':'' @ to_string (unat (lineno (location r))))
                 @ lit '' '' @ message r)
          else Inr (head @ lit '' '' @ message r))"

definition Syslog_Log ::
  "syslog_header \<Rightarrow> (int \<Rightarrow> tm option) \<Rightarrow> (json_value \<Rightarrow> byte list) \<Rightarrow> syslog_sink \<Rightarrow> LogRecord \<Rightarrow> syslog_event list
     \<Rightarrow> syslog_event list exec" where
  "Syslog_Log h localtime pretty sink r ev = and_then (syslog_text localtime pretty sink r) (\<lambda>msg.
     Inr (ev @ [Syslog (syslog_priority h (level r)) (precision_text (syslog_precision (length msg)) msg)]))"

section \<open>Starting and stopping from several threads\<close>

text \<open>
  The shared variables of \<^verbatim>\<open>Internal::Logging\<close> and, for each thread, where it stands in \<^verbatim>\<open>Start\<close>, \<^verbatim>\<open>Stop\<close> or \<^verbatim>\<open>Instance\<close>. Each
  access to a shared variable is a step of its own; \<open>owner\<close> is the thread that holds \<^verbatim>\<open>s_mutex\<close>.
\<close>

datatype place = Outside | Start_Wait | Start_Locked | Start_Made | Stop_Wait | Stop_Locked | Stop_Reset
  | Instance_Checked | Instance_Returned "nat option"

record log_threads =
  started :: bool
  the_instance :: "nat option"
  made :: nat
  owner :: "nat option"
  place_of :: "nat \<Rightarrow> place"

definition threads_start :: log_threads where
  "threads_start = \<lparr>started = False, the_instance = None, made = 0, owner = None, place_of = (\<lambda>_. Outside)\<rparr>"

definition go :: "nat \<Rightarrow> place \<Rightarrow> log_threads \<Rightarrow> log_threads" where
  "go i p s = s\<lparr>place_of := (place_of s)(i := p)\<rparr>"

inductive log_step :: "log_threads \<Rightarrow> log_threads \<Rightarrow> bool" where
  start_call: "place_of s i = Outside \<Longrightarrow> log_step s (if started s then s else go i Start_Wait s)"
| start_lock: "place_of s i = Start_Wait \<Longrightarrow> owner s = None \<Longrightarrow> log_step s (go i Start_Locked (s\<lparr>owner := Some i\<rparr>))"
| start_again: "place_of s i = Start_Locked \<Longrightarrow> started s \<Longrightarrow> log_step s (go i Outside (s\<lparr>owner := None\<rparr>))"
| start_make: "place_of s i = Start_Locked \<Longrightarrow> \<not> started s \<Longrightarrow>
    log_step s (go i Start_Made (s\<lparr>the_instance := Some (made s), made := made s + 1\<rparr>))"
| start_store: "place_of s i = Start_Made \<Longrightarrow> log_step s (go i Outside (s\<lparr>started := True, owner := None\<rparr>))"
| stop_call: "place_of s i = Outside \<Longrightarrow> log_step s (if started s then go i Stop_Wait s else s)"
| stop_lock: "place_of s i = Stop_Wait \<Longrightarrow> owner s = None \<Longrightarrow> log_step s (go i Stop_Locked (s\<lparr>owner := Some i\<rparr>))"
| stop_again: "place_of s i = Stop_Locked \<Longrightarrow> \<not> started s \<Longrightarrow> log_step s (go i Outside (s\<lparr>owner := None\<rparr>))"
| stop_reset: "place_of s i = Stop_Locked \<Longrightarrow> started s \<Longrightarrow> log_step s (go i Stop_Reset (s\<lparr>the_instance := None\<rparr>))"
| stop_store: "place_of s i = Stop_Reset \<Longrightarrow> log_step s (go i Outside (s\<lparr>started := False, owner := None\<rparr>))"
| instance_check: "place_of s i = Outside \<Longrightarrow>
    log_step s (go i (if started s then Instance_Checked else Instance_Returned None) s)"
| instance_read: "place_of s i = Instance_Checked \<Longrightarrow> log_step s (go i (Instance_Returned (the_instance s)) s)"
| instance_used: "place_of s i = Instance_Returned x \<Longrightarrow> log_step s (go i Outside s)"

inductive log_reaches :: "log_threads \<Rightarrow> bool" where
  start: "log_reaches threads_start"
| step: "log_reaches s \<Longrightarrow> log_step s s' \<Longrightarrow> log_reaches s'"

inductive_cases log_stepE: "log_step s s'"

section \<open>Lemmas\<close>

text \<open>A queue that keeps the latest \<open>n\<close> of what is pushed.\<close>

definition latest :: "nat \<Rightarrow> 'a list \<Rightarrow> 'a list" where
  "latest n xs = drop (length xs - n) xs"

lemma latest_append: "latest n (latest n xs @ ys) = latest n (xs @ ys)"
proof (cases "length xs \<le> n")
  case True
  then show ?thesis by (simp add: latest_def)
next
  case False
  then have "length ys + (length xs - n) = length xs + length ys - n" by simp
  with False show ?thesis by (simp add: latest_def)
qed

locale latest_queue =
  fixes contents :: "'q \<Rightarrow> 'm list" and capacity :: "'q \<Rightarrow> nat" and push :: "'m \<Rightarrow> 'q \<Rightarrow> 'q"
  assumes push_contents: "length (contents q) \<le> capacity q \<Longrightarrow> contents (push m q) = latest (capacity q) (contents q @ [m])"
    and push_capacity: "capacity (push m q) = capacity q"
begin

lemma pushes_contents:
  assumes "length (contents q) \<le> capacity q"
  shows "contents (foldl (\<lambda>q m. push m q) q ms) = latest (capacity q) (contents q @ ms) \<and>
    capacity (foldl (\<lambda>q m. push m q) q ms) = capacity q"
  using assms
proof (induction ms rule: rev_induct)
  case Nil
  then show ?case by (simp add: latest_def)
next
  case (snoc m ms)
  then have "length (contents (foldl (\<lambda>q m. push m q) q ms)) \<le> capacity q" by (simp add: latest_def)
  with snoc show ?case
    using push_contents [of "foldl (\<lambda>q m. push m q) q ms" m] push_capacity [of m "foldl (\<lambda>q m. push m q) q ms"]
      latest_append [of "capacity q" "contents q @ ms" "[m]"] by simp
qed

end

lemma Queued_push_contents:
  "length (q_messages q) \<le> q_count q \<Longrightarrow> q_messages (Queued_push m q) = latest (q_count q) (q_messages q @ [m])"
proof (cases "length (q_messages q) = q_count q")
  case True
  then show ?thesis by (cases "q_messages q") (simp_all add: Queued_push_def latest_def Let_def)
next
  case False
  assume "length (q_messages q) \<le> q_count q"
  with False show ?thesis by (simp add: Queued_push_def latest_def Let_def)
qed

interpretation queued: latest_queue q_messages q_count Queued_push
  by unfold_locales (simp_all only: Queued_push_contents, simp_all add: Queued_push_def Let_def)

abbreviation push_all :: "queued_sink \<Rightarrow> byte list list \<Rightarrow> queued_sink" where
  "push_all q ms \<equiv> foldl (\<lambda>q m. Queued_push m q) q ms"

lemma push_all_frame: "push_all q ms = q\<lparr>q_messages := q_messages (push_all q ms)\<rparr>"
proof -
  have "q_count (push_all q ms) = q_count q \<and> q_formatter (push_all q ms) = q_formatter q"
    by (induction ms rule: rev_induct) (simp_all add: Queued_push_def Let_def)
  then show ?thesis by simp
qed

lemma flush_loop:
  "foldl (\<lambda>st m. (push_all (fst st) (reply m), snd st @ [m])) (q, w) ms = (push_all q (concat (map reply ms)), w @ ms)"
  by (induction ms rule: rev_induct) simp_all

section \<open>Properties\<close>

text \<open>
  Property C19. A queue with room for \<open>n\<close> messages holds the latest \<open>n\<close> that were logged, in order. A flush hands each of
  them to the callback once and in order; what the callback itself logs is not part of the same flush but stays in the
  queue, the latest \<open>n\<close> of it. A flush without a callback drops the messages.
\<close>

theorem queued_sink_keeps_latest:
  assumes "QueuedLogSink_count c = Inr q"
  shows "q_messages (push_all q ms) = latest (unat c) ms \<and>
    Queued_Size (push_all q ms) \<le> Queued_Capacity (push_all q ms) \<and>
    Queued_Flush (Some (\<lambda>m st. (push_all (fst st) (reply m), snd st @ [m]))) (push_all q ms, w) =
      (q\<lparr>q_messages := latest (unat c) (concat (map reply (latest (unat c) ms)))\<rparr>, w @ latest (unat c) ms) \<and>
    Queued_Flush (None :: (byte list \<Rightarrow> queued_sink \<times> byte list list \<Rightarrow> queued_sink \<times> byte list list) option)
      (push_all q ms, w) = (q, w)"
proof -
  have q: "q_messages q = []" "q_count q = unat c"
    using assms by (auto simp: QueuedLogSink_count_def exec_iff)
  have all: "q_messages (push_all q ms) = latest (unat c) ms \<and> q_count (push_all q ms) = unat c" for ms
    using queued.pushes_contents [of q ms] q by simp
  have empty: "push_all q ms\<lparr>q_messages := []\<rparr> = q" for ms
    using push_all_frame [of q ms] q by (metis queued_sink.surjective queued_sink.update_convs(1))
  have eqn: "push_all q ms = q\<lparr>q_messages := latest (unat c) ms\<rparr>" for ms
    using push_all_frame [of q ms] all [of ms] by simp
  have none: "latest (unat c) ms = [] \<Longrightarrow> push_all q ms = q"
    using eqn [of ms] q by simp
  have "latest (unat c) [] = ([] :: byte list list)" by (simp add: latest_def)
  then have "Queued_Flush (Some (\<lambda>m st. (push_all (fst st) (reply m), snd st @ [m]))) (push_all q ms, w) =
      (q\<lparr>q_messages := latest (unat c) (concat (map reply (latest (unat c) ms)))\<rparr>, w @ latest (unat c) ms)"
    using all [of ms] empty [of ms] none q eqn [of "concat (map reply (latest (unat c) ms))"]
    by (auto simp: Queued_Flush_def flush_loop Let_def)
  moreover have "Queued_Flush (None :: (byte list \<Rightarrow> queued_sink \<times> byte list list \<Rightarrow> queued_sink \<times> byte list list) option)
      (push_all q ms, w) = (q, w)"
    using all [of ms] empty [of ms] none by (auto simp: Queued_Flush_def Let_def)
  ultimately show ?thesis
    using all [of ms] by (simp add: Queued_Size_def Queued_Capacity_def latest_def)
qed

theorem queued_sink_keeps_latest_witness:
  "\<exists>q. QueuedLogSink_count 2 = Inr q \<and>
     q_messages (push_all q [lit ''a'', lit ''b'', lit ''c'']) = [lit ''b'', lit ''c''] \<and>
     snd (Queued_Flush (Some (\<lambda>m st. (push_all (fst st) [m], snd st @ [m])))
       (push_all q [lit ''a'', lit ''b'', lit ''c''], [])) = [lit ''b'', lit ''c'']"
proof -
  obtain q where q: "QueuedLogSink_count 2 = Inr q" by (simp add: QueuedLogSink_count_def)
  from queued_sink_keeps_latest [OF q, of "[lit ''a'', lit ''b'', lit ''c'']" "\<lambda>m. [m]" "[]"]
  have "q_messages (push_all q [lit ''a'', lit ''b'', lit ''c'']) = [lit ''b'', lit ''c'']"
    "snd (Queued_Flush (Some (\<lambda>m st. (push_all (fst st) [m], snd st @ [m])))
       (push_all q [lit ''a'', lit ''b'', lit ''c''], [])) = [lit ''b'', lit ''c'']"
    by (simp_all add: latest_def)
  with q show ?thesis by blast
qed

lemma syslog_precision_eq:
  "syslog_precision n = (if n mod 2 ^ 32 < 2 ^ 31 then int (n mod 2 ^ 32) else int (n mod 2 ^ 32) - 2 ^ 32)"
proof -
  let ?u = "int (n mod 2 ^ 32)"
  have u: "uint (of_nat n :: u32) = ?u" by (simp add: unsigned_of_nat take_bit_eq_mod zmod_int)
  have r: "0 \<le> ?u" "?u < 2 ^ 32" by (simp_all add: zmod_int)
  have s: "sint (of_nat n :: u32) = (?u + 2 ^ 31) mod 2 ^ 32 - 2 ^ 31"
    using u by (simp add: sint_uint signed_take_bit_eq_take_bit_shift take_bit_eq_mod)
  show ?thesis
  proof (cases "?u < 2 ^ 31")
    case True
    then have "(?u + 2 ^ 31) mod 2 ^ 32 = ?u + 2 ^ 31" using r by (intro mod_pos_pos_trivial) auto
    with True s show ?thesis by (simp add: syslog_precision_def)
  next
    case False
    then have "(?u + 2 ^ 31) mod 2 ^ 32 = ?u + 2 ^ 31 - 2 ^ 32"
      using r by (simp add: mod_add_self2 mod_pos_geq)
    with False s r show ?thesis by (simp add: syslog_precision_def)
  qed
qed

text \<open>
  What reaches syslog. A record goes out with the priority of its level, cut at the first 0 byte; the length that is
  meant as a safeguard against long messages is taken modulo \<open>2 ^ 32\<close>, so that a message whose length is a multiple of it
  goes out empty, and one of at least \<open>2 ^ 31\<close> bytes below the next multiple is not limited at all. The constructor fails
  an assertion exactly for an empty identity and for a local facility outside 0 to 7.
\<close>

theorem syslog_sends:
  "(case syslog_text localtime pretty sink r of
      Inl f \<Rightarrow> Syslog_Log h localtime pretty sink r ev = Inl f
    | Inr msg \<Rightarrow> Syslog_Log h localtime pretty sink r ev = Inr (ev @ [Syslog (syslog_priority h (level r))
        (takeWhile (\<lambda>c. c \<noteq> 0)
          (if length msg mod 2 ^ 32 < 2 ^ 31 then take (length msg mod 2 ^ 32) msg else msg))])) \<and>
   SyslogSink_new h f p ev =
     (if identity p \<noteq> [] \<and> (facility p = Local \<longrightarrow> 0 \<le> local_facility p \<and> local_facility p \<le> 7)
      then Inr (\<lparr>sl_params = p, sl_formatter = f\<rparr>, ev @ [Openlog (identity p) (syslog_options h (options p))
        (case facility p of User \<Rightarrow> LOG_USER h | System \<Rightarrow> LOG_DAEMON h | Local \<Rightarrow> LOG_LOCAL h (nat (local_facility p)))])
      else Inl Assert_Failed)"
proof
  show "case syslog_text localtime pretty sink r of
      Inl f \<Rightarrow> Syslog_Log h localtime pretty sink r ev = Inl f
    | Inr msg \<Rightarrow> Syslog_Log h localtime pretty sink r ev = Inr (ev @ [Syslog (syslog_priority h (level r))
        (takeWhile (\<lambda>c. c \<noteq> 0)
          (if length msg mod 2 ^ 32 < 2 ^ 31 then take (length msg mod 2 ^ 32) msg else msg))])"
  proof (cases "syslog_text localtime pretty sink r")
    case (Inl f)
    then show ?thesis by (simp add: Syslog_Log_def)
  next
    case (Inr msg)
    have "int (length msg mod 2 ^ 32) - 2 ^ 32 < 0" by (simp add: zmod_int)
    then have "precision_text (syslog_precision (length msg)) msg = takeWhile (\<lambda>c. c \<noteq> 0)
          (if length msg mod 2 ^ 32 < 2 ^ 31 then take (length msg mod 2 ^ 32) msg else msg)"
      by (simp add: precision_text_def syslog_precision_eq nat_mod_distrib)
    with Inr show ?thesis by (simp only: Syslog_Log_def and_then.simps sum.case)
  qed
  show "SyslogSink_new h f p ev =
     (if identity p \<noteq> [] \<and> (facility p = Local \<longrightarrow> 0 \<le> local_facility p \<and> local_facility p \<le> 7)
      then Inr (\<lparr>sl_params = p, sl_formatter = f\<rparr>, ev @ [Openlog (identity p) (syslog_options h (options p))
        (case facility p of User \<Rightarrow> LOG_USER h | System \<Rightarrow> LOG_DAEMON h | Local \<Rightarrow> LOG_LOCAL h (nat (local_facility p)))])
      else Inl Assert_Failed)"
    by (cases "facility p") (simp_all add: SyslogSink_new_def syslog_facility_def fusion_assert_def)
qed

text \<open>The Linux constants, and a sink that logs to syslog.\<close>

definition linux_syslog :: syslog_header where
  "linux_syslog = \<lparr>LOG_USER = 8, LOG_DAEMON = 24, LOG_LOCAL = (\<lambda>n. 128 + 8 * int n), LOG_PID = 1, LOG_CONS = 2,
     LOG_NDELAY = 8, LOG_ODELAY = 4, LOG_NOWAIT = 16, LOG_CRIT = 2, LOG_ERR = 3, LOG_WARNING = 4, LOG_INFO = 6, LOG_DEBUG = 7\<rparr>"

theorem syslog_sends_witness:
  "\<exists>sink. SyslogSink_new linux_syslog None (syslog_params_new (lit ''fusion'')) []
     = Inr (sink, [Openlog (lit ''fusion'') 21 8])"
  using conjunct2 [OF syslog_sends [where h = linux_syslog and f = None and ev = "[]" and
      p = "syslog_params_new (lit ''fusion'')"]]
  by (simp add: linux_syslog_def syslog_params_new_def syslog_options_def Option_Default_def Option_Pid_def
      Option_Lazy_def Option_NoWait_def Option_Console_def Option_NoDelay_def lit_def)

text \<open>Threads inside the critical section.\<close>

definition inside :: "place \<Rightarrow> bool" where
  "inside p \<longleftrightarrow> p \<in> {Start_Locked, Start_Made, Stop_Locked, Stop_Reset}"

definition threads_ok :: "log_threads \<Rightarrow> bool" where
  "threads_ok s \<longleftrightarrow> (\<forall>i. inside (place_of s i) \<longleftrightarrow> owner s = Some i) \<and>
     (\<forall>i. place_of s i = Start_Made \<longrightarrow> \<not> started s \<and> the_instance s \<noteq> None) \<and>
     (\<forall>i. place_of s i = Stop_Reset \<longrightarrow> started s \<and> the_instance s = None) \<and>
     ((\<forall>i. place_of s i \<noteq> Start_Made \<and> place_of s i \<noteq> Stop_Reset) \<longrightarrow> started s = (the_instance s \<noteq> None))"

lemma inside_simps [simp]:
  "inside Start_Locked" "inside Start_Made" "inside Stop_Locked" "inside Stop_Reset"
  "\<not> inside Outside" "\<not> inside Start_Wait" "\<not> inside Stop_Wait" "\<not> inside Instance_Checked" "\<not> inside (Instance_Returned x)"
  by (simp_all add: inside_def)

lemma go_simps [simp]:
  "started (go i p s) = started s" "the_instance (go i p s) = the_instance s" "made (go i p s) = made s"
  "owner (go i p s) = owner s" "place_of (go i p s) j = (if j = i then p else place_of s j)"
  by (simp_all add: go_def)

text \<open>A step of a thread that keeps out of the critical section, and one of the thread inside.\<close>

lemma threads_ok_outside:
  assumes "threads_ok s" and "\<not> inside (place_of s i)" and "\<not> inside p"
  shows "threads_ok (go i p s)"
proof -
  have "place_of s i \<noteq> Start_Made" "place_of s i \<noteq> Stop_Reset" "p \<noteq> Start_Made" "p \<noteq> Stop_Reset" using assms by auto
  with assms show ?thesis unfolding threads_ok_def by (auto split: if_splits)
qed

lemma threads_ok_inside:
  assumes "threads_ok s" and "inside (place_of s i)"
  shows "owner s = Some i \<and> (\<forall>j. j \<noteq> i \<longrightarrow> \<not> inside (place_of s j))"
  using assms by (auto simp: threads_ok_def)

lemma threads_ok_locked:
  assumes "threads_ok s" and "inside (place_of s i)" and "place_of s i \<noteq> Start_Made" and "place_of s i \<noteq> Stop_Reset"
  shows "started s = (the_instance s \<noteq> None)"
proof -
  have "place_of s j \<noteq> Start_Made \<and> place_of s j \<noteq> Stop_Reset" for j
    using threads_ok_inside [OF assms(1,2)] assms(3,4) by (cases "j = i") (auto dest: spec [of _ j])
  with assms(1) show ?thesis by (simp add: threads_ok_def)
qed

lemma threads_ok_leave:
  assumes "threads_ok s" and "inside (place_of s i)" and "b = (x \<noteq> None)"
  shows "threads_ok (go i Outside (s\<lparr>started := b, the_instance := x, owner := None\<rparr>))"
proof -
  have "\<not> inside (place_of s j)" if "j \<noteq> i" for j using threads_ok_inside [OF assms(1,2)] that by blast
  then show ?thesis using assms(3) unfolding threads_ok_def by (auto split: if_splits) (metis inside_simps(2,4))+
qed

lemma keep_shared:
  "the_instance s = y \<Longrightarrow> s\<lparr>started := b, the_instance := y, owner := x\<rparr> = s\<lparr>started := b, owner := x\<rparr>"
  "started s = b \<Longrightarrow> s\<lparr>started := b, owner := x\<rparr> = s\<lparr>owner := x\<rparr>"
  "s\<lparr>the_instance := y, made := made s\<rparr> = s\<lparr>the_instance := y\<rparr>"
  by (cases s; simp)+

lemma threads_ok_lock:
  assumes "threads_ok s" and "owner s = None" and "inside p" and "p \<noteq> Start_Made" and "p \<noteq> Stop_Reset"
  shows "threads_ok (go i p (s\<lparr>owner := Some i\<rparr>))"
proof -
  have "\<not> inside (place_of s j)" for j using assms(1,2) by (simp add: threads_ok_def)
  then have "place_of s j \<noteq> Start_Made" "place_of s j \<noteq> Stop_Reset" for j by (metis inside_simps)+
  with assms show ?thesis unfolding threads_ok_def by (auto split: if_splits)
qed

lemma threads_ok_half:
  assumes "threads_ok s" and "inside (place_of s i)"
    and "p = Start_Made \<and> \<not> started s \<and> x \<noteq> None \<or> p = Stop_Reset \<and> started s \<and> x = None"
  shows "threads_ok (go i p (s\<lparr>the_instance := x, made := m\<rparr>))"
proof -
  note own = threads_ok_inside [OF assms(1,2)]
  then have "place_of s j \<noteq> Start_Made" "place_of s j \<noteq> Stop_Reset" if "j \<noteq> i" for j
    using that by (metis inside_simps)+
  with own assms(3) show ?thesis unfolding threads_ok_def by (auto split: if_splits)
qed

lemma threads_ok_step:
  assumes "log_step s s'" and ok: "threads_ok s"
  shows "threads_ok s'"
  using assms(1)
proof cases
  case (start_call i)
  then show ?thesis using ok threads_ok_outside [OF ok, of i Start_Wait] by auto
next
  case (start_lock i)
  then show ?thesis using threads_ok_lock [OF ok, of Start_Locked i] by simp
next
  case (start_again i)
  then show ?thesis using threads_ok_leave [OF ok, of i "started s" "the_instance s"] threads_ok_locked [OF ok, of i]
    by (simp add: keep_shared)
next
  case (start_make i)
  then show ?thesis using threads_ok_half [OF ok, of i Start_Made "Some (made s)"] by simp
next
  case (start_store i)
  moreover from this ok have "the_instance s \<noteq> None" by (auto simp: threads_ok_def)
  ultimately show ?thesis using threads_ok_leave [OF ok, of i True "the_instance s"] by (simp add: keep_shared)
next
  case (stop_call i)
  then show ?thesis using ok threads_ok_outside [OF ok, of i Stop_Wait] by auto
next
  case (stop_lock i)
  then show ?thesis using threads_ok_lock [OF ok, of Stop_Locked i] by simp
next
  case (stop_again i)
  then show ?thesis using threads_ok_leave [OF ok, of i "started s" "the_instance s"] threads_ok_locked [OF ok, of i]
    by (simp add: keep_shared)
next
  case (stop_reset i)
  then show ?thesis using threads_ok_half [OF ok, of i Stop_Reset None "made s"] by (simp add: keep_shared)
next
  case (stop_store i)
  moreover from this ok have "the_instance s = None" by (auto simp: threads_ok_def)
  ultimately show ?thesis using threads_ok_leave [OF ok, of i False "the_instance s"] by (simp add: keep_shared)
next
  case (instance_check i)
  then show ?thesis using threads_ok_outside [OF ok, of i] by simp
next
  case (instance_read i)
  then show ?thesis using threads_ok_outside [OF ok, of i] by simp
next
  case (instance_used i x)
  then show ?thesis using threads_ok_outside [OF ok, of i] by simp
qed

lemma log_reaches_ok: "log_reaches s \<Longrightarrow> threads_ok s"
proof (induction rule: log_reaches.induct)
  case start
  show ?case by (simp add: threads_ok_def threads_start_def)
next
  case (step s s')
  then show ?case using threads_ok_step by blast
qed

text \<open>A lookup that has seen the system started and reads the instance after another thread has stopped it.\<close>

lemma instance_race:
  "\<exists>s s'. log_reaches s \<and> place_of s 0 = Instance_Checked \<and> log_step s s' \<and> place_of s' 0 = Instance_Returned None"
proof -
  let ?s = "\<lambda>st inst ow p0 p1. \<lparr>started = st, the_instance = inst, made = Suc 0, owner = ow,
    place_of = (\<lambda>_. Outside)(0 := p0, Suc 0 := p1)\<rparr>"
  have go: "go (Suc 0) p (?s st inst ow p0 p1) = ?s st inst ow p0 p"
    "go 0 p (?s st inst ow p0 p1) = ?s st inst ow p p1" for p st inst ow p0 p1
    by (auto simp: go_def fun_upd_twist)
  have "log_reaches (go 0 Start_Wait threads_start)"
    using log_step.start_call [of threads_start 0] log_reaches.start log_reaches.step
    by (fastforce simp: threads_start_def)
  moreover have "log_step (go 0 Start_Wait threads_start) (go 0 Start_Locked (threads_start\<lparr>owner := Some 0\<rparr>))"
    using log_step.start_lock [of "go 0 Start_Wait threads_start" 0] by (simp add: go_def threads_start_def)
  moreover have "log_step (go 0 Start_Locked (threads_start\<lparr>owner := Some 0\<rparr>)) (?s False (Some 0) (Some 0) Start_Made Outside)"
    using log_step.start_make [of "go 0 Start_Locked (threads_start\<lparr>owner := Some 0\<rparr>)" 0]
    by (simp add: go_def threads_start_def fun_upd_idem)
  moreover have "log_step (?s False (Some 0) (Some 0) Start_Made Outside) (?s True (Some 0) None Outside Outside)"
    using log_step.start_store [of "?s False (Some 0) (Some 0) Start_Made Outside" 0] by (simp add: go)
  moreover have "log_step (?s True (Some 0) None Outside Outside) (?s True (Some 0) None Instance_Checked Outside)"
    using log_step.instance_check [of "?s True (Some 0) None Outside Outside" 0] by (simp add: go)
  moreover have "log_step (?s True (Some 0) None Instance_Checked Outside) (?s True (Some 0) None Instance_Checked Stop_Wait)"
    using log_step.stop_call [of "?s True (Some 0) None Instance_Checked Outside" "Suc 0"] by (simp add: go)
  moreover have "log_step (?s True (Some 0) None Instance_Checked Stop_Wait) (?s True (Some 0) (Some (Suc 0)) Instance_Checked Stop_Locked)"
    using log_step.stop_lock [of "?s True (Some 0) None Instance_Checked Stop_Wait" "Suc 0"] by (simp add: go)
  moreover have "log_step (?s True (Some 0) (Some (Suc 0)) Instance_Checked Stop_Locked) (?s True None (Some (Suc 0)) Instance_Checked Stop_Reset)"
    using log_step.stop_reset [of "?s True (Some 0) (Some (Suc 0)) Instance_Checked Stop_Locked" "Suc 0"] by (simp add: go)
  ultimately have "log_reaches (?s True None (Some (Suc 0)) Instance_Checked Stop_Reset)"
    by (metis log_reaches.step)
  moreover have "log_step (?s True None (Some (Suc 0)) Instance_Checked Stop_Reset)
      (?s True None (Some (Suc 0)) (Instance_Returned None) Stop_Reset)"
    using log_step.instance_read [of "?s True None (Some (Suc 0)) Instance_Checked Stop_Reset" 0] by (simp add: go)
  ultimately show ?thesis by (intro exI conjI) (assumption | simp)+
qed



end
