(* ===== verification/Console.thy ===== *)
theory Console
  imports Logging
begin

text \<open>
  The console of \<^verbatim>\<open>Console.h\<close>, \<^verbatim>\<open>Console.cpp\<close> and \<^verbatim>\<open>platforms/posix/Console.cpp\<close>, and the sink \<^verbatim>\<open>ConsoleLogger\<close>, which collects lines in a
  string and writes them in blocks. What the process has written is a pair of texts. The string has a capacity
  beside its contents; how an implementation lets the capacity grow and shrink is the parameter \<open>grow\<close> and \<open>shrink\<close>. The
  answers of the terminal are parameters.
\<close>

section \<open>Model\<close>

subsection \<open>Colors, targets and features\<close>

datatype Color = Color_None | Reset | Bold | Dark | Underline | Blink | Reverse | Concealed | ClearLine
  | Black | Red | Green | Yellow | Blue | Magenta | Cyan | White
  | BackgroundBlack | BackgroundRed | BackgroundGreen | BackgroundYellow | BackgroundBlue | BackgroundMagenta
  | BackgroundCyan | BackgroundWhite | BoldYellow | BoldRed | BoldOnRed

definition escape :: "string \<Rightarrow> byte list" where
  "escape s = 27 # lit s"

fun Color_ToString :: "Color \<Rightarrow> byte list" where
  "Color_ToString Color_None = []"
| "Color_ToString Reset = escape ''[m''"
| "Color_ToString Bold = escape ''[1m''"
| "Color_ToString Dark = escape ''[2m''"
| "Color_ToString Underline = escape ''[4m''"
| "Color_ToString Blink = escape ''[5m''"
| "Color_ToString Reverse = escape ''[7m''"
| "Color_ToString Concealed = escape ''[8m''"
| "Color_ToString ClearLine = escape ''[K''"
| "Color_ToString Black = escape ''[30m''"
| "Color_ToString Red = escape ''[31m''"
| "Color_ToString Green = escape ''[32m''"
| "Color_ToString Yellow = escape ''[33m''"
| "Color_ToString Blue = escape ''[34m''"
| "Color_ToString Magenta = escape ''[35m''"
| "Color_ToString Cyan = escape ''[36m''"
| "Color_ToString White = escape ''[37m''"
| "Color_ToString BackgroundBlack = escape ''[40m''"
| "Color_ToString BackgroundRed = escape ''[41m''"
| "Color_ToString BackgroundGreen = escape ''[42m''"
| "Color_ToString BackgroundYellow = escape ''[43m''"
| "Color_ToString BackgroundBlue = escape ''[44m''"
| "Color_ToString BackgroundMagenta = escape ''[45m''"
| "Color_ToString BackgroundCyan = escape ''[46m''"
| "Color_ToString BackgroundWhite = escape ''[47m''"
| "Color_ToString BoldYellow = escape ''[33m'' @ escape ''[1m''"
| "Color_ToString BoldRed = escape ''[31m'' @ escape ''[1m''"
| "Color_ToString BoldOnRed = escape ''[1m'' @ escape ''[41m''"

datatype Target = Target_None | Stdin | Stdout | Stderr

record streams =
  out :: "byte list"
  err :: "byte list"

fun Console_Write :: "Target \<Rightarrow> byte list \<Rightarrow> streams \<Rightarrow> streams" where
  "Console_Write Stderr s w = w\<lparr>err := err w @ s\<rparr>"
| "Console_Write Stdout s w = w\<lparr>out := out w @ s\<rparr>"
| "Console_Write _ s w = w"

text \<open>The template that formats first; \<open>None\<close> when formatting throws.\<close>

definition Console_Write_format :: "Target \<Rightarrow> byte list option \<Rightarrow> streams \<Rightarrow> streams" where
  "Console_Write_format target formatted w =
     (case formatted of None \<Rightarrow> w | Some msg \<Rightarrow> Console_Write target msg w)"

fun GetTargetHandle :: "Target \<Rightarrow> int" where
  "GetTargetHandle Stdin = 0"
| "GetTargetHandle Stdout = 1"
| "GetTargetHandle Stderr = 2"
| "GetTargetHandle Target_None = - 1"

record features =
  f_colors :: bool
  f_bold :: bool
  f_dark :: bool
  f_echo :: bool
  f_interactive :: bool
  f_width :: int

text \<open>
  The terminal: whether a descriptor is one, its number of columns, and the local flags of standard input, \<open>None\<close> where
  the call fails.
\<close>

record terminal =
  isatty :: "int \<Rightarrow> bool"
  columns :: "int \<Rightarrow> u16 option"
  lflag :: "u32 option"

definition IsInteractive :: "terminal \<Rightarrow> Target \<Rightarrow> bool" where
  "IsInteractive t target = isatty t (GetTargetHandle target)"

definition GetFeatures :: "u32 \<Rightarrow> terminal \<Rightarrow> Target \<Rightarrow> features" where
  "GetFeatures ECHO t target =
     (let i = IsInteractive t target; fd = GetTargetHandle target in
      \<lparr>f_colors = i, f_bold = i, f_dark = False,
       f_echo = (case lflag t of None \<Rightarrow> False | Some f \<Rightarrow> f AND ECHO \<noteq> 0),
       f_interactive = i,
       f_width = (case columns t fd of None \<Rightarrow> 2 ^ 31 - 1 | Some c \<Rightarrow> if c \<noteq> 0 then uint c else 2 ^ 31 - 1)\<rparr>)"

definition SetConsoleEcho :: "u32 \<Rightarrow> bool \<Rightarrow> terminal \<Rightarrow> terminal" where
  "SetConsoleEcho ECHO b t =
     (case lflag t of None \<Rightarrow> t | Some f \<Rightarrow> t\<lparr>lflag := Some (if b then f OR ECHO else f AND NOT ECHO)\<rparr>)"

subsection \<open>A string with a capacity\<close>

record cstring =
  chars :: "byte list"
  cap :: nat

definition str_reserve :: "(nat \<Rightarrow> nat \<Rightarrow> nat) \<Rightarrow> nat \<Rightarrow> cstring \<Rightarrow> cstring" where
  "str_reserve grow n s = (if cap s < n then s\<lparr>cap := grow (cap s) n\<rparr> else s)"

definition str_append :: "(nat \<Rightarrow> nat \<Rightarrow> nat) \<Rightarrow> byte list \<Rightarrow> cstring \<Rightarrow> cstring" where
  "str_append grow t s =
     (let s = str_reserve grow (length (chars s) + length t) s in s\<lparr>chars := chars s @ t\<rparr>)"

definition str_appends :: "(nat \<Rightarrow> nat \<Rightarrow> nat) \<Rightarrow> byte list list \<Rightarrow> cstring \<Rightarrow> cstring" where
  "str_appends grow ts s = foldl (\<lambda>s t. str_append grow t s) s ts"

definition str_clear :: "cstring \<Rightarrow> cstring" where
  "str_clear s = s\<lparr>chars := []\<rparr>"

definition str_resize :: "(nat \<Rightarrow> nat \<Rightarrow> nat) \<Rightarrow> nat \<Rightarrow> cstring \<Rightarrow> cstring" where
  "str_resize grow n s =
     (if n \<le> length (chars s) then s\<lparr>chars := take n (chars s)\<rparr>
      else str_append grow (replicate (n - length (chars s)) 0) s)"

definition str_shrink :: "(nat \<Rightarrow> nat \<Rightarrow> nat) \<Rightarrow> cstring \<Rightarrow> cstring" where
  "str_shrink shrink s = s\<lparr>cap := shrink (cap s) (length (chars s))\<rparr>"

subsection \<open>ConsoleLogger\<close>

record console_params =
  cp_target :: Target
  bufferSize :: nat
  cp_colors :: bool
  cp_dark :: bool
  cp_timestamps :: bool
  cp_json :: bool

definition console_defaults :: console_params where
  "console_defaults = \<lparr>cp_target = Stdout, bufferSize = 4 * 1024, cp_colors = False, cp_dark = False,
     cp_timestamps = False, cp_json = False\<rparr>"

record console_logger =
  cl_params :: console_params
  cl_buffer :: cstring
  cl_formatter :: formatter

definition ConsoleLogger_new ::
  "(nat \<Rightarrow> nat \<Rightarrow> nat) \<Rightarrow> formatter option \<Rightarrow> console_params \<Rightarrow> console_logger" where
  "ConsoleLogger_new grow f p =
     \<lparr>cl_params = p, cl_buffer = str_reserve grow (bufferSize p) \<lparr>chars = [], cap = 15\<rparr>,
      cl_formatter = (case f of
         Some f \<Rightarrow> f
       | None \<Rightarrow> LogFormatter_Create (default_params\<lparr>json := cp_json p, colors := cp_colors p, timestamps := cp_timestamps p\<rparr>))\<rparr>"

definition ConsoleLogger_destroy :: "console_logger \<Rightarrow> streams \<Rightarrow> streams" where
  "ConsoleLogger_destroy cl w =
     (let target = cp_target (cl_params cl);
          w = (if chars (cl_buffer cl) \<noteq> [] then Console_Write target (chars (cl_buffer cl)) w else w)
      in if cp_colors (cl_params cl) then Console_Write target (escape ''[0m'') w else w)"

definition FlushBuffer ::
  "(nat \<Rightarrow> nat \<Rightarrow> nat) \<Rightarrow> (nat \<Rightarrow> nat \<Rightarrow> nat) \<Rightarrow> console_params \<Rightarrow> LogLevel \<Rightarrow> cstring \<Rightarrow> streams \<Rightarrow> cstring \<times> streams" where
  "FlushBuffer grow shrink p l buffer w =
     (let capacity = (length (chars buffer) \<ge> bufferSize p);
          (buffer, w) = (if Warning \<le> l \<or> capacity
             then (str_clear buffer, Console_Write (cp_target p) (chars buffer) w) else (buffer, w))
      in if capacity \<and> cap buffer > bufferSize p
         then (str_shrink shrink (str_resize grow (bufferSize p) buffer), w) else (buffer, w))"

fun level_color :: "LogLevel \<Rightarrow> byte list" where
  "level_color Fatal = Color_ToString Magenta"
| "level_color Error = Color_ToString Red"
| "level_color Warning = Color_ToString Yellow"
| "level_color Trace = Color_ToString Cyan"
| "level_color _ = []"

definition LogText ::
  "(int \<Rightarrow> tm option) \<Rightarrow> (nat \<Rightarrow> nat \<Rightarrow> nat) \<Rightarrow> console_params \<Rightarrow> LogRecord \<Rightarrow> cstring \<Rightarrow> cstring exec" where
  "LogText localtime grow p r buffer =
     (let buffer = str_reserve grow (64 + length (message r)) buffer;
          buffer = (if cp_colors p then str_append grow (level_color (level r)) (str_append grow (Color_ToString Reset) buffer)
                    else buffer)
      in and_then (if cp_timestamps p
           then and_then (timestamp localtime (record_time r)) (\<lambda>time. Inr (str_appends grow [lit ''['', time, lit '']''] buffer))
           else Inr buffer) (\<lambda>buffer.
         let buffer = (if logger r \<noteq> [] then str_appends grow [lit ''['', logger r, lit '']''] buffer else buffer);
             buffer = str_appends grow [lit ''['', LogLevel_ToString (level r), lit '']''] buffer;
             buffer = (if \<not> LogLocation_Empty (location r)
               then str_appends grow [lit ''['', shortFilename (location r), lit '':'', to_string (unat (lineno (location r))),
                 lit '']''] buffer else buffer);
             buffer = str_appends grow [lit '' '', message r, [10]] buffer
         in Inr (if cp_colors p then str_append grow (Color_ToString Reset) buffer else buffer)))"

definition LogJson ::
  "(int \<Rightarrow> tm option) \<Rightarrow> (json_value \<Rightarrow> byte list) \<Rightarrow> (nat \<Rightarrow> nat \<Rightarrow> nat) \<Rightarrow> formatter \<Rightarrow> LogRecord \<Rightarrow> cstring \<Rightarrow> cstring exec" where
  "LogJson localtime pretty grow f r buffer =
     and_then (FormatTo localtime pretty f [] r) (\<lambda>text. Inr (str_append grow text buffer))"

definition ConsoleLogger_Log ::
  "(int \<Rightarrow> tm option) \<Rightarrow> (json_value \<Rightarrow> byte list) \<Rightarrow> (nat \<Rightarrow> nat \<Rightarrow> nat) \<Rightarrow> (nat \<Rightarrow> nat \<Rightarrow> nat) \<Rightarrow> LogRecord
     \<Rightarrow> console_logger \<Rightarrow> streams \<Rightarrow> (console_logger \<times> streams) exec" where
  "ConsoleLogger_Log localtime pretty grow shrink r cl w =
     and_then (if cp_json (cl_params cl)
         then LogJson localtime pretty grow (cl_formatter cl) r (cl_buffer cl)
         else LogText localtime grow (cl_params cl) r (cl_buffer cl)) (\<lambda>buffer.
     let (buffer, w) = FlushBuffer grow shrink (cl_params cl) (level r) buffer w in
     Inr (cl\<lparr>cl_buffer := buffer\<rparr>, w))"

section \<open>Lemmas\<close>

text \<open>The line of a record: the groups of the text formatter, between the colors.\<close>

definition console_line :: "(int \<Rightarrow> tm option) \<Rightarrow> console_params \<Rightarrow> LogRecord \<Rightarrow> byte list" where
  "console_line localtime p r =
     (if cp_colors p then Color_ToString Reset @ level_color (level r) else [])
     @ concat (map bracket (line_groups localtime (default_params\<lparr>timestamps := cp_timestamps p\<rparr>) r)) @ lit '' '' @ message r @ [10]
     @ (if cp_colors p then Color_ToString Reset else [])"

text \<open>What every implementation of a string guarantees of its capacity.\<close>

locale string_storage =
  fixes grow shrink :: "nat \<Rightarrow> nat \<Rightarrow> nat"
  assumes grow_enough: "n \<le> grow c n" and shrink_enough: "n \<le> c \<Longrightarrow> n \<le> shrink c n"
begin

lemma append_chars [simp]: "chars (str_append grow t s) = chars s @ t"
  by (simp add: str_append_def str_reserve_def Let_def)

lemma append_cap: "length (chars (str_append grow t s)) \<le> cap (str_append grow t s)"
  using grow_enough [of "length (chars s) + length t" "cap s"] by (simp add: str_append_def str_reserve_def Let_def)

lemma reserve_chars [simp]: "chars (str_reserve grow n s) = chars s"
  by (simp add: str_reserve_def)

lemma resize_cleared: "chars (str_resize grow n (str_clear s)) = replicate n 0"
  by (simp add: str_resize_def str_clear_def)

lemma appends_chars [simp]: "chars (str_appends grow ts s) = chars s @ concat ts"
  by (induction ts arbitrary: s) (simp_all add: str_appends_def)

lemma appends_cap: "ts \<noteq> [] \<Longrightarrow> length (chars (str_appends grow ts s)) \<le> cap (str_appends grow ts s)"
  by (induction ts rule: rev_induct) (use append_cap in \<open>auto simp: str_appends_def simp del: append_chars\<close>)

text \<open>The three things that can happen to a buffer that has received a line.\<close>

lemma flush_cases:
  "chars (fst (FlushBuffer grow shrink p l b w)) =
      (if length (chars b) < bufferSize p then (if Warning \<le> l then [] else chars b)
       else if cap b > bufferSize p then replicate (bufferSize p) 0 else []) \<and>
    snd (FlushBuffer grow shrink p l b w) =
      (if Warning \<le> l \<or> bufferSize p \<le> length (chars b) then Console_Write (cp_target p) (chars b) w else w)"
  by (auto simp: FlushBuffer_def Let_def resize_cleared str_shrink_def) (auto simp: str_clear_def)

lemma LogText_cap: "LogText localtime grow p r b = Inr b' \<Longrightarrow> length (chars b') \<le> cap b'"
  by (auto simp: LogText_def Let_def and_then_Inr_iff simp del: append_chars appends_chars
      intro: append_cap appends_cap split: if_splits)

lemma LogText_chars:
  assumes "\<And>now. localtime (record_time r) = Some now \<Longrightarrow> tm_ok now"
  shows "\<exists>b'. LogText localtime grow p r b = Inr b' \<and> chars b' = chars b @ console_line localtime p r \<and>
    length (chars b') \<le> cap b'"
proof -
  have "\<exists>b'. LogText localtime grow p r b = Inr b' \<and> chars b' = chars b @ console_line localtime p r"
    using timestamp_ok [OF assms]
    by (simp add: LogText_def Let_def console_line_def line_groups_def bracket_def default_params_def)
  then show ?thesis using LogText_cap by blast
qed

end

text \<open>The strings of the common implementations double their capacity and shrink to the size.\<close>

definition doubling :: "nat \<Rightarrow> nat \<Rightarrow> nat" where
  "doubling c n = max n (2 * c)"

definition to_fit :: "nat \<Rightarrow> nat \<Rightarrow> nat" where
  "to_fit c n = n"

interpretation doubling: string_storage doubling to_fit
  by unfold_locales (simp_all add: doubling_def to_fit_def)

section \<open>Properties\<close>

lemma ConsoleLogger_Log_text:
  assumes storage: "string_storage grow shrink" and time: "\<forall>now. localtime (record_time r) = Some now \<longrightarrow> tm_ok now"
    and mode: "\<not> cp_json (cl_params cl)" and p: "cl_params cl = p"
  obtains cl' w' and b :: cstring where "ConsoleLogger_Log localtime pretty grow shrink r cl w = Inr (cl', w')" and "cl_params cl' = p"
    and "length (chars b) \<le> cap b" and "chars b = chars (cl_buffer cl) @ console_line localtime p r"
    and "chars (cl_buffer cl') = (if length (chars b) < bufferSize p then (if Warning \<le> level r then [] else chars b)
      else if cap b > bufferSize p then replicate (bufferSize p) 0 else [])"
    and "w' = (if Warning \<le> level r \<or> bufferSize p \<le> length (chars b) then Console_Write (cp_target p) (chars b) w else w)"
proof -
  obtain b where b: "LogText localtime grow p r (cl_buffer cl) = Inr b"
    "chars b = chars (cl_buffer cl) @ console_line localtime p r" "length (chars b) \<le> cap b"
    using string_storage.LogText_chars [OF storage] time by blast
  obtain b' w' where f: "FlushBuffer grow shrink p (level r) b w = (b', w')" by fastforce
  note flush = string_storage.flush_cases [OF storage, of p "level r" b w, unfolded f fst_conv snd_conv]
  have "ConsoleLogger_Log localtime pretty grow shrink r cl w = Inr (cl\<lparr>cl_buffer := b'\<rparr>, w')"
    using mode p b(1) f by (simp add: ConsoleLogger_Log_def)
  then show ?thesis
    by (rule that [OF _ _ b(3,2)]) (use flush p in \<open>auto simp del: b\<close>)
qed

text \<open>
  What a console logger writes, in text mode. While the buffer with the new line stays shorter than \<^verbatim>\<open>bufferSize\<close>, a
  record below \<^verbatim>\<open>Warning\<close> is only buffered and any other writes the buffer and empties it. As soon as a line makes the buffer longer
  than \<^verbatim>\<open>bufferSize\<close> everything is written, but then the buffer is filled with \<^verbatim>\<open>bufferSize\<close> zero bytes, so that every
  record from then on is written with these in front of it.
\<close>

theorem console_zero_padding:
  assumes "string_storage grow shrink" and "\<And>t now. localtime t = Some now \<Longrightarrow> tm_ok now"
    and "\<not> cp_json (cl_params cl)"
    and "p = cl_params cl" and "text = chars (cl_buffer cl) @ console_line localtime p r"
  shows "\<exists>cl' w'. ConsoleLogger_Log localtime pretty grow shrink r cl w = Inr (cl', w') \<and>
    (length text < bufferSize p \<longrightarrow>
      chars (cl_buffer cl') = (if Warning \<le> level r then [] else text) \<and>
      w' = (if Warning \<le> level r then Console_Write (cp_target p) text w else w)) \<and>
    (bufferSize p < length text \<longrightarrow>
      w' = Console_Write (cp_target p) text w \<and> chars (cl_buffer cl') = replicate (bufferSize p) 0 \<and>
      (\<forall>r'. \<exists>cl''. ConsoleLogger_Log localtime pretty grow shrink r' cl' w' =
         Inr (cl'', Console_Write (cp_target p) (replicate (bufferSize p) 0 @ console_line localtime p r') w') \<and>
         chars (cl_buffer cl'') = replicate (bufferSize p) 0))"
proof -
  have ok: "\<forall>now. localtime (record_time r) = Some now \<longrightarrow> tm_ok now" for r using assms(2) by blast
  obtain cl' w' and b :: cstring where 1: "ConsoleLogger_Log localtime pretty grow shrink r cl w = Inr (cl', w')" "cl_params cl' = p"
    "length (chars b) \<le> cap b" "chars b = text"
    "chars (cl_buffer cl') = (if length (chars b) < bufferSize p then (if Warning \<le> level r then [] else chars b)
      else if cap b > bufferSize p then replicate (bufferSize p) 0 else [])"
    "w' = (if Warning \<le> level r \<or> bufferSize p \<le> length (chars b) then Console_Write (cp_target p) (chars b) w else w)"
    using ConsoleLogger_Log_text [where localtime = localtime, OF assms(1) ok [of r] assms(3) assms(4) [symmetric], where pretty = pretty and w = w]
    unfolding assms(5) by blast
  have "\<exists>cl''. ConsoleLogger_Log localtime pretty grow shrink r' cl' w' =
         Inr (cl'', Console_Write (cp_target p) (replicate (bufferSize p) 0 @ console_line localtime p r') w') \<and>
         chars (cl_buffer cl'') = replicate (bufferSize p) 0" if "bufferSize p < length text" for r'
  proof -
    have z: "chars (cl_buffer cl') = replicate (bufferSize p) 0" using 1 that by simp
    have "console_line localtime p r' \<noteq> []" by (simp add: console_line_def)
    then have len: "bufferSize p < length (replicate (bufferSize p) 0 @ console_line localtime p r')" by simp
    have j: "\<not> cp_json (cl_params cl')" using assms(3,4) 1(2) by simp
    obtain cl'' w'' and b :: cstring where "ConsoleLogger_Log localtime pretty grow shrink r' cl' w' = Inr (cl'', w'')"
      "length (chars b) \<le> cap b" "chars b = replicate (bufferSize p) 0 @ console_line localtime p r'"
      "chars (cl_buffer cl'') = (if length (chars b) < bufferSize p then (if Warning \<le> level r' then [] else chars b)
        else if cap b > bufferSize p then replicate (bufferSize p) 0 else [])"
      "w'' = (if Warning \<le> level r' \<or> bufferSize p \<le> length (chars b) then Console_Write (cp_target p) (chars b) w' else w')"
      using ConsoleLogger_Log_text [where localtime = localtime, OF assms(1) ok [of r'] j 1(2), where pretty = pretty and w = w'] unfolding z by blast
    moreover from this len have "bufferSize p < cap b" by (metis order_less_le_trans)
    ultimately show ?thesis using len by auto
  qed
  with 1 show ?thesis by (intro exI [of _ cl'] exI [of _ w']) auto
qed

theorem console_zero_padding_witness:
  "\<exists>cl'. ConsoleLogger_Log (\<lambda>_. None) (\<lambda>_. []) doubling to_fit
     \<lparr>record_time = 0, logger = [], threadId = 0, level = Info, location = LogLocation_none, message = lit ''hello''\<rparr>
     (ConsoleLogger_new doubling None (console_defaults\<lparr>bufferSize := 4\<rparr>)) \<lparr>out = [], err = []\<rparr>
     = Inr (cl', \<lparr>out = lit ''[Info] hello'' @ [10], err = []\<rparr>) \<and> chars (cl_buffer cl') = [0, 0, 0, 0]"
proof -
  let ?r = "\<lparr>record_time = 0, logger = [], threadId = 0, level = Info, location = LogLocation_none, message = lit ''hello''\<rparr>"
  let ?cl = "ConsoleLogger_new doubling None (console_defaults\<lparr>bufferSize := 4\<rparr>)"
  have "chars (cl_buffer ?cl) @ console_line (\<lambda>_. None) (cl_params ?cl) ?r = lit ''[Info] hello'' @ [10]"
    by (simp add: ConsoleLogger_new_def console_defaults_def console_line_def line_groups_def default_params_def
        bracket_def LogLocation_none_def LogLocation_Empty_def str_reserve_def lit_def)
  note line = this
  have j: "\<not> cp_json (cl_params ?cl)" and size: "bufferSize (cl_params ?cl) = 4" "cp_target (cl_params ?cl) = Stdout"
    by (simp_all add: ConsoleLogger_new_def console_defaults_def)
  obtain cl' w' where l: "ConsoleLogger_Log (\<lambda>_. None) (\<lambda>_. []) doubling to_fit ?r ?cl \<lparr>out = [], err = []\<rparr> = Inr (cl', w')"
    and w: "w' = Console_Write Stdout (lit ''[Info] hello'' @ [10]) \<lparr>out = [], err = []\<rparr>"
    and c: "chars (cl_buffer cl') = replicate 4 0"
    using console_zero_padding [where localtime = "\<lambda>_. None" and cl = ?cl and r = ?r and pretty = "\<lambda>_. []" and
        w = "\<lparr>out = [], err = []\<rparr>", OF doubling.string_storage_axioms _ j refl refl]
    unfolding line size by auto
  then show ?thesis by (simp add: eval_nat_numeral)
qed

text \<open>
  Without colors the console prints what the text formatter with locations prints; a formatter given to the
  constructor is used only in JSON mode.
\<close>

lemma console_text_is_standard:
  assumes "\<And>now. localtime (record_time r) = Some now \<Longrightarrow> tm_ok now" and "\<not> cp_colors p"
  shows "Standard_FormatTo localtime (default_params\<lparr>timestamps := cp_timestamps p\<rparr>) msg r =
    Inr (msg @ console_line localtime p r)"
  using Standard_FormatTo_eq [OF assms(1)] assms(2) by (simp add: console_line_def lit_def)

text \<open>Turning the echo of the terminal off and on again restores the flags of a terminal that echoes.\<close>

lemma console_echo:
  assumes "lflag t = Some f" and "f AND ECHO = ECHO"
  shows "SetConsoleEcho ECHO True (SetConsoleEcho ECHO False t) = t" and
    "ECHO \<noteq> 0 \<Longrightarrow> f_echo (GetFeatures ECHO (SetConsoleEcho ECHO b t) target) = b"
proof -
  have "(f AND NOT ECHO) OR ECHO = f"
  proof (rule bit_eqI)
    fix n
    have "bit (f AND ECHO) n = bit ECHO n" using assms(2) by simp
    then show "bit ((f AND NOT ECHO) OR ECHO) n = bit f n" by (auto simp: bit_simps dest: bit_imp_le_length)
  qed
  then show "SetConsoleEcho ECHO True (SetConsoleEcho ECHO False t) = t"
    using assms(1) by (cases t) (simp add: SetConsoleEcho_def)
  have "(f OR ECHO) AND ECHO = ECHO" "(f AND NOT ECHO) AND ECHO = 0" by (rule bit_eqI; auto simp: bit_simps)+
  then show "f_echo (GetFeatures ECHO (SetConsoleEcho ECHO b t) target) = b" if "ECHO \<noteq> 0"
    using assms(1) that by (simp add: SetConsoleEcho_def GetFeatures_def Let_def)
qed

end
