(* ===== verification/Signal_Manager.thy ===== *)
theory Signal_Manager
  imports Network_Types "HOL-Library.Multiset"
begin

text \<open>
  \<^verbatim>\<open>SignalManager\<close> (\<^verbatim>\<open>Signals.h\<close>, \<^verbatim>\<open>Internal/Signals.h\<close>, \<^verbatim>\<open>Signals.cpp\<close>, \<^verbatim>\<open>platforms/posix/Signals.cpp\<close>): the handlers of a process, kept in
  the order of their signals, and the signals the system was asked to deliver. A handler is called without the lock and
  can use the manager itself, so a call, the parameter \<open>call\<close>, maps the state of the whole program to the answer and the next
  state. \<open>sorter\<close> stands for \<^verbatim>\<open>std::sort\<close>, which leaves the order of equal elements open.
\<close>

section \<open>Model\<close>

datatype Signal = Signal_NONE | HANGUP | INTERRUPT | QUIT | ABORT | KILL | TERMINATE | USR1 | USR2 | CHILD | BREAK

fun Signal_value :: "Signal \<Rightarrow> int" where
  "Signal_value Signal_NONE = 0"
| "Signal_value HANGUP = 1"
| "Signal_value INTERRUPT = 2"
| "Signal_value QUIT = 3"
| "Signal_value ABORT = 6"
| "Signal_value KILL = 9"
| "Signal_value TERMINATE = 15"
| "Signal_value USR1 = 16"
| "Signal_value USR2 = 17"
| "Signal_value CHILD = 18"
| "Signal_value BREAK = 21"

definition MapEvent :: "header \<Rightarrow> int \<Rightarrow> Signal" where
  "MapEvent sys signum =
     (if signum = sys ''SIGHUP'' then HANGUP
      else if signum = sys ''SIGINT'' then INTERRUPT
      else if signum = sys ''SIGQUIT'' then QUIT
      else if signum = sys ''SIGKILL'' then KILL
      else if signum = sys ''SIGTERM'' then TERMINATE
      else if signum = sys ''SIGUSR1'' then USR1
      else if signum = sys ''SIGUSR2'' then USR2
      else if signum = sys ''SIGCHLD'' then CHILD
      else if signum = sys ''SIGTTIN'' \<or> signum = sys ''SIGSTOP'' then BREAK
      else if signum = sys ''SIGABRT'' then ABORT
      else Signal_NONE)"

record 'f Handler =
  h_signum :: int
  h_signal :: Signal
  h_fn :: 'f

text \<open>\<open>installed\<close>: the calls of \<^verbatim>\<open>::signal\<close> so far.\<close>

record 'f manager =
  m_handlers :: "'f Handler list"
  m_signals :: "int set"
  installed :: "int list"

definition manager_start :: "'f manager" where
  "manager_start = \<lparr>m_handlers = [], m_signals = {}, installed = []\<rparr>"

definition AddSignalToSet :: "int \<Rightarrow> 'f manager \<Rightarrow> 'f manager" where
  "AddSignalToSet signum m = m\<lparr>installed := installed m @ [signum]\<rparr>"

definition Manager_RegisterSignal :: "int \<Rightarrow> 'f manager \<Rightarrow> 'f manager" where
  "Manager_RegisterSignal signum m =
     (if signum \<in> m_signals m then m
      else let m = AddSignalToSet signum m in m\<lparr>m_signals := insert signum (m_signals m)\<rparr>)"

type_synonym 'f sorter = "'f Handler list \<Rightarrow> 'f Handler list"

definition Manager_Register :: "'f sorter \<Rightarrow> 'f Handler \<Rightarrow> 'f manager \<Rightarrow> 'f manager" where
  "Manager_Register sorter h m =
     (let m = m\<lparr>m_handlers := m_handlers m @ [h]\<rparr>;
          m = (if length (m_handlers m) > 1 then m\<lparr>m_handlers := sorter (m_handlers m)\<rparr> else m)
      in Manager_RegisterSignal (h_signum h) m)"

definition Manager_Clear :: "'f manager \<Rightarrow> 'f manager" where
  "Manager_Clear m = m\<lparr>m_handlers := []\<rparr>"

definition Manager_Clear_signal :: "Signal \<Rightarrow> 'f manager \<Rightarrow> 'f manager" where
  "Manager_Clear_signal sig m = m\<lparr>m_handlers := filter (\<lambda>h. h_signal h \<noteq> sig) (m_handlers m)\<rparr>"

text \<open>
  The part of \<^verbatim>\<open>ReceiveSignal\<close> under the lock, which takes the handlers out, and the loop that calls them and puts
  back those that ask for it.
\<close>

definition take_handlers :: "Signal \<Rightarrow> 'f manager \<Rightarrow> 'f Handler list \<times> 'f manager" where
  "take_handlers sig m =
     (filter (\<lambda>h. h_signal h = sig) (m_handlers m),
      m\<lparr>m_handlers := filter (\<lambda>h. h_signal h \<noteq> sig) (m_handlers m)\<rparr>)"

type_synonym ('f, 'w) caller = "'f \<Rightarrow> Signal \<Rightarrow> 'f manager \<times> 'w \<Rightarrow> bool \<times> 'f manager \<times> 'w"

fun run_handlers :: "'f sorter \<Rightarrow> ('f, 'w) caller \<Rightarrow> 'f Handler list \<Rightarrow> 'f manager \<times> 'w \<Rightarrow> 'f manager \<times> 'w" where
  "run_handlers sorter call [] st = st"
| "run_handlers sorter call (h # hs) st =
     (let (again, m, w) = call (h_fn h) (h_signal h) st
      in run_handlers sorter call hs (if again then Manager_Register sorter h m else m, w))"

definition ReceiveSignal ::
  "header \<Rightarrow> 'f sorter \<Rightarrow> ('f, 'w) caller \<Rightarrow> int \<Rightarrow> 'f manager \<times> 'w \<Rightarrow> 'f manager \<times> 'w" where
  "ReceiveSignal sys sorter call signum st =
     (let (m, w) = st; (handlers, m) = take_handlers (MapEvent sys signum) m
      in run_handlers sorter call handlers (m, w))"

definition Manager_Raise ::
  "header \<Rightarrow> 'f sorter \<Rightarrow> ('f, 'w) caller \<Rightarrow> Signal \<Rightarrow> 'f manager \<times> 'w \<Rightarrow> 'f manager \<times> 'w" where
  "Manager_Raise sys sorter call sig st = ReceiveSignal sys sorter call (Signal_value sig) st"

text \<open>The functions of \<^verbatim>\<open>Signals.h\<close> on the manager of the process.\<close>

definition RegisterSignal :: "'f sorter \<Rightarrow> Signal \<Rightarrow> 'f \<Rightarrow> 'f manager \<Rightarrow> 'f manager" where
  "RegisterSignal sorter sig f m = Manager_Register sorter \<lparr>h_signum = Signal_value sig, h_signal = sig, h_fn = f\<rparr> m"

definition RegisterSignal_list :: "'f sorter \<Rightarrow> Signal list \<Rightarrow> 'f \<Rightarrow> 'f manager \<Rightarrow> 'f manager" where
  "RegisterSignal_list sorter sigs f m = foldl (\<lambda>m sig. RegisterSignal sorter sig f m) m sigs"

definition ClearSignalHandlers :: "'f manager \<Rightarrow> 'f manager" where
  "ClearSignalHandlers m = Manager_Clear m"

definition ClearSignalHandlers_signal :: "Signal \<Rightarrow> 'f manager \<Rightarrow> 'f manager" where
  "ClearSignalHandlers_signal sig m = Manager_Clear_signal sig m"

definition RaiseSignal ::
  "header \<Rightarrow> 'f sorter \<Rightarrow> ('f, 'w) caller \<Rightarrow> Signal \<Rightarrow> 'f manager \<times> 'w \<Rightarrow> 'f manager \<times> 'w" where
  "RaiseSignal sys sorter call sig st = Manager_Raise sys sorter call sig st"

definition Receiver ::
  "header \<Rightarrow> 'f sorter \<Rightarrow> ('f, 'w) caller \<Rightarrow> int \<Rightarrow> 'f manager \<times> 'w \<Rightarrow> 'f manager \<times> 'w" where
  "Receiver sys sorter call signum st = ReceiveSignal sys sorter call signum st"

text \<open>
  The atomic steps of the manager: a public operation under the lock, the taking of the handlers of a signal, and the putting back of one
  that was taken. Every interleaving of threads and handlers is a sequence of them.
\<close>

inductive manager_step :: "'f sorter \<Rightarrow> 'f manager \<times> 'f Handler multiset \<Rightarrow> 'f manager \<times> 'f Handler multiset \<Rightarrow> bool"
  for sorter where
  register: "manager_step sorter (m, taken) (RegisterSignal sorter sig f m, taken)"
| clear: "manager_step sorter (m, taken) (ClearSignalHandlers m, taken)"
| clear_signal: "manager_step sorter (m, taken) (ClearSignalHandlers_signal sig m, taken)"
| take_out: "take_handlers sig m = (hs, m') \<Longrightarrow> manager_step sorter (m, taken) (m', taken + mset hs)"
| put_back: "h \<in># taken \<Longrightarrow> manager_step sorter (m, taken) (Manager_Register sorter h m, taken - {#h#})"
| drop: "h \<in># taken \<Longrightarrow> manager_step sorter (m, taken) (m, taken - {#h#})"

definition reachable :: "'f sorter \<Rightarrow> 'f manager \<times> 'f Handler multiset \<Rightarrow> bool" where
  "reachable sorter = (manager_step sorter)\<^sup>*\<^sup>* (manager_start, {#})"

section \<open>Lemmas\<close>

text \<open>What the standard says of \<^verbatim>\<open>std::sort\<close> with this comparison.\<close>

definition sorter_ok :: "'f sorter \<Rightarrow> bool" where
  "sorter_ok sorter \<longleftrightarrow> (\<forall>hs. mset (sorter hs) = mset hs \<and> sorted (map (\<lambda>h. Signal_value (h_signal h)) (sorter hs)))"

lemma sorter_ok_sort_key: "sorter_ok (sort_key (\<lambda>h. Signal_value (h_signal h)))"
  by (simp add: sorter_ok_def)

lemma mset_Register:
  "sorter_ok sorter \<Longrightarrow> mset (m_handlers (Manager_Register sorter h m)) = add_mset h (mset (m_handlers m))"
  by (auto simp: Manager_Register_def Manager_RegisterSignal_def AddSignalToSet_def sorter_ok_def Let_def)

lemma signals_Register [simp]: "m_signals (Manager_Register sorter h m) = insert (h_signum h) (m_signals m)"
  by (auto simp: Manager_Register_def Manager_RegisterSignal_def AddSignalToSet_def Let_def)

definition manager_inv :: "'f manager \<times> 'f Handler multiset \<Rightarrow> bool" where
  "manager_inv st \<longleftrightarrow> (case st of (m, taken) \<Rightarrow>
     sorted (map (\<lambda>h. Signal_value (h_signal h)) (m_handlers m)) \<and>
     (\<forall>h\<in>set (m_handlers m) \<union> set_mset taken. h_signum h = Signal_value (h_signal h) \<and> Signal_value (h_signal h) \<in> m_signals m) \<and>
     distinct (installed m) \<and> set (installed m) = m_signals m \<and> m_signals m \<subseteq> range Signal_value)"

lemma inv_taken: "manager_inv (m, taken) \<Longrightarrow> set_mset taken' \<subseteq> set_mset taken \<Longrightarrow> manager_inv (m, taken')"
  unfolding manager_inv_def by blast

lemma sorted_filter_key: "sorted (map g xs) \<Longrightarrow> sorted (map g (filter P xs))"
  by (induction xs) auto

lemma inv_Register:
  assumes "sorter_ok sorter" and "manager_inv (m, taken)" and "h_signum h = Signal_value (h_signal h)"
  shows "manager_inv (Manager_Register sorter h m, taken)"
proof -
  let ?m = "Manager_Register sorter h m"
  have set: "set (m_handlers ?m) = insert h (set (m_handlers m))"
    using mset_Register [OF assms(1), of h m] by (metis set_mset_add_mset_insert set_mset_mset)
  moreover have "sorted (map (\<lambda>h. Signal_value (h_signal h)) (m_handlers ?m))"
    using assms by (cases "m_handlers m")
      (auto simp: Manager_Register_def Manager_RegisterSignal_def AddSignalToSet_def sorter_ok_def Let_def manager_inv_def)
  moreover have "distinct (installed ?m)" "set (installed ?m) = m_signals ?m"
    using assms(2) by (auto simp: manager_inv_def Manager_Register_def Manager_RegisterSignal_def AddSignalToSet_def Let_def)
  moreover have "m_signals ?m \<subseteq> range Signal_value" using assms(2,3) by (auto simp: manager_inv_def)
  ultimately show ?thesis using assms(2,3) by (auto simp: manager_inv_def)
qed

lemma inv_filter:
  assumes "manager_inv (m, taken)"
  shows "manager_inv (m\<lparr>m_handlers := filter P (m_handlers m)\<rparr>, taken + mset (filter Q (m_handlers m)))"
proof -
  have "set (filter P (m_handlers m)) \<union> set_mset (taken + mset (filter Q (m_handlers m))) \<subseteq> set (m_handlers m) \<union> set_mset taken"
    by auto
  moreover have "sorted (map (\<lambda>h. Signal_value (h_signal h)) (filter P (m_handlers m)))"
    using assms by (intro sorted_filter_key) (simp add: manager_inv_def)
  ultimately show ?thesis using assms by (force simp: manager_inv_def)
qed

lemma inv_step:
  assumes "sorter_ok sorter" and "manager_step sorter st st'" and "manager_inv st"
  shows "manager_inv st'"
  using assms(2,3)
proof (induction rule: manager_step.induct)
  case (register m taken sig f)
  then show ?case unfolding RegisterSignal_def by (intro inv_Register [OF assms(1)]) simp_all
next
  case (put_back h taken m)
  then have "h_signum h = Signal_value (h_signal h)" by (simp add: manager_inv_def)
  with put_back have "manager_inv (Manager_Register sorter h m, taken)" by (metis inv_Register [OF assms(1)])
  then show ?case by (rule inv_taken) (auto dest: in_diffD)
next
  case (drop h taken m)
  then show ?case using inv_taken [of m taken "taken - {#h#}"] in_diffD by (metis subsetI)
next
  case (clear m taken)
  then show ?case by (simp add: manager_inv_def ClearSignalHandlers_def Manager_Clear_def)
next
  case (clear_signal m taken sig)
  then show ?case
    using inv_filter [of m taken "\<lambda>h. h_signal h \<noteq> sig" "\<lambda>_. False"]
    by (simp add: ClearSignalHandlers_signal_def Manager_Clear_signal_def)
next
  case (take_out sig m hs m' taken)
  then show ?case
    using inv_filter [of m taken "\<lambda>h. h_signal h \<noteq> sig" "\<lambda>h. h_signal h = sig"] by (auto simp: take_handlers_def)
qed

lemma inv_reachable:
  assumes "sorter_ok sorter" and "reachable sorter st"
  shows "manager_inv st"
  using assms(2) unfolding reachable_def
proof (induction rule: rtranclp_induct)
  case base
  show ?case by (simp add: manager_inv_def manager_start_def)
next
  case (step st st')
  then show ?case using inv_step [OF assms(1), of st st'] by blast
qed

section \<open>Properties\<close>

text \<open>
  Property C15. However operations, deliveries and handlers interleave: the handlers stay in the order of their signals, each is filed
  under the number of its own signal, and the system was asked exactly once for the signal of each handler that waits or is being
  called.
\<close>

theorem signal_manager_invariant:
  assumes "sorter_ok sorter" and "reachable sorter (m, taken)"
  shows "sorted (map (\<lambda>h. Signal_value (h_signal h)) (m_handlers m)) \<and>
    distinct (installed m) \<and> set (installed m) = m_signals m \<and>
    (\<forall>h\<in>set (m_handlers m) \<union> set_mset taken. h_signum h = Signal_value (h_signal h) \<and> Signal_value (h_signal h) \<in> m_signals m)"
  using inv_reachable [OF assms] by (simp add: manager_inv_def)

theorem signal_manager_invariant_witness:
  "sorted (map (\<lambda>h. Signal_value (h_signal h))
     (m_handlers (RegisterSignal (sort_key (\<lambda>h. Signal_value (h_signal h))) INTERRUPT (0 :: nat) manager_start)))"
proof -
  have "reachable (sort_key (\<lambda>h. Signal_value (h_signal h)))
      (RegisterSignal (sort_key (\<lambda>h. Signal_value (h_signal h))) INTERRUPT (0 :: nat) manager_start, {#})"
    unfolding reachable_def by (rule r_into_rtranclp, rule register)
  from signal_manager_invariant [OF sorter_ok_sort_key this] show ?thesis by blast
qed

text \<open>The numbers of \<^verbatim>\<open>signal.h\<close> on Linux.\<close>

definition linux_signals :: "header \<Rightarrow> bool" where
  "linux_signals sys \<longleftrightarrow> map sys [''SIGHUP'', ''SIGINT'', ''SIGQUIT'', ''SIGABRT'', ''SIGKILL'', ''SIGUSR1'', ''SIGUSR2'', ''SIGTERM'',
     ''SIGCHLD'', ''SIGSTOP'', ''SIGTTIN''] = [1, 2, 3, 6, 9, 10, 12, 15, 17, 19, 21]"

definition linux_signal_header :: header where
  "linux_signal_header name = the (map_of [(''SIGHUP'', 1), (''SIGINT'', 2), (''SIGQUIT'', 3), (''SIGABRT'', 6), (''SIGKILL'', 9),
     (''SIGUSR1'', 10), (''SIGUSR2'', 12), (''SIGTERM'', 15), (''SIGCHLD'', 17), (''SIGSTOP'', 19), (''SIGTTIN'', 21)] name)"

lemma linux_signal_header_ok: "linux_signals linux_signal_header"
  by (simp add: linux_signals_def linux_signal_header_def)

lemma MapEvent_linux:
  assumes "linux_signals sys"
  shows "MapEvent sys (Signal_value sig) =
    (if sig = USR1 \<or> sig = CHILD then Signal_NONE else if sig = USR2 then CHILD else sig)"
  using assms by (cases sig) (simp_all add: linux_signals_def MapEvent_def)

text \<open>Handlers that answer by \<open>ans\<close>, do nothing to the manager, and leave a trace of their calls.\<close>

definition traced :: "('f \<Rightarrow> Signal \<Rightarrow> bool) \<Rightarrow> ('f, ('f \<times> Signal) list) caller" where
  "traced ans f sig st = (ans f sig, fst st, snd st @ [(f, sig)])"

lemma run_handlers_traced:
  assumes "sorter_ok sorter" and "run_handlers sorter (traced ans) hs (m, w) = (m', w')"
  shows "w' = w @ map (\<lambda>h. (h_fn h, h_signal h)) hs \<and>
    mset (m_handlers m') = mset (m_handlers m) + mset (filter (\<lambda>h. ans (h_fn h) (h_signal h)) hs)"
  using assms(2)
proof (induction hs arbitrary: m w)
  case (Cons h hs)
  from Cons.prems have "run_handlers sorter (traced ans) hs
      (if ans (h_fn h) (h_signal h) then Manager_Register sorter h m else m, w @ [(h_fn h, h_signal h)]) = (m', w')"
    by (simp add: traced_def [of _ "h_fn h"])
  from Cons.IH [OF this] show ?case by (simp add: mset_Register [OF assms(1)])
qed simp

text \<open>
  Property C32. On Linux, raising a signal calls every handler that waits for it once, in the order of the manager, and no other; those
  that answer true are kept, the others are gone, and the handlers of other signals are not touched. This
  holds of all signals but three: raising \<^verbatim>\<open>USR2\<close> calls the handlers of \<^verbatim>\<open>CHILD\<close>, and raising \<^verbatim>\<open>USR1\<close> or \<^verbatim>\<open>CHILD\<close> calls those of \<^verbatim>\<open>NONE\<close>.
\<close>

theorem signal_dispatch:
  assumes "linux_signals sys" and "sorter_ok sorter"
    and "RaiseSignal sys sorter (traced ans) sig (m, []) = (m', calls)"
  shows "\<exists>target. target = (if sig = USR1 \<or> sig = CHILD then Signal_NONE else if sig = USR2 then CHILD else sig) \<and>
    calls = map (\<lambda>h. (h_fn h, target)) (filter (\<lambda>h. h_signal h = target) (m_handlers m)) \<and>
    mset (m_handlers m') = filter_mset (\<lambda>h. h_signal h = target \<longrightarrow> ans (h_fn h) target) (mset (m_handlers m))"
proof -
  define target where "target = (if sig = USR1 \<or> sig = CHILD then Signal_NONE else if sig = USR2 then CHILD else sig)"
  let ?hs = "filter (\<lambda>h. h_signal h = target) (m_handlers m)" and ?rest = "filter (\<lambda>h. h_signal h \<noteq> target) (m_handlers m)"
  from assms(3) have "run_handlers sorter (traced ans) ?hs (m\<lparr>m_handlers := ?rest\<rparr>, []) = (m', calls)"
    by (simp add: RaiseSignal_def Manager_Raise_def ReceiveSignal_def take_handlers_def MapEvent_linux [OF assms(1)] target_def)
  from run_handlers_traced [OF assms(2) this]
  have c: "calls = map (\<lambda>h. (h_fn h, h_signal h)) ?hs"
    and m: "mset (m_handlers m') = mset ?rest + mset (filter (\<lambda>h. ans (h_fn h) (h_signal h)) ?hs)" by simp_all
  have "calls = map (\<lambda>h. (h_fn h, target)) ?hs" unfolding c by simp
  moreover have "mset (filter (\<lambda>h. h_signal h \<noteq> target) hs) + mset (filter (\<lambda>h. ans (h_fn h) (h_signal h)) (filter (\<lambda>h. h_signal h = target) hs)) =
      filter_mset (\<lambda>h. h_signal h = target \<longrightarrow> ans (h_fn h) target) (mset hs)" for hs
    by (induction hs) (simp_all add: filter_filter_mset conj_commute)
  ultimately show ?thesis using m by (auto simp: target_def)
qed

theorem signal_dispatch_witness:
  "snd (RaiseSignal linux_signal_header (sort_key (\<lambda>h. Signal_value (h_signal h))) (traced (\<lambda>_ _. True)) USR1
     (RegisterSignal (sort_key (\<lambda>h. Signal_value (h_signal h))) USR1 (0 :: nat) manager_start, [])) = []"
proof -
  let ?s = "sort_key (\<lambda>h. Signal_value (h_signal h))"
  let ?m = "RegisterSignal ?s USR1 (0 :: nat) manager_start"
  obtain m' calls where r: "RaiseSignal linux_signal_header ?s (traced (\<lambda>_ _. True)) USR1 (?m, []) = (m', calls)" by fastforce
  have "m_handlers ?m = [\<lparr>h_signum = 16, h_signal = USR1, h_fn = 0\<rparr>]"
    by (simp add: RegisterSignal_def Manager_Register_def Manager_RegisterSignal_def AddSignalToSet_def manager_start_def)
  with signal_dispatch [OF linux_signal_header_ok sorter_ok_sort_key r] r show ?thesis by auto
qed

text \<open>
  On Linux no program that registers handlers asks the system for \<^verbatim>\<open>SIGUSR1\<close> or \<^verbatim>\<open>SIGUSR2\<close>: the enumeration gives \<^verbatim>\<open>USR1\<close>,
  \<^verbatim>\<open>USR2\<close> and \<^verbatim>\<open>CHILD\<close> the numbers of other signals. A handler for \<^verbatim>\<open>USR2\<close> makes the system deliver
  \<^verbatim>\<open>SIGCHLD\<close>, which \<^verbatim>\<open>MapEvent\<close> hands to the handlers of \<^verbatim>\<open>CHILD\<close>.
\<close>

theorem user_signals_not_installed:
  assumes "linux_signals sys" and "sorter_ok sorter" and "reachable sorter (m, taken)"
  shows "sys ''SIGUSR1'' \<notin> set (installed m) \<and> sys ''SIGUSR2'' \<notin> set (installed m) \<and>
    sys ''SIGCHLD'' \<in> set (installed (RegisterSignal sorter USR2 f m)) \<and> MapEvent sys (sys ''SIGCHLD'') = CHILD"
proof -
  have "Signal_value sig \<noteq> 10 \<and> Signal_value sig \<noteq> 12" for sig by (cases sig) simp_all
  then have "10 \<notin> range Signal_value" "12 \<notin> range Signal_value" by (metis rangeE)+
  moreover have "set (installed m) \<subseteq> range Signal_value" using inv_reachable [OF assms(2,3)] by (simp add: manager_inv_def)
  moreover have "manager_inv (RegisterSignal sorter USR2 f m, taken)"
    unfolding RegisterSignal_def using inv_reachable [OF assms(2,3)] by (intro inv_Register [OF assms(2)]) simp_all
  then have "17 \<in> set (installed (RegisterSignal sorter USR2 f m))" by (simp add: manager_inv_def RegisterSignal_def)
  ultimately show ?thesis using assms(1) by (auto simp: linux_signals_def MapEvent_def)
qed

theorem user_signals_not_installed_witness:
  "10 \<notin> set (installed (manager_start :: nat manager)) \<and>
   17 \<in> set (installed (RegisterSignal (sort_key (\<lambda>h. Signal_value (h_signal h))) USR2 (0 :: nat) manager_start))"
  using user_signals_not_installed [OF linux_signal_header_ok sorter_ok_sort_key, of "manager_start :: nat manager" "{#}" 0]
  by (simp add: reachable_def linux_signal_header_def)

end
