(* ===== verification/Cancel_Context.thy ===== *)
theory Cancel_Context
  imports String_Util
begin

text \<open>
  \<^verbatim>\<open>Context\<close> (\<^verbatim>\<open>Context.h\<close>, \<^verbatim>\<open>Impl/Context.h\<close>, \<^verbatim>\<open>Context.cpp\<close>): a handle to a cancellation state that its copies share. The states are
  a store, a \<^verbatim>\<open>std::shared_ptr\<close> is an index into it or null, and the variables of the program map names to handles. Times are counts of
  the steady clock, 64 bit signed numbers; \<open>now\<close> is what the clock reads during an operation.
\<close>

section \<open>Model\<close>

record ctx_state =
  flag :: bool
  deadline :: int

definition ctx_state_new :: ctx_state where
  "ctx_state_new = \<lparr>flag = False, deadline = 0\<rparr>"

type_synonym handle = "nat option"
type_synonym ctx_store = "ctx_state list"

definition add64 :: "int \<Rightarrow> int \<Rightarrow> int exec" where
  "add64 a b = (if in_int64 (a + b) then Inr (a + b) else Inl Signed_Overflow)"

text \<open>Access through the pointer.\<close>

definition load_state :: "ctx_store \<Rightarrow> handle \<Rightarrow> ctx_state exec" where
  "load_state s h = (case h of Some i \<Rightarrow> if i < length s then Inr (s ! i) else Inl Out_Of_Bounds | None \<Rightarrow> Inl Null_Dereference)"

definition store_state :: "ctx_store \<Rightarrow> handle \<Rightarrow> (ctx_state \<Rightarrow> ctx_state) \<Rightarrow> ctx_store exec" where
  "store_state s h f = (case h of Some i \<Rightarrow> if i < length s then Inr (s[i := f (s ! i)]) else Inl Out_Of_Bounds
     | None \<Rightarrow> Inl Null_Dereference)"

definition Context_new :: "ctx_store \<Rightarrow> handle \<times> ctx_store" where
  "Context_new s = (Some (length s), s @ [ctx_state_new])"

definition CancelAt :: "int \<Rightarrow> int \<Rightarrow> handle \<Rightarrow> ctx_store \<Rightarrow> ctx_store exec" where
  "CancelAt now at h s =
     and_then (add64 at (- now)) (\<lambda>diff.
     and_then (add64 now diff) (\<lambda>d.
     and_then (fusion_assert (h \<noteq> None)) (\<lambda>_.
     store_state s h (\<lambda>st. st\<lparr>deadline := d\<rparr>))))"

definition CancelAfter :: "int \<Rightarrow> int \<Rightarrow> handle \<Rightarrow> ctx_store \<Rightarrow> ctx_store exec" where
  "CancelAfter now after h s = and_then (add64 now after) (\<lambda>at. CancelAt now at h s)"

definition Context_after :: "int \<Rightarrow> int \<Rightarrow> ctx_store \<Rightarrow> (handle \<times> ctx_store) exec" where
  "Context_after now after s =
     (let (h, s) = Context_new s in
      and_then (add64 now after) (\<lambda>at. and_then (CancelAt now at h s) (\<lambda>s. Inr (h, s))))"

definition Context_copy :: "handle \<Rightarrow> handle" where
  "Context_copy h = h"

text \<open>The handle of the new object and what is left of the old one.\<close>

definition Context_move :: "handle \<Rightarrow> handle \<times> handle" where
  "Context_move h = (h, None)"

definition Context_assign :: "handle \<Rightarrow> handle \<Rightarrow> handle" where
  "Context_assign this ctx = (if this \<noteq> ctx then ctx else this)"

definition Context_move_assign :: "handle \<Rightarrow> handle \<Rightarrow> handle \<times> handle" where
  "Context_move_assign this ctx = (if this \<noteq> ctx then (ctx, None) else (this, ctx))"

definition Cancel :: "handle \<Rightarrow> ctx_store \<Rightarrow> ctx_store exec" where
  "Cancel h s = store_state s h (\<lambda>st. st\<lparr>flag := True\<rparr>)"

definition IsCancelled :: "int \<Rightarrow> handle \<Rightarrow> ctx_store \<Rightarrow> bool exec" where
  "IsCancelled now h s =
     and_then (load_state s h) (\<lambda>st.
     Inr (if flag st then True else if deadline st \<noteq> 0 then now \<ge> deadline st else False))"

definition ReleaseDeadline :: "handle \<Rightarrow> ctx_store \<Rightarrow> ctx_store exec" where
  "ReleaseDeadline h s = store_state s h (\<lambda>st. st\<lparr>deadline := 0\<rparr>)"

text \<open>Programs over named contexts.\<close>

datatype ctx_op = New nat | New_After nat int | Copy_Of nat nat | Move_Of nat nat | Assign nat nat | Move_Assign nat nat
  | Op_CancelAfter nat int | Op_CancelAt nat int | Op_Cancel nat | Op_Release nat | Destroy nat

record program =
  vars :: "nat \<rightharpoonup> handle"
  store :: ctx_store

definition on_var :: "(handle \<Rightarrow> ctx_store \<Rightarrow> ctx_store exec) \<Rightarrow> nat \<Rightarrow> program \<Rightarrow> program exec" where
  "on_var f v p = (case vars p v of None \<Rightarrow> Inl Out_Of_Bounds
     | Some h \<Rightarrow> and_then (f h (store p)) (\<lambda>s. Inr (p\<lparr>store := s\<rparr>)))"

text \<open>An operation is given the time; one that names a context that does not exist is a fault.\<close>

fun ctx_step :: "int \<Rightarrow> ctx_op \<Rightarrow> program \<Rightarrow> program exec" where
  "ctx_step now (New v) p = (let (h, s) = Context_new (store p) in Inr (p\<lparr>vars := (vars p)(v \<mapsto> h), store := s\<rparr>))"
| "ctx_step now (New_After v d) p =
     and_then (Context_after now d (store p)) (\<lambda>(h, s). Inr (p\<lparr>vars := (vars p)(v \<mapsto> h), store := s\<rparr>))"
| "ctx_step now (Copy_Of v u) p =
     (case vars p u of None \<Rightarrow> Inl Out_Of_Bounds | Some h \<Rightarrow> Inr (p\<lparr>vars := (vars p)(v \<mapsto> Context_copy h)\<rparr>))"
| "ctx_step now (Move_Of v u) p =
     (case vars p u of None \<Rightarrow> Inl Out_Of_Bounds
      | Some h \<Rightarrow> let (h, rest) = Context_move h in Inr (p\<lparr>vars := (vars p)(u \<mapsto> rest, v \<mapsto> h)\<rparr>))"
| "ctx_step now (Assign v u) p =
     (case (vars p v, vars p u) of (Some h, Some k) \<Rightarrow> Inr (p\<lparr>vars := (vars p)(v \<mapsto> Context_assign h k)\<rparr>) | _ \<Rightarrow> Inl Out_Of_Bounds)"
| "ctx_step now (Move_Assign v u) p =
     (case (vars p v, vars p u) of
        (Some h, Some k) \<Rightarrow> let (h, rest) = Context_move_assign h k in Inr (p\<lparr>vars := (vars p)(u \<mapsto> rest, v \<mapsto> h)\<rparr>)
      | _ \<Rightarrow> Inl Out_Of_Bounds)"
| "ctx_step now (Op_CancelAfter v d) p = on_var (CancelAfter now d) v p"
| "ctx_step now (Op_CancelAt v t) p = on_var (CancelAt now t) v p"
| "ctx_step now (Op_Cancel v) p = on_var Cancel v p"
| "ctx_step now (Op_Release v) p = on_var ReleaseDeadline v p"
| "ctx_step now (Destroy v) p = Inr (p\<lparr>vars := (vars p)(v := None)\<rparr>)"

fun ctx_run :: "(int \<times> ctx_op) list \<Rightarrow> program \<Rightarrow> program exec" where
  "ctx_run [] p = Inr p"
| "ctx_run ((now, op) # ops) p = and_then (ctx_step now op p) (ctx_run ops)"

section \<open>Lemmas\<close>

text \<open>Nothing resets the flag of a state, and only operations on deadlines change one.\<close>

fun moves_deadline :: "ctx_op \<Rightarrow> bool" where
  "moves_deadline (Op_CancelAfter v d) = True"
| "moves_deadline (Op_CancelAt v t) = True"
| "moves_deadline (Op_Release v) = True"
| "moves_deadline op = False"

definition kept :: "bool \<Rightarrow> ctx_store \<Rightarrow> ctx_store \<Rightarrow> bool" where
  "kept due s s' \<longleftrightarrow> length s \<le> length s' \<and>
     (\<forall>i<length s. (flag (s ! i) \<longrightarrow> flag (s' ! i)) \<and> (due \<longrightarrow> deadline (s' ! i) = deadline (s ! i)))"

lemma kept_refl: "kept due s s"
  by (simp add: kept_def)

lemma kept_trans: "kept due s s' \<Longrightarrow> kept due s' s'' \<Longrightarrow> kept due s s''"
  by (fastforce simp: kept_def)

lemma kept_store_state:
  "store_state s h f = Inr s' \<Longrightarrow> (\<And>st. flag st \<Longrightarrow> flag (f st)) \<Longrightarrow> (\<And>st. due \<Longrightarrow> deadline (f st) = deadline st) \<Longrightarrow> kept due s s'"
  by (auto simp: store_state_def kept_def nth_list_update split: option.splits if_splits)

lemma kept_CancelAt: "CancelAt now at h s = Inr s' \<Longrightarrow> kept False s s'"
  by (auto simp: CancelAt_def exec_iff intro!: kept_store_state)

lemma kept_append: "kept due s (s @ [x])"
  by (simp add: kept_def nth_append)

lemma kept_Context_after: "Context_after now d s = Inr (h, s') \<Longrightarrow> kept due s s'"
  by (auto simp: Context_after_def Context_new_def CancelAt_def store_state_def exec_iff kept_def nth_append nth_list_update
      split: option.splits if_splits)

lemma kept_step:
  assumes "ctx_step now op p = Inr p'" and "due \<Longrightarrow> \<not> moves_deadline op"
  shows "kept due (store p) (store p')"
proof (cases op)
  case (New_After v d)
  then show ?thesis using assms(1) kept_Context_after by (auto simp: exec_iff)
next
  case (Op_CancelAfter v d)
  then have "\<not> due" using assms(2) by auto
  then show ?thesis
    using Op_CancelAfter assms(1) kept_CancelAt by (auto simp: on_var_def CancelAfter_def exec_iff split: option.splits)
next
  case (Op_CancelAt v t)
  then have "\<not> due" using assms(2) by auto
  then show ?thesis using Op_CancelAt assms(1) kept_CancelAt by (auto simp: on_var_def exec_iff split: option.splits)
next
  case (Op_Cancel v)
  then show ?thesis
    using assms(1) by (auto simp: on_var_def Cancel_def exec_iff split: option.splits intro!: kept_store_state)
next
  case (Op_Release v)
  then have "\<not> due" using assms(2) by auto
  then show ?thesis
    using Op_Release assms(1) by (auto simp: on_var_def ReleaseDeadline_def exec_iff split: option.splits intro!: kept_store_state)
qed (use assms(1) in \<open>auto simp: Context_new_def kept_append kept_refl split: option.splits prod.splits\<close>)

lemma kept_run:
  assumes "ctx_run ops p = Inr p'" and "due \<Longrightarrow> \<forall>(now, op)\<in>set ops. \<not> moves_deadline op"
  shows "kept due (store p) (store p')"
  using assms
proof (induction ops p rule: ctx_run.induct)
  case (2 now op ops p)
  then obtain p1 where p1: "ctx_step now op p = Inr p1" "ctx_run ops p1 = Inr p'" by (auto simp: exec_iff)
  then have "kept due (store p) (store p1)" using 2 by (intro kept_step [of now op]) auto
  moreover have "kept due (store p1) (store p')" using 2 p1 by auto
  ultimately show ?case by (rule kept_trans)
qed (simp add: kept_refl)

lemma IsCancelled_iff:
  "IsCancelled now h s = Inr b \<longleftrightarrow> (\<exists>i<length s. h = Some i \<and> b = (flag (s ! i) \<or> deadline (s ! i) \<noteq> 0 \<and> deadline (s ! i) \<le> now))"
  by (auto simp: IsCancelled_def load_state_def exec_iff split: option.splits if_splits)

section \<open>Properties\<close>

text \<open>
  Property C17. Cancellation reaches every handle that shares the state, and is final: after \<^verbatim>\<open>Cancel\<close> on one context and whatever the program does
  then, each context that has the same state reports it at any time. What is cancelled because its time has come stays
  so as time goes on, for all of its sharers, unless a deadline is moved.
\<close>

theorem context_cancel_final:
  assumes "vars p u = Some (Some i)"
  shows "(ctx_step now (Op_Cancel u) p = Inr p1 \<and> ctx_run ops p1 = Inr p2 \<and> vars p2 v = Some (Some i) \<longrightarrow>
      IsCancelled now' (Some i) (store p2) = Inr True) \<and>
    (IsCancelled now (Some i) (store p) = Inr True \<and> ctx_run ops p = Inr p2 \<and> (\<forall>(t, op)\<in>set ops. \<not> moves_deadline op) \<and>
      now \<le> now' \<and> vars p2 v = Some (Some i) \<longrightarrow> IsCancelled now' (Some i) (store p2) = Inr True)"
proof (intro conjI impI)
  assume "ctx_step now (Op_Cancel u) p = Inr p1 \<and> ctx_run ops p1 = Inr p2 \<and> vars p2 v = Some (Some i)"
  moreover from this assms have "i < length (store p1)" "flag (store p1 ! i)"
    by (auto simp: on_var_def Cancel_def store_state_def exec_iff split: if_splits)
  ultimately show "IsCancelled now' (Some i) (store p2) = Inr True"
    using kept_run [of ops p1 p2 False] by (auto simp: IsCancelled_iff kept_def)
next
  assume a: "IsCancelled now (Some i) (store p) = Inr True \<and> ctx_run ops p = Inr p2 \<and> (\<forall>(t, op)\<in>set ops. \<not> moves_deadline op) \<and>
    now \<le> now' \<and> vars p2 v = Some (Some i)"
  with kept_run [of ops p p2 True] show "IsCancelled now' (Some i) (store p2) = Inr True"
    by (force simp: IsCancelled_iff kept_def)
qed

definition ctx_demo :: program where
  "ctx_demo = \<lparr>vars = [0 \<mapsto> Some 0, 1 \<mapsto> Some 0], store = [ctx_state_new]\<rparr>"

theorem context_cancel_final_witness:
  "\<exists>p1. ctx_step 5 (Op_Cancel 0) ctx_demo = Inr p1 \<and> IsCancelled 6 (Some 0) (store p1) = Inr True"
proof -
  obtain p1 where "ctx_step 5 (Op_Cancel 0) ctx_demo = Inr p1" "vars p1 1 = Some (Some 0)"
    by (simp add: ctx_demo_def on_var_def Cancel_def store_state_def)
  then show ?thesis
    using context_cancel_final [of ctx_demo 0 0 5 p1 "[]" p1 1 6] by (auto simp: ctx_demo_def)
qed

text \<open>
  A deadline is met exactly from its time on, unless it is the origin of the clock: the value 0 stands for no
  deadline. Copies see the deadline, later calls replace it. A context that was moved from has no state, and asking or cancelling it follows a
  null pointer.
\<close>

theorem context_deadline:
  assumes "i < length s" and "in_int64 t" and "in_int64 now" and "in_int64 (t - now)" and "\<not> flag (s ! i)"
  shows "\<exists>s'. CancelAt now t (Some i) s = Inr s' \<and> length s' = length s \<and>
      (\<forall>now'. IsCancelled now' (Context_copy (Some i)) s' = Inr (t \<noteq> 0 \<and> t \<le> now')) \<and>
      (\<exists>s''. ReleaseDeadline (Some i) s' = Inr s'' \<and> (\<forall>now'. IsCancelled now' (Some i) s'' = Inr False)) \<and>
      IsCancelled now (snd (Context_move (Some i))) s' = Inl Null_Dereference \<and>
      Cancel (snd (Context_move (Some i))) s' = Inl Null_Dereference"
proof -
  have "CancelAt now t (Some i) s = Inr (s[i := (s ! i)\<lparr>deadline := t\<rparr>])"
    using assms by (simp add: CancelAt_def add64_def store_state_def)
  then show ?thesis
    using assms by (auto simp: IsCancelled_def load_state_def ReleaseDeadline_def store_state_def Context_copy_def
        Context_move_def Cancel_def)
qed

theorem context_deadline_witness:
  "\<exists>s'. CancelAt 3 0 (Some 0) [ctx_state_new] = Inr s' \<and> IsCancelled 100 (Some 0) s' = Inr False"
  using context_deadline [of 0 "[ctx_state_new]" 0 3] by (auto simp: ctx_state_new_def in_int64_def Context_copy_def)

end
