(* ===== verification/Error_Result.thy ===== *)
theory Error_Result
  imports String_Util Network_Types
begin

text \<open>
  \<^verbatim>\<open>Error\<close>, \<^verbatim>\<open>Failure\<close> and \<^verbatim>\<open>Result\<close> (\<^verbatim>\<open>Error.h\<close>, \<^verbatim>\<open>Error.cpp\<close>, \<^verbatim>\<open>Impl/Error.h\<close>, \<^verbatim>\<open>platforms/posix/Error.cpp\<close>, \<^verbatim>\<open>Result.h\<close>,
  \<^verbatim>\<open>Impl/Result.h\<close>): the classification of \<^verbatim>\<open>errno\<close>, the texts built in a fixed buffer, the contexts of a
  failure and the variant that carries a value or a failure. The other theories keep of an error only its
  \<open>error_code\<close>. Parameters: the system headers \<open>sys\<close>, \<^verbatim>\<open>strerror_r\<close> of the GNU library, the decimal printing \<open>dec\<close> of the formatting
  library, and the capacity that \<^verbatim>\<open>std::string::reserve\<close> gives.
\<close>

section \<open>Model\<close>

subsection \<open>Errors\<close>

definition ErrorCodeInvalid :: int where
  "ErrorCodeInvalid = - (2 ^ 31)"

definition ErrorCodeGeneric :: int where
  "ErrorCodeGeneric = -1"

definition ErrorCodeSuccess :: int where
  "ErrorCodeSuccess = 0"

record Error =
  platformCode :: int
  error :: int
  errstr :: "byte list"

definition Error_new :: "int \<Rightarrow> string \<Rightarrow> Error" where
  "Error_new e name = \<lparr>platformCode = ErrorCodeInvalid, error = e, errstr = lit name\<rparr>"

text \<open>The constants of \<^verbatim>\<open>Error.h\<close>.\<close>

definition core_errors :: "(error_code \<times> Error) list" where
  "core_errors =
     [(E_FAILURE, Error_new ErrorCodeGeneric ''E_FAILURE''), (E_SUCCESS, Error_new ErrorCodeSuccess ''E_SUCCESS''),
      (E_ACCESS_DENIED, Error_new 2 ''E_ACCESS_DENIED''), (E_DISK_FULL, Error_new 3 ''E_DISK_FULL''),
      (E_EXISTS, Error_new 4 ''E_EXISTS''), (E_INVALID_ARGUMENT, Error_new 5 ''E_INVALID_ARGUMENT''),
      (E_NOT_FOUND, Error_new 6 ''E_NOT_FOUND''), (E_INSUFFICIENT_RESOURCES, Error_new 7 ''E_INSUFFICIENT_RESOURCES''),
      (E_INTERRUPTED, Error_new 8 ''E_INTERRUPTED''), (E_RESOURCE_NOT_AVAILABLE, Error_new 9 ''E_RESOURCE_NOT_AVAILABLE''),
      (E_NOT_INITIALIZED, Error_new 10 ''E_NOT_INITIALIZED''), (E_NOT_IMPLEMENTED, Error_new 11 ''E_NOT_IMPLEMENTED''),
      (E_NOT_SUPPORTED, Error_new 12 ''E_NOT_SUPPORTED''), (E_CANCELLED, Error_new 13 ''E_CANCELLED'')]"

definition E_constant :: "error_code \<Rightarrow> Error" where
  "E_constant c = the (map_of core_errors c)"

definition Error_bool :: "Error \<Rightarrow> bool" where
  "Error_bool e \<longleftrightarrow> error e \<noteq> ErrorCodeSuccess"

definition Error_with_code :: "Error \<Rightarrow> int \<Rightarrow> Error" where
  "Error_with_code e code = \<lparr>platformCode = code, error = error e, errstr = errstr e\<rparr>"

definition Error_eq :: "Error \<Rightarrow> Error \<Rightarrow> bool" where
  "Error_eq e e' \<longleftrightarrow> error e = error e'"

definition Error_neq :: "Error \<Rightarrow> Error \<Rightarrow> bool" where
  "Error_neq e e' \<longleftrightarrow> \<not> Error_eq e e'"

text \<open>The cases of the switch in \<^verbatim>\<open>Error::Errno\<close>, and the error with the code they are applied to.\<close>

definition errno_class :: "header \<Rightarrow> int \<Rightarrow> error_code" where
  "errno_class sys code =
      (if code = sys ''ENOTCONN'' then E_FAILURE
       else if code = sys ''EACCES'' then E_ACCESS_DENIED
       else if code \<in> set (map sys [''EADDRINUSE'', ''EADDRNOTAVAIL'']) then E_RESOURCE_NOT_AVAILABLE
       else if code = sys ''EINTR'' then E_INTERRUPTED
       else if code \<in> set (map sys [''EMFILE'', ''ENFILE'', ''ENOBUFS'', ''ENOMEM'']) then E_INSUFFICIENT_RESOURCES
       else if code \<in> set (map sys [''EAFNOSUPPORT'', ''EBADF'', ''EDESTADDRREQ'', ''EDOM'', ''EFAULT'', ''EINVAL'', ''EISDIR'',
         ''ENOTSOCK'', ''EOPNOTSUPP'', ''ENOPROTOOPT'', ''EPROTONOSUPPORT'', ''EPROTOTYPE'']) then E_INVALID_ARGUMENT
       else E_FAILURE)"

definition Error_Errno :: "header \<Rightarrow> int \<Rightarrow> Error" where
  "Error_Errno sys code = Error_with_code (E_constant (errno_class sys code)) code"

text \<open>\<^verbatim>\<open>Error::Errno()\<close> reads \<^verbatim>\<open>errno\<close>.\<close>

definition Error_Errno_last :: "header \<Rightarrow> int \<Rightarrow> Error" where
  "Error_Errno_last sys errno = Error_Errno sys errno"

subsection \<open>Texts\<close>

text \<open>
  What \<^verbatim>\<open>strerror_r\<close> returns for a code and a buffer of a length: a string of its own, or the buffer, into which
  it has written a text and its terminator.
\<close>

datatype strerror_result = Static "byte list" | In_Buffer "byte list"

type_synonym strerror = "int \<Rightarrow> nat \<Rightarrow> strerror_result"

definition ErrorToString :: "byte list \<Rightarrow> strerror_result \<Rightarrow> (byte list \<times> byte list) exec" where
  "ErrorToString buffer src =
     (case src of
        Static msg \<Rightarrow> and_then (Copy_cstr (Some buffer) (length buffer) (msg @ [0])) (\<lambda>(b, view). Inr (the b, view))
      | In_Buffer text \<Rightarrow>
          and_then (memcpy buffer 0 (text @ [0])) (\<lambda>b. Inr (b, takeWhile (\<lambda>c. c \<noteq> 0) b)))"

text \<open>\<^verbatim>\<open>ToString(ErrorCode, char*, size_t)\<close> on the bytes of the buffer; it returns them and the view.\<close>

definition ToString_code :: "strerror \<Rightarrow> int \<Rightarrow> byte list \<Rightarrow> (byte list \<times> byte list) exec" where
  "ToString_code strerror code buffer =
     and_then (sb_store buffer 0 0) (\<lambda>buffer. ErrorToString buffer (strerror code (length buffer)))"

definition ToString_code_string :: "strerror \<Rightarrow> int \<Rightarrow> byte list exec" where
  "ToString_code_string strerror code =
     and_then (ToString_code strerror code (replicate 256 0)) (\<lambda>(_, view). Inr view)"

text \<open>
  The bytes from \<^verbatim>\<open>Head()\<close> on, \<^verbatim>\<open>Remaining()\<close> of them, and the builder after they were written; a call of
  \<^verbatim>\<open>format_to_n\<close> whose result, the size of the whole text, goes to \<^verbatim>\<open>Offset\<close>.
\<close>

definition sb_Subspan :: "string_builder \<Rightarrow> byte list" where
  "sb_Subspan sb = slice (sb_offset sb) (sb_Remaining sb) (sb_buffer sb)"

definition sb_put :: "string_builder \<Rightarrow> byte list \<Rightarrow> string_builder" where
  "sb_put sb mem = sb\<lparr>sb_buffer := blit (sb_buffer sb) (sb_offset sb) mem\<rparr>"

definition sb_format :: "string_builder \<Rightarrow> byte list \<Rightarrow> string_builder exec" where
  "sb_format sb txt =
     and_then (memcpy (sb_buffer sb) (sb_offset sb) (take (sb_Remaining sb) txt)) (\<lambda>buf.
     sb_Offset (sb\<lparr>sb_buffer := buf\<rparr>) (length txt))"

definition ToString_error ::
  "strerror \<Rightarrow> (int \<Rightarrow> byte list) \<Rightarrow> Error \<Rightarrow> byte list option \<Rightarrow> (byte list option \<times> byte list) exec" where
  "ToString_error strerror dec e buffer =
     (case buffer of
        None \<Rightarrow> Inr (buffer, errstr e)
      | Some b \<Rightarrow>
          if length b > 0 \<and> platformCode e \<noteq> ErrorCodeInvalid then
            and_then (sb_format (FixedStringBuilder b) (lit ''['' @ errstr e @ lit ''] '')) (\<lambda>sb.
            and_then (ToString_code strerror (platformCode e) (sb_Subspan sb)) (\<lambda>(mem, message).
            and_then (sb_Offset (sb_put sb mem) (length message)) (\<lambda>sb.
            and_then (sb_format sb (lit '' ('' @ dec (platformCode e) @ lit '')'')) (\<lambda>sb.
            Inr (Some (sb_buffer sb), sb_View sb)))))
          else Inr (buffer, errstr e))"

definition ToString_error_string :: "strerror \<Rightarrow> (int \<Rightarrow> byte list) \<Rightarrow> Error \<Rightarrow> byte list exec" where
  "ToString_error_string strerror dec e =
     and_then (ToString_error strerror dec e (Some (replicate 256 0))) (\<lambda>(_, view). Inr view)"

text \<open>The two stream operators; a stream is the bytes it was given.\<close>

definition output_code :: "strerror \<Rightarrow> byte list \<Rightarrow> int \<Rightarrow> byte list exec" where
  "output_code strerror out code =
     and_then (ToString_code strerror code (replicate 256 0)) (\<lambda>(_, view). Inr (out @ view))"

definition output_error :: "strerror \<Rightarrow> (int \<Rightarrow> byte list) \<Rightarrow> byte list \<Rightarrow> Error \<Rightarrow> byte list exec" where
  "output_error strerror dec out e =
     and_then (ToString_error strerror dec e (Some (replicate 256 0))) (\<lambda>(_, view). Inr (out @ view))"

subsection \<open>Failures\<close>

record Failure =
  m_message :: "byte list"
  m_error :: Error

definition Failure_default :: Failure where
  "Failure_default = \<lparr>m_message = [], m_error = E_constant E_FAILURE\<rparr>"

definition Failure_of_code :: "header \<Rightarrow> int \<Rightarrow> Failure" where
  "Failure_of_code sys code = \<lparr>m_message = [], m_error = Error_Errno sys code\<rparr>"

definition Failure_of_error :: "Error \<Rightarrow> Failure" where
  "Failure_of_error e = \<lparr>m_message = [], m_error = e\<rparr>"

definition Failure_of_message :: "byte list \<Rightarrow> Failure" where
  "Failure_of_message msg = \<lparr>m_message = msg, m_error = E_constant E_FAILURE\<rparr>"

definition Failure_Errno :: "header \<Rightarrow> int \<Rightarrow> Failure" where
  "Failure_Errno sys errno = Failure_of_error (Error_Errno_last sys errno)"

definition Failure_bool :: "Failure \<Rightarrow> bool" where
  "Failure_bool f \<longleftrightarrow> error (m_error f) \<noteq> 0"

definition Failure_Code :: "Failure \<Rightarrow> int" where
  "Failure_Code f = error (m_error f)"

definition Failure_Message :: "Failure \<Rightarrow> byte list" where
  "Failure_Message f = m_message f"

definition Failure_Error :: "Failure \<Rightarrow> Error" where
  "Failure_Error f = m_error f"

definition WithCode :: "header \<Rightarrow> Failure \<Rightarrow> int \<Rightarrow> Failure" where
  "WithCode sys f code = f\<lparr>m_error := Error_Errno sys code\<rparr>"

definition WithContext :: "Failure \<Rightarrow> byte list \<Rightarrow> Failure" where
  "WithContext f msg =
     (if m_message f \<noteq> [] then f\<lparr>m_message := msg @ lit '': '' @ m_message f\<rparr> else f\<lparr>m_message := msg\<rparr>)"

text \<open>What \<^verbatim>\<open>fmt::format\<close> did; \<open>None\<close> below is \<^verbatim>\<open>std::abort\<close>.\<close>

datatype format_outcome = Formatted "byte list" | Threw_Std "byte list" | Threw_Other

definition WithContext_format :: "Failure \<Rightarrow> format_outcome \<Rightarrow> Failure option" where
  "WithContext_format f r =
     (case r of Formatted msg \<Rightarrow> Some (WithContext f msg) | Threw_Std what \<Rightarrow> Some (WithContext f what)
      | Threw_Other \<Rightarrow> None)"

definition Failure_of_format :: "format_outcome \<Rightarrow> Failure option" where
  "Failure_of_format r = WithContext_format Failure_default r"

text \<open>
  The text is built in the storage that \<open>reserve\<close> made, \<open>storage\<close> being its bytes, while the string has the size 0;
  \<^verbatim>\<open>resize\<close> then appends as many zero bytes as the builder has written.
\<close>

definition resize :: "byte list \<Rightarrow> nat \<Rightarrow> byte list" where
  "resize s n = take n s @ replicate (n - length s) 0"

definition Summary :: "strerror \<Rightarrow> (int \<Rightarrow> byte list) \<Rightarrow> byte list \<Rightarrow> Failure \<Rightarrow> byte list exec" where
  "Summary strerror dec storage f =
     and_then
       (if Error_bool (m_error f) then
          and_then (sb_Append_char (FixedStringBuilder storage) 91) (\<lambda>sb.
          and_then (ToString_error strerror dec (m_error f) (Some (sb_Subspan sb))) (\<lambda>(mem, view).
          and_then (sb_Offset (sb_put sb (the mem)) (length view)) (\<lambda>sb.
          and_then (sb_Append sb (lit ''] '')) (\<lambda>sb.
          Inr (resize [] (sb_offset sb))))))
        else Inr []) (\<lambda>summary.
     Inr (if m_message f \<noteq> [] then summary @ m_message f else summary))"

subsection \<open>Results\<close>

text \<open>\<^verbatim>\<open>std::variant<ErrorType, ValueType>\<close>; its default is the default of the first alternative.\<close>

datatype ('v, 'e) Result = Holds_Error 'e | Holds_Value 'v

definition Result_default :: "('v, Failure) Result" where
  "Result_default = Holds_Error Failure_default"

definition Result_of_value :: "'v \<Rightarrow> ('v, 'e) Result" where
  "Result_of_value v = Holds_Value v"

definition Result_of_error :: "'e \<Rightarrow> ('v, 'e) Result" where
  "Result_of_error e = Holds_Error e"

text \<open>
  The constructors that move: from a temporary, and from a variable that the caller keeps. They return what is left
  of the argument too; \<open>left\<close> is what a move leaves in an object.
\<close>

definition Result_move_error :: "('e \<Rightarrow> 'e) \<Rightarrow> 'e \<Rightarrow> ('v, 'e) Result \<times> 'e" where
  "Result_move_error left e = (Holds_Error e, left e)"

definition Result_of_lvalue :: "('e \<Rightarrow> 'e) \<Rightarrow> 'e \<Rightarrow> ('v, 'e) Result \<times> 'e" where
  "Result_of_lvalue left e = (Holds_Error e, left e)"

definition Failed :: "('v, 'e) Result \<Rightarrow> bool" where
  "Failed r \<longleftrightarrow> (case r of Holds_Error _ \<Rightarrow> True | Holds_Value _ \<Rightarrow> False)"

definition Succeeded :: "('v, 'e) Result \<Rightarrow> bool" where
  "Succeeded r \<longleftrightarrow> (case r of Holds_Error _ \<Rightarrow> False | Holds_Value _ \<Rightarrow> True)"

definition Result_bool :: "('v, 'e) Result \<Rightarrow> bool" where
  "Result_bool r = Succeeded r"

definition get_value :: "('v, 'e) Result \<Rightarrow> 'v exec" where
  "get_value r = (case r of Holds_Error _ \<Rightarrow> Inl Std_Bad_Variant_Access | Holds_Value v \<Rightarrow> Inr v)"

definition get_error :: "('v, 'e) Result \<Rightarrow> 'e exec" where
  "get_error r = (case r of Holds_Error e \<Rightarrow> Inr e | Holds_Value _ \<Rightarrow> Inl Std_Bad_Variant_Access)"

definition Result_deref :: "('v, 'e) Result \<Rightarrow> 'v exec" where
  "Result_deref r = and_then (fusion_assert (Succeeded r)) (\<lambda>_. get_value r)"

definition Result_arrow :: "('v, 'e) Result \<Rightarrow> 'v exec" where
  "Result_arrow r = and_then (fusion_assert (Succeeded r)) (\<lambda>_. get_value r)"

definition Value :: "('v, 'e) Result \<Rightarrow> 'v exec" where
  "Value r = and_then (fusion_assert (Succeeded r)) (\<lambda>_. get_value r)"

definition Result_Error :: "('v, 'e) Result \<Rightarrow> 'e exec" where
  "Result_Error r = and_then (fusion_assert (Failed r)) (\<lambda>_. get_error r)"

text \<open>\<open>dflt\<close> is \<^verbatim>\<open>T{}\<close>. The overloads for an object that is not constant move the value out.\<close>

definition Default_const :: "'v \<Rightarrow> ('v, 'e) Result \<Rightarrow> 'v exec" where
  "Default_const dflt r = (if Succeeded r then get_value r else Inr dflt)"

definition ValueOr_const :: "('v, 'e) Result \<Rightarrow> 'v \<Rightarrow> 'v exec" where
  "ValueOr_const r v = (if Succeeded r then get_value r else Inr v)"

definition move_value :: "('v \<Rightarrow> 'v) \<Rightarrow> ('v, 'e) Result \<Rightarrow> ('v \<times> ('v, 'e) Result) exec" where
  "move_value left r = and_then (get_value r) (\<lambda>v. Inr (v, Holds_Value (left v)))"

definition Default_move :: "('v \<Rightarrow> 'v) \<Rightarrow> 'v \<Rightarrow> ('v, 'e) Result \<Rightarrow> ('v \<times> ('v, 'e) Result) exec" where
  "Default_move left dflt r = (if Succeeded r then move_value left r else Inr (dflt, r))"

definition ValueOr_move :: "('v \<Rightarrow> 'v) \<Rightarrow> ('v, 'e) Result \<Rightarrow> 'v \<Rightarrow> ('v \<times> ('v, 'e) Result) exec" where
  "ValueOr_move left r v = (if Succeeded r then move_value left r else Inr (v, r))"

text \<open>\<^verbatim>\<open>!Failure()\<close> in \<^verbatim>\<open>Empty\<close> constructs a failure; it does not ask for the one of the result.\<close>

definition Empty :: "('v, 'e) Result \<Rightarrow> bool" where
  "Empty r \<longleftrightarrow> \<not> Failed r \<and> \<not> Failure_bool Failure_default"

definition Success :: "(unit, Failure) Result" where
  "Success = Result_of_value ()"

text \<open>The formatter of a result prints its error.\<close>

definition Result_format ::
  "strerror \<Rightarrow> (int \<Rightarrow> byte list) \<Rightarrow> byte list \<Rightarrow> ('v, Failure) Result \<Rightarrow> byte list exec" where
  "Result_format strerror dec storage r = and_then (Result_Error r) (\<lambda>f. Summary strerror dec storage f)"

section \<open>Lemmas\<close>

subsection \<open>The builder\<close>

lemma sb_format_eq:
  assumes "sb_inv sb" and "sb_offset sb + length txt < sb_capacity sb"
  obtains buf where "sb_format sb txt = Inr (sb\<lparr>sb_buffer := buf, sb_offset := sb_offset sb + length txt\<rparr>)"
    and "length buf = length (sb_buffer sb)" and "take (sb_offset sb + length txt) buf = sb_View sb @ txt"
    and "buf ! (sb_offset sb + length txt) = 0"
proof -
  let ?b = "blit (sb_buffer sb) (sb_offset sb) txt"
  have fit: "sb_offset sb + length txt < length (sb_buffer sb)" using assms by (auto simp: sb_inv_def)
  have rem: "sb_Remaining (sb\<lparr>sb_buffer := ?b\<rparr>) = sb_Remaining sb" by (simp add: sb_Remaining_def)
  have "length txt \<le> sb_Remaining sb" using assms by (simp add: sb_Remaining_eq)
  with fit assms have "sb_format sb txt =
      Inr (sb\<lparr>sb_buffer := ?b[sb_offset sb + length txt := 0], sb_offset := sb_offset sb + length txt\<rparr>)"
    by (simp add: sb_format_def memcpy_def sb_Offset_def rem Let_def sb_store_def)
  moreover have "take (sb_offset sb + length txt) ?b = sb_View sb @ txt"
    using fit by (simp add: blit_def sb_View_def)
  ultimately show thesis using fit by (intro that [of "?b[sb_offset sb + length txt := 0]"]) auto
qed

lemma sb_format_long:
  assumes "sb_inv sb" and "\<not> sb_offset sb + length txt < sb_capacity sb"
  shows "sb_format sb txt = Inl Assert_Failed"
proof -
  have off: "sb_offset sb \<le> sb_capacity sb" "sb_capacity sb < length (sb_buffer sb)"
    using assms by (auto simp: sb_inv_def)
  then have rem: "sb_Remaining sb = sb_capacity sb - sb_offset sb" "sb_Remaining sb \<le> length txt"
    using assms by (simp_all add: sb_Remaining_eq)
  have upd: "sb_Remaining (sb\<lparr>sb_buffer := b\<rparr>) = sb_Remaining sb" for b by (simp add: sb_Remaining_def)
  show ?thesis using off rem by (simp add: sb_format_def memcpy_def sb_Offset_def upd Let_def)
qed

lemma sb_inv_update:
  "sb_inv sb \<Longrightarrow> length buf = length (sb_buffer sb) \<Longrightarrow> n \<le> sb_capacity sb \<Longrightarrow> sb_inv (sb\<lparr>sb_buffer := buf, sb_offset := n\<rparr>)"
  by (simp add: sb_inv_def)

lemma sb_Offset_put:
  assumes "sb_inv sb" and "length mem = sb_Remaining sb" and "n < sb_Remaining sb"
  obtains buf where "sb_Offset (sb_put sb mem) n = Inr (sb\<lparr>sb_buffer := buf, sb_offset := sb_offset sb + n\<rparr>)"
    and "length buf = length (sb_buffer sb)" and "take (sb_offset sb + n) buf = sb_View sb @ take n mem"
proof -
  let ?b = "blit (sb_buffer sb) (sb_offset sb) mem"
  have cap: "sb_offset sb + sb_Remaining sb = sb_capacity sb" "sb_capacity sb < length (sb_buffer sb)"
    using assms by (auto simp: sb_Remaining_eq sb_inv_def)
  have rem: "sb_Remaining (sb_put sb mem) = sb_Remaining sb" by (simp add: sb_Remaining_def sb_put_def)
  have "sb_Offset (sb_put sb mem) n =
      Inr (sb\<lparr>sb_buffer := ?b[sb_offset sb + n := 0], sb_offset := sb_offset sb + n\<rparr>)"
    using assms(2,3) cap by (simp add: sb_Offset_def rem Let_def) (simp add: sb_put_def sb_store_def)
  moreover have "take (sb_offset sb + n) ?b = sb_View sb @ take n mem"
    using assms(2,3) cap by (simp add: blit_def sb_View_def)
  ultimately show thesis using assms(2,3) cap by (intro that [of "?b[sb_offset sb + n := 0]"]) auto
qed

lemma length_sb_Subspan: "sb_inv sb \<Longrightarrow> length (sb_Subspan sb) = sb_Remaining sb"
  by (auto simp: sb_Subspan_def sb_Remaining_eq sb_inv_def min_def)

subsection \<open>Messages\<close>

primrec strerror_text :: "strerror_result \<Rightarrow> byte list" where
  "strerror_text (Static msg) = msg"
| "strerror_text (In_Buffer txt) = txt"

text \<open>What the GNU manual says of \<^verbatim>\<open>strerror_r\<close>: a string, and a text in the buffer fits there with its terminator.\<close>

definition strerror_ok :: "strerror \<Rightarrow> bool" where
  "strerror_ok strerror \<longleftrightarrow> (\<forall>code n. 0 < n \<longrightarrow> 0 \<notin> set (strerror_text (strerror code n)) \<and>
     (case strerror code n of Static _ \<Rightarrow> True | In_Buffer txt \<Rightarrow> length txt < n))"

lemma Length_cstr_terminated: "0 \<notin> set s \<Longrightarrow> Length_cstr (s @ 0 # t) = Inr (length s)"
  by (induction s) auto

lemma takeWhile_blit_terminated:
  "0 \<notin> set s \<Longrightarrow> takeWhile (\<lambda>c. c \<noteq> 0) (blit b 0 (s @ [0])) = s"
  by (simp add: blit_def takeWhile_append)

lemma ToString_code_eq:
  assumes "strerror_ok strerror" and "buffer \<noteq> []"
  obtains mem where "ToString_code strerror code buffer =
      Inr (mem, take (length buffer - 1) (strerror_text (strerror code (length buffer))))"
    and "length mem = length buffer"
    and "take (length (take (length buffer - 1) (strerror_text (strerror code (length buffer))))) mem =
      take (length buffer - 1) (strerror_text (strerror code (length buffer)))"
proof (cases "strerror code (length buffer)")
  case (Static msg)
  let ?b = "buffer[0 := 0]" and ?n = "min (length buffer - 1) (length msg)"
  have msg: "0 \<notin> set msg" using assms Static by (auto simp: strerror_ok_def dest!: spec [of _ code] spec [of _ "length buffer"])
  have n: "?n < length buffer" using assms(2) by (cases buffer) auto
  show thesis
  proof (cases "msg = []")
    case True
    with Static assms(2) show thesis
      by (intro that [of ?b])
        (simp_all add: ToString_code_def sb_store_def ErrorToString_def Copy_cstr_def Copy_n_def)
  next
    case False
    have "ToString_code strerror code buffer = Inr ((blit ?b 0 (take ?n msg))[?n := 0], take ?n msg)"
      using Static assms(2) msg False n
      by (simp add: ToString_code_def sb_store_def ErrorToString_def Copy_cstr_def Length_cstr_terminated Copy_n_def Let_def memcpy_def)
        (simp add: blit_def)
    moreover have "take ?n msg = take (length buffer - 1) msg" by (simp add: min_def)
    moreover have "take ?n ((blit ?b 0 (take ?n msg))[?n := 0]) = take ?n msg" using n by (simp add: blit_def)
    ultimately show thesis
      using Static n by (intro that [of "(blit ?b 0 (take ?n msg))[?n := 0]"]) (simp_all add: min.commute)
  qed
next
  case (In_Buffer words)
  have words: "0 \<notin> set words" "length words < length buffer"
    using assms In_Buffer by (auto simp: strerror_ok_def dest!: spec [of _ code] spec [of _ "length buffer"])
  let ?b = "blit (buffer[0 := 0]) 0 (words @ [0])"
  have "ToString_code strerror code buffer = Inr (?b, words)"
    using In_Buffer assms(2) words
    by (simp add: ToString_code_def sb_store_def ErrorToString_def memcpy_def takeWhile_blit_terminated)
  moreover have "take (length words) ?b = words" using words by (simp add: blit_def)
  ultimately show thesis using In_Buffer words by (intro that [of ?b]) simp_all
qed

text \<open>The three parts of the text of an error with a platform code.\<close>

definition print_parts ::
  "strerror \<Rightarrow> int \<Rightarrow> byte list \<Rightarrow> byte list \<Rightarrow> byte list \<Rightarrow> (byte list option \<times> byte list) exec" where
  "print_parts strerror code a c b =
     and_then (sb_format (FixedStringBuilder b) a) (\<lambda>sb.
     and_then (ToString_code strerror code (sb_Subspan sb)) (\<lambda>(mem, message).
     and_then (sb_Offset (sb_put sb mem) (length message)) (\<lambda>sb.
     and_then (sb_format sb c) (\<lambda>sb.
     Inr (Some (sb_buffer sb), sb_View sb)))))"

lemma print_parts_eq:
  fixes strerror :: strerror
  assumes "strerror_ok strerror" and "length buffer < 2 ^ 64" and "buffer \<noteq> []" and "c \<noteq> []"
  shows "let t = a @ strerror_text (strerror code (length buffer - 1 - length a)) @ c in
    if length t + 1 < length buffer
    then \<exists>buffer'. print_parts strerror code a c buffer = Inr (Some buffer', t)
      \<and> length buffer' = length buffer \<and> buffer' ! length t = 0
    else print_parts strerror code a c buffer = Inl Assert_Failed"
proof -
  define sb n where "sb = FixedStringBuilder buffer" and "n = length buffer - 1 - length a"
  define m where "m = strerror_text (strerror code n)"
  have inv: "sb_inv sb" using assms by (simp add: sb_inv_new sb_def)
  have sb: "sb_offset sb = 0" "sb_capacity sb = length buffer - 1" "sb_buffer sb = buffer" "sb_View sb = []"
    using inv by (auto simp: sb_inv_def FixedStringBuilder_def sb_View_def sb_def)
  have "if length (a @ m @ c) + 1 < length buffer
    then \<exists>buffer'. print_parts strerror code a c buffer = Inr (Some buffer', a @ m @ c)
      \<and> length buffer' = length buffer \<and> buffer' ! length (a @ m @ c) = 0
    else print_parts strerror code a c buffer = Inl Assert_Failed"
  proof (cases "length a < length buffer - 1")
    case False
    then have "sb_format sb a = Inl Assert_Failed" using sb_format_long [OF inv, of a] sb by simp
    then show ?thesis using False by (simp add: print_parts_def sb_def)
  next
    case True
    obtain b1 where f1: "sb_format sb a = Inr (sb\<lparr>sb_buffer := b1, sb_offset := length a\<rparr>)"
      and b1: "length b1 = length buffer" "take (length a) b1 = a"
      using sb_format_eq [OF inv, of a] True sb by auto
    define s1 where "s1 = sb\<lparr>sb_buffer := b1, sb_offset := length a\<rparr>"
    have s1: "sb_offset s1 = length a" "sb_capacity s1 = length buffer - 1" "length (sb_buffer s1) = length buffer" "sb_View s1 = a"
      using b1 sb by (simp_all add: s1_def sb_View_def)
    have inv1: "sb_inv s1" using sb_inv_update [OF inv, of b1 "length a"] b1 True sb by (simp add: s1_def)
    have rem1: "sb_Remaining s1 = n" "0 < n" using sb_Remaining_eq [OF inv1] s1 True by (simp_all add: n_def)
    have sub: "length (sb_Subspan s1) = n" using length_sb_Subspan [OF inv1] rem1 by simp
    then have "sb_Subspan s1 \<noteq> []" using rem1 by auto
    from ToString_code_eq [OF assms(1) this, of code] obtain mem
      where mem: "ToString_code strerror code (sb_Subspan s1) = Inr (mem, take (n - 1) m)"
        "length mem = n" "take (length (take (n - 1) m)) mem = take (n - 1) m"
      unfolding sub m_def by blast
    define k where "k = length (take (n - 1) m)"
    have k: "k < n" using rem1 by (simp add: k_def)
    obtain b2 where f2: "sb_Offset (sb_put s1 mem) k = Inr (s1\<lparr>sb_buffer := b2, sb_offset := length a + k\<rparr>)"
      and b2: "length b2 = length buffer" "take (length a + k) b2 = a @ take (n - 1) m"
      using sb_Offset_put [OF inv1, of mem k] mem k s1 rem1 unfolding k_def by metis
    define s2 where "s2 = s1\<lparr>sb_buffer := b2, sb_offset := length a + k\<rparr>"
    have s2: "sb_offset s2 = length a + k" "sb_capacity s2 = length buffer - 1" "length (sb_buffer s2) = length buffer"
        "sb_View s2 = a @ take (n - 1) m"
      using b2 s1 by (simp_all add: s2_def sb_View_def)
    have "length a + k \<le> sb_capacity s1" using k s1 by (simp add: n_def)
    then have inv2: "sb_inv s2" using sb_inv_update [OF inv1, of b2] b2 s1 by (simp add: s2_def)
    have run: "print_parts strerror code a c buffer = and_then (sb_format s2 c) (\<lambda>sb. Inr (Some (sb_buffer sb), sb_View sb))"
      using f1 f2 mem(1) unfolding s1_def [symmetric] by (simp add: print_parts_def sb_def [symmetric] s2_def k_def)
    show ?thesis
    proof (cases "length (a @ m @ c) + 1 < length buffer")
      case fits: True
      then have m: "take (n - 1) m = m" "k = length m" by (simp_all add: n_def k_def)
      obtain b3 where f3: "sb_format s2 c = Inr (s2\<lparr>sb_buffer := b3, sb_offset := length (a @ m @ c)\<rparr>)"
        and b3: "length b3 = length buffer" "take (length (a @ m @ c)) b3 = a @ m @ c" "b3 ! length (a @ m @ c) = 0"
        using sb_format_eq [OF inv2, of c thesis] fits s2 m by (simp add: add.assoc less_diff_conv)
      show ?thesis using fits run f3 b3 by (simp add: sb_View_def)
    next
      case long: False
      have "\<not> length a + k + length c < length buffer - 1"
        using long rem1 assms(4) by (cases "length m \<le> n - 1") (auto simp: k_def n_def neq_Nil_conv)
      then have "sb_format s2 c = Inl Assert_Failed" using sb_format_long [OF inv2, of c] s2 by simp
      then show ?thesis using long run by simp
    qed
  qed
  then show ?thesis by (simp only: m_def n_def Let_def)
qed

section \<open>Properties\<close>

definition error_text :: "strerror \<Rightarrow> (int \<Rightarrow> byte list) \<Rightarrow> Error \<Rightarrow> nat \<Rightarrow> byte list" where
  "error_text strerror dec e n = lit ''['' @ errstr e @ lit ''] '' @
     strerror_text (strerror (platformCode e) (n - 1 - (length (errstr e) + 3))) @
     lit '' ('' @ dec (platformCode e) @ lit '')''"

text \<open>
  Property C31. An error with a platform code is printed in full and terminated, or not at all: when the text leaves no byte of the builder's
  capacity free, an assertion fails, although \<^verbatim>\<open>format_to_n\<close> and the copy of the message take care to
  truncate. Without a platform code, or without a buffer, the text is the name of the error.
\<close>

theorem error_text_all_or_nothing:
  assumes "strerror_ok strerror" and "length buffer < 2 ^ 64" and "buffer \<noteq> []"
  shows "(platformCode e = ErrorCodeInvalid \<longrightarrow> ToString_error strerror dec e (Some buffer) = Inr (Some buffer, errstr e)) \<and>
    (platformCode e \<noteq> ErrorCodeInvalid \<longrightarrow>
      (if length (error_text strerror dec e (length buffer)) + 1 < length buffer
       then \<exists>buffer'. ToString_error strerror dec e (Some buffer) = Inr (Some buffer', error_text strerror dec e (length buffer))
         \<and> length buffer' = length buffer \<and> buffer' ! length (error_text strerror dec e (length buffer)) = 0
       else ToString_error strerror dec e (Some buffer) = Inl Assert_Failed))"
proof (intro conjI impI)
  show "ToString_error strerror dec e (Some buffer) = Inr (Some buffer, errstr e)" if "platformCode e = ErrorCodeInvalid"
    using that by (simp add: ToString_error_def)
next
  assume code: "platformCode e \<noteq> ErrorCodeInvalid"
  define a c n where "a = lit ''['' @ errstr e @ lit ''] ''" and "c = lit '' ('' @ dec (platformCode e) @ lit '')''"
    and "n = length buffer - 1 - length a"
  define m where "m = strerror_text (strerror (platformCode e) n)"
  have t: "error_text strerror dec e (length buffer) = a @ m @ c"
    by (simp add: error_text_def a_def c_def m_def n_def numeral_3_eq_3)
  have run: "ToString_error strerror dec e (Some buffer) = print_parts strerror (platformCode e) a c buffer"
    using code assms(3) by (simp add: ToString_error_def print_parts_def a_def c_def)
  show "if length (error_text strerror dec e (length buffer)) + 1 < length buffer
     then \<exists>buffer'. ToString_error strerror dec e (Some buffer) = Inr (Some buffer', error_text strerror dec e (length buffer))
       \<and> length buffer' = length buffer \<and> buffer' ! length (error_text strerror dec e (length buffer)) = 0
     else ToString_error strerror dec e (Some buffer) = Inl Assert_Failed"
    using print_parts_eq [OF assms, where c = c and code = "platformCode e" and a = a]
    unfolding t run m_def n_def Let_def by (simp add: c_def lit_def)
qed

lemma strerror_ok_static: "0 \<notin> set msg \<Longrightarrow> strerror_ok (\<lambda>_ _. Static msg)"
  by (simp add: strerror_ok_def)

theorem error_text_all_or_nothing_witness:
  "\<exists>buffer'. ToString_error (\<lambda>_ _. Static (lit ''Busy'')) (\<lambda>_. lit ''16'') (Error_new 3 ''E'' \<lparr>platformCode := 16\<rparr>)
      (Some (replicate 32 1)) = Inr (Some buffer', lit ''[E] Busy (16)'')"
proof -
  have "strerror_ok (\<lambda>_ _. Static (lit ''Busy''))" by (rule strerror_ok_static) (simp add: lit_def)
  from error_text_all_or_nothing [OF this, of "replicate 32 1" "Error_new 3 ''E'' \<lparr>platformCode := 16\<rparr>" "\<lambda>_. lit ''16''"]
  show ?thesis by (auto simp: error_text_def Error_new_def ErrorCodeInvalid_def lit_def)
qed

text \<open>
  Whatever \<^verbatim>\<open>errno\<close> is, even 0, the error made of it is an error, keeps the code, and is one of the six classes of the
  switch; the names are those of the class.
\<close>

theorem errno_is_failure:
  "Error_bool (Error_Errno sys code) \<and> platformCode (Error_Errno sys code) = code \<and>
   Failure_bool (Failure_of_code sys code) \<and> \<not> Succeeded (Result_of_error (Failure_of_code sys code)) \<and>
   (\<exists>c\<in>{E_FAILURE, E_ACCESS_DENIED, E_RESOURCE_NOT_AVAILABLE, E_INTERRUPTED, E_INSUFFICIENT_RESOURCES, E_INVALID_ARGUMENT}.
      Error_eq (Error_Errno sys code) (E_constant c) \<and> errstr (Error_Errno sys code) = errstr (E_constant c))"
proof -
  define c where "c = errno_class sys code"
  have e: "Error_Errno sys code = Error_with_code (E_constant c) code" by (simp add: c_def Error_Errno_def)
  have c: "c \<in> {E_FAILURE, E_ACCESS_DENIED, E_RESOURCE_NOT_AVAILABLE, E_INTERRUPTED, E_INSUFFICIENT_RESOURCES, E_INVALID_ARGUMENT}"
    unfolding c_def errno_class_def by simp
  from c have "error (E_constant c) \<noteq> 0"
    by (auto simp: E_constant_def core_errors_def Error_new_def ErrorCodeGeneric_def)
  with c show ?thesis
    by (auto simp: e Error_bool_def Error_with_code_def ErrorCodeSuccess_def Failure_of_code_def Failure_bool_def
        Succeeded_def Result_of_error_def Error_eq_def)
qed

text \<open>
  Contexts added on the way up are joined in front of the message, the last one first, and leave the error as it is.
\<close>

theorem failure_contexts:
  assumes "[] \<notin> set contexts"
  shows "Failure_Message (foldl WithContext f contexts) =
      Join (rev contexts @ (if Failure_Message f = [] then [] else [Failure_Message f])) (lit '': '') \<and>
    Failure_Error (foldl WithContext f contexts) = Failure_Error f"
  using assms
proof (induction contexts rule: rev_induct)
  case Nil
  then show ?case by (simp add: Join_def)
next
  case (snoc c cs)
  define g l where "g = foldl WithContext f cs" and "l = rev cs @ (if Failure_Message f = [] then [] else [Failure_Message f])"
  have "[] \<notin> set l" using snoc.prems by (auto simp: l_def)
  moreover have "join_loop vs d out \<noteq> []" if "vs \<noteq> []" "[] \<notin> set vs" for vs d out
    using that by (induction vs d out rule: join_loop.induct) auto
  ultimately have nonempty: "Join l (lit '': '') = [] \<longleftrightarrow> l = []" by (auto simp: Join_def)
  have step: "Join (c # l) d = c @ (if l = [] then [] else d @ Join l d)" for d
    by (cases l) (simp_all add: Join_def join_loop_eq)
  from snoc have "Failure_Message g = Join l (lit '': '')" "Failure_Error g = Failure_Error f" by (auto simp: g_def l_def)
  then have "Failure_Message (WithContext g c) = Join (c # l) (lit '': '') \<and> Failure_Error (WithContext g c) = Failure_Error f"
    using nonempty unfolding step by (auto simp: Failure_Message_def Failure_Error_def WithContext_def)
  then show ?case by (simp add: g_def l_def)
qed

theorem failure_contexts_witness:
  "Failure_Message (foldl WithContext (Failure_of_message (lit ''no entry'')) [lit ''open'', lit ''load'']) =
     lit ''load: open: no entry''"
  using failure_contexts [of "[lit ''open'', lit ''load'']" "Failure_of_message (lit ''no entry'')"]
  by (simp add: Failure_of_message_def Failure_Message_def Join_def lit_def)

text \<open>
  \<^verbatim>\<open>Failure::Summary\<close> never shows its error: the text is written behind the end of an empty string, and \<^verbatim>\<open>resize\<close> fills
  the string with zeros. For an error without platform code there is one zero for each byte of the name and the brackets.
\<close>

theorem summary_is_zeros:
  assumes "Failure_bool f" and "256 \<le> length storage" and "length storage < 2 ^ 64"
  shows "(\<forall>s. Summary strerror dec storage f = Inr s \<longrightarrow> (\<exists>n. 3 \<le> n \<and> s = replicate n 0 @ Failure_Message f)) \<and>
    (platformCode (Failure_Error f) = ErrorCodeInvalid \<and> length (errstr (Failure_Error f)) < 250 \<longrightarrow>
      Summary strerror dec storage f = Inr (replicate (length (errstr (Failure_Error f)) + 3) 0 @ Failure_Message f))"
proof -
  let ?sb = "FixedStringBuilder storage"
  define sb where "sb = ?sb\<lparr>sb_buffer := storage[0 := 91, 1 := 0], sb_offset := 1\<rparr>"
  have inv0: "sb_inv ?sb" using assms by (auto intro: sb_inv_new)
  have cap: "sb_capacity ?sb = length storage - 1" "sb_offset ?sb = 0" "sb_buffer ?sb = storage"
    using inv0 by (auto simp: sb_inv_def FixedStringBuilder_def)
  have char: "sb_Append_char ?sb 91 = Inr sb"
    using assms cap sb_Remaining_eq [OF inv0] by (simp add: sb_Append_char_def sb_store_def sb_def)
  have inv: "sb_inv sb" using inv0 assms cap by (simp add: sb_inv_def sb_def)
  have sb: "sb_offset sb = 1" "sb_capacity sb = length storage - 1" using cap by (simp_all add: sb_def)
  have rem: "sb_Remaining s = sb_capacity s - sb_offset s" if "sb_offset s \<le> sb_capacity s" "sb_capacity s < 2 ^ 64"
    for s :: string_builder using that by (simp add: sb_Remaining_def) (metis (no_types) Nat.add_diff_assoc2 mod_add_self2 mod_less less_imp_diff_less)
  have three: "3 \<le> sb_offset s2" if "sb_Offset (sb_put sb mem) n = Inr s1" "sb_Append s1 (lit ''] '') = Inr s2" for mem n s1 s2
  proof -
    from that(1) have s1: "1 \<le> sb_offset s1" "sb_offset s1 < sb_capacity s1" "sb_capacity s1 = length storage - 1"
      using sb by (auto simp: sb_Offset_def sb_put_def Let_def exec_iff)
    with rem [of s1] assms have "sb_Remaining s1 = sb_capacity s1 - sb_offset s1" by simp
    with s1 that(2) show ?thesis by (auto simp: sb_Append_def Let_def exec_iff min_def split: if_splits)
  qed
  have msg: "(if m_message f \<noteq> [] then x @ m_message f else x) = x @ m_message f" for x by simp
  have run: "Summary strerror dec storage f = and_then
      (and_then (ToString_error strerror dec (m_error f) (Some (sb_Subspan sb))) (\<lambda>(mem, view).
       and_then (sb_Offset (sb_put sb (the mem)) (length view)) (\<lambda>s1.
       and_then (sb_Append s1 (lit ''] '')) (\<lambda>s2. Inr (sb_offset s2))))) (\<lambda>n. Inr (replicate n 0 @ m_message f))"
    using assms(1) char
    by (simp only: msg Summary_def) (simp add: Failure_bool_def Error_bool_def ErrorCodeSuccess_def resize_def and_then_assoc split_def)
  let ?e = "errstr (m_error f)"
  have plain: "Summary strerror dec storage f = Inr (replicate (length ?e + 3) 0 @ m_message f)"
    if "platformCode (m_error f) = ErrorCodeInvalid" "length ?e < 250"
  proof -
    have "length (sb_Subspan sb) = sb_Remaining sb" "length ?e < sb_Remaining sb"
      using inv that assms sb by (simp_all add: length_sb_Subspan sb_Remaining_eq)
    from sb_Offset_put [OF inv this] obtain b where
      b: "sb_Offset (sb_put sb (sb_Subspan sb)) (length ?e) = Inr (sb\<lparr>sb_buffer := b, sb_offset := 1 + length ?e\<rparr>)"
        "length b = length (sb_buffer sb)" using sb by metis
    let ?s = "sb\<lparr>sb_buffer := b, sb_offset := 1 + length ?e\<rparr>"
    have "sb_inv ?s" using sb_inv_update [OF inv b(2)] that assms sb by simp
    moreover have "sb_offset ?s + 2 < sb_capacity ?s" using that assms sb by simp
    ultimately have "\<exists>s2. sb_Append ?s (lit ''] '') = Inr s2 \<and> sb_offset s2 = length ?e + 3"
      by (simp add: sb_Append_def Let_def memcpy_def sb_store_def sb_Remaining_eq) (simp add: sb_inv_def)
    with b(1) that show ?thesis by (auto simp: run ToString_error_def)
  qed
  show ?thesis using plain three by (fastforce simp: run exec_iff Failure_Message_def Failure_Error_def)
qed

theorem summary_is_zeros_witness:
  "Summary (\<lambda>_ _. Static []) (\<lambda>_. []) (replicate 256 0) (Failure_of_message (lit ''closed'')) =
     Inr (replicate 12 0 @ lit ''closed'')"
  using summary_is_zeros [of "Failure_of_message (lit ''closed'')" "replicate 256 0" "\<lambda>_ _. Static []" "\<lambda>_. []"]
  by (simp add: Failure_of_message_def Failure_Message_def Failure_Error_def Failure_bool_def E_constant_def core_errors_def
      Error_new_def ErrorCodeGeneric_def)

text \<open>What a client of \<^verbatim>\<open>Result\<close> relies on.\<close>

locale fallible =
  fixes of_value :: "'v \<Rightarrow> 'r" and of_error :: "'e \<Rightarrow> 'r" and ok :: "'r \<Rightarrow> bool"
    and the_value :: "'r \<Rightarrow> 'v exec" and the_error :: "'r \<Rightarrow> 'e exec"
  assumes cover: "(\<exists>v. r = of_value v) \<or> (\<exists>e. r = of_error e)"
    and ok_value: "ok (of_value v)" and ok_error: "\<not> ok (of_error e)"
    and value_of_value: "the_value (of_value v) = Inr v" and error_of_error: "the_error (of_error e) = Inr e"
    and value_of_error: "the_value (of_error e) = Inl Assert_Failed"
    and error_of_value: "the_error (of_value v) = Inl Assert_Failed"
begin

lemma total: "(ok r \<longleftrightarrow> (\<exists>v. the_value r = Inr v)) \<and> (\<not> ok r \<longleftrightarrow> (\<exists>e. the_error r = Inr e))"
  using cover [of r] by (auto simp: ok_value ok_error value_of_value error_of_error value_of_error error_of_value)

lemma determined: "the_value r = the_value r' \<Longrightarrow> the_error r = the_error r' \<Longrightarrow> r = r'"
  using cover [of r] cover [of r'] by (auto simp: value_of_value error_of_error value_of_error error_of_value)

end

interpretation result: fallible Result_of_value Result_of_error Result_bool Value Result_Error
proof
  show "(\<exists>v. r = Result_of_value v) \<or> (\<exists>e. r = Result_of_error e)" for r :: "('v, 'e) Result"
    by (cases r) (auto simp: Result_of_value_def Result_of_error_def)
qed (simp_all add: Result_of_value_def Result_of_error_def Result_bool_def Succeeded_def Failed_def Value_def Result_Error_def
    get_value_def get_error_def)

text \<open>
  The contract of \<^verbatim>\<open>Result\<close>: a result holds a value or an error, each is read back as it was given, the wrong one is an
  assertion, and the defaults apply to errors only. A default result has failed, and \<^verbatim>\<open>Empty\<close> is false of every
  result.
\<close>

theorem result_contract:
  "(Result_bool r \<longleftrightarrow> (\<exists>v. Value r = Inr v)) \<and> (\<not> Result_bool r \<longleftrightarrow> (\<exists>e. Result_Error r = Inr e)) \<and>
   (Value r = Value r' \<and> Result_Error r = Result_Error r' \<longrightarrow> r = r') \<and>
   ValueOr_const r d = Inr (case Value r of Inr v \<Rightarrow> v | Inl _ \<Rightarrow> d) \<and> Default_const d r = ValueOr_const r d \<and>
   (\<exists>r''. ValueOr_move left r d = Inr (case Value r of Inr v \<Rightarrow> v | Inl _ \<Rightarrow> d, r'') \<and> Result_bool r'' = Result_bool r) \<and>
   \<not> Empty r"
  using result.total [of r] result.determined [of r r']
  by (cases r) (auto simp: ValueOr_const_def Default_const_def ValueOr_move_def move_value_def Value_def Succeeded_def get_value_def
      Result_bool_def Empty_def Failure_bool_def Failure_default_def E_constant_def core_errors_def Error_new_def ErrorCodeGeneric_def)

theorem result_contract_witness:
  "Result_of_value (3 :: nat) = (Result_of_value 3 :: (nat, nat) Result)"
  using result_contract [of "Result_of_value 3" "Result_of_value (3 :: nat) :: (nat, nat) Result" 0 id] by simp

end
