(* ===== verification/Dynamic_Library.thy ===== *)
theory Dynamic_Library
  imports Error_Result
begin

text \<open>
  \<^verbatim>\<open>Library\<close> (\<^verbatim>\<open>Library.h\<close>, \<^verbatim>\<open>Library.cpp\<close>, \<^verbatim>\<open>platforms/posix/Library.cpp\<close>): an object that owns a handle of the dynamic linker.
  Which handle \<^verbatim>\<open>dlopen\<close> returns, if any, and what \<^verbatim>\<open>errno\<close> is then are arguments of \<open>Load\<close>: the linker may return a handle
  that it has returned before. Of its state only the calls are kept: how often each handle was returned less how often it was closed.
\<close>

section \<open>Model\<close>

datatype LibraryLoadFlag = Load_Default | Load_System | Load_Lazy | Load_Now | Load_Global | Load_Local | Load_Deep

fun LibraryLoadFlag_value :: "LibraryLoadFlag \<Rightarrow> byte" where
  "LibraryLoadFlag_value Load_Default = 0"
| "LibraryLoadFlag_value Load_System = push_bit 1 1"
| "LibraryLoadFlag_value Load_Lazy = push_bit 2 1"
| "LibraryLoadFlag_value Load_Now = push_bit 3 1"
| "LibraryLoadFlag_value Load_Global = push_bit 4 1"
| "LibraryLoadFlag_value Load_Local = push_bit 5 1"
| "LibraryLoadFlag_value Load_Deep = push_bit 6 1"

definition FormatLibraryName :: "byte list \<Rightarrow> byte list \<Rightarrow> byte list" where
  "FormatLibraryName name suff = lit ''lib'' @ name @ suff @ lit ''.'' @ lit ''so''"

text \<open>The mode for \<^verbatim>\<open>dlopen\<close>.\<close>

definition has :: "byte \<Rightarrow> LibraryLoadFlag \<Rightarrow> bool" where
  "has flags f \<longleftrightarrow> flags AND LibraryLoadFlag_value f \<noteq> 0"

definition dl_mode :: "header \<Rightarrow> byte \<Rightarrow> int" where
  "dl_mode sys flags =
     (let fl = 0;
          fl = fl OR (if has flags Load_Now then sys ''RTLD_NOW'' else sys ''RTLD_LAZY'');
          fl = fl OR (if has flags Load_Global then sys ''RTLD_GLOBAL'' else sys ''RTLD_LOCAL'')
      in if has flags Load_Deep then fl OR sys ''RTLD_DEEPBIND'' else fl)"

text \<open>The references of each handle and the calls of \<^verbatim>\<open>dlopen\<close>.\<close>

record linker =
  dl_refs :: "nat \<Rightarrow> nat"
  dl_opened :: "(byte list \<times> int) list"

definition dlopen :: "byte list \<Rightarrow> int \<Rightarrow> nat option \<Rightarrow> linker \<Rightarrow> nat option \<times> linker" where
  "dlopen path mode outcome l =
     (outcome, (case outcome of None \<Rightarrow> l | Some h \<Rightarrow> l\<lparr>dl_refs := (dl_refs l)(h := dl_refs l h + 1)\<rparr>)
        \<lparr>dl_opened := dl_opened l @ [(takeWhile (\<lambda>c. c \<noteq> 0) path, mode)]\<rparr>)"

definition dlclose :: "nat \<Rightarrow> linker \<Rightarrow> linker" where
  "dlclose h l = l\<lparr>dl_refs := (dl_refs l)(h := dl_refs l h - 1)\<rparr>"

type_synonym library = "nat option"

definition Library_new :: library where
  "Library_new = None"

definition IsLoaded :: "library \<Rightarrow> bool" where
  "IsLoaded lib \<longleftrightarrow> lib \<noteq> None"

definition Library_bool :: "library \<Rightarrow> bool" where
  "Library_bool lib = IsLoaded lib"

definition Unload :: "library \<Rightarrow> linker \<Rightarrow> (unit, Failure) Result \<times> library \<times> linker" where
  "Unload lib l =
     (case lib of None \<Rightarrow> (Result_of_error (Failure_of_error (E_constant E_NOT_INITIALIZED)), lib, l)
      | Some h \<Rightarrow> (Success, None, dlclose h l))"

definition Load ::
  "header \<Rightarrow> byte list \<Rightarrow> byte \<Rightarrow> nat option \<Rightarrow> int \<Rightarrow> library \<Rightarrow> linker \<Rightarrow> ((unit, Failure) Result \<times> library \<times> linker) exec" where
  "Load sys path flags outcome errno lib l =
     and_then (fusion_assert (\<not> IsLoaded lib)) (\<lambda>_.
     let (h, l) = dlopen path (dl_mode sys flags) outcome l in
     case h of
       None \<Rightarrow> Inr (Result_of_error (WithContext (Failure_Errno sys errno)
                 (lit ''failed to load library '' @ [39] @ path @ [39])), lib, l)
     | Some h \<Rightarrow> Inr (Success, Some h, l))"

definition Library_destroy :: "library \<Rightarrow> linker \<Rightarrow> linker" where
  "Library_destroy lib l = snd (snd (Unload lib l))"

text \<open>Moves return the object, what is left of the argument, and the linker.\<close>

definition Library_move :: "library \<Rightarrow> library \<times> library" where
  "Library_move lib = (lib, None)"

definition Library_move_assign :: "library \<Rightarrow> library \<Rightarrow> linker \<Rightarrow> library \<times> library \<times> linker" where
  "Library_move_assign this lib l =
     (if this \<noteq> lib then
        let l = (if this \<noteq> None then snd (snd (Unload this l)) else l) in (lib, None, l)
      else (this, lib, l))"

text \<open>\<open>dlsym\<close> looks a symbol up; null is \<open>None\<close>.\<close>

definition GetRawEntrypoint :: "(nat \<Rightarrow> byte list \<Rightarrow> nat option) \<Rightarrow> library \<Rightarrow> byte list \<Rightarrow> nat option exec" where
  "GetRawEntrypoint dlsym lib symbol = and_then (fusion_assert (IsLoaded lib)) (\<lambda>_. Inr (dlsym (the lib) symbol))"

text \<open>Programs over named libraries.\<close>

datatype lib_op = Lib_New nat | Lib_Move nat nat | Lib_Assign nat nat | Lib_Load nat "byte list" byte "nat option" int
  | Lib_Unload nat | Lib_Destroy nat

record libs =
  objects :: "nat \<rightharpoonup> library"
  linker :: linker

definition libs_start :: libs where
  "libs_start = \<lparr>objects = (\<lambda>_. None), linker = \<lparr>dl_refs = (\<lambda>_. 0), dl_opened = []\<rparr>\<rparr>"

text \<open>A new object needs a free name, an operation an object; moving an object to itself is no construction.\<close>

fun lib_step :: "header \<Rightarrow> lib_op \<Rightarrow> libs \<Rightarrow> libs exec" where
  "lib_step sys (Lib_New v) p =
     (if objects p v = None then Inr (p\<lparr>objects := (objects p)(v \<mapsto> Library_new)\<rparr>) else Inl Out_Of_Bounds)"
| "lib_step sys (Lib_Move v u) p =
     (case objects p u of
        Some lib \<Rightarrow> if objects p v = None then
          let (new, rest) = Library_move lib in Inr (p\<lparr>objects := (objects p)(u \<mapsto> rest, v \<mapsto> new)\<rparr>) else Inl Out_Of_Bounds
      | None \<Rightarrow> Inl Out_Of_Bounds)"
| "lib_step sys (Lib_Assign v u) p =
     (case (objects p v, objects p u) of
        (Some this, Some lib) \<Rightarrow> let (new, rest, l) = Library_move_assign this lib (linker p)
          in Inr (p\<lparr>objects := (objects p)(u \<mapsto> rest, v \<mapsto> new), linker := l\<rparr>)
      | _ \<Rightarrow> Inl Out_Of_Bounds)"
| "lib_step sys (Lib_Load v path flags outcome errno) p =
     (case objects p v of
        Some lib \<Rightarrow> and_then (Load sys path flags outcome errno lib (linker p)) (\<lambda>(r, lib, l).
          Inr (p\<lparr>objects := (objects p)(v \<mapsto> lib), linker := l\<rparr>))
      | None \<Rightarrow> Inl Out_Of_Bounds)"
| "lib_step sys (Lib_Unload v) p =
     (case objects p v of
        Some lib \<Rightarrow> let (r, lib, l) = Unload lib (linker p) in Inr (p\<lparr>objects := (objects p)(v \<mapsto> lib), linker := l\<rparr>)
      | None \<Rightarrow> Inl Out_Of_Bounds)"
| "lib_step sys (Lib_Destroy v) p =
     (case objects p v of
        Some lib \<Rightarrow> Inr (p\<lparr>objects := (objects p)(v := None), linker := Library_destroy lib (linker p)\<rparr>)
      | None \<Rightarrow> Inl Out_Of_Bounds)"

fun lib_run :: "header \<Rightarrow> lib_op list \<Rightarrow> libs \<Rightarrow> libs exec" where
  "lib_run sys [] p = Inr p"
| "lib_run sys (op # ops) p = and_then (lib_step sys op p) (lib_run sys ops)"

section \<open>Lemmas\<close>

definition owners :: "libs \<Rightarrow> nat \<Rightarrow> nat set" where
  "owners p h = {v. objects p v = Some (Some h)}"

definition lib_inv :: "libs \<Rightarrow> bool" where
  "lib_inv p \<longleftrightarrow> finite (dom (objects p)) \<and> (\<forall>h. dl_refs (linker p) h = card (owners p h))"

lemma finite_owners: "lib_inv p \<Longrightarrow> finite (owners p h)"
  unfolding lib_inv_def owners_def by (elim conjE, erule rev_finite_subset) auto

text \<open>The number of owners when one object changes its handle.\<close>

definition holds :: "library option \<Rightarrow> nat \<Rightarrow> nat" where
  "holds x h = (if x = Some (Some h) then 1 else 0)"

lemma card_owners_upd:
  assumes "finite (owners p h)"
  shows "card (owners (p\<lparr>objects := (objects p)(v := x), linker := l\<rparr>) h) = card (owners p h) - holds (objects p v) h + holds x h"
proof -
  have "owners (p\<lparr>objects := (objects p)(v := x), linker := l\<rparr>) h =
      (if x = Some (Some h) then insert v (owners p h - {v}) else owners p h - {v})"
    by (auto simp: owners_def)
  moreover have "card (owners p h - {v}) = card (owners p h) - holds (objects p v) h"
    using assms by (simp add: card_Diff_singleton_if holds_def owners_def)
  moreover have "card (insert v (owners p h - {v})) = Suc (card (owners p h - {v}))"
    using assms by (intro card_insert_disjoint) auto
  ultimately show ?thesis by (simp add: holds_def del: insert_Diff_single)
qed

lemma owned_counted: "lib_inv p \<Longrightarrow> objects p v = Some (Some h) \<Longrightarrow> 0 < dl_refs (linker p) h"
  using finite_owners [of p h] by (auto simp: lib_inv_def card_gt_0_iff owners_def)

text \<open>One object changes its handle and the linker counts accordingly.\<close>

lemma lib_inv_upd:
  assumes "lib_inv p" and "\<And>h. dl_refs l h = dl_refs (linker p) h - holds (objects p v) h + holds x h"
  shows "lib_inv (p\<lparr>objects := (objects p)(v := x), linker := l\<rparr>)"
proof -
  have "finite (dom ((objects p)(v := x)))" using assms(1) by (simp add: lib_inv_def)
  moreover have "dl_refs (linker p) h = card (owners p h)" for h using assms(1) by (simp add: lib_inv_def)
  ultimately show ?thesis
    using assms(2) card_owners_upd [OF finite_owners [OF assms(1)]] by (simp add: lib_inv_def)
qed

text \<open>One object passes its handle to another that has none.\<close>

lemma lib_inv_pass:
  assumes "lib_inv p" and "objects p u = Some lib" and "u \<noteq> v" and "\<And>h. objects p v \<noteq> Some (Some h)"
  shows "lib_inv (p\<lparr>objects := (objects p)(u \<mapsto> None, v \<mapsto> lib)\<rparr>)"
proof -
  define l where "l = (linker p)\<lparr>dl_refs := \<lambda>h. dl_refs (linker p) h - holds (Some lib) h\<rparr>"
  define q where "q = p\<lparr>objects := (objects p)(u := Some None), linker := l\<rparr>"
  have "lib_inv q" unfolding q_def by (rule lib_inv_upd) (simp_all add: assms l_def holds_def)
  moreover have "holds (Some lib) h \<le> dl_refs (linker p) h" for h
    using owned_counted [OF assms(1), of u h] assms(2) by (auto simp: holds_def)
  moreover have "objects q v = objects p v" "holds (objects p v) h = 0" "dl_refs (linker q) h = dl_refs (linker p) h - holds (Some lib) h" for h
    using assms(3,4) by (simp_all add: q_def l_def holds_def)
  ultimately have "lib_inv (q\<lparr>objects := (objects q)(v := Some lib), linker := linker p\<rparr>)" by (intro lib_inv_upd) simp_all
  then show ?thesis by (simp add: q_def)
qed

lemma lib_inv_drop:
  assumes "lib_inv p" and "objects p v = Some lib" and "x = None \<or> x = Some None"
  shows "lib_inv (p\<lparr>objects := (objects p)(v := x), linker := Library_destroy lib (linker p)\<rparr>)"
  using assms by (intro lib_inv_upd) (auto simp: holds_def Library_destroy_def Unload_def dlclose_def split: option.splits)

lemma lib_inv_load:
  assumes "lib_inv p" and "objects p v = Some lib" and "Load sys path flags outcome errno lib (linker p) = Inr (r, lib', l)"
  shows "lib_inv (p\<lparr>objects := (objects p)(v \<mapsto> lib'), linker := l\<rparr>)"
proof (rule lib_inv_upd [OF assms(1)])
  from assms(3) have "lib = None" by (auto simp: Load_def exec_iff IsLoaded_def)
  with assms(2,3) show "dl_refs l h = dl_refs (linker p) h - holds (objects p v) h + holds (Some lib') h" for h
    by (auto simp: Load_def IsLoaded_def dlopen_def holds_def split: option.splits if_splits)
qed

lemma lib_inv_assign:
  assumes "lib_inv p" and "objects p v = Some this" and "objects p u = Some lib"
    and "Library_move_assign this lib (linker p) = (new, rest, l)"
  shows "lib_inv (p\<lparr>objects := (objects p)(u \<mapsto> rest, v \<mapsto> new), linker := l\<rparr>)"
proof (cases "this = lib")
  case True
  with assms have "new = lib" "rest = lib" "l = linker p" by (auto simp: Library_move_assign_def)
  moreover have "(objects p)(u \<mapsto> lib, v \<mapsto> lib) = objects p" using assms True by auto
  ultimately show ?thesis using assms(1) by simp
next
  case False
  then have uv: "u \<noteq> v" using assms by auto
  from False assms(4) have eq: "new = lib" "rest = None" "l = Library_destroy this (linker p)"
    by (auto simp: Library_move_assign_def Library_destroy_def Unload_def split: option.splits)
  let ?p = "p\<lparr>objects := (objects p)(v := Some None), linker := Library_destroy this (linker p)\<rparr>"
  have "lib_inv ?p" using assms by (intro lib_inv_drop) auto
  then have "lib_inv (?p\<lparr>objects := (objects ?p)(u \<mapsto> None, v \<mapsto> lib)\<rparr>)"
    using assms uv by (intro lib_inv_pass) auto
  moreover have "((objects p)(v := Some None))(u \<mapsto> None, v \<mapsto> lib) = (objects p)(u \<mapsto> None, v \<mapsto> lib)" using uv by auto
  ultimately show ?thesis by (simp add: eq lib_inv_def owners_def)
qed

lemma lib_inv_step:
  assumes "lib_inv p" and "lib_step sys op p = Inr p'"
  shows "lib_inv p'"
proof (cases op)
  case (Lib_New v)
  then have "objects p v = None" "p' = p\<lparr>objects := (objects p)(v := Some None), linker := linker p\<rparr>"
    using assms(2) by (auto simp: Library_new_def split: if_splits)
  then show ?thesis using assms(1) lib_inv_upd [of p "linker p" v "Some None"] by (simp add: holds_def)
next
  case (Lib_Move v u)
  then obtain lib where "objects p u = Some lib" "objects p v = None" "p' = p\<lparr>objects := (objects p)(u \<mapsto> None, v \<mapsto> lib)\<rparr>"
    using assms(2) by (auto simp: Library_move_def split: option.splits if_splits)
  then show ?thesis using assms(1) lib_inv_pass [of p u lib v] by (cases "u = v") auto
next
  case (Lib_Assign v u)
  then obtain this lib new rest l where "objects p v = Some this" "objects p u = Some lib"
      "Library_move_assign this lib (linker p) = (new, rest, l)"
      "p' = p\<lparr>objects := (objects p)(u \<mapsto> rest, v \<mapsto> new), linker := l\<rparr>"
    using assms(2) by (auto split: option.splits prod.splits)
  then show ?thesis using assms(1) lib_inv_assign by simp
next
  case (Lib_Load v path flags outcome errno)
  then show ?thesis using assms lib_inv_load by (auto simp: exec_iff split: option.splits)
next
  case (Lib_Unload v)
  then obtain lib where lib: "objects p v = Some lib" "p' = p\<lparr>objects := (objects p)(v := Some None), linker := Library_destroy lib (linker p)\<rparr>"
    using assms(2) by (auto simp: Library_destroy_def Unload_def split: option.splits)
  then show ?thesis using lib_inv_drop [OF assms(1)] by simp
next
  case (Lib_Destroy v)
  then show ?thesis using assms lib_inv_drop by (auto split: option.splits)
qed

lemma lib_inv_run: "lib_run sys ops p = Inr p' \<Longrightarrow> lib_inv p \<Longrightarrow> lib_inv p'"
proof (induction sys ops p rule: lib_run.induct)
  case (2 sys op ops p)
  then obtain p1 where "lib_step sys op p = Inr p1" "lib_run sys ops p1 = Inr p'" by (auto simp: exec_iff)
  with 2 lib_inv_step show ?case by blast
qed simp

section \<open>Properties\<close>

text \<open>
  Property C16. However a program creates, moves, assigns, loads and unloads libraries, the linker holds as many references to a handle as there are
  objects that own it: none is closed twice or while an object has it, and when no object owns it none is left.
\<close>

theorem library_references:
  assumes "lib_run sys ops libs_start = Inr p"
  shows "dl_refs (linker p) h = card {v. objects p v = Some (Some h)} \<and>
    ((\<forall>v. objects p v \<noteq> Some (Some h)) \<longrightarrow> dl_refs (linker p) h = 0) \<and>
    (\<forall>v. objects p v = Some (Some h) \<longrightarrow> 0 < dl_refs (linker p) h)"
proof -
  have "lib_inv libs_start" by (simp add: lib_inv_def libs_start_def owners_def)
  with lib_inv_run [OF assms] have inv: "lib_inv p" by blast
  then show ?thesis using owned_counted [OF inv, of _ h] by (auto simp: lib_inv_def owners_def)
qed

theorem library_references_witness:
  "\<exists>p. lib_run (\<lambda>_. 0) [Lib_New 0, Lib_New 1, Lib_Load 0 (lit ''a'') 0 (Some 7) 0, Lib_Load 1 (lit ''a'') 0 (Some 7) 0, Lib_Assign 1 0,
       Lib_Destroy 0] libs_start = Inr p \<and> 0 < dl_refs (linker p) 7"
proof -
  let ?ops = "[Lib_New 0, Lib_New 1, Lib_Load 0 (lit ''a'') 0 (Some 7) 0, Lib_Load 1 (lit ''a'') 0 (Some 7) 0, Lib_Assign 1 0,
       Lib_Destroy 0]"
  obtain p where p: "lib_run (\<lambda>_. 0) ?ops libs_start = Inr p" "objects p 1 = Some (Some 7)"
    by (simp add: libs_start_def Library_new_def Load_def IsLoaded_def dlopen_def Library_move_assign_def)
  from library_references [OF p(1), of 7] p show ?thesis by blast
qed

text \<open>
  \<^verbatim>\<open>Load\<close> asks the linker once, for a mode that binds now or lazily and globally or locally as the flags say; it fails with the
  class of \<^verbatim>\<open>errno\<close> and leaves the object empty. A second \<^verbatim>\<open>Load\<close>, and a lookup without a library, are assertions; a
  second \<^verbatim>\<open>Unload\<close> is an error.
\<close>

theorem library_load:
  "(case Load sys path flags outcome errno None l of
      Inr (r, lib, l') \<Rightarrow> dl_opened l' = dl_opened l @ [(takeWhile (\<lambda>c. c \<noteq> 0) path, dl_mode sys flags)] \<and> lib = outcome \<and>
        Result_bool r = (outcome \<noteq> None) \<and>
        (outcome = None \<longrightarrow> l' = l\<lparr>dl_opened := dl_opened l'\<rparr> \<and> map_sum id Failure_Error (Result_Error r) = Inr (Error_Errno sys errno))
    | Inl _ \<Rightarrow> False) \<and>
   Load sys path flags outcome errno (Some h) l = Inl Assert_Failed \<and>
   GetRawEntrypoint dlsym None symbol = Inl Assert_Failed \<and>
   (\<exists>f. fst (Unload (fst (snd (Unload lib l))) l) = Result_of_error f \<and> Error_eq (Failure_Error f) (E_constant E_NOT_INITIALIZED))"
  by (cases outcome) (auto simp: Load_def IsLoaded_def dlopen_def Result_bool_def Succeeded_def Success_def Result_of_value_def
      Result_of_error_def Result_Error_def Failed_def get_error_def WithContext_def Failure_Errno_def Failure_of_error_def Failure_Error_def
      Error_Errno_last_def GetRawEntrypoint_def Unload_def Error_eq_def split: option.splits)

theorem library_load_witness:
  "dl_opened (snd (snd (projr (Load (\<lambda>_. 0) [65] 0 None 2 None \<lparr>dl_refs = (\<lambda>_. 0), dl_opened = []\<rparr>)))) = [([65], 0)]"
  using library_load [where sys = "\<lambda>_. 0" and path = "[65]" and flags = 0 and outcome = None and errno = 2
      and l = "\<lparr>dl_refs = (\<lambda>_. 0), dl_opened = []\<rparr>"]
  by (cases "Load (\<lambda>_. 0) [65] 0 None 2 None \<lparr>dl_refs = (\<lambda>_. 0), dl_opened = []\<rparr>") (auto simp: dl_mode_def has_def)

end
