(* ===== verification/Startup.thy ===== *)
theory Startup
  imports Error_Result Environment
begin

text \<open>
  What runs around a program: \<^verbatim>\<open>main\<close> and \<^verbatim>\<open>_Main\<close> (\<^verbatim>\<open>Main.h\<close>, \<^verbatim>\<open>Main.cpp\<close>, the build that is not for Windows), the initialisation of
  the libraries by \<^verbatim>\<open>Global\<close> (\<^verbatim>\<open>Global.h\<close>, \<^verbatim>\<open>Global.cpp\<close>), the defaults of the address sanitizer (\<^verbatim>\<open>Sanitizers.cpp\<close>) and the printing of
  JSON documents (\<^verbatim>\<open>Json.cpp\<close>). Parameters: the \<^verbatim>\<open>Main\<close> of the client, what the foreign libraries
  answer, the document that the JSON parser made and the printing of its numbers.
\<close>

section \<open>Model\<close>

subsection \<open>Entry\<close>

text \<open>
  The loop of \<^verbatim>\<open>main\<close>; the vectors have one element for each argument from the start. A view is the text it shows, since it is read
  before its string changes again, or is empty.
\<close>

function main_loop :: "byte list list \<Rightarrow> nat \<Rightarrow> byte list list \<Rightarrow> byte list list \<Rightarrow> byte list list exec" where
  "main_loop argv i args views =
     (if i < length argv then
        and_then (Length_cstr (argv ! i)) (\<lambda>len.
        let args = args[i := take len (argv ! i)]
        in main_loop argv (i + 1) args (views[i := last args]))
      else Inr views)"
  by pat_completeness auto
termination
  by (relation "measure (\<lambda>(argv, i, args, views). length argv - i)") auto

declare main_loop.simps [simp del]

definition main_views :: "byte list list \<Rightarrow> byte list list exec" where
  "main_views argv = main_loop argv 0 (replicate (length argv) []) (replicate (length argv) [])"

definition Main_code :: "(byte list list \<Rightarrow> (unit, Failure) Result) \<Rightarrow> byte list list \<Rightarrow> int exec" where
  "Main_code Main args =
     (let result = Main args in
      if \<not> Result_bool result then
        and_then (Result_Error result) (\<lambda>e.
        if Failure_Code e \<noteq> 0 then and_then (Result_Error result) (\<lambda>e. Inr (Failure_Code e)) else Inr 1)
      else Inr 0)"

definition main :: "(byte list list \<Rightarrow> (unit, Failure) Result) \<Rightarrow> byte list list \<Rightarrow> int exec" where
  "main Main argv = and_then (main_views argv) (\<lambda>views. Main_code Main views)"

subsection \<open>Global\<close>

record Params =
  initializeCurl :: bool
  initializeOpenssl :: bool

text \<open>The functions of OpenSSL and cURL, on a state \<open>'w\<close> of these libraries.\<close>

record 'w foreign =
  SSL_library_init :: "'w \<Rightarrow> 'w"
  SSL_load_error_strings :: "'w \<Rightarrow> 'w"
  RAND_poll :: "'w \<Rightarrow> 'w"
  ERR_get_error :: "'w \<Rightarrow> int \<times> 'w"
  ERR_error_string :: "int \<Rightarrow> byte list"
  OPENSSL_cleanup :: "'w \<Rightarrow> 'w"
  curl_global_init :: "'w \<Rightarrow> int \<times> 'w"
  curl_easy_strerror :: "int \<Rightarrow> byte list"
  curl_global_cleanup :: "'w \<Rightarrow> 'w"

definition InitializeOpenSSL :: "'w foreign \<Rightarrow> Params \<Rightarrow> 'w \<Rightarrow> ((unit, Failure) Result \<times> 'w) exec" where
  "InitializeOpenSSL f p w =
     and_then (fusion_assert (initializeOpenssl p)) (\<lambda>_.
     let w = SSL_library_init f w; w = SSL_load_error_strings f w; w = RAND_poll f w;
         (e, w) = ERR_get_error f w
     in if e \<noteq> 0 then
          let (e', w) = ERR_get_error f w
          in Inr (Result_of_error (WithContext (Failure_of_error (E_constant E_FAILURE))
               (lit ''OpenSSL initialization failed: '' @ ERR_error_string f e')), w)
        else Inr (Success, w))"

definition InitializeCurl :: "'w foreign \<Rightarrow> Params \<Rightarrow> 'w \<Rightarrow> ((unit, Failure) Result \<times> 'w) exec" where
  "InitializeCurl f p w =
     and_then (fusion_assert (initializeCurl p)) (\<lambda>_.
     let (res, w) = curl_global_init f w
     in if res \<noteq> 0 then Inr (Result_of_error (WithContext (Failure_of_error (E_constant E_FAILURE))
               (lit ''cURL initialization failed: '' @ curl_easy_strerror f res)), w)
        else Inr (Success, w))"

definition Global_Start :: "'w foreign \<Rightarrow> Params \<Rightarrow> 'w \<Rightarrow> ((unit, Failure) Result \<times> 'w) exec" where
  "Global_Start f p w =
     and_then (if initializeOpenssl p then InitializeOpenSSL f p w else Inr (Success, w)) (\<lambda>(r, w).
     if \<not> Result_bool r then and_then (Result_Error r) (\<lambda>e. Inr (Result_of_error e, w))
     else and_then (if initializeCurl p then InitializeCurl f p w else Inr (Success, w)) (\<lambda>(r, w).
     if \<not> Result_bool r then and_then (Result_Error r) (\<lambda>e. Inr (Result_of_error e, w))
     else Inr (Success, w)))"

definition Global_destroy :: "'w foreign \<Rightarrow> Params \<Rightarrow> 'w \<Rightarrow> 'w" where
  "Global_destroy f p w =
     (let w = (if initializeCurl p then curl_global_cleanup f w else w)
      in if initializeOpenssl p then OPENSSL_cleanup f w else w)"

subsection \<open>Sanitizers\<close>

definition asan_defaults :: "byte list" where
  "asan_defaults = lit ''halt_on_error=1'' @ lit '':'' @ lit ''print_legend=1'' @ lit '':'' @ lit ''detect_stack_use_after_return=1''"

definition ConfigureAddressSanitizer :: "byte list \<Rightarrow> process_env \<Rightarrow> process_env" where
  "ConfigureAddressSanitizer prog e =
     (if Environment_Get e (lit ''ASAN_OPTIONS'') [] \<noteq> [] then e
      else let e = fst (Environment_Set e (lit ''ASAN_OPTIONS'') asan_defaults)
        in fst (Environment_Set e (lit ''ASAN_SAVE_DUMPS'') (prog @ lit ''.asan.dmp'')))"

text \<open>\<open>asan\<close> is \<^verbatim>\<open>FUSION_ADDRESS_SANITIZER_ENABLED\<close>; the other sanitizers configure nothing.\<close>

definition ConfigureSanitizerEnvironment :: "bool \<Rightarrow> byte list \<Rightarrow> process_env \<Rightarrow> process_env" where
  "ConfigureSanitizerEnvironment asan prog e = (if asan then ConfigureAddressSanitizer prog e else e)"

subsection \<open>JSON\<close>

text \<open>A document, and the stream as the bytes it was given; \<open>num\<close> is its printing of integers and of other numbers.\<close>

datatype 'n element = ARRAY "'n element list" | OBJECT "(byte list \<times> 'n element) list" | STRING "byte list"
  | INT64 int | UINT64 nat | DOUBLE 'n | BOOL bool | NULL_VALUE

fun PrettyPrint :: "(int \<Rightarrow> byte list) \<times> ('n \<Rightarrow> byte list) \<Rightarrow> byte list \<Rightarrow> 'n element \<Rightarrow> nat \<Rightarrow> byte list"
  and print_array :: "(int \<Rightarrow> byte list) \<times> ('n \<Rightarrow> byte list) \<Rightarrow> byte list \<Rightarrow> 'n element list \<Rightarrow> nat \<Rightarrow> byte list"
  and print_object :: "(int \<Rightarrow> byte list) \<times> ('n \<Rightarrow> byte list) \<Rightarrow> byte list \<Rightarrow> (byte list \<times> 'n element) list \<Rightarrow> nat \<Rightarrow> byte list" where
  "PrettyPrint num out (ARRAY es) n = print_array num (out @ lit ''['' @ [10]) es n @ replicate n 32 @ lit '']''"
| "PrettyPrint num out (OBJECT ms) n = print_object num (out @ lit ''{'' @ [10]) ms n @ replicate n 32 @ lit ''}''"
| "PrettyPrint num out (STRING s) n = out @ [34] @ s @ [34]"
| "PrettyPrint num out (INT64 i) n = out @ fst num i"
| "PrettyPrint num out (UINT64 u) n = out @ fst num (int u)"
| "PrettyPrint num out (DOUBLE x) n = out @ snd num x"
| "PrettyPrint num out (BOOL b) n = out @ (if b then lit ''true'' else lit ''false'')"
| "PrettyPrint num out NULL_VALUE n = out @ lit ''null''"
| "print_array num out [] n = out"
| "print_array num out (e # es) n =
     print_array num (PrettyPrint num (out @ replicate n 32 @ lit ''  '') e (n + 2) @ lit '','' @ [10]) es n"
| "print_object num out [] n = out"
| "print_object num out ((key, v) # ms) n =
     print_object num (PrettyPrint num (out @ replicate n 32 @ lit ''  '' @ [34] @ key @ [34] @ lit '': '') v (n + 2) @ lit '','' @ [10]) ms n"

definition output_element :: "(int \<Rightarrow> byte list) \<times> ('n \<Rightarrow> byte list) \<Rightarrow> byte list \<Rightarrow> 'n element \<Rightarrow> byte list" where
  "output_element num out e = PrettyPrint num out e 0"

section \<open>Properties\<close>

subsection \<open>Entry\<close>

definition shown :: "byte list list \<Rightarrow> nat \<Rightarrow> byte list" where
  "shown argv j = (if j + 1 < length argv then [] else takeWhile (\<lambda>c. c \<noteq> 0) (argv ! j))"

lemma main_loop_eq:
  assumes "\<forall>a\<in>set argv. \<exists>s. 0 \<notin> set s \<and> (\<exists>t. a = s @ 0 # t)" and "i \<le> length argv"
    and "length args = length argv" and "length views = length argv"
    and "\<forall>j. i \<le> j \<and> j < length argv \<longrightarrow> args ! j = []"
  shows "\<exists>vs. main_loop argv i args views = Inr vs \<and> length vs = length argv \<and>
    (\<forall>j<length argv. vs ! j = (if j < i then views ! j else shown argv j))"
  using assms
proof (induction argv i args views rule: main_loop.induct)
  case (1 argv i args views)
  show ?case
  proof (cases "i < length argv")
    case False
    then show ?thesis using 1(4,5) by (simp add: main_loop.simps [of argv i])
  next
    case True
    then obtain s t where s: "0 \<notin> set s" "argv ! i = s @ 0 # t" using 1(2) nth_mem by blast
    then have len: "Length_cstr (argv ! i) = Inr (length s)" by (simp add: Length_cstr_terminated)
    have tw: "takeWhile (\<lambda>c. c \<noteq> 0) (argv ! i) = s" using s by (simp add: takeWhile_append)
    have tk: "take (length s) (argv ! i) = s" using s by simp
    let ?args = "args[i := s]"
    have lst: "last ?args = (if i + 1 = length argv then s else [])"
    proof (cases "i + 1 = length argv")
      case True
      then have "i = length args - 1" using 1(4) by simp
      with \<open>i < length argv\<close> 1(4) show ?thesis using True by (subst last_conv_nth) auto
    next
      case False
      have "last ?args = ?args ! (length argv - 1)" using True 1(4) by (subst last_conv_nth) auto
      moreover have "args ! (length argv - 1) = []" using 1(6) True by (auto dest!: spec [of _ "length argv - 1"])
      ultimately show ?thesis using False True 1(4) by simp
    qed
    let ?views = "views[i := last ?args]"
    have "\<exists>vs. main_loop argv (i + 1) ?args ?views = Inr vs \<and> length vs = length argv \<and>
      (\<forall>j<length argv. vs ! j = (if j < i + 1 then ?views ! j else shown argv j))"
      using 1(1) [OF True, of ?args "length s"] 1(2-6) True by (simp add: tk)
    then obtain vs where vs: "main_loop argv (i + 1) ?args ?views = Inr vs" "length vs = length argv"
      "\<forall>j<length argv. vs ! j = (if j < i + 1 then ?views ! j else shown argv j)"
      by blast
    have "main_loop argv i args views = Inr vs"
      using True len s vs(1) by (simp add: main_loop.simps [of argv i])
    moreover have "vs ! j = (if j < i then views ! j else shown argv j)"
      if "j < length argv" for j
      using vs(3) that lst tw True 1(5) by (auto simp: less_Suc_eq nth_list_update shown_def)
    ultimately show ?thesis using vs(2) by auto
  qed
qed

text \<open>
  Property C33. The program gets one view for each argument, but all of them show the last string at the time: every argument except
  the last arrives empty. The exit code is 0 exactly when the client's \<^verbatim>\<open>Main\<close> succeeded.
\<close>

theorem main_arguments:
  assumes "\<forall>a\<in>set args. 0 \<notin> set a"
  shows "main_views (map (\<lambda>a. a @ [0]) args) = Inr (if args = [] then [] else replicate (length args - 1) [] @ [last args]) \<and>
    (\<exists>code. main Main (map (\<lambda>a. a @ [0]) args) = Inr code \<and>
      (code = 0 \<longleftrightarrow> Result_bool (Main (if args = [] then [] else replicate (length args - 1) [] @ [last args]))))"
proof -
  let ?argv = "map (\<lambda>a. a @ [0]) args" and ?views = "if args = [] then [] else replicate (length args - 1) [] @ [last args]"
  have "\<forall>a\<in>set ?argv. \<exists>s. 0 \<notin> set s \<and> (\<exists>t. a = s @ 0 # t)" using assms by auto
  from main_loop_eq [OF this, of 0 "replicate (length args) []" "replicate (length args) []"]
  obtain vs where vs: "main_views ?argv = Inr vs" "length vs = length args"
    "\<forall>j<length args. vs ! j = (if j + 1 < length args then [] else takeWhile (\<lambda>c. c \<noteq> 0) (?argv ! j))"
    by (auto simp: main_views_def shown_def)
  have "takeWhile (\<lambda>c. c \<noteq> 0) (?argv ! j) = args ! j" if "j < length args" for j
    using that assms by (simp add: takeWhile_append)
  then have nth: "vs ! j = (if j + 1 < length args then [] else args ! j)" if "j < length args" for j using that vs(3) by simp
  have views: "vs = ?views"
  proof (rule nth_equalityI)
    fix j assume "j < length vs"
    then have j: "j < length args" using vs(2) by simp
    show "vs ! j = ?views ! j"
    proof (cases "j + 1 = length args")
      case True
      then have "j = length args - 1" "args \<noteq> []" using j by auto
      then show ?thesis using nth [OF j] by (simp add: nth_append last_conv_nth)
    next
      case False
      then show ?thesis using nth [OF j] j by (auto simp: nth_append)
    qed
  qed (use vs(2) in auto)
  have "\<exists>code. Main_code Main ?views = Inr code \<and> (code = 0 \<longleftrightarrow> Result_bool (Main ?views))"
    by (cases "Main ?views") (simp_all add: Main_code_def Result_bool_def Succeeded_def Result_Error_def Failed_def get_error_def)
  with vs(1) views show ?thesis by (simp add: main_def)
qed

theorem main_arguments_witness:
  "main_views [lit ''tool'' @ [0], lit ''--fast'' @ [0], lit ''in'' @ [0]] = Inr [[], [], lit ''in'']"
  using main_arguments [of "[lit ''tool'', lit ''--fast'', lit ''in'']" "\<lambda>_. Success"] by (simp add: lit_def)

subsection \<open>Global\<close>

text \<open>What OpenSSL documents of its errors: a queue, whose first code is taken out, or 0.\<close>

definition error_queue :: "'w foreign \<Rightarrow> ('w \<Rightarrow> int list) \<Rightarrow> bool" where
  "error_queue f queue \<longleftrightarrow> (\<forall>w. case queue w of [] \<Rightarrow> ERR_get_error f w = (0, w)
     | e # es \<Rightarrow> fst (ERR_get_error f w) = e \<and> queue (snd (ERR_get_error f w)) = es)"

text \<open>
  The libraries are initialised in the order OpenSSL, cURL, and the second is not touched when the first fails. The message for a
  failure of OpenSSL shows the error behind the one that was found, in general none. Whatever happened, the destructor cleans up every
  library that was asked for, also one that was never initialised.
\<close>

theorem global_start_stop:
  assumes "error_queue f queue" and "initializeOpenssl p" and "initializeCurl p"
    and "w' = RAND_poll f (SSL_load_error_strings f (SSL_library_init f w))"
  shows "(\<forall>e es. queue w' = e # es \<and> e \<noteq> 0 \<longrightarrow>
      (\<exists>r. Global_Start f p w = Inr (r, snd (ERR_get_error f (snd (ERR_get_error f w')))) \<and>
        map_sum id Failure_Message (Result_Error r) =
          Inr (lit ''OpenSSL initialization failed: '' @ ERR_error_string f (case es of [] \<Rightarrow> 0 | e' # _ \<Rightarrow> e')))) \<and>
    (queue w' = [] \<longrightarrow> (\<exists>r. Global_Start f p w = Inr (r, snd (curl_global_init f w')) \<and>
        Result_bool r = (fst (curl_global_init f w') = 0))) \<and>
    Global_destroy f p w = OPENSSL_cleanup f (curl_global_cleanup f w)"
proof -
  have q: "queue w = [] \<Longrightarrow> ERR_get_error f w = (0, w)"
      "queue w = e # es \<Longrightarrow> fst (ERR_get_error f w) = e \<and> queue (snd (ERR_get_error f w)) = es" for w e es
    using assms(1) by (auto simp: error_queue_def dest: spec [of _ w])
  have second: "fst (ERR_get_error f (snd (ERR_get_error f w'))) = (case es of [] \<Rightarrow> 0 | e' # _ \<Rightarrow> e')" if "queue w' = e # es" for e es
    using q(2) [OF that] q(1) [of "snd (ERR_get_error f w')"] q(2) [of "snd (ERR_get_error f w')"] by (cases es) auto
  note unfold = Global_Start_def InitializeOpenSSL_def InitializeCurl_def Result_bool_def Succeeded_def Success_def Result_of_value_def
    Result_of_error_def Result_Error_def Failed_def get_error_def WithContext_def Failure_of_error_def Failure_Message_def
  have "\<exists>r. Global_Start f p w = Inr (r, snd (ERR_get_error f (snd (ERR_get_error f w')))) \<and>
      map_sum id Failure_Message (Result_Error r) =
        Inr (lit ''OpenSSL initialization failed: '' @ ERR_error_string f (case es of [] \<Rightarrow> 0 | e' # _ \<Rightarrow> e'))"
    if "queue w' = e # es" "e \<noteq> 0" for e es
    using assms(2-) that q(2) [OF that(1)] second [OF that(1)] by (auto simp: unfold split_def Let_def)
  moreover have "\<exists>r. Global_Start f p w = Inr (r, snd (curl_global_init f w')) \<and> Result_bool r = (fst (curl_global_init f w') = 0)"
    if "queue w' = []"
    using assms(2-) q(1) [OF that] by (auto simp: unfold split_def Let_def)
  ultimately show ?thesis using assms(2,3) by (auto simp: Global_destroy_def)
qed

definition demo_libraries :: "int list foreign" where
  "demo_libraries = \<lparr>SSL_library_init = id, SSL_load_error_strings = id, RAND_poll = (\<lambda>es. es @ [7]),
     ERR_get_error = (\<lambda>es. case es of [] \<Rightarrow> (0, []) | e # es \<Rightarrow> (e, es)), ERR_error_string = (\<lambda>e. if e = 0 then lit ''ok'' else lit ''bad''),
     OPENSSL_cleanup = id, curl_global_init = (\<lambda>es. (0, es)), curl_easy_strerror = (\<lambda>_. []), curl_global_cleanup = id\<rparr>"

theorem global_start_stop_witness:
  "\<exists>r. Global_Start demo_libraries \<lparr>initializeCurl = True, initializeOpenssl = True\<rparr> [] = Inr (r, []) \<and>
     map_sum id Failure_Message (Result_Error r) = Inr (lit ''OpenSSL initialization failed: ok'')"
proof -
  have "error_queue demo_libraries id" by (simp add: error_queue_def demo_libraries_def split: list.splits)
  from global_start_stop [OF this, of "\<lparr>initializeCurl = True, initializeOpenssl = True\<rparr>" "[7]" "[]"] show ?thesis
    by (simp add: demo_libraries_def lit_def)
qed

subsection \<open>Sanitizers\<close>

text \<open>
  The options of the user win: when the variable is set nothing changes. Otherwise both variables get their values, no other variable
  changes, and a second call does nothing.
\<close>

theorem sanitizer_environment:
  assumes "memory e" and "0 \<notin> set prog"
  shows "let e' = ConfigureSanitizerEnvironment True prog e in
    (Environment_Has e (lit ''ASAN_OPTIONS'') \<longrightarrow> e' = e) \<and>
    (\<not> Environment_Has e (lit ''ASAN_OPTIONS'') \<longrightarrow>
      vars e' = (vars e)(lit ''ASAN_OPTIONS'' \<mapsto> asan_defaults, lit ''ASAN_SAVE_DUMPS'' \<mapsto> prog @ lit ''.asan.dmp'')) \<and>
    ConfigureSanitizerEnvironment True prog' e' = e'"
proof -
  have names: "c_str (lit ''ASAN_OPTIONS'') = lit ''ASAN_OPTIONS''" "c_str (lit ''ASAN_SAVE_DUMPS'') = lit ''ASAN_SAVE_DUMPS''"
      "c_str asan_defaults = asan_defaults" "asan_defaults \<noteq> []" "lit ''ASAN_OPTIONS'' \<noteq> []" "lit ''ASAN_SAVE_DUMPS'' \<noteq> []"
      "valid_name (lit ''ASAN_OPTIONS'')" "valid_name (lit ''ASAN_SAVE_DUMPS'')" "lit ''ASAN_OPTIONS'' \<noteq> lit ''ASAN_SAVE_DUMPS''"
    by (simp_all add: c_str_def lit_def asan_defaults_def valid_name_def)
  have dump: "c_str (prog @ lit ''.asan.dmp'') = prog @ lit ''.asan.dmp''" "lit ''.asan.dmp'' \<noteq> []"
    using assms(2) by (simp_all add: c_str_def lit_def takeWhile_append)
  have done_: "vars (ConfigureSanitizerEnvironment True prog e) =
      (vars e)(lit ''ASAN_OPTIONS'' \<mapsto> asan_defaults, lit ''ASAN_SAVE_DUMPS'' \<mapsto> prog @ lit ''.asan.dmp'')"
    if "\<not> Environment_Has e (lit ''ASAN_OPTIONS'')"
    using that assms names dump
    by (simp add: ConfigureSanitizerEnvironment_def ConfigureAddressSanitizer_def Environment_Has_def Environment_Set_def setenv_def)
  have kept: "ConfigureSanitizerEnvironment True q e1 = e1" if "Environment_Has e1 (lit ''ASAN_OPTIONS'')" for q e1
    using that by (simp add: ConfigureSanitizerEnvironment_def ConfigureAddressSanitizer_def Environment_Has_def)
  have "Environment_Has (ConfigureSanitizerEnvironment True prog e) (lit ''ASAN_OPTIONS'')"
  proof (cases "Environment_Has e (lit ''ASAN_OPTIONS'')")
    case False
    then show ?thesis using done_ names by (simp add: Environment_Has_def Environment_Get_def)
  qed (simp add: kept)
  then show ?thesis using done_ kept by (simp add: Let_def)
qed

theorem sanitizer_environment_witness:
  "vars (ConfigureSanitizerEnvironment True (lit ''app'') \<lparr>vars = Map.empty, memory = True\<rparr>) (lit ''ASAN_OPTIONS'') = Some asan_defaults"
proof -
  have "0 \<notin> set (lit ''app'')" "lit ''ASAN_OPTIONS'' \<noteq> lit ''ASAN_SAVE_DUMPS''" "lit ''ASAN_OPTIONS'' \<noteq> []" by (simp_all add: lit_def)
  with sanitizer_environment [of "\<lparr>vars = Map.empty, memory = True\<rparr>" "lit ''app''" "[]"] show ?thesis
    by (simp add: Let_def Environment_Has_def Environment_Get_def)
qed

subsection \<open>JSON\<close>

text \<open>What the printer appends, as a function of the document alone.\<close>

fun pretty :: "(int \<Rightarrow> byte list) \<times> ('n \<Rightarrow> byte list) \<Rightarrow> nat \<Rightarrow> 'n element \<Rightarrow> byte list" where
  "pretty num n (ARRAY es) =
     lit ''['' @ [10] @ concat (map (\<lambda>e. replicate (n + 2) 32 @ pretty num (n + 2) e @ lit '','' @ [10]) es) @ replicate n 32 @ lit '']''"
| "pretty num n (OBJECT ms) =
     lit ''{'' @ [10] @ concat (map (\<lambda>(key, v). replicate (n + 2) 32 @ [34] @ key @ [34] @ lit '': '' @ pretty num (n + 2) v
       @ lit '','' @ [10]) ms) @ replicate n 32 @ lit ''}''"
| "pretty num n (STRING s) = [34] @ s @ [34]"
| "pretty num n (INT64 i) = fst num i"
| "pretty num n (UINT64 u) = fst num (int u)"
| "pretty num n (DOUBLE x) = snd num x"
| "pretty num n (BOOL b) = (if b then lit ''true'' else lit ''false'')"
| "pretty num n NULL_VALUE = lit ''null''"

lemma two_spaces: "replicate n 32 @ lit ''  '' = 32 # 32 # replicate n 32"
  by (simp add: lit_def replicate_app_Cons_same)

lemma print_eq:
  "PrettyPrint num out e n = out @ pretty num n e"
  "print_array num out es n = out @ concat (map (\<lambda>e. replicate (n + 2) 32 @ pretty num (n + 2) e @ lit '','' @ [10]) es)"
  "print_object num out ms n = out @ concat (map (\<lambda>(key, v). replicate (n + 2) 32 @ [34] @ key @ [34] @ lit '': '' @ pretty num (n + 2) v
     @ lit '','' @ [10]) ms)"
  by (induction num out e n and num out es n and num out ms n rule: PrettyPrint_print_array_print_object.induct)
    (simp_all add: two_spaces)

text \<open>
  The printer appends to the stream one line for each member, indented by two more than the line its value starts on.
  Every member is followed by a comma, the last one too, and texts are printed as they are: the output of a
  document with a member, or with a quote in a text, is no JSON.
\<close>

theorem json_layout:
  "PrettyPrint num out e n = out @ pretty num n e \<and>
   (es \<noteq> [] \<longrightarrow> (\<exists>front. pretty num n (ARRAY es) = front @ lit '','' @ [10] @ replicate n 32 @ lit '']'')) \<and>
   (ms \<noteq> [] \<longrightarrow> (\<exists>front. pretty num n (OBJECT ms) = front @ lit '','' @ [10] @ replicate n 32 @ lit ''}''))"
proof (intro conjI impI)
  show "PrettyPrint num out e n = out @ pretty num n e" by (rule print_eq)
  show "\<exists>front. pretty num n (ARRAY es) = front @ lit '','' @ [10] @ replicate n 32 @ lit '']''" if "es \<noteq> []"
    using that by (cases es rule: rev_cases) (auto intro: exI)
  show "\<exists>front. pretty num n (OBJECT ms) = front @ lit '','' @ [10] @ replicate n 32 @ lit ''}''" if "ms \<noteq> []"
    using that by (cases ms rule: rev_cases) (auto intro: exI split: prod.splits)
qed

end
