(* ===== verification/Spec2Isabelle.thy ===== *)
theory Spec2Isabelle
  imports String_Util Endian Hmac Fnv Memory_Stream Ring_Buffer Random_Gen Memory_Util Hex_Value Uuid
    Socket_Options Select_Machine EPoll_Service Path_Util Embedded_Vector Argparse_Safety Thread_Pool Thread_Local Log_Sinks Console
    Signal_Manager Cancel_Context Dynamic_Library Startup
begin

text \<open>
  Verification of the Fusion core library, the C++ sources under \<^verbatim>\<open>src/libraries/core/source\<close>. File names
  below are relative to that directory; headers are under \<^verbatim>\<open>public/Fusion\<close> or \<^verbatim>\<open>private/Fusion/Internal\<close>.

  \<^bold>\<open>The program.\<close> A base library for servers and tools: text and bytes at the bottom (ASCII and string
  functions, endianness, hexadecimal values, UUIDs, memory streams, ring buffers, a vector with embedded storage),
  hash functions and random generators on top of them, then the services a program is built from
  (errors and results, paths, environment, command line, logging, console, signals, threads, cancellation, dynamic libraries, start-up) and the network layer: addresses, the \<^verbatim>\<open>Network\<close> interface over the
  system calls, and the socket services that poll sockets with \<^verbatim>\<open>select\<close> or \<^verbatim>\<open>epoll\<close>.

  \<^bold>\<open>Conventions.\<close> \<open>Fusion_Prelude\<close> fixes the machine types (\<open>u16\<close>, \<open>u32\<close>, \<open>u64\<close> are words that wrap), strings as
  lists of bytes, and two kinds of failure. A value \<open>Inl f\<close> of type \<open>exec\<close> is a fault: a failed assertion, a read or write outside
  memory, an undefined signed overflow, an exception of the standard library. A value \<open>Inl e\<close> of type \<open>result\<close> is the
  \<^verbatim>\<open>Failure\<close> that the function returns. The model is the POSIX (Linux) build on a 64 bit machine with assertions enabled.
  A buffer is the list of its cells, so that a write past its end is a fault rather than an assumption; objects that the
  code shares by pointer live in a store and are named by their index.

  \<^bold>\<open>Parameters.\<close> What the sources call and do not define is an argument: the constants of the system headers
  (record \<open>header\<close>, instantiated by \<open>linux_header\<close>), the system calls (records \<open>kernel\<close> and \<open>epoll\<close> over a state
  of the operating system), \<^verbatim>\<open>inet_pton\<close> and \<^verbatim>\<open>inet_ntop\<close>, the formatting library's decimal printing, the source of secure bytes,
  \<^verbatim>\<open>std::sort\<close> where its order is not fixed, the file system as paths see it, \<^verbatim>\<open>strerror_r\<close>, \<^verbatim>\<open>localtime\<close>, the JSON writer, the
  growth of \<^verbatim>\<open>std::string\<close>, the sinks, tasks and signal handlers of the client, OpenSSL and cURL. Theorems name what they rely on as a locale or a
  hypothesis; the simulated kernel of \<open>Standard_Network\<close> and its relatives serve only to show that these can hold.

  \<^bold>\<open>Theories.\<close>
  \<^item> \<open>Ascii\<close>, \<open>String_Util\<close>, \<open>Endian\<close>, \<open>Hex_Value\<close>, \<open>Uuid\<close>: \<^verbatim>\<open>Ascii.cpp\<close>, \<^verbatim>\<open>StringUtil.cpp\<close>, \<^verbatim>\<open>Endian.h\<close>, \<^verbatim>\<open>Hex.cpp\<close>, \<^verbatim>\<open>Uuid.cpp\<close>.
    Printing and parsing are inverse, the number parsers compute the decimal value up to the bounds at which they overflow.
  \<^item> \<open>Md_Hash\<close>, \<open>Sha256\<close>, \<open>Sha1\<close>, \<open>Md5\<close>, \<open>Hmac\<close>, \<open>Fnv\<close>: \<^verbatim>\<open>Hash.h\<close>, \<^verbatim>\<open>Impl/Hash.h\<close>, \<^verbatim>\<open>SHA256.cpp\<close>, \<^verbatim>\<open>SHA1.cpp\<close>, \<^verbatim>\<open>MD5.cpp\<close>, \<^verbatim>\<open>HMAC.cpp\<close>. The
    buffering state machine refines the hash of the whole message, each unrolled compression equals the one of the standard,
    and HMAC is the construction of RFC 2104.
  \<^item> \<open>Memory_Stream\<close>, \<open>Ring_Buffer\<close>, \<open>Memory_Util\<close>, \<open>Embedded_Vector\<close>: \<^verbatim>\<open>Memory.cpp\<close>, \<^verbatim>\<open>Memory.h\<close>, \<^verbatim>\<open>MemoryUtil.h\<close>, \<^verbatim>\<open>Vector.h\<close>, \<^verbatim>\<open>Array.h\<close>. What is
    written is read back, the ring buffer is a bounded queue, the vector is a list with the limits of its arithmetic.
  \<^item> \<open>Random_Gen\<close>: \<^verbatim>\<open>Random.cpp\<close>. Ranges hold and the xorshift states never become zero.
  \<^item> \<open>Environment\<close>, \<open>Path_Normalize\<close>, \<open>Path_Util\<close>: \<^verbatim>\<open>Environment.cpp\<close>, \<^verbatim>\<open>PathUtil.cpp\<close>. The in-place normalization equals the
    resolution of the segments on a stack; where it does not return is characterized.
  \<^item> \<open>Argument_Convert\<close>, \<open>Argparse\<close>, \<open>Argparse_Safety\<close>: \<^verbatim>\<open>Argparse.cpp\<close>, \<^verbatim>\<open>Impl/Argparse.h\<close>. Parsing keeps every variable in its type and
    leaves the configuration alone; what success and failure mean.
  \<^item> \<open>Error_Result\<close>: \<^verbatim>\<open>Error.h\<close>, \<^verbatim>\<open>Error.cpp\<close>, \<^verbatim>\<open>platforms/posix/Error.cpp\<close>, \<^verbatim>\<open>Result.h\<close>. The classes of \<^verbatim>\<open>errno\<close>, the texts built in a fixed
    buffer, the contexts of a failure, and the contract of a result (locale \<open>fallible\<close>).
  \<^item> \<open>Thread_Pool\<close>, \<open>Thread_Local\<close>: \<^verbatim>\<open>Thread.cpp\<close>, \<^verbatim>\<open>Thread.h\<close>, \<^verbatim>\<open>Impl/Thread.h\<close>, \<^verbatim>\<open>platforms/posix/Thread.cpp\<close>. The pool is a machine
    whose steps are the locked sections of its threads, of its clients and of the destructor: each task is completed exactly once, under every
    schedule the pool comes to rest. Names and call stacks of threads.
  \<^item> \<open>Logging\<close>, \<open>Log_Sinks\<close>, \<open>Console\<close>: \<^verbatim>\<open>Logging.cpp\<close>, \<^verbatim>\<open>Logging.h\<close>, \<^verbatim>\<open>Impl/Logging.h\<close>, \<^verbatim>\<open>Console.cpp\<close>, \<^verbatim>\<open>platforms/posix/Console.cpp\<close>.
    Which sinks see a record and what they see, what a queued sink drops, how the logging system starts and stops, and how
    lines of the console are built in a string whose growth is a parameter.
  \<^item> \<open>Signal_Manager\<close>, \<open>Cancel_Context\<close>, \<open>Dynamic_Library\<close>: \<^verbatim>\<open>Signals.cpp\<close>, \<^verbatim>\<open>Context.cpp\<close>, \<^verbatim>\<open>Library.cpp\<close> with their headers and platform
    files. Handlers are called once and each signal is installed once under every interleaving; cancellation reaches all handles of a state
    and is final; the dynamic linker holds one reference for each object that owns a handle.
  \<^item> \<open>Startup\<close>: \<^verbatim>\<open>Main.h\<close>, \<^verbatim>\<open>Main.cpp\<close>, \<^verbatim>\<open>Global.cpp\<close>, \<^verbatim>\<open>Sanitizers.cpp\<close>, \<^verbatim>\<open>Json.cpp\<close>. What a program gets from its command line, the order of
    initialisation and clean-up, the environment of the sanitizers, the layout of printed documents.
  \<^item> \<open>Network_Types\<close>, \<open>Network_Flags\<close>, \<open>Inet_Address\<close>, \<open>Socket_Address\<close>, \<open>Socket_Options\<close>: the enumerations, flag sets, addresses and options of
    \<^verbatim>\<open>Network.h\<close> and \<^verbatim>\<open>Network.cpp\<close>, with their translations to the platform and back.
  \<^item> \<open>Standard_Network\<close>, \<open>Socket_Pair\<close>: \<^verbatim>\<open>platforms/posix/StandardNetwork.cpp\<close> and the socket pair of \<^verbatim>\<open>Network.cpp\<close>, over the
    locale \<open>network_contract\<close>: which descriptors are open after each operation, and that draining the pair ends.
  \<^item> \<open>Socket_Service\<close>, \<open>Select_Service\<close>, \<open>Select_Machine\<close>, \<open>EPoll_Service\<close>: \<^verbatim>\<open>SelectSocketService.cpp\<close> and
    \<^verbatim>\<open>platforms/linux/EPollSocketService.cpp\<close> as implementations of one registration contract (locale \<open>interest_service\<close>), and the
    interleavings of a poller with the other threads.

  \<^bold>\<open>Bounds and loops.\<close> Loops are structural recursion or \<open>fun\<close> with a measure. \<^verbatim>\<open>PathUtil::Normalize\<close>, which can call itself
  forever, is a \<open>partial_function\<close> whose value \<open>None\<close> is proved to mean divergence; the loop that drains a socket pair is
  proved to return from the number of bytes the kernel holds. Sizes are \<open>nat\<close> below \<open>2 ^ 64\<close>, and word arithmetic is kept where the code relies on
  its width.

  \<^bold>\<open>Not modelled.\<close> The third-party XXHASH; floating point (\<^verbatim>\<open>strtod\<close>, random doubles); moves and constructors of non-trivial
  objects in raw memory; \<^verbatim>\<open>ThreadSafe\<close>, which is a lock around a call; the detection of a debugger (\<^verbatim>\<open>platforms/linux/Debug.cpp\<close>), which reads
  \<^verbatim>\<open>/proc\<close>; the conversions of \<^verbatim>\<open>Unicode.cpp\<close>, which are those of the C library under the locale of the process; the Windows and Apple platform code, which implements the same interfaces; test code, examples and
  the vendored libraries with their configuration headers.
\<close>

section \<open>Properties across components\<close>

lemma Select_Start_success:
  assumes "Select_Start n s = Inr (Inr u, s')"
  obtains p w where "SocketPair_Start n False (m_pipe s) (world s) = Inr (Inr (), p, w)"
    and "s' = s\<lparr>m_pipe := p, world := w, m_started := True, m_shutdown := False\<rparr>"
  using assms
  by (auto simp: Select_Start_def and_then_Inr_iff split_sum_ex Let_def split: if_splits)



end
